(* ===== verification/Prelude.thy ===== *)
theory Prelude
  imports Main "HOL-Library.AList" "HOL-Library.Sublist" "HOL-Library.Char_ord"
    "HOL-Library.List_Lexorder"
begin

text \<open>
  Shared material of the development: the collections that drive the component proofs
  (\<open>db_defs\<close> for the storage operations, \<open>cwmp_defs\<close> for the session and server
  operations), the bounded channel of Go (\<open>chan_send\<close>), and generic lemmas on lists,
  association lists (tables with a primary key) and partial sums of lengths.
\<close>

named_theorems db_defs \<open>definitions of the storage operations\<close>
named_theorems cwmp_defs \<open>definitions of the session and server operations\<close>

type_synonym bytes = string
type_synonym ('k, 'v) tbl = "('k \<times> 'v) list"

text \<open>
  A table with a primary key is an association list with distinct keys. An upsert replaces
  the row in place or appends a new one.
\<close>

abbreviation keyed :: "('k, 'v) tbl \<Rightarrow> bool" where
  "keyed t \<equiv> distinct (map fst t)"

definition tbl_upsert :: "'k \<Rightarrow> 'v \<Rightarrow> ('v \<Rightarrow> 'v) \<Rightarrow> ('k, 'v) tbl \<Rightarrow> ('k, 'v) tbl" where
  "tbl_upsert k fresh upd t =
     AList.update k (case map_of t k of None \<Rightarrow> fresh | Some r \<Rightarrow> upd r) t"

text \<open>\<^verbatim>\<open>UPDATE ... WHERE key = k\<close>.\<close>

definition tbl_update_where :: "'k \<Rightarrow> ('v \<Rightarrow> 'v) \<Rightarrow> ('k, 'v) tbl \<Rightarrow> ('k, 'v) tbl" where
  "tbl_update_where k f t = map (\<lambda>(k', r). (k', if k' = k then f r else r)) t"

text \<open>A buffered Go channel of capacity \<open>cap\<close> and the non-blocking send of a
  \<^verbatim>\<open>select\<close> with a \<^verbatim>\<open>default\<close> case: a full channel drops the value.\<close>

definition chan_send :: "nat \<Rightarrow> 'a \<Rightarrow> 'a list \<Rightarrow> 'a list" where
  "chan_send cap x xs = (if length xs < cap then xs @ [x] else xs)"

lemma map_of_tbl_upsert [simp]:
  "map_of (tbl_upsert k fresh upd t) k' =
     (if k' = k then Some (case map_of t k of None \<Rightarrow> fresh | Some r \<Rightarrow> upd r) else map_of t k')"
  by (simp add: tbl_upsert_def update_conv')

lemma keyed_tbl_upsert [simp, intro]: "keyed t \<Longrightarrow> keyed (tbl_upsert k fresh upd t)"
  by (simp add: tbl_upsert_def distinct_update)

lemma keys_tbl_upsert [simp]: "fst ` set (tbl_upsert k fresh upd t) = insert k (fst ` set t)"
proof -
  have "fst ` set (tbl_upsert k fresh upd t) = dom (map_of (tbl_upsert k fresh upd t))"
    by (simp add: dom_map_of_conv_image_fst)
  also have "\<dots> = insert k (dom (map_of t))"
    by (auto simp: dom_def)
  finally show ?thesis by (simp add: dom_map_of_conv_image_fst)
qed

lemma map_of_tbl_update_where [simp]:
  "map_of (tbl_update_where k f t) k' = map_option (if k' = k then f else id) (map_of t k')"
  by (induction t) (auto simp: tbl_update_where_def)

lemma keyed_tbl_update_where [simp]: "keyed (tbl_update_where k f t) = keyed t"
  by (simp add: tbl_update_where_def comp_def case_prod_beta)

lemma find_append:
  "find P (xs @ ys) = (case find P xs of None \<Rightarrow> find P ys | Some x \<Rightarrow> Some x)"
  by (induction xs) auto

lemma map_of_alist_update [simp]:
  "map_of (AList.update k v t) k' = (if k' = k then Some v else map_of t k')"
  by (simp add: update_conv')

lemma map_of_alist_delete [simp]:
  "map_of (AList.delete k t) k' = (if k' = k then None else map_of t k')"
  by (simp add: delete_conv')

lemma keyed_update [simp, intro]: "keyed t \<Longrightarrow> keyed (AList.update k v t)"
  by (rule distinct_update)

lemma keyed_delete [simp, intro]: "keyed t \<Longrightarrow> keyed (AList.delete k t)"
  by (rule distinct_delete)

lemma keyed_filter [simp, intro]: "keyed t \<Longrightarrow> keyed (filter P t)"
  by (induction t) auto

lemma map_of_filter_keyed:
  "keyed t \<Longrightarrow> map_of (filter (\<lambda>(k, v). P k v) t) k =
     (case map_of t k of None \<Rightarrow> None | Some v \<Rightarrow> if P k v then Some v else None)"
proof (induction t)
  case (Cons a t)
  then show ?case
    by (cases a) (auto split: option.splits simp: map_of_eq_None_iff image_iff)
qed simp

lemma keyed_imp_distinct: "keyed t \<Longrightarrow> distinct t"
  by (simp add: distinct_map)

lemma length_chan_send: "length xs \<le> cap \<Longrightarrow> length (chan_send cap x xs) \<le> cap"
  by (simp add: chan_send_def)

lemma set_chan_send: "set (chan_send cap x xs) \<subseteq> insert x (set xs)"
  by (auto simp: chan_send_def)

lemma chan_send_prefix: "\<exists>ys. chan_send cap x xs = xs @ ys"
  by (auto simp: chan_send_def)

lemma sum_list_drop_le: "sum_list (drop n (map f xs)) \<le> sum_list (map f xs)" for f :: "'a \<Rightarrow> nat"
  by (metis append_take_drop_id le_add2 sum_list_append)

lemma take_drop_sum:
  "sum_list (map f (take n xs)) + sum_list (map f (drop n xs)) = sum_list (map f xs)"
  for f :: "'a \<Rightarrow> int"
  by (metis append_take_drop_id map_append sum_list_append)

lemma filter_eq_drop:
  assumes "\<forall>i<n. i < length xs \<longrightarrow> \<not> P (xs ! i)" and "\<forall>i<length xs. n \<le> i \<longrightarrow> P (xs ! i)"
  shows "filter P xs = drop n xs"
proof -
  have "filter P (take n xs) = []"
    using assms(1) by (auto simp: filter_empty_conv in_set_conv_nth)
  moreover have "filter P (drop n xs) = drop n xs"
    using assms(2) by (auto simp: filter_id_conv in_set_conv_nth)
  ultimately show ?thesis
    by (metis append_Nil append_take_drop_id filter_append)
qed

end
