(* ===== verification/GoStrings.thy ===== *)
theory GoStrings
  imports Prelude
begin

text \<open>
  The parts of Go's \<^verbatim>\<open>strings\<close>, \<^verbatim>\<open>path/filepath\<close>, \<^verbatim>\<open>strconv\<close> and \<^verbatim>\<open>fmt\<close> the
  agent uses, on byte strings. \<open>HasPrefix s p\<close> is the library's \<open>prefix p s\<close>. Case
  mapping and white space are those of the ASCII range; bytes from 128 on are left as
  they are. Separators are single bytes, as at every call site of the agent.
\<close>

abbreviation HasPrefix :: "string \<Rightarrow> string \<Rightarrow> bool" where
  "HasPrefix s p \<equiv> prefix p s"

abbreviation HasSuffix :: "string \<Rightarrow> string \<Rightarrow> bool" where
  "HasSuffix s p \<equiv> suffix p s"

definition TrimPrefix :: "string \<Rightarrow> string \<Rightarrow> string" where
  "TrimPrefix s p = (if HasPrefix s p then drop (length p) s else s)"

definition TrimSuffix :: "string \<Rightarrow> string \<Rightarrow> string" where
  "TrimSuffix s p = (if HasSuffix s p then take (length s - length p) s else s)"

fun Contains :: "string \<Rightarrow> string \<Rightarrow> bool" where
  "Contains [] sub = (sub = [])"
| "Contains (c # s) sub = (prefix sub (c # s) \<or> Contains s sub)"

text \<open>\<open>Cut s sep\<close> around the first \<open>sep\<close>: before, after, found.\<close>

definition Cut :: "string \<Rightarrow> char \<Rightarrow> string \<times> string \<times> bool" where
  "Cut s sep = (let b = takeWhile (\<lambda>c. c \<noteq> sep) s in
     if length b < length s then (b, drop (Suc (length b)) s, True) else (s, [], False))"

text \<open>The part after the last \<open>sep\<close>; the whole string when there is none.\<close>

definition after_last :: "char \<Rightarrow> string \<Rightarrow> string" where
  "after_last sep s = rev (takeWhile (\<lambda>c. c \<noteq> sep) (rev s))"

text \<open>\<open>SplitN s sep n\<close> for \<open>n > 0\<close>, and \<open>Split\<close>, which has no limit.\<close>

fun split_acc :: "char \<Rightarrow> string \<Rightarrow> string \<Rightarrow> string list" where
  "split_acc sep acc [] = [rev acc]"
| "split_acc sep acc (c # s) =
     (if c = sep then rev acc # split_acc sep [] s else split_acc sep (c # acc) s)"

definition Split :: "string \<Rightarrow> char \<Rightarrow> string list" where
  "Split s sep = split_acc sep [] s"

fun SplitN :: "nat \<Rightarrow> string \<Rightarrow> char \<Rightarrow> string list" where
  "SplitN 0 s sep = []"
| "SplitN (Suc 0) s sep = [s]"
| "SplitN (Suc n) s sep =
     (case Cut s sep of (b, a, found) \<Rightarrow> if found then b # SplitN n a sep else [s])"

fun Join :: "string list \<Rightarrow> string \<Rightarrow> string" where
  "Join [] sep = []"
| "Join [x] sep = x"
| "Join (x # xs) sep = x @ sep @ Join xs sep"

text \<open>\<open>ReplaceAll\<close> of one byte.\<close>

definition ReplaceAll1 :: "string \<Rightarrow> char \<Rightarrow> string \<Rightarrow> string" where
  "ReplaceAll1 s old new = concat (map (\<lambda>c. if c = old then new else [c]) s)"

definition lower_char :: "char \<Rightarrow> char" where
  "lower_char c = (let n = of_char c :: nat in
     if 65 \<le> n \<and> n \<le> 90 then char_of (n + 32) else c)"

definition ToLower :: "string \<Rightarrow> string" where
  "ToLower s = map lower_char s"

definition EqualFold :: "string \<Rightarrow> string \<Rightarrow> bool" where
  "EqualFold s t = (ToLower s = ToLower t)"

definition is_space :: "char \<Rightarrow> bool" where
  "is_space c = (let n = of_char c :: nat in (9 \<le> n \<and> n \<le> 13) \<or> n = 32)"

definition TrimSpace :: "string \<Rightarrow> string" where
  "TrimSpace s = rev (dropWhile is_space (rev (dropWhile is_space s)))"

definition TrimRight :: "string \<Rightarrow> char \<Rightarrow> string" where
  "TrimRight s c = rev (dropWhile (\<lambda>x. x = c) (rev s))"

text \<open>Decimal rendering (\<^verbatim>\<open>%d\<close>).\<close>

definition digit_char :: "nat \<Rightarrow> char" where
  "digit_char d = char_of (48 + d)"

fun show_nat :: "nat \<Rightarrow> string" where
  "show_nat n = (if n < 10 then [digit_char n] else show_nat (n div 10) @ [digit_char (n mod 10)])"

declare show_nat.simps [simp del]

lemma show_nat_nonempty: "show_nat n \<noteq> []"
  by (subst show_nat.simps) simp

lemma digit_char_inject: "m < 10 \<Longrightarrow> n < 10 \<Longrightarrow> digit_char m = digit_char n \<Longrightarrow> m = n"
  by (simp add: digit_char_def)

lemma show_nat_inject: "show_nat m = show_nat n \<Longrightarrow> m = n"
proof (induction m arbitrary: n rule: less_induct)
  case (less m)
  show ?case
  proof (cases "m < 10 \<or> n < 10")
    case True
    then show ?thesis using less.prems show_nat_nonempty [of "m div 10"] show_nat_nonempty [of "n div 10"]
      by (auto simp: show_nat.simps [of m] show_nat.simps [of n] digit_char_inject split: if_splits)
  next
    case False
    then have "show_nat (m div 10) = show_nat (n div 10)" "digit_char (m mod 10) = digit_char (n mod 10)"
      using less.prems by (simp_all add: show_nat.simps [of m] show_nat.simps [of n])
    then have "m div 10 = n div 10" "m mod 10 = n mod 10"
      using less.IH [of "m div 10" "n div 10"] False digit_char_inject [of "m mod 10" "n mod 10"] by simp_all
    then show ?thesis by (metis div_mult_mod_eq)
  qed
qed

definition show_int :: "int \<Rightarrow> string" where
  "show_int i = (if i < 0 then ''-'' @ show_nat (nat (- i)) else show_nat (nat i))"

text \<open>
  \<^verbatim>\<open>filepath.Clean\<close> on Unix: a pass over the slash-separated elements with the elements
  kept so far as a stack, then \<^verbatim>\<open>filepath.Join\<close> of two elements and
  \<^verbatim>\<open>filepath.Base\<close>.
\<close>

fun clean_elems :: "bool \<Rightarrow> string list \<Rightarrow> string list \<Rightarrow> string list" where
  "clean_elems rooted stack [] = rev stack"
| "clean_elems rooted stack (e # es) =
     (if e = '''' \<or> e = ''.'' then clean_elems rooted stack es
      else if e = ''..'' then
        (case stack of
           [] \<Rightarrow> clean_elems rooted (if rooted then [] else [''..'']) es
         | t # ts \<Rightarrow> if t = ''..'' then clean_elems rooted (''..'' # stack) es
                    else clean_elems rooted ts es)
      else clean_elems rooted (e # stack) es)"

definition Clean :: "string \<Rightarrow> string" where
  "Clean p = (if p = '''' then ''.'' else
     let rooted = HasPrefix p ''/'';
         body = Join (clean_elems rooted [] (Split p (CHR ''/''))) ''/''
     in if rooted then ''/'' @ body else if body = '''' then ''.'' else body)"

definition path_join :: "string \<Rightarrow> string \<Rightarrow> string" where
  "path_join dir name =
     (if dir = '''' then (if name = '''' then '''' else Clean name)
      else if name = '''' then Clean dir else Clean (dir @ ''/'' @ name))"

definition Base :: "string \<Rightarrow> string" where
  "Base p = (if p = '''' then ''.'' else
     let q = TrimRight p (CHR ''/''); b = after_last (CHR ''/'') q
     in if b = '''' then ''/'' else b)"

text \<open>The verb \<^verbatim>\<open>%q\<close>; bytes from 128 on are left as they are.\<close>

definition lower_hex :: "nat \<Rightarrow> char" where
  "lower_hex n = ''0123456789abcdef'' ! n"

definition quote_char :: "char \<Rightarrow> string" where
  "quote_char c =
     (let n = of_char c :: nat in
      if n = 34 \<or> n = 92 then [char_of (92 :: nat), c]
      else if 7 \<le> n \<and> n \<le> 13 then [char_of (92 :: nat), ''abtnvfr'' ! (n - 7)]
      else if n < 32 \<or> n = 127 then [char_of (92 :: nat), CHR ''x'', lower_hex (n div 16), lower_hex (n mod 16)]
      else [c])"

definition Quote :: "string \<Rightarrow> string" where
  "Quote s = [char_of (34 :: nat)] @ concat (map quote_char s) @ [char_of (34 :: nat)]"

subsection \<open>Prefixes, suffixes and cuts\<close>

lemma TrimSuffix_append [simp]: "TrimSuffix (s @ p) p = s"
  by (simp add: TrimSuffix_def suffix_def)

lemma TrimPrefix_append [simp]: "TrimPrefix (p @ s) p = s"
  by (simp add: TrimPrefix_def)

lemma takeWhile_neq_append: "sep \<notin> set b \<Longrightarrow> takeWhile (\<lambda>c. c \<noteq> sep) (b @ sep # a) = b"
  by (induction b) auto

lemma takeWhile_neq_id: "sep \<notin> set s \<Longrightarrow> takeWhile (\<lambda>c. c \<noteq> sep) s = s"
  by (induction s) auto

lemma Cut_append: "sep \<notin> set b \<Longrightarrow> Cut (b @ sep # a) sep = (b, a, True)"
  by (simp add: Cut_def takeWhile_neq_append)

lemma Cut_absent: "sep \<notin> set s \<Longrightarrow> Cut s sep = (s, [], False)"
  by (simp add: Cut_def takeWhile_neq_id Let_def)

lemma after_last_append: "sep \<notin> set b \<Longrightarrow> after_last sep (a @ sep # b) = b"
  by (simp add: after_last_def takeWhile_neq_append)

lemma after_last_id: "sep \<notin> set s \<Longrightarrow> after_last sep s = s"
  by (simp add: after_last_def takeWhile_neq_id)

lemma Contains_append: "Contains (a @ sub @ b) sub"
proof (induction a)
  case Nil
  have "prefix sub (sub @ b)" by simp
  then show ?case by (cases "sub @ b") auto
qed simp

subsection \<open>Splitting\<close>

lemma split_acc_absent: "sep \<notin> set s \<Longrightarrow> split_acc sep acc s = [rev acc @ s]"
  by (induction s arbitrary: acc) auto

lemma split_acc_append:
  "sep \<notin> set a \<Longrightarrow> split_acc sep acc (a @ sep # b) = (rev acc @ a) # split_acc sep [] b"
  by (induction a arbitrary: acc) auto

lemma Split_absent: "sep \<notin> set s \<Longrightarrow> Split s sep = [s]"
  by (simp add: Split_def split_acc_absent)

lemma Split_append: "sep \<notin> set a \<Longrightarrow> Split (a @ sep # b) sep = a # Split b sep"
  by (simp add: Split_def split_acc_append)

subsection \<open>Single-byte replacement\<close>

lemma ReplaceAll1_Nil [simp]: "ReplaceAll1 [] old new = []"
  by (simp add: ReplaceAll1_def)

lemma ReplaceAll1_Cons [simp]:
  "ReplaceAll1 (c # s) old new = (if c = old then new else [c]) @ ReplaceAll1 s old new"
  by (simp add: ReplaceAll1_def)

lemma ReplaceAll1_absent: "old \<notin> set s \<Longrightarrow> ReplaceAll1 s old new = s"
  by (induction s) auto

lemma ReplaceAll1_removes: "old \<notin> set new \<Longrightarrow> old \<notin> set (ReplaceAll1 s old new)"
  by (induction s) auto

end
