(* ===== verification/DeviceId.thy ===== *)
theory DeviceId
  imports GoStrings
begin

text \<open>
  The canonical device id (\<^verbatim>\<open>src/goagent/internal/cwmp/deviceid.go\<close>): the one key under
  which sessions, cached parameters, telemetry and snapshots of a device are filed.
  Shown here: the id always splits into its three encoded components; it identifies the
  device (no two identities share an id) as long as no component carries the literal text
  \<^verbatim>\<open>%2D\<close>; and a prefix test with the delimiter appended matches the whole OUI only.
\<close>

definition enc_hyphen :: "string \<Rightarrow> string" where
  "enc_hyphen s = ReplaceAll1 s (CHR ''-'') ''%2D''"

definition CanonicalID :: "string \<Rightarrow> string \<Rightarrow> string \<Rightarrow> string" where
  "CanonicalID oui productClass serial =
     enc_hyphen oui @ ''-'' @ enc_hyphen productClass @ ''-'' @ enc_hyphen serial"

text \<open>The decoding the cloud side would apply, used to state that nothing is lost.\<close>

function dec_hyphen :: "string \<Rightarrow> string" where
  "dec_hyphen [] = []"
| "dec_hyphen (c # s) =
     (if prefix ''%2D'' (c # s) then CHR ''-'' # dec_hyphen (drop 2 s) else c # dec_hyphen s)"
  by pat_completeness auto
termination
  by (relation "measure length") auto

lemma enc_hyphen_Nil [simp]: "enc_hyphen [] = []"
  by (simp add: enc_hyphen_def)

lemma enc_hyphen_Cons [simp]:
  "enc_hyphen (c # s) = (if c = CHR ''-'' then ''%2D'' else [c]) @ enc_hyphen s"
  by (simp add: enc_hyphen_def)

lemma enc_hyphen_no_hyphen [simp]: "CHR ''-'' \<notin> set (enc_hyphen s)"
  by (simp add: enc_hyphen_def ReplaceAll1_removes)

lemma enc_hyphen_id: "CHR ''-'' \<notin> set s \<Longrightarrow> enc_hyphen s = s"
  by (simp add: enc_hyphen_def ReplaceAll1_absent)

lemma enc_hyphen_hd: "c \<noteq> CHR ''%'' \<Longrightarrow> enc_hyphen s = c # t \<Longrightarrow> \<exists>s'. s = c # s' \<and> t = enc_hyphen s'"
  by (cases s) (auto split: if_splits)

lemma dec_enc_hyphen: "\<not> Contains s ''%2D'' \<Longrightarrow> dec_hyphen (enc_hyphen s) = s"
proof (induction s)
  case (Cons c s)
  from Cons.prems have np: "\<not> prefix ''%2D'' (c # s)" and nc: "\<not> Contains s ''%2D''"
    by auto
  show ?case
  proof (cases "c = CHR ''-''")
    case True
    with Cons.IH [OF nc] show ?thesis by simp
  next
    case False
    have "\<not> prefix ''%2D'' (c # enc_hyphen s)"
    proof
      assume "prefix ''%2D'' (c # enc_hyphen s)"
      then obtain t where "c = CHR ''%''" and t: "enc_hyphen s = CHR ''2'' # CHR ''D'' # t"
        by (auto simp: prefix_def)
      from enc_hyphen_hd [OF _ t] obtain s1 where s1: "s = CHR ''2'' # s1" "enc_hyphen s1 = CHR ''D'' # t"
        by auto
      from enc_hyphen_hd [OF _ s1(2)] obtain s2 where "s1 = CHR ''D'' # s2" by auto
      with s1 \<open>c = CHR ''%''\<close> np show False by simp
    qed
    with Cons.IH [OF nc] False show ?thesis by simp
  qed
qed simp

lemma CanonicalID_split:
  "Split (CanonicalID oui pc serial) (CHR ''-'') = [enc_hyphen oui, enc_hyphen pc, enc_hyphen serial]"
  by (simp add: CanonicalID_def Split_append Split_absent)

lemma CanonicalID_has_hyphen [simp]: "CHR ''-'' \<in> set (CanonicalID oui pc serial)"
  by (simp add: CanonicalID_def)

lemma CanonicalID_nonempty [simp]: "CanonicalID oui pc serial \<noteq> []"
  by (simp add: CanonicalID_def)

text \<open>C31. Two devices share a canonical id only if they are the same device, when no
  identity component contains the literal text \<^verbatim>\<open>%2D\<close>.\<close>

theorem CanonicalID_injective:
  assumes "CanonicalID o1 p1 s1 = CanonicalID o2 p2 s2"
    and "\<not> Contains o1 ''%2D''" "\<not> Contains p1 ''%2D''" "\<not> Contains s1 ''%2D''"
    and "\<not> Contains o2 ''%2D''" "\<not> Contains p2 ''%2D''" "\<not> Contains s2 ''%2D''"
  shows "o1 = o2 \<and> p1 = p2 \<and> s1 = s2"
proof -
  from assms(1) have "Split (CanonicalID o1 p1 s1) (CHR ''-'') = Split (CanonicalID o2 p2 s2) (CHR ''-'')"
    by simp
  then have "enc_hyphen o1 = enc_hyphen o2" "enc_hyphen p1 = enc_hyphen p2" "enc_hyphen s1 = enc_hyphen s2"
    by (simp_all add: CanonicalID_split)
  with assms(2-) show ?thesis by (metis dec_enc_hyphen)
qed

lemma CanonicalID_prefix_oui:
  assumes "CHR ''-'' \<notin> set f"
  shows "HasPrefix (CanonicalID oui pc serial) (f @ ''-'') \<longleftrightarrow> f = enc_hyphen oui"
proof
  assume "HasPrefix (CanonicalID oui pc serial) (f @ ''-'')"
  then obtain z where z: "CanonicalID oui pc serial = f @ CHR ''-'' # z"
    by (auto simp: prefix_def)
  have "hd (Split (f @ CHR ''-'' # z) (CHR ''-'')) = f"
    using assms by (simp add: Split_append)
  with z CanonicalID_split [of oui pc serial] show "f = enc_hyphen oui" by simp
qed (simp add: CanonicalID_def)

theorem CanonicalID_injective_witness:
  "let a = CanonicalID ''8C1F64'' ''ENB-N03002-B3'' ''2205609999'' in
   a = ''8C1F64-ENB%2DN03002%2DB3-2205609999'' \<and>
   (\<forall>o' p' s'. a = CanonicalID o' p' s' \<and> \<not> Contains o' ''%2D'' \<and> \<not> Contains p' ''%2D''
      \<and> \<not> Contains s' ''%2D'' \<longrightarrow> s' = ''2205609999'')"
proof -
  have "\<not> Contains ''8C1F64'' ''%2D''" "\<not> Contains ''ENB-N03002-B3'' ''%2D''"
    "\<not> Contains ''2205609999'' ''%2D''"
    by simp_all
  then show ?thesis
    using CanonicalID_injective [of "''8C1F64''" "''ENB-N03002-B3''" "''2205609999''"]
    by (auto simp: CanonicalID_def Let_def)
qed

end
