(* ===== verification/CwmpTypes.thy ===== *)
theory CwmpTypes
  imports DeviceId
begin

text \<open>
  The message and task types of the in-agent ACS: the decoded SOAP body
  (\<^verbatim>\<open>src/goagent/internal/cwmp/rpc.go\<close>) and the task, result, device and event types
  (\<^verbatim>\<open>src/goagent/internal/cwmp/store.go\<close>). A pointer member is an \<open>option\<close>; the
  members the ACS emits are the datatype \<open>acs_msg\<close>, the type of what a handler returns
  (\<open>None\<close> is Go's nil: an HTTP 204). A point in time is Unix seconds, Go's zero time is
  \<open>None\<close>.
\<close>

record ValueNode =
  vn_Type :: string
  vn_Text :: string

record ParameterValueStruct =
  pv_Name :: string
  pv_Value :: ValueNode

record ParameterInfoStruct =
  pi_Name :: string
  pi_Writable :: bool

record DeviceIDStruct =
  di_Manufacturer :: string
  di_OUI :: string
  di_ProductClass :: string
  di_SerialNumber :: string

record EventStruct =
  es_EventCode :: string
  es_CommandKey :: string

record Inform =
  inf_DeviceID :: DeviceIDStruct
  inf_Event :: "EventStruct list"
  inf_MaxEnvelopes :: int
  inf_CurrentTime :: string
  inf_RetryCount :: int
  inf_ParameterList :: "ParameterValueStruct list"

record FaultStruct =
  fs_FaultCode :: int
  fs_FaultString :: string

record TransferComplete =
  tc_CommandKey :: string
  tc_FaultStruct :: FaultStruct
  tc_StartTime :: string
  tc_CompleteTime :: string

record AutonomousTransferComplete =
  atc_AnnounceURL :: string
  atc_TransferURL :: string
  atc_IsDownload :: bool
  atc_FileType :: string
  atc_FileSize :: int
  atc_TargetFileName :: string
  atc_FaultStruct :: FaultStruct
  atc_StartTime :: string
  atc_CompleteTime :: string

record CWMPFault =
  cf_FaultCode :: string
  cf_FaultString :: string

record Fault =
  f_FaultCode :: string
  f_FaultString :: string
  f_Detail :: CWMPFault

record Body =
  b_Inform :: "Inform option"
  b_GetRPCMethods :: "unit option"
  b_TransferComplete :: "TransferComplete option"
  b_AutonomousTransferComplete :: "AutonomousTransferComplete option"
  b_Fault :: "Fault option"
  b_GetParameterValuesResponse :: "ParameterValueStruct list option"
  b_SetParameterValuesResponse :: "int option"
  b_GetParameterNamesResponse :: "ParameterInfoStruct list option"
  b_RebootResponse :: "unit option"

record Envelope =
  env_ID :: string
  env_Body :: Body

definition empty_body :: Body where
  "empty_body = \<lparr>b_Inform = None, b_GetRPCMethods = None, b_TransferComplete = None,
     b_AutonomousTransferComplete = None, b_Fault = None, b_GetParameterValuesResponse = None,
     b_SetParameterValuesResponse = None, b_GetParameterNamesResponse = None,
     b_RebootResponse = None\<rparr>"

datatype acs_msg =
    InformResponse int
  | GetRPCMethodsResponse "string list"
  | TransferCompleteResponse
  | AutonomousTransferCompleteResponse
  | GetParameterValues "string list"
  | SetParameterValues "ParameterValueStruct list" string
  | GetParameterNames string bool
  | Reboot string

datatype TaskType = TaskGPV | TaskSPV | TaskGPN | TaskReboot

record Task =
  t_Type :: TaskType
  t_Paths :: "string list"
  t_Writes :: "ParameterValueStruct list"
  t_CmdKey :: string
  t_CommandID :: string

record TaskResult =
  tr_CommandID :: string
  tr_Type :: TaskType
  tr_Params :: "(string, string) tbl"
  tr_Names :: "ParameterInfoStruct list"
  tr_Status :: int
  tr_Err :: string

record DeviceRecord =
  d_DeviceID :: string
  d_IP :: string
  d_Manufacturer :: string
  d_ProductClass :: string
  d_SerialNumber :: string
  d_SWVersion :: string
  d_LastInformAt :: "int option"

record StoredEvent =
  se_DeviceID :: string
  se_Module :: string
  se_EventType :: string
  se_Severity :: string
  se_Message :: string
  se_TS :: int

text \<open>The zero values of Go's composite literals that name only some fields.\<close>

definition zero_Task :: Task where
  "zero_Task = \<lparr>t_Type = TaskGPV, t_Paths = [], t_Writes = [], t_CmdKey = [], t_CommandID = []\<rparr>"

definition zero_TaskResult :: TaskResult where
  "zero_TaskResult = \<lparr>tr_CommandID = [], tr_Type = TaskGPV, tr_Params = [], tr_Names = [],
     tr_Status = 0, tr_Err = []\<rparr>"

end
