(* ===== verification/BufferDb.thy ===== *)
theory BufferDb
  imports CwmpTypes
begin

text \<open>
  The schema of the agent's one SQLite file (\<^verbatim>\<open>init\<close> in
  \<^verbatim>\<open>src/goagent/internal/buffer/sqlite.go\<close>) as a record of tables, the buffer handle, and
  the well-formedness invariant of the file. \<open>outbox\<close> and \<open>cwmp_events\<close> are tables with
  an AUTOINCREMENT id, kept with the last id handed out; the others are tables with a
  primary key. SQLite itself is not part of the repository: which statement of a call
  fails is an argument (\<open>faults\<close>) of every operation, so each theorem holds for every
  pattern of failures; a failed transaction leaves the tables as they were.
\<close>

record FTPStamp =
  st_Size :: int
  st_ModTime :: int

record FTPMark =
  fm_Path :: string
  fm_Stamp :: FTPStamp

record outbox_row =
  ob_id :: int
  ob_kind :: string
  ob_body :: bytes
  ob_created_at :: int

record applied_row =
  ap_status :: string
  ap_result :: bytes
  ap_applied_at :: int

record device_row =
  dr_ip :: string
  dr_manufacturer :: string
  dr_product_class :: string
  dr_serial_number :: string
  dr_sw_version :: string
  dr_last_inform_at :: int
  dr_writability_loaded :: int

record param_row =
  pr_value :: "string option"
  pr_writable :: "int option"
  pr_cached_at :: int

record event_row =
  er_id :: int
  er_device_id :: string
  er_module :: string
  er_event_type :: string
  er_severity :: string
  er_message :: string
  er_ts :: int
  er_uploaded :: int

record ledger_row =
  lr_stamp :: FTPStamp
  lr_ingested_at :: int

record db =
  outbox :: "outbox_row list"
  outbox_seq :: int
  applied :: "(string, applied_row) tbl"
  cwmp_devices :: "(string, device_row) tbl"
  cwmp_params :: "(string \<times> string, param_row) tbl"
  cwmp_events :: "event_row list"
  events_seq :: int
  ftp_ingested :: "(string, ledger_row) tbl"

definition init_db :: db where
  "init_db = \<lparr>outbox = [], outbox_seq = 0, applied = [], cwmp_devices = [], cwmp_params = [],
     cwmp_events = [], events_seq = 0, ftp_ingested = []\<rparr>"

record Buffer =
  buf_db :: db
  buf_path :: string
  maxBytes :: int

text \<open>The statements of a transaction that can fail, and how an operation fails.\<close>

datatype stmt =
    BeginTx | SumLengths | WalkRows | EvictDelete | InsertRow | PrepareStmt
  | MarkStmt nat | CommitTx | SelectRows | DeleteRow int | UpdateRow int | PointQuery
  | WriteStmt nat

datatype db_error = ErrPayloadTooLarge int int | SqlError stmt

type_synonym faults = "stmt \<Rightarrow> bool"

abbreviation no_faults :: faults where
  "no_faults \<equiv> (\<lambda>_. False)"

text \<open>
  \<open>Open\<close>: the default path, the directory, the handle and the schema. \<open>file\<close> is what is
  on disk; \<open>CREATE TABLE IF NOT EXISTS\<close> leaves the tables of an existing file alone. A
  \<^verbatim>\<open>:memory:\<close> database starts empty.
\<close>

datatype open_error = MkdirFailed | OpenFailed | InitFailed

definition Open :: "(open_error \<Rightarrow> bool) \<Rightarrow> db option \<Rightarrow> string \<Rightarrow> int \<Rightarrow> open_error + Buffer" where
  "Open fails file path cap =
     (let p = (if path = '''' then ''/var/lib/cloudlynet-agent/buffer.sqlite'' else path) in
      if p \<noteq> '':memory:'' \<and> fails MkdirFailed then Inl MkdirFailed
      else if fails OpenFailed then Inl OpenFailed
      else if fails InitFailed then Inl InitFailed
      else Inr \<lparr>buf_db = (if p = '':memory:'' then init_db
                         else case file of None \<Rightarrow> init_db | Some d \<Rightarrow> d),
                buf_path = p, maxBytes = cap\<rparr>)"

definition MaxBytes :: "Buffer \<Rightarrow> int" where
  "MaxBytes b = maxBytes b"

text \<open>Well-formedness: ids are positive, ascending and never ahead of the sequence; keys
  are unique.\<close>

definition ids_ok :: "int list \<Rightarrow> int \<Rightarrow> bool" where
  "ids_ok ids seq \<longleftrightarrow> sorted_wrt (<) ids \<and> (\<forall>i\<in>set ids. 0 < i \<and> i \<le> seq) \<and> 0 \<le> seq"

definition db_ok :: "db \<Rightarrow> bool" where
  "db_ok d \<longleftrightarrow> ids_ok (map ob_id (outbox d)) (outbox_seq d)
     \<and> ids_ok (map er_id (cwmp_events d)) (events_seq d)
     \<and> keyed (applied d) \<and> keyed (cwmp_devices d) \<and> keyed (cwmp_params d) \<and> keyed (ftp_ingested d)"

lemma db_ok_init [simp]: "db_ok init_db"
  by (simp add: db_ok_def init_db_def ids_ok_def)

lemma ids_ok_Nil [simp]: "0 \<le> s \<Longrightarrow> ids_ok [] s"
  by (simp add: ids_ok_def)

lemma ids_ok_append: "ids_ok ids s \<Longrightarrow> ids_ok (ids @ [s + 1]) (s + 1)"
  by (fastforce simp: ids_ok_def sorted_wrt_append)

lemma ids_ok_filter: "ids_ok (map f xs) s \<Longrightarrow> ids_ok (map f (filter P xs)) s"
  by (auto simp: ids_ok_def sorted_wrt_map sorted_wrt_filter)

lemma ids_ok_drop: "ids_ok ids s \<Longrightarrow> ids_ok (drop n ids) s"
  by (auto simp: ids_ok_def sorted_wrt_drop dest: in_set_dropD)

lemma ids_ok_sort: "ids_ok (map f xs) s \<Longrightarrow> sort_key f xs = xs"
  by (simp add: ids_ok_def sort_key_id_if_sorted strict_sorted_iff)

lemma ids_ok_mono_nth:
  assumes "ids_ok (map f xs) s" "i < length xs" "j < length xs"
  shows "f (xs ! i) \<le> f (xs ! j) \<longleftrightarrow> i \<le> j"
proof -
  have lt: "f (xs ! a) < f (xs ! b)" if "a < b" "b < length xs" for a b
    using sorted_wrt_nth_less [of "(<)" "map f xs" a b] assms(1) that by (simp add: ids_ok_def)
  from lt [of i j] lt [of j i] assms(2,3) show ?thesis
    by (cases i j rule: linorder_cases) auto
qed

lemma db_ok_outbox: "db_ok d \<Longrightarrow> ids_ok (map ob_id (outbox d)) (outbox_seq d)"
  by (simp add: db_ok_def)

lemma Open_ok:
  assumes "\<forall>d. file = Some d \<longrightarrow> db_ok d" and "Open fails file path cap = Inr b"
  shows "db_ok (buf_db b) \<and> maxBytes b = cap \<and> buf_path b \<noteq> ''''"
  using assms by (auto simp: Open_def Let_def split: if_splits option.splits)

end
