(* ===== verification/Ledger.thy ===== *)
theory Ledger
  imports BufferDb
begin

text \<open>
  The FTP ingest ledger (\<^verbatim>\<open>src/goagent/internal/buffer/ftp_ledger.go\<close>): which uploads are
  done with, keyed by path. \<open>upsertMarks\<close> is the loop of prepared statements inside a
  transaction, \<open>inChunks\<close> runs a write over index ranges of \<open>ledgerChunk\<close> rows with one
  transaction each, so a failure keeps the chunks before it. Shown here: a chunked write
  that succeeds is the same as one unbounded write, a failed one has applied exactly a
  whole number of chunks, and what the ledger then says of each path.
\<close>

definition ledgerChunk :: nat where
  "ledgerChunk = 5000"

definition mark_row :: "FTPMark \<Rightarrow> int \<Rightarrow> (string, ledger_row) tbl \<Rightarrow> (string, ledger_row) tbl" where
  "mark_row m now t =
     tbl_upsert (fm_Path m) \<lparr>lr_stamp = fm_Stamp m, lr_ingested_at = now\<rparr>
       (\<lambda>r. r\<lparr>lr_stamp := fm_Stamp m, lr_ingested_at := now\<rparr>) t"

fun upsert_loop :: "faults \<Rightarrow> nat \<Rightarrow> FTPMark list \<Rightarrow> int \<Rightarrow> db \<Rightarrow> stmt + db" where
  "upsert_loop flt i [] now d = Inr d"
| "upsert_loop flt i (m # ms) now d =
     (if flt (MarkStmt i) then Inl (MarkStmt i)
      else upsert_loop flt (Suc i) ms now (d\<lparr>ftp_ingested := mark_row m now (ftp_ingested d)\<rparr>))"

definition upsertMarks :: "faults \<Rightarrow> FTPMark list \<Rightarrow> nat \<Rightarrow> nat \<Rightarrow> int \<Rightarrow> db \<Rightarrow> stmt + db" where
  "upsertMarks flt marks start end now d =
     (if end \<le> start then Inr d
      else if flt PrepareStmt then Inl PrepareStmt
      else upsert_loop flt start (take (end - start) (drop start marks)) now d)"

function inChunks_from ::
    "(nat \<Rightarrow> faults) \<Rightarrow> (faults \<Rightarrow> nat \<Rightarrow> nat \<Rightarrow> db \<Rightarrow> stmt + db) \<Rightarrow> nat \<Rightarrow> nat \<Rightarrow> db \<Rightarrow> stmt option \<times> db" where
  "inChunks_from flts write start n d =
     (if start < n then
        let end = min (start + ledgerChunk) n in
        if flts start BeginTx then (Some BeginTx, d)
        else (case write (flts start) start end d of
                Inl e \<Rightarrow> (Some e, d)
              | Inr d' \<Rightarrow> if flts start CommitTx then (Some CommitTx, d)
                         else inChunks_from flts write (start + ledgerChunk) n d')
      else (None, d))"
  by pat_completeness auto
termination
  by (relation "measure (\<lambda>(flts, write, start, n, d). n - start)") (auto simp: ledgerChunk_def)

declare inChunks_from.simps [simp del]

definition inChunks ::
    "(nat \<Rightarrow> faults) \<Rightarrow> nat \<Rightarrow> (faults \<Rightarrow> nat \<Rightarrow> nat \<Rightarrow> db \<Rightarrow> stmt + db) \<Rightarrow> db \<Rightarrow> stmt option \<times> db" where
  "inChunks flts n write d = inChunks_from flts write 0 n d"

definition MarkFTPIngested :: "(nat \<Rightarrow> faults) \<Rightarrow> FTPMark list \<Rightarrow> int \<Rightarrow> db \<Rightarrow> stmt option \<times> db" where
  "MarkFTPIngested flts marks now d =
     inChunks flts (length marks) (\<lambda>flt start end d. upsertMarks flt marks start end now d) d"

fun forget_loop :: "faults \<Rightarrow> nat \<Rightarrow> string list \<Rightarrow> db \<Rightarrow> stmt + db" where
  "forget_loop flt i [] d = Inr d"
| "forget_loop flt i (p # ps) d =
     (if flt (MarkStmt i) then Inl (MarkStmt i)
      else forget_loop flt (Suc i) ps (d\<lparr>ftp_ingested := AList.delete p (ftp_ingested d)\<rparr>))"

definition ForgetFTPIngested :: "(nat \<Rightarrow> faults) \<Rightarrow> string list \<Rightarrow> db \<Rightarrow> stmt option \<times> db" where
  "ForgetFTPIngested flts paths d =
     inChunks flts (length paths)
       (\<lambda>flt start end d. if flt PrepareStmt then Inl PrepareStmt
          else forget_loop flt start (take (end - start) (drop start paths)) d) d"

definition LoadFTPIngested :: "faults \<Rightarrow> db \<Rightarrow> stmt + (string, FTPStamp) tbl" where
  "LoadFTPIngested flt d =
     (if flt SelectRows then Inl SelectRows
      else Inr (map (\<lambda>(p, r). (p, lr_stamp r)) (ftp_ingested d)))"

text \<open>What the ledger says of a path.\<close>

definition ledger_stamp :: "db \<Rightarrow> string \<Rightarrow> FTPStamp option" where
  "ledger_stamp d p = map_option lr_stamp (map_of (ftp_ingested d) p)"

text \<open>The reference: all marks, all deletions, in one go.\<close>

definition mark_all :: "FTPMark list \<Rightarrow> int \<Rightarrow> db \<Rightarrow> db" where
  "mark_all ms now d = d\<lparr>ftp_ingested := fold (\<lambda>m. mark_row m now) ms (ftp_ingested d)\<rparr>"

definition forget_all :: "string list \<Rightarrow> db \<Rightarrow> db" where
  "forget_all ps d = d\<lparr>ftp_ingested := fold AList.delete ps (ftp_ingested d)\<rparr>"

subsection \<open>Marks\<close>

lemma mark_all_Nil [simp]: "mark_all [] now d = d"
  by (simp add: mark_all_def)

lemma mark_all_append: "mark_all (xs @ ys) now d = mark_all ys now (mark_all xs now d)"
  by (simp add: mark_all_def)

lemma mark_all_frame [simp]:
  "outbox (mark_all ms now d) = outbox d" "outbox_seq (mark_all ms now d) = outbox_seq d"
  "applied (mark_all ms now d) = applied d" "cwmp_devices (mark_all ms now d) = cwmp_devices d"
  "cwmp_params (mark_all ms now d) = cwmp_params d" "cwmp_events (mark_all ms now d) = cwmp_events d"
  "events_seq (mark_all ms now d) = events_seq d"
  by (simp_all add: mark_all_def)

lemma map_of_mark_row:
  "map_of (mark_row m now t) p =
     (if p = fm_Path m then Some \<lparr>lr_stamp = fm_Stamp m, lr_ingested_at = now\<rparr> else map_of t p)"
  by (auto simp: mark_row_def split: option.splits)

lemma keyed_mark_row [simp]: "keyed t \<Longrightarrow> keyed (mark_row m now t)"
  by (simp add: mark_row_def)

lemma keyed_mark_rows: "keyed t \<Longrightarrow> keyed (fold (\<lambda>m. mark_row m now) ms t)"
  by (induction ms arbitrary: t) auto

lemma map_of_mark_rows:
  "map_of (fold (\<lambda>m. mark_row m now) ms t) p =
     (case find (\<lambda>m. fm_Path m = p) (rev ms) of
        Some m \<Rightarrow> Some \<lparr>lr_stamp = fm_Stamp m, lr_ingested_at = now\<rparr>
      | None \<Rightarrow> map_of t p)"
proof (induction ms arbitrary: t rule: rev_induct)
  case (snoc m ms)
  then show ?case by (auto simp: map_of_mark_row)
qed simp

lemma ledger_stamp_mark_all:
  "ledger_stamp (mark_all ms now d) p =
     (case find (\<lambda>m. fm_Path m = p) (rev ms) of
        Some m \<Rightarrow> Some (fm_Stamp m) | None \<Rightarrow> ledger_stamp d p)"
  by (simp add: ledger_stamp_def mark_all_def map_of_mark_rows split: option.splits)

lemma ledger_stamp_mark_all_other:
  "p \<notin> fm_Path ` set ms \<Longrightarrow> ledger_stamp (mark_all ms now d) p = ledger_stamp d p"
proof -
  assume "p \<notin> fm_Path ` set ms"
  then have "find (\<lambda>m. fm_Path m = p) (rev ms) = None"
    by (auto simp: find_None_iff)
  then show ?thesis by (simp add: ledger_stamp_mark_all)
qed

lemma db_ok_mark_all [simp, intro]: "db_ok d \<Longrightarrow> db_ok (mark_all ms now d)"
  by (simp add: db_ok_def mark_all_def keyed_mark_rows)

lemma upsert_loop_Inr: "upsert_loop flt i ms now d = Inr d' \<Longrightarrow> d' = mark_all ms now d"
  by (induction flt i ms now d rule: upsert_loop.induct) (auto simp: mark_all_def split: if_splits)

lemma upsert_loop_no_faults: "upsert_loop no_faults i ms now d = Inr (mark_all ms now d)"
  by (induction ms arbitrary: i d) (auto simp: mark_all_def)

lemma upsertMarks_Inr:
  assumes "upsertMarks flt marks start end now d = Inr d'"
  shows "d' = mark_all (take (end - start) (drop start marks)) now d"
  using assms by (auto simp: upsertMarks_def split: if_splits dest: upsert_loop_Inr)

lemma upsertMarks_no_faults:
  "upsertMarks no_faults marks start end now d = Inr (mark_all (take (end - start) (drop start marks)) now d)"
  by (simp add: upsertMarks_def upsert_loop_no_faults)

subsection \<open>Forgetting\<close>

lemma forget_all_Nil [simp]: "forget_all [] d = d"
  by (simp add: forget_all_def)

lemma forget_all_append: "forget_all (xs @ ys) d = forget_all ys (forget_all xs d)"
  by (simp add: forget_all_def)

lemma map_of_forget_rows:
  "map_of (fold AList.delete ps t) p = (if p \<in> set ps then None else map_of t p)"
  by (induction ps arbitrary: t) auto

lemma ledger_stamp_forget_all:
  "ledger_stamp (forget_all ps d) p = (if p \<in> set ps then None else ledger_stamp d p)"
  by (simp add: ledger_stamp_def forget_all_def map_of_forget_rows)

lemma keyed_forget_rows: "keyed t \<Longrightarrow> keyed (fold AList.delete ps t)"
  by (induction ps arbitrary: t) auto

lemma db_ok_forget_all [simp, intro]: "db_ok d \<Longrightarrow> db_ok (forget_all ps d)"
  by (simp add: db_ok_def forget_all_def keyed_forget_rows)

lemma forget_all_frame [simp]:
  "outbox (forget_all ps d) = outbox d" "outbox_seq (forget_all ps d) = outbox_seq d"
  "applied (forget_all ps d) = applied d" "cwmp_devices (forget_all ps d) = cwmp_devices d"
  "cwmp_params (forget_all ps d) = cwmp_params d" "cwmp_events (forget_all ps d) = cwmp_events d"
  "events_seq (forget_all ps d) = events_seq d"
  by (simp_all add: forget_all_def)

lemma forget_loop_Inr: "forget_loop flt i ps d = Inr d' \<Longrightarrow> d' = forget_all ps d"
  by (induction flt i ps d rule: forget_loop.induct) (auto simp: forget_all_def split: if_splits)

lemma forget_loop_no_faults: "forget_loop no_faults i ps d = Inr (forget_all ps d)"
  by (induction ps arbitrary: i d) (auto simp: forget_all_def)

subsection \<open>Chunked writes\<close>

text \<open>
  The contract the two callers of \<open>inChunks\<close> share: inside its transaction, a write over a
  range has the effect of applying the items of that range in order. The client's lemmas:
  a chunked write that reports success has applied every item, one that reports an error
  has applied a prefix made of whole chunks, and it always returns.
\<close>

locale chunked_write =
  fixes items :: "'a list"
    and wr :: "faults \<Rightarrow> nat \<Rightarrow> nat \<Rightarrow> db \<Rightarrow> stmt + db"
    and apply_all :: "'a list \<Rightarrow> db \<Rightarrow> db"
  assumes apply_Nil: "apply_all [] d = d"
    and apply_append: "apply_all (xs @ ys) d = apply_all ys (apply_all xs d)"
    and write_Inr: "wr flt s e d = Inr d' \<Longrightarrow> d' = apply_all (take (e - s) (drop s items)) d"
    and write_ok: "\<exists>d'. wr no_faults s e d = Inr d'"
begin

lemma chunk_step: "apply_all (take (min (s + k) (length items) - s) (drop s items)) (apply_all (take s items) d)
    = apply_all (take (s + k) items) d"
proof -
  have "take (s + k) items = take s items @ take k (drop s items)"
    by (simp add: take_add)
  moreover have "take (min (s + k) (length items) - s) (drop s items) = take k (drop s items)"
    by (simp add: min_def)
  ultimately show ?thesis by (simp add: apply_append)
qed

lemma chunks_from:
  assumes "inChunks_from flts wr s (length items) (apply_all (take s items) d) = (r, d')"
  shows "(r = None \<longrightarrow> d' = apply_all items d) \<and>
         (r \<noteq> None \<longrightarrow> (\<exists>j. s + j * ledgerChunk < length items
            \<and> d' = apply_all (take (s + j * ledgerChunk) items) d))"
  using assms
proof (induction "length items - s" arbitrary: s rule: less_induct)
  case less
  note unf = inChunks_from.simps [of flts wr s "length items"]
  let ?e = "min (s + ledgerChunk) (length items)"
  show ?case
  proof (cases "s < length items")
    case False
    with less.prems show ?thesis by (simp add: unf)
  next
    case True
    have here: ?thesis if "r \<noteq> None" "d' = apply_all (take s items) d"
      using that True by (auto intro!: exI [of _ 0])
    consider (fail) "r \<noteq> None" "d' = apply_all (take s items) d"
      | (more) d1 where "wr (flts s) s ?e (apply_all (take s items) d) = Inr d1"
          "inChunks_from flts wr (s + ledgerChunk) (length items) d1 = (r, d')"
      using less.prems True by (auto simp: unf Let_def split: if_splits sum.splits)
    then show ?thesis
    proof cases
      case fail
      then show ?thesis by (rule here)
    next
      case (more d1)
      then have d1: "d1 = apply_all (take (s + ledgerChunk) items) d"
        by (auto dest!: write_Inr simp: chunk_step)
      have "length items - (s + ledgerChunk) < length items - s"
        using True by (simp add: ledgerChunk_def)
      from less.hyps [OF this] more(2) d1
      have IH: "(r = None \<longrightarrow> d' = apply_all items d) \<and>
        (r \<noteq> None \<longrightarrow> (\<exists>j. s + ledgerChunk + j * ledgerChunk < length items
           \<and> d' = apply_all (take (s + ledgerChunk + j * ledgerChunk) items) d))"
        by simp
      then show ?thesis
        by (auto intro: exI [of _ "Suc j" for j] simp: add.assoc)
    qed
  qed
qed

lemma chunks_ok: "inChunks flts (length items) wr d = (None, d') \<Longrightarrow> d' = apply_all items d"
  using chunks_from [of flts 0 d None d'] by (simp add: inChunks_def apply_Nil)

lemma chunks_error:
  "inChunks flts (length items) wr d = (Some e, d') \<Longrightarrow>
     \<exists>j. j * ledgerChunk < length items \<and> d' = apply_all (take (j * ledgerChunk) items) d"
  using chunks_from [of flts 0 d "Some e" d'] by (simp add: inChunks_def apply_Nil)

lemma chunks_from_no_faults:
  "fst (inChunks_from (\<lambda>_. no_faults) wr s (length items) d) = None"
proof (induction "length items - s" arbitrary: s d rule: less_induct)
  case less
  show ?case
  proof (cases "s < length items")
    case True
    then have "length items - (s + ledgerChunk) < length items - s"
      by (simp add: ledgerChunk_def)
    from less.hyps [OF this] write_ok [of s "min (s + ledgerChunk) (length items)" d] show ?thesis
      by (auto simp: inChunks_from.simps [of _ _ s] Let_def)
  qed (simp add: inChunks_from.simps)
qed

lemma chunks_no_faults: "inChunks (\<lambda>_. no_faults) (length items) wr d = (None, apply_all items d)"
proof -
  obtain r d' where rd: "inChunks (\<lambda>_. no_faults) (length items) wr d = (r, d')"
    by (cases "inChunks (\<lambda>_. no_faults) (length items) wr d")
  have "r = None"
    using chunks_from_no_faults [of 0 d] rd by (simp add: inChunks_def)
  with rd chunks_ok show ?thesis by simp
qed

end

interpretation marks_w: chunked_write marks "\<lambda>flt s e d. upsertMarks flt marks s e now d"
    "\<lambda>ms d. mark_all ms now d" for marks now
  by unfold_locales (auto simp: mark_all_append upsertMarks_no_faults dest: upsertMarks_Inr)

interpretation forget_w: chunked_write paths
    "\<lambda>flt s e d. if flt PrepareStmt then Inl PrepareStmt
       else forget_loop flt s (take (e - s) (drop s paths)) d" forget_all for paths
  by unfold_locales (auto simp: forget_all_append forget_loop_no_faults split: if_splits dest: forget_loop_Inr)

lemma MarkFTPIngested_ok: "MarkFTPIngested flts ms now d = (None, d') \<Longrightarrow> d' = mark_all ms now d"
  unfolding MarkFTPIngested_def by (rule marks_w.chunks_ok)

lemma MarkFTPIngested_error:
  "MarkFTPIngested flts ms now d = (Some e, d') \<Longrightarrow>
     \<exists>j. j * ledgerChunk < length ms \<and> d' = mark_all (take (j * ledgerChunk) ms) now d"
  unfolding MarkFTPIngested_def by (rule marks_w.chunks_error)

lemma MarkFTPIngested_no_faults: "MarkFTPIngested (\<lambda>_. no_faults) ms now d = (None, mark_all ms now d)"
  unfolding MarkFTPIngested_def by (rule marks_w.chunks_no_faults)

lemma ForgetFTPIngested_ok: "ForgetFTPIngested flts ps d = (None, d') \<Longrightarrow> d' = forget_all ps d"
  unfolding ForgetFTPIngested_def by (rule forget_w.chunks_ok)

lemma ForgetFTPIngested_error:
  "ForgetFTPIngested flts ps d = (Some e, d') \<Longrightarrow>
     \<exists>j. j * ledgerChunk < length ps \<and> d' = forget_all (take (j * ledgerChunk) ps) d"
  unfolding ForgetFTPIngested_def by (rule forget_w.chunks_error)

lemma ForgetFTPIngested_no_faults: "ForgetFTPIngested (\<lambda>_. no_faults) ps d = (None, forget_all ps d)"
  unfolding ForgetFTPIngested_def by (rule forget_w.chunks_no_faults)

lemma MarkFTPIngested_prefix:
  "MarkFTPIngested flts ms now d = (r, d') \<Longrightarrow> \<exists>n. d' = mark_all (take n ms) now d"
  by (cases r) (auto dest!: MarkFTPIngested_ok MarkFTPIngested_error intro: exI [of _ "length ms"])

lemma ForgetFTPIngested_prefix:
  "ForgetFTPIngested flts ps d = (r, d') \<Longrightarrow> \<exists>n. d' = forget_all (take n ps) d"
  by (cases r) (auto dest!: ForgetFTPIngested_ok ForgetFTPIngested_error intro: exI [of _ "length ps"])

end
