(* ===== verification/Outbox.thy ===== *)
theory Outbox
  imports Ledger
begin

text \<open>
  The telemetry outbox and the applied-command table
  (\<^verbatim>\<open>src/goagent/internal/buffer/sqlite.go\<close>): enqueue with eviction under the payload cap
  and with the ingest marks in the same transaction, drain in order, and the dedupe table
  of applied commands. A body is a list of bytes, so a nil body and an empty one are the same, and
  the refusal of a nil body by the column's \<^verbatim>\<open>NOT NULL\<close> is among the failures of the insert.
  \<open>spec_admit\<close> is the abstract contract of the outbox: a bounded FIFO of bodies that makes room by
  dropping its oldest entries one by one.
\<close>

abbreviation body_len :: "outbox_row \<Rightarrow> int" where
  "body_len r \<equiv> int (length (ob_body r))"

definition payload :: "outbox_row list \<Rightarrow> int" where
  "payload rows = sum_list (map body_len rows)"

text \<open>\<open>SELECT ... FROM outbox ORDER BY id\<close>.\<close>

definition rows_by_id :: "db \<Rightarrow> outbox_row list" where
  "rows_by_id d = sort_key ob_id (outbox d)"

fun evict_walk :: "int \<Rightarrow> int \<Rightarrow> int \<Rightarrow> outbox_row list \<Rightarrow> int" where
  "evict_walk excess lastID freed [] = lastID"
| "evict_walk excess lastID freed (r # rs) =
     (if freed < excess then evict_walk excess (ob_id r) (freed + body_len r) rs else lastID)"

definition evictOldest :: "faults \<Rightarrow> int \<Rightarrow> int \<Rightarrow> db \<Rightarrow> stmt + (db \<times> int)" where
  "evictOldest flt incoming cap d =
     (if flt SumLengths then Inl SumLengths
      else let excess = payload (outbox d) + incoming - cap in
        if excess \<le> 0 then Inr (d, 0)
        else if flt WalkRows then Inl WalkRows
        else let lastID = evict_walk excess 0 0 (rows_by_id d);
                 kept = filter (\<lambda>r. \<not> ob_id r \<le> lastID) (outbox d)
             in if flt EvictDelete then Inl EvictDelete
                else Inr (d\<lparr>outbox := kept\<rparr>, int (length (outbox d)) - int (length kept)))"

definition insert_row :: "string \<Rightarrow> bytes \<Rightarrow> int \<Rightarrow> db \<Rightarrow> db" where
  "insert_row kind body now d =
     d\<lparr>outbox := outbox d @ [\<lparr>ob_id = outbox_seq d + 1, ob_kind = kind, ob_body = body,
                              ob_created_at = now\<rparr>],
       outbox_seq := outbox_seq d + 1\<rparr>"

definition EnqueueWithMarks ::
    "faults \<Rightarrow> string \<Rightarrow> bytes \<Rightarrow> FTPMark list \<Rightarrow> int \<Rightarrow> Buffer \<Rightarrow> db_error option \<times> Buffer" where
  "EnqueueWithMarks flt kind body marks now b =
     (let n = int (length body) in
      if 0 < maxBytes b \<and> maxBytes b < n then (Some (ErrPayloadTooLarge n (maxBytes b)), b)
      else if flt BeginTx then (Some (SqlError BeginTx), b)
      else case (if 0 < maxBytes b then evictOldest flt n (maxBytes b) (buf_db b)
                 else Inr (buf_db b, 0)) of
        Inl e \<Rightarrow> (Some (SqlError e), b)
      | Inr (d1, evicted) \<Rightarrow>
          if flt InsertRow then (Some (SqlError InsertRow), b)
          else case upsertMarks flt marks 0 (length marks) now (insert_row kind body now d1) of
            Inl e \<Rightarrow> (Some (SqlError e), b)
          | Inr d2 \<Rightarrow> if flt CommitTx then (Some (SqlError CommitTx), b)
                     else (None, b\<lparr>buf_db := d2\<rparr>))"

definition Enqueue :: "faults \<Rightarrow> string \<Rightarrow> bytes \<Rightarrow> int \<Rightarrow> Buffer \<Rightarrow> db_error option \<times> Buffer" where
  "Enqueue flt kind body now b = EnqueueWithMarks flt kind body [] now b"

definition PayloadBytes :: "faults \<Rightarrow> db \<Rightarrow> stmt + int" where
  "PayloadBytes flt d = (if flt SumLengths then Inl SumLengths else Inr (payload (outbox d)))"

definition Count :: "faults \<Rightarrow> db \<Rightarrow> stmt + nat" where
  "Count flt d = (if flt SelectRows then Inl SelectRows else Inr (length (outbox d)))"

text \<open>
  \<open>Drain\<close>: at most 100 rows are read, then each is sent and deleted in turn; the first
  failure of either ends the call. \<open>send\<close> threads the state \<open>'w\<close> of whatever is at the
  other end and returns its error, if any.
\<close>

datatype 'e drain_error = SendError 'e | DrainSql stmt

fun drain_loop ::
    "faults \<Rightarrow> ('w \<Rightarrow> string \<Rightarrow> bytes \<Rightarrow> 'w \<times> 'e option) \<Rightarrow> outbox_row list \<Rightarrow> 'w \<Rightarrow> db \<Rightarrow>
       'e drain_error option \<times> 'w \<times> db" where
  "drain_loop flt send [] w d = (None, w, d)"
| "drain_loop flt send (it # batch) w d =
     (case send w (ob_kind it) (ob_body it) of
        (w', Some e) \<Rightarrow> (Some (SendError e), w', d)
      | (w', None) \<Rightarrow>
          if flt (DeleteRow (ob_id it)) then (Some (DrainSql (DeleteRow (ob_id it))), w', d)
          else drain_loop flt send batch w'
                 (d\<lparr>outbox := filter (\<lambda>r. ob_id r \<noteq> ob_id it) (outbox d)\<rparr>))"

definition Drain ::
    "faults \<Rightarrow> ('w \<Rightarrow> string \<Rightarrow> bytes \<Rightarrow> 'w \<times> 'e option) \<Rightarrow> 'w \<Rightarrow> db \<Rightarrow>
       'e drain_error option \<times> 'w \<times> db" where
  "Drain flt send w d =
     (if flt SelectRows then (Some (DrainSql SelectRows), w, d)
      else drain_loop flt send (take 100 (rows_by_id d)) w d)"

definition AlreadyApplied :: "faults \<Rightarrow> string \<Rightarrow> db \<Rightarrow> stmt + (string \<times> bytes) option" where
  "AlreadyApplied flt cid d =
     (if flt PointQuery then Inl PointQuery
      else Inr (map_option (\<lambda>r. (ap_status r, ap_result r)) (map_of (applied d) cid)))"

definition MarkApplied ::
    "faults \<Rightarrow> string \<Rightarrow> string \<Rightarrow> bytes \<Rightarrow> int \<Rightarrow> db \<Rightarrow> stmt option \<times> db" where
  "MarkApplied flt cid status result now d =
     (if flt (WriteStmt 0) then (Some (WriteStmt 0), d)
      else (None, d\<lparr>applied := tbl_upsert cid
                     \<lparr>ap_status = status, ap_result = result, ap_applied_at = now\<rparr>
                     (\<lambda>r. r\<lparr>ap_status := status, ap_result := result, ap_applied_at := now\<rparr>)
                     (applied d)\<rparr>))"

text \<open>A sender that also records, in order, every row it was handed and its verdict on it.\<close>

definition logged ::
    "('w \<Rightarrow> string \<Rightarrow> bytes \<Rightarrow> 'w \<times> 'e option) \<Rightarrow>
     (string \<times> bytes \<times> 'e option) list \<times> 'w \<Rightarrow> string \<Rightarrow> bytes \<Rightarrow>
     ((string \<times> bytes \<times> 'e option) list \<times> 'w) \<times> 'e option" where
  "logged send lw k x = (case lw of (log, w) \<Rightarrow>
     case send w k x of (w', e) \<Rightarrow> ((log @ [(k, x, e)], w'), e))"

text \<open>The abstract contract: a FIFO of bodies under a cap (0: no cap). A body that alone is
  over the cap is refused; otherwise oldest bodies are dropped until it fits.\<close>

fun spec_make_room :: "int \<Rightarrow> int \<Rightarrow> bytes list \<Rightarrow> bytes list" where
  "spec_make_room cap need [] = []"
| "spec_make_room cap need (x # xs) =
     (if sum_list (map (int \<circ> length) (x # xs)) + need \<le> cap then x # xs
      else spec_make_room cap need xs)"

definition spec_admit :: "int \<Rightarrow> bytes \<Rightarrow> bytes list \<Rightarrow> bytes list option" where
  "spec_admit cap x q =
     (if cap \<le> 0 then Some (q @ [x])
      else if cap < int (length x) then None
      else Some (spec_make_room cap (int (length x)) q @ [x]))"

abbreviation outbox_bodies :: "Buffer \<Rightarrow> bytes list" where
  "outbox_bodies b \<equiv> map ob_body (outbox (buf_db b))"

subsection \<open>Payload arithmetic\<close>

lemma payload_simps [simp]:
  "payload [] = 0" "payload (r # rs) = body_len r + payload rs"
  "payload (xs @ ys) = payload xs + payload ys"
  by (simp_all add: payload_def)

lemma payload_nonneg [simp]: "0 \<le> payload rows"
  by (induction rows) auto

lemma payload_bodies: "payload rows = sum_list (map (int \<circ> length) (map ob_body rows))"
  by (simp add: payload_def comp_def)

lemma payload_take_drop: "payload (take n rows) + payload (drop n rows) = payload rows"
  by (simp add: payload_def take_drop_sum)

lemma payload_drop_mono: "m \<le> n \<Longrightarrow> payload (drop n rows) \<le> payload (drop m rows)"
  by (metis add_increasing drop_drop le_add_diff_inverse2 order_refl payload_nonneg payload_take_drop)

lemma rows_by_id_ok: "db_ok d \<Longrightarrow> rows_by_id d = outbox d"
  by (simp add: rows_by_id_def ids_ok_sort [OF db_ok_outbox])

subsection \<open>Eviction deletes the shortest oldest run\<close>

text \<open>How many rows the walk reads.\<close>

fun evict_count :: "int \<Rightarrow> int \<Rightarrow> outbox_row list \<Rightarrow> nat" where
  "evict_count excess freed [] = 0"
| "evict_count excess freed (r # rs) =
     (if freed < excess then Suc (evict_count excess (freed + body_len r) rs) else 0)"

lemma evict_count_le: "evict_count excess freed rows \<le> length rows"
  by (induction rows arbitrary: freed) auto

lemma evict_walk_last:
  "evict_walk excess l freed rows =
     (let n = evict_count excess freed rows in if n = 0 then l else ob_id (rows ! (n - 1)))"
proof (induction rows arbitrary: l freed)
  case (Cons r rows)
  show ?case
  proof (cases "freed < excess")
    case True
    then show ?thesis
      using Cons.IH [of "ob_id r" "freed + body_len r"]
      by (cases "evict_count excess (freed + body_len r) rows") (auto simp: Let_def)
  qed simp
qed simp

lemma evict_count_enough:
  "excess \<le> freed + payload rows \<Longrightarrow> excess \<le> freed + payload (take (evict_count excess freed rows) rows)"
proof (induction rows arbitrary: freed)
  case (Cons r rows)
  then show ?case using Cons.IH [of "freed + body_len r"] by (auto simp: algebra_simps)
qed simp

lemma evict_count_least:
  "m < evict_count excess freed rows \<Longrightarrow> freed + payload (take m rows) < excess"
proof (induction rows arbitrary: m freed)
  case (Cons r rows)
  then show ?case
    by (cases m) (auto split: if_splits dest: Cons.IH simp: algebra_simps)
qed simp

lemma evict_filter:
  assumes ok: "db_ok d"
  shows "filter (\<lambda>r. \<not> ob_id r \<le> evict_walk excess 0 0 (rows_by_id d)) (outbox d)
           = drop (evict_count excess 0 (outbox d)) (outbox d)"
proof -
  let ?rows = "outbox d" and ?n = "evict_count excess 0 (outbox d)"
  note ids = db_ok_outbox [OF ok]
  have pos: "\<forall>r\<in>set ?rows. 0 < ob_id r"
    using ids by (auto simp: ids_ok_def)
  have n: "?n \<le> length ?rows" by (rule evict_count_le)
  show ?thesis
  proof (cases "?n = 0")
    case True
    have "filter (\<lambda>r. \<not> ob_id r \<le> 0) ?rows = ?rows"
      using pos by (auto simp: filter_id_conv)
    with True show ?thesis
      by (simp add: rows_by_id_ok [OF ok] evict_walk_last)
  next
    case False
    have "filter (\<lambda>r. \<not> ob_id r \<le> ob_id (?rows ! (?n - 1))) ?rows = drop ?n ?rows"
      by (rule filter_eq_drop) (use ids_ok_mono_nth [OF ids] n False in auto)
    with False show ?thesis
      by (simp add: rows_by_id_ok [OF ok] evict_walk_last Let_def)
  qed
qed

lemma evictOldest_Inr:
  assumes ok: "db_ok d" and ev: "evictOldest flt incoming cap d = Inr (d1, k)"
    and fits: "incoming \<le> cap"
  obtains n where "d1 = d\<lparr>outbox := drop n (outbox d)\<rparr>" "n \<le> length (outbox d)" "k = int n"
    "payload (drop n (outbox d)) + incoming \<le> cap"
    "\<And>m. m < n \<Longrightarrow> cap < payload (drop m (outbox d)) + incoming"
proof (cases "payload (outbox d) + incoming - cap \<le> 0")
  case True
  with ev show ?thesis
    by (intro that [of 0]) (auto simp: evictOldest_def Let_def split: if_splits)
next
  case False
  let ?x = "payload (outbox d) + incoming - cap"
  let ?n = "evict_count ?x 0 (outbox d)"
  have d1: "d1 = d\<lparr>outbox := drop ?n (outbox d)\<rparr>" and k: "k = int (length (outbox d)) - int (length (drop ?n (outbox d)))"
    using ev False by (auto simp: evictOldest_def Let_def evict_filter [OF ok] split: if_splits)
  show ?thesis
  proof (rule that [OF d1 evict_count_le])
    show "k = int ?n" using k evict_count_le [of ?x 0 "outbox d"] by simp
    show "payload (drop ?n (outbox d)) + incoming \<le> cap"
      using evict_count_enough [of ?x 0 "outbox d"] payload_take_drop [of ?n "outbox d"] fits
      by simp
    show "cap < payload (drop m (outbox d)) + incoming" if "m < ?n" for m
      using evict_count_least [OF that] payload_take_drop [of m "outbox d"] by simp
  qed
qed

lemma spec_make_room_drop:
  assumes "payload (drop n rows) + need \<le> cap" "n \<le> length rows"
    "\<And>m. m < n \<Longrightarrow> cap < payload (drop m rows) + need"
  shows "spec_make_room cap need (map ob_body rows) = map ob_body (drop n rows)"
  using assms
proof (induction n arbitrary: rows)
  case 0
  then show ?case by (cases rows) (auto simp: payload_def comp_def)
next
  case (Suc n)
  then obtain r rs where rows: "rows = r # rs" by (cases rows) auto
  have "spec_make_room cap need (map ob_body rs) = map ob_body (drop n rs)"
    using Suc.prems rows by (intro Suc.IH) force+
  with Suc.prems(3) [of 0] rows show ?case by (simp add: payload_def comp_def)
qed

subsection \<open>Enqueue\<close>

lemma insert_row_frame [simp]:
  "ftp_ingested (insert_row k x now d) = ftp_ingested d" "applied (insert_row k x now d) = applied d"
  "cwmp_devices (insert_row k x now d) = cwmp_devices d" "cwmp_params (insert_row k x now d) = cwmp_params d"
  "cwmp_events (insert_row k x now d) = cwmp_events d" "events_seq (insert_row k x now d) = events_seq d"
  by (simp_all add: insert_row_def)

lemma ledger_stamp_outbox_frame [simp]:
  "ledger_stamp (insert_row k x now d) = ledger_stamp d"
  "ledger_stamp (d\<lparr>outbox := rows\<rparr>) = ledger_stamp d"
  by (simp_all add: ledger_stamp_def fun_eq_iff)

lemma outbox_insert_row [simp]:
  "outbox (insert_row k x now d) = outbox d @ [\<lparr>ob_id = outbox_seq d + 1, ob_kind = k, ob_body = x, ob_created_at = now\<rparr>]"
  "outbox_seq (insert_row k x now d) = outbox_seq d + 1"
  by (simp_all add: insert_row_def)

lemma db_ok_insert_row: "db_ok d \<Longrightarrow> db_ok (insert_row k x now d)"
  by (simp add: db_ok_def ids_ok_append)

lemma db_ok_drop: "db_ok d \<Longrightarrow> db_ok (d\<lparr>outbox := drop n (outbox d)\<rparr>)"
  by (simp add: db_ok_def drop_map [symmetric] ids_ok_drop)

lemma enqueue_error: "EnqueueWithMarks flt kind body marks now b = (Some e, b') \<Longrightarrow> b' = b"
  by (auto simp: EnqueueWithMarks_def Let_def split: if_splits sum.splits prod.splits)

text \<open>What a successful call did, over the number \<open>n\<close> of rows it evicted.\<close>

lemma enqueue_ok:
  assumes ok: "db_ok (buf_db b)" and enq: "EnqueueWithMarks flt kind body marks now b = (None, b')"
  obtains n where
    "b' = b\<lparr>buf_db := mark_all marks now
            (insert_row kind body now ((buf_db b)\<lparr>outbox := drop n (outbox (buf_db b))\<rparr>))\<rparr>"
    "n \<le> length (outbox (buf_db b))"
    "0 < maxBytes b \<Longrightarrow> payload (drop n (outbox (buf_db b))) + int (length body) \<le> maxBytes b"
    "\<And>m. m < n \<Longrightarrow> maxBytes b < payload (drop m (outbox (buf_db b))) + int (length body)"
    "maxBytes b \<le> 0 \<Longrightarrow> n = 0"
    "0 < maxBytes b \<Longrightarrow> int (length body) \<le> maxBytes b"
proof -
  let ?d = "buf_db b" and ?len = "int (length body)"
  obtain d1 k d2 where
    ev: "(if 0 < maxBytes b then evictOldest flt ?len (maxBytes b) ?d else Inr (?d, 0)) = Inr (d1, k)"
    and up: "upsertMarks flt marks 0 (length marks) now (insert_row kind body now d1) = Inr d2"
    and b': "b' = b\<lparr>buf_db := d2\<rparr>" and fits: "0 < maxBytes b \<Longrightarrow> ?len \<le> maxBytes b"
    using enq by (force simp: EnqueueWithMarks_def Let_def split: if_split_asm sum.splits prod.splits)
  have d2: "d2 = mark_all marks now (insert_row kind body now d1)"
    using upsertMarks_Inr [OF up] by simp
  show ?thesis
  proof (cases "0 < maxBytes b")
    case True
    with ev have "evictOldest flt ?len (maxBytes b) ?d = Inr (d1, k)" by simp
    from evictOldest_Inr [OF ok this fits [OF True]] obtain n where
      "d1 = ?d\<lparr>outbox := drop n (outbox ?d)\<rparr>" "n \<le> length (outbox ?d)"
      "payload (drop n (outbox ?d)) + ?len \<le> maxBytes b"
      "\<And>m. m < n \<Longrightarrow> maxBytes b < payload (drop m (outbox ?d)) + ?len"
      by metis
    with b' d2 fits True show ?thesis by (intro that [of n]) auto
  next
    case False
    with ev b' d2 show ?thesis by (intro that [of 0]) auto
  qed
qed

lemma db_ok_enqueue:
  assumes "db_ok (buf_db b)" "EnqueueWithMarks flt kind body marks now b = (r, b')"
  shows "db_ok (buf_db b') \<and> maxBytes b' = maxBytes b \<and> buf_path b' = buf_path b"
proof (cases r)
  case None
  with assms(2) have enq: "EnqueueWithMarks flt kind body marks now b = (None, b')" by simp
  show ?thesis
    by (rule enqueue_ok [OF assms(1) enq]) (use assms(1) in \<open>auto intro!: db_ok_insert_row db_ok_drop\<close>)
next
  case (Some e)
  with assms enqueue_error show ?thesis by metis
qed

lemma enqueue_no_faults:
  assumes "maxBytes b \<le> 0 \<or> int (length body) \<le> maxBytes b"
  shows "fst (EnqueueWithMarks no_faults kind body marks now b) = None"
  using assms by (auto simp: EnqueueWithMarks_def evictOldest_def upsertMarks_no_faults Let_def)

text \<open>C1. The whole-operation contract of \<open>EnqueueWithMarks\<close>, under any pattern of
  statement failures: an error leaves the database exactly as it was (in particular no
  upload is marked); success appends the body behind the surviving rows in their old
  order, records every mark of the call in the ledger (the last stamp of a path wins) and
  touches no other ledger entry and no other table.\<close>

theorem EnqueueWithMarks_atomic:
  assumes "db_ok (buf_db b)" and "EnqueueWithMarks flt kind body marks now b = (r, b')"
  shows "case r of
      Some e \<Rightarrow> b' = b
    | None \<Rightarrow>
        (\<exists>n row. outbox (buf_db b') = drop n (outbox (buf_db b)) @ [row]
           \<and> ob_kind row = kind \<and> ob_body row = body \<and> ob_id row = outbox_seq (buf_db b) + 1)
        \<and> (\<forall>p. ledger_stamp (buf_db b') p =
             (case find (\<lambda>m. fm_Path m = p) (rev marks) of
                Some m \<Rightarrow> Some (fm_Stamp m) | None \<Rightarrow> ledger_stamp (buf_db b) p))
        \<and> applied (buf_db b') = applied (buf_db b)
        \<and> cwmp_devices (buf_db b') = cwmp_devices (buf_db b)
        \<and> cwmp_params (buf_db b') = cwmp_params (buf_db b)
        \<and> cwmp_events (buf_db b') = cwmp_events (buf_db b)"
proof (cases r)
  case (Some e)
  with assms(2) enqueue_error show ?thesis by auto
next
  case None
  with assms(2) have enq: "EnqueueWithMarks flt kind body marks now b = (None, b')" by simp
  show ?thesis unfolding None option.case
    by (rule enqueue_ok [OF assms(1) enq])
      (auto simp: ledger_stamp_mark_all split: option.splits)
qed

text \<open>C2. Refinement: seen as a list of bodies, the outbox is the bounded FIFO
  \<open>spec_admit\<close>. A successful enqueue is the abstract admission, and a body the abstract
  queue refuses is refused with \<^verbatim>\<open>ErrPayloadTooLarge\<close> before any statement runs.\<close>

theorem EnqueueWithMarks_refines_fifo:
  assumes "db_ok (buf_db b)" and "EnqueueWithMarks flt kind body marks now b = (r, b')"
  shows "case spec_admit (maxBytes b) body (outbox_bodies b) of
      None \<Rightarrow> r = Some (ErrPayloadTooLarge (int (length body)) (maxBytes b)) \<and> b' = b
    | Some q \<Rightarrow> (r = None \<longrightarrow> outbox_bodies b' = q) \<and> (r \<noteq> None \<longrightarrow> (\<exists>e. r = Some (SqlError e)))"
proof (cases "0 < maxBytes b \<and> maxBytes b < int (length body)")
  case True
  then show ?thesis using assms(2) by (auto simp: spec_admit_def EnqueueWithMarks_def)
next
  case False
  show ?thesis
  proof (cases r)
    case (Some e)
    with assms(2) False show ?thesis
      by (auto simp: spec_admit_def EnqueueWithMarks_def Let_def split: if_splits sum.splits prod.splits)
  next
    case None
    with assms(2) have enq: "EnqueueWithMarks flt kind body marks now b = (None, b')" by simp
    show ?thesis
      by (rule enqueue_ok [OF assms(1) enq])
        (use False None in \<open>auto simp: spec_admit_def spec_make_room_drop\<close>)
  qed
qed

subsection \<open>The cap as an invariant of the outbox\<close>

definition outbox_inv :: "Buffer \<Rightarrow> bool" where
  "outbox_inv b \<longleftrightarrow> db_ok (buf_db b) \<and> (0 < maxBytes b \<longrightarrow> payload (outbox (buf_db b)) \<le> maxBytes b)"

lemma logged_eq [simp]:
  "logged send (log, w) k x = (case send w k x of (w', e) \<Rightarrow> ((log @ [(k, x, e)], w'), e))"
  by (simp add: logged_def)

lemma filter_head_id:
  assumes "ids_ok (map ob_id (it # rows)) s"
  shows "filter (\<lambda>r. ob_id r \<noteq> ob_id it) (it # rows) = rows"
  using assms by (fastforce simp: ids_ok_def filter_id_conv)

text \<open>The verdict logged for the \<open>i\<close>-th row sent.\<close>

abbreviation verdict :: "(string \<times> bytes \<times> 'e option) list \<Rightarrow> nat \<Rightarrow> 'e option" where
  "verdict sent i \<equiv> snd (snd (sent ! i))"

text \<open>How a drain that sent \<open>m\<close> rows and deleted \<open>n\<close> ended: with the whole batch gone, at a
  refused row, or at an accepted row whose delete failed.\<close>

definition drain_ends ::
    "faults \<Rightarrow> outbox_row list \<Rightarrow> (string \<times> bytes \<times> 'e option) list \<Rightarrow> nat \<Rightarrow> nat \<Rightarrow>
       'e drain_error option \<Rightarrow> bool" where
  "drain_ends flt batch sent n m r =
     (case r of
        None \<Rightarrow> n = length batch \<and> m = n
      | Some (SendError e) \<Rightarrow> n < length batch \<and> m = Suc n \<and> verdict sent n = Some e
      | Some (DrainSql st) \<Rightarrow> n < length batch \<and> m = Suc n \<and> verdict sent n = None
          \<and> st = DeleteRow (ob_id (batch ! n)) \<and> flt st)"

lemma drain_loop_spec:
  assumes "db_ok d" and "outbox d = batch @ rest"
    and "drain_loop flt (logged send) batch (log, w) d = (r, (log', w'), d')"
  shows "\<exists>sent n m. log' = log @ sent \<and> drain_ends flt batch sent n m r
     \<and> map (\<lambda>(k, x, v). (k, x)) sent = map (\<lambda>r. (ob_kind r, ob_body r)) (take m batch)
     \<and> (\<forall>i<n. verdict sent i = None \<and> \<not> flt (DeleteRow (ob_id (batch ! i))))
     \<and> d' = d\<lparr>outbox := drop n batch @ rest\<rparr>"
  using assms
proof (induction batch arbitrary: d log w)
  case Nil
  then show ?case by (intro exI [of _ "[]"] exI [of _ 0]) (simp add: drain_ends_def)
next
  case (Cons it batch)
  obtain w1 e where send: "send w (ob_kind it) (ob_body it) = (w1, e)" by force
  let ?sent = "(ob_kind it, ob_body it, e)"
  show ?case
  proof (cases "e = None \<and> \<not> flt (DeleteRow (ob_id it))")
    case False
    with Cons.prems send show ?thesis
      by (intro exI [of _ "[?sent]"] exI [of _ 0] exI [of _ "Suc 0"])
        (auto simp: drain_ends_def split: option.splits if_splits)
  next
    case True
    let ?d1 = "d\<lparr>outbox := batch @ rest\<rparr>"
    have "ids_ok (map ob_id (it # batch @ rest)) (outbox_seq d)"
      using db_ok_outbox [OF Cons.prems(1)] Cons.prems(2) by simp
    from filter_head_id [OF this] have flt1: "filter (\<lambda>r. ob_id r \<noteq> ob_id it) (outbox d) = batch @ rest"
      using Cons.prems(2) by simp
    have ok1: "db_ok ?d1"
      using db_ok_drop [OF Cons.prems(1), of 1] Cons.prems(2) by simp
    have "drain_loop flt (logged send) batch (log @ [?sent], w1) ?d1 = (r, (log', w'), d')"
      using Cons.prems(3) True send flt1 by auto
    from Cons.IH [OF ok1 _ this] obtain sent n m where nm:
      "log' = (log @ [?sent]) @ sent" "drain_ends flt batch sent n m r"
      "map (\<lambda>(k, x, v). (k, x)) sent = map (\<lambda>r. (ob_kind r, ob_body r)) (take m batch)"
      "\<forall>i<n. verdict sent i = None \<and> \<not> flt (DeleteRow (ob_id (batch ! i)))"
      "d' = ?d1\<lparr>outbox := drop n batch @ rest\<rparr>"
      by auto
    have "drain_ends flt (it # batch) (?sent # sent) (Suc n) (Suc m) r"
      using nm(2) by (auto simp: drain_ends_def split: option.splits drain_error.splits)
    moreover have "\<forall>i<Suc n. verdict (?sent # sent) i = None \<and> \<not> flt (DeleteRow (ob_id ((it # batch) ! i)))"
      using nm(4) True by (auto simp: less_Suc_eq_0_disj)
    ultimately show ?thesis
      using nm(1,3,5) by (intro exI [of _ "?sent # sent"] exI [of _ "Suc n"] exI [of _ "Suc m"]) simp
  qed
qed

text \<open>C3. Draining is in order and deletes only what was accepted, for any sender and any
  failures. The rows handed to the sender are the first \<open>m\<close> of the outbox in id order, each
  once; the rows deleted are the first \<open>n\<close> of those, and the sender accepted every one of
  them. The drain ends in one of four ways: the first 100 rows (or all) were accepted and
  deleted; the sender refused row \<open>n\<close>, and its error is returned; row \<open>n\<close> was accepted but its
  delete failed; or the rows could not be read and none was sent. In the second and third
  case row \<open>n\<close> is kept at the head, so the next drain starts with it (in the third case it is
  sent again). No other table changes.\<close>

theorem Drain_in_order:
  assumes "db_ok d" and "Drain flt (logged send) ([], w) d = (r, (sent, w'), d')"
  shows "\<exists>n m. n \<le> m \<and> m \<le> Suc n \<and> m \<le> min 100 (length (outbox d))
     \<and> map (\<lambda>(k, x, v). (k, x)) sent = map (\<lambda>r. (ob_kind r, ob_body r)) (take m (outbox d))
     \<and> (\<forall>i<n. verdict sent i = None)
     \<and> d' = d\<lparr>outbox := drop n (outbox d)\<rparr>
     \<and> (case r of
          None \<Rightarrow> n = min 100 (length (outbox d)) \<and> m = n \<and> \<not> flt SelectRows
        | Some (SendError e) \<Rightarrow> m = Suc n \<and> verdict sent n = Some e
        | Some (DrainSql st) \<Rightarrow> flt st \<and>
            (st = SelectRows \<and> m = 0 \<or>
             m = Suc n \<and> st = DeleteRow (ob_id (outbox d ! n)) \<and> verdict sent n = None))"
proof (cases "flt SelectRows")
  case True
  with assms(2) show ?thesis by (auto simp: Drain_def intro!: exI [of _ 0])
next
  case False
  let ?batch = "take 100 (outbox d)" and ?rest = "drop 100 (outbox d)"
  have "drain_loop flt (logged send) ?batch ([], w) d = (r, (sent, w'), d')"
    using assms(2) False by (simp add: Drain_def rows_by_id_ok [OF assms(1)])
  from drain_loop_spec [OF assms(1) _ this, of ?rest] obtain n m where nm:
    "drain_ends flt ?batch sent n m r"
    "map (\<lambda>(k, x, v). (k, x)) sent = map (\<lambda>r. (ob_kind r, ob_body r)) (take m ?batch)"
    "\<forall>i<n. verdict sent i = None" "d' = d\<lparr>outbox := drop n ?batch @ ?rest\<rparr>"
    by auto
  from nm(1) have le: "n \<le> m" "m \<le> Suc n" "m \<le> length ?batch"
    by (auto simp: drain_ends_def split: option.splits drain_error.splits)
  have "drop n (?batch @ ?rest) = drop n ?batch @ ?rest"
    using le(1,3) by (simp del: append_take_drop_id)
  then have d': "d' = d\<lparr>outbox := drop n (outbox d)\<rparr>" using nm(4) by simp
  have sent: "take m ?batch = take m (outbox d)" using le(3) by simp
  have end': "case r of
          None \<Rightarrow> n = min 100 (length (outbox d)) \<and> m = n \<and> \<not> flt SelectRows
        | Some (SendError e) \<Rightarrow> m = Suc n \<and> verdict sent n = Some e
        | Some (DrainSql st) \<Rightarrow> flt st \<and>
            (st = SelectRows \<and> m = 0 \<or>
             m = Suc n \<and> st = DeleteRow (ob_id (outbox d ! n)) \<and> verdict sent n = None)"
    using nm(1) False by (auto simp: drain_ends_def split: option.splits drain_error.splits)
  from le(3) have "m \<le> min 100 (length (outbox d))" by simp
  with le(1,2) nm(2) nm(3) d' end' show ?thesis
    unfolding sent by (intro exI [of _ n] exI [of _ m] conjI)
qed

lemma drain_loop_db:
  assumes "db_ok d" and "outbox d = batch @ rest"
    and "drain_loop flt send batch w d = (r, (w', d'))"
  shows "\<exists>n. d' = d\<lparr>outbox := drop n batch @ rest\<rparr>"
proof -
  have "\<exists>lw. drain_loop flt (logged send) batch (log, w) d = (r, (lw, w'), d')" for log
    using assms(3)
    by (induction flt send batch w d arbitrary: log rule: drain_loop.induct)
      (auto split: prod.splits option.splits if_splits)
  then obtain lw where "drain_loop flt (logged send) batch ([], w) d = (r, (lw, w'), d')" by blast
  from drain_loop_spec [OF assms(1,2) this] show ?thesis by blast
qed

lemma Drain_db:
  assumes "db_ok d" and "Drain flt send w d = (r, (w', d'))"
  shows "\<exists>n. d' = d\<lparr>outbox := drop n (outbox d)\<rparr>"
proof (cases "flt SelectRows")
  case True
  with assms(2) show ?thesis by (auto simp: Drain_def intro!: exI [of _ 0])
next
  case False
  then have "drain_loop flt send (take 100 (outbox d)) w d = (r, (w', d'))"
    using assms(2) by (simp add: Drain_def rows_by_id_ok [OF assms(1)])
  from drain_loop_db [OF assms(1) _ this, of "drop 100 (outbox d)"] obtain n
    where "d' = d\<lparr>outbox := drop n (take 100 (outbox d)) @ drop 100 (outbox d)\<rparr>" by auto
  moreover have "drop n (take 100 (outbox d)) @ drop 100 (outbox d)
      = drop (min n (length (take 100 (outbox d)))) (take 100 (outbox d) @ drop 100 (outbox d))"
    by (simp only: drop_append) (simp add: min_def)
  ultimately show ?thesis by (metis append_take_drop_id)
qed

lemma drain_keeps_inv:
  assumes "outbox_inv b" and "d' = (buf_db b)\<lparr>outbox := drop n (outbox (buf_db b))\<rparr>"
  shows "outbox_inv (b\<lparr>buf_db := d'\<rparr>)"
  using assms payload_drop_mono [of 0 n "outbox (buf_db b)"]
  by (auto simp: outbox_inv_def db_ok_drop)

lemma enqueue_within_cap:
  assumes inv: "outbox_inv b" and enq: "EnqueueWithMarks flt kind body marks now b = (r, b')"
  shows "outbox_inv b' \<and>
    (r = None \<longrightarrow> (\<exists>n. map ob_body (outbox (buf_db b')) = map ob_body (drop n (outbox (buf_db b))) @ [body]
       \<and> (\<forall>m<n. 0 < maxBytes b \<and> maxBytes b < payload (drop m (outbox (buf_db b))) + int (length body))))"
proof -
  from inv have ok: "db_ok (buf_db b)" by (simp add: outbox_inv_def)
  note ok' = db_ok_enqueue [OF ok enq]
  show ?thesis
  proof (cases r)
    case (Some e)
    with enq inv enqueue_error [of flt kind body marks now b e b'] show ?thesis by simp
  next
    case None
    with enq have enq': "EnqueueWithMarks flt kind body marks now b = (None, b')" by simp
    obtain n where n: "b' = b\<lparr>buf_db := mark_all marks now
            (insert_row kind body now ((buf_db b)\<lparr>outbox := drop n (outbox (buf_db b))\<rparr>))\<rparr>"
      "0 < maxBytes b \<Longrightarrow> payload (drop n (outbox (buf_db b))) + int (length body) \<le> maxBytes b"
      "\<And>m. m < n \<Longrightarrow> maxBytes b < payload (drop m (outbox (buf_db b))) + int (length body)"
      "maxBytes b \<le> 0 \<Longrightarrow> n = 0"
      by (rule enqueue_ok [OF ok enq']) blast
    from n(2) have "outbox_inv b'"
      using ok' by (auto simp: outbox_inv_def n(1))
    moreover have "\<forall>m<n. 0 < maxBytes b \<and> maxBytes b < payload (drop m (outbox (buf_db b))) + int (length body)"
      using n(3,4) by (metis not_less not_less_zero)
    ultimately show ?thesis
      using n(1) by (auto intro!: exI [of _ n])
  qed
qed

text \<open>C23. The outbox never sits over its cap: a buffer within the cap stays within it
  through any enqueue, drain or applied-mark, under any statement failures and whether the
  operation succeeds or not. A successful enqueue evicts the shortest run of oldest rows
  that makes room (one row fewer would still be over the cap); a drain only removes rows
  from the head; an applied-mark leaves the outbox alone.\<close>

theorem outbox_cap_invariant:
  assumes inv: "outbox_inv b"
  shows "(\<forall>r b'. EnqueueWithMarks flt kind body marks now b = (r, b') \<longrightarrow> outbox_inv b' \<and>
       (r = None \<longrightarrow> (\<exists>n. map ob_body (outbox (buf_db b')) = map ob_body (drop n (outbox (buf_db b))) @ [body]
         \<and> (\<forall>m<n. 0 < maxBytes b \<and> maxBytes b < payload (drop m (outbox (buf_db b))) + int (length body)))))
   \<and> (\<forall>r w' d'. Drain flt send w (buf_db b) = (r, w', d') \<longrightarrow> outbox_inv (b\<lparr>buf_db := d'\<rparr>) \<and>
       (\<exists>n. outbox d' = drop n (outbox (buf_db b))))
   \<and> (\<forall>r d'. MarkApplied flt cid status result now (buf_db b) = (r, d') \<longrightarrow>
       outbox_inv (b\<lparr>buf_db := d'\<rparr>) \<and> outbox d' = outbox (buf_db b))"
proof (intro conjI allI impI)
  from inv have ok: "db_ok (buf_db b)" by (simp add: outbox_inv_def)
  {
    fix r b' assume "EnqueueWithMarks flt kind body marks now b = (r, b')"
    from enqueue_within_cap [OF inv this] show "outbox_inv b'"
      "r = None \<Longrightarrow> \<exists>n. map ob_body (outbox (buf_db b')) = map ob_body (drop n (outbox (buf_db b))) @ [body]
         \<and> (\<forall>m<n. 0 < maxBytes b \<and> maxBytes b < payload (drop m (outbox (buf_db b))) + int (length body))"
      by blast+
  next
    fix r w' d' assume "Drain flt send w (buf_db b) = (r, w', d')"
    from Drain_db [OF ok this] obtain n where "d' = (buf_db b)\<lparr>outbox := drop n (outbox (buf_db b))\<rparr>" ..
    with drain_keeps_inv [OF inv this]
    show "outbox_inv (b\<lparr>buf_db := d'\<rparr>)" "\<exists>n. outbox d' = drop n (outbox (buf_db b))" by auto
  next
    fix r d' assume "MarkApplied flt cid status result now (buf_db b) = (r, d')"
    with inv show "outbox_inv (b\<lparr>buf_db := d'\<rparr>)" "outbox d' = outbox (buf_db b)"
      by (auto simp: MarkApplied_def outbox_inv_def db_ok_def split: if_splits)
  }
qed

subsection \<open>Applied commands\<close>

lemma AlreadyApplied_MarkApplied:
  "MarkApplied flt cid status result now d = (None, d') \<Longrightarrow>
     AlreadyApplied no_faults c d' =
       (if c = cid then Inr (Some (status, result)) else AlreadyApplied no_faults c d)"
  by (auto simp: MarkApplied_def AlreadyApplied_def split: if_splits option.splits)

lemma MarkApplied_error: "MarkApplied flt cid status result now d = (Some e, d') \<Longrightarrow> d' = d"
  by (simp add: MarkApplied_def split: if_splits)

lemma db_ok_MarkApplied: "db_ok d \<Longrightarrow> MarkApplied flt cid status result now d = (r, d') \<Longrightarrow> db_ok d'"
  by (auto simp: MarkApplied_def db_ok_def split: if_splits)

subsection \<open>Instances of the contracts\<close>

definition demo_buffer :: Buffer where
  "demo_buffer = \<lparr>buf_db = insert_row ''telemetry'' ''bbbb'' 2 (insert_row ''telemetry'' ''aaa'' 1 init_db),
     buf_path = '':memory:'', maxBytes = 8\<rparr>"

definition demo_mark :: FTPMark where
  "demo_mark = \<lparr>fm_Path = ''Log_1.gz'', fm_Stamp = \<lparr>st_Size = 7, st_ModTime = 9\<rparr>\<rparr>"

lemma demo_buffer_ok: "db_ok (buf_db demo_buffer)"
  by (simp add: demo_buffer_def db_ok_insert_row)

lemma demo_buffer_inv: "outbox_inv demo_buffer"
  by (simp add: outbox_inv_def demo_buffer_ok) (simp add: demo_buffer_def init_db_def)

lemma demo_enqueue:
  obtains b' where "EnqueueWithMarks no_faults ''telemetry'' ''cccc'' [demo_mark] 3 demo_buffer = (None, b')"
proof -
  have "maxBytes demo_buffer = 8" by (simp add: demo_buffer_def)
  then have "fst (EnqueueWithMarks no_faults ''telemetry'' ''cccc'' [demo_mark] 3 demo_buffer) = None"
    by (intro enqueue_no_faults) simp
  then show ?thesis by (metis prod.collapse that)
qed

theorem EnqueueWithMarks_atomic_witness:
  "\<exists>b'. EnqueueWithMarks no_faults ''telemetry'' ''cccc'' [demo_mark] 3 demo_buffer = (None, b')
      \<and> ledger_stamp (buf_db b') ''Log_1.gz'' = Some (fm_Stamp demo_mark)"
proof -
  obtain b' where e: "EnqueueWithMarks no_faults ''telemetry'' ''cccc'' [demo_mark] 3 demo_buffer = (None, b')"
    by (rule demo_enqueue)
  from EnqueueWithMarks_atomic [OF demo_buffer_ok e] e show ?thesis by (auto simp: demo_mark_def)
qed

theorem EnqueueWithMarks_refines_fifo_witness:
  "\<exists>b'. EnqueueWithMarks no_faults ''telemetry'' ''cccc'' [demo_mark] 3 demo_buffer = (None, b')
      \<and> outbox_bodies b' = [''bbbb'', ''cccc'']"
proof -
  obtain b' where e: "EnqueueWithMarks no_faults ''telemetry'' ''cccc'' [demo_mark] 3 demo_buffer = (None, b')"
    by (rule demo_enqueue)
  have "spec_admit (maxBytes demo_buffer) ''cccc'' (outbox_bodies demo_buffer) = Some [''bbbb'', ''cccc'']"
    by (simp add: spec_admit_def demo_buffer_def init_db_def)
  with EnqueueWithMarks_refines_fifo [OF demo_buffer_ok e] e show ?thesis by auto
qed

theorem Drain_in_order_witness:
  "\<exists>sent d'. Drain no_faults (logged (\<lambda>w k x. (w, if x = ''bbbb'' then Some () else None))) ([], ()) (buf_db demo_buffer)
       = (Some (SendError ()), (sent, ()), d')
     \<and> map fst sent = [''telemetry'', ''telemetry''] \<and> verdict sent 0 = None \<and> verdict sent 1 = Some ()
     \<and> map ob_body (outbox d') = [''bbbb'']"
proof -
  let ?s = "\<lambda>w k x. (w :: unit, if x = ''bbbb'' then Some () else None)"
  obtain r sent w' d' where e: "Drain no_faults (logged ?s) ([], ()) (buf_db demo_buffer) = (r, (sent, w'), d')"
    by (metis prod.collapse)
  have r: "r = Some (SendError ())" and sent: "sent = [(''telemetry'', ''aaa'', None), (''telemetry'', ''bbbb'', Some ())]"
    using e by (auto simp: Drain_def rows_by_id_ok [OF demo_buffer_ok], auto simp: demo_buffer_def init_db_def)
  from Drain_in_order [OF demo_buffer_ok e] obtain n m where nm: "m = Suc n" "verdict sent n = Some ()" "m \<le> 2"
    "d' = (buf_db demo_buffer)\<lparr>outbox := drop n (outbox (buf_db demo_buffer))\<rparr>"
    unfolding r by (auto simp: demo_buffer_def init_db_def)
  from nm(1,2,3) sent have "n = 1" by (cases n) auto
  with nm(4) r e sent show ?thesis by (auto simp: demo_buffer_def init_db_def)
qed

theorem outbox_cap_invariant_witness:
  "\<exists>b' w' d'. EnqueueWithMarks no_faults ''telemetry'' ''cccc'' [demo_mark] 3 demo_buffer = (None, b')
      \<and> payload (outbox (buf_db b')) \<le> 8
      \<and> Drain no_faults (\<lambda>w k x. (Suc w, None :: unit option)) 0 (buf_db demo_buffer) = (None, w', d')
      \<and> outbox_inv (demo_buffer\<lparr>buf_db := d'\<rparr>)"
proof -
  obtain b' where e: "EnqueueWithMarks no_faults ''telemetry'' ''cccc'' [demo_mark] 3 demo_buffer = (None, b')"
    by (rule demo_enqueue)
  obtain r w' d' where dr: "Drain no_faults (\<lambda>w k x. (Suc w, None :: unit option)) 0 (buf_db demo_buffer) = (r, w', d')"
    by (metis prod.collapse)
  then have r: "r = None"
    by (auto simp: Drain_def rows_by_id_ok [OF demo_buffer_ok], auto simp: demo_buffer_def init_db_def)
  have "maxBytes b' = 8"
    using db_ok_enqueue [OF demo_buffer_ok e] by (simp add: demo_buffer_def)
  with outbox_cap_invariant [OF demo_buffer_inv, of no_faults "''telemetry''" "''cccc''" "[demo_mark]" 3
      "\<lambda>w k x. (Suc w, None :: unit option)" 0 "[]" "[]" "[]"] e dr r
  show ?thesis by (auto simp: outbox_inv_def)
qed

end
