(* ===== verification/CwmpStore.thy ===== *)
theory CwmpStore
  imports Outbox
begin

text \<open>
  The CWMP side of the buffer (\<^verbatim>\<open>src/goagent/internal/buffer/cwmp_store.go\<close>), which
  implements the interface \<^verbatim>\<open>cwmp.Store\<close>: device identity, parameter cache, writability
  bits and the event queue. The methods swallow their SQL errors; the argument \<open>fails\<close>
  says whether the statement of a one-statement method fails. The interface is the locale
  \<open>cwmp_store\<close>; the buffer is shown to implement it.
\<close>

definition unixOrZero :: "int option \<Rightarrow> int" where
  "unixOrZero t = (case t of None \<Rightarrow> 0 | Some s \<Rightarrow> s)"

definition boolToInt :: "bool \<Rightarrow> int" where
  "boolToInt b = (if b then 1 else 0)"

definition UpsertDevice :: "bool \<Rightarrow> DeviceRecord \<Rightarrow> db \<Rightarrow> db" where
  "UpsertDevice fails r d =
     (if fails then d else
      d\<lparr>cwmp_devices := tbl_upsert (d_DeviceID r)
          \<lparr>dr_ip = d_IP r, dr_manufacturer = d_Manufacturer r, dr_product_class = d_ProductClass r,
           dr_serial_number = d_SerialNumber r, dr_sw_version = d_SWVersion r,
           dr_last_inform_at = unixOrZero (d_LastInformAt r), dr_writability_loaded = 0\<rparr>
          (\<lambda>row. row\<lparr>dr_ip := d_IP r, dr_manufacturer := d_Manufacturer r,
             dr_product_class := d_ProductClass r, dr_serial_number := d_SerialNumber r,
             dr_sw_version := d_SWVersion r, dr_last_inform_at := unixOrZero (d_LastInformAt r)\<rparr>)
          (cwmp_devices d)\<rparr>)"

definition CacheParam :: "bool \<Rightarrow> string \<Rightarrow> string \<Rightarrow> string \<Rightarrow> int \<Rightarrow> db \<Rightarrow> db" where
  "CacheParam fails dev path v now d =
     (if fails then d else
      d\<lparr>cwmp_params := tbl_upsert (dev, path)
          \<lparr>pr_value = Some v, pr_writable = None, pr_cached_at = now\<rparr>
          (\<lambda>row. row\<lparr>pr_value := Some v, pr_cached_at := now\<rparr>) (cwmp_params d)\<rparr>)"

fun writability_loop ::
    "faults \<Rightarrow> nat \<Rightarrow> string \<Rightarrow> ParameterInfoStruct list \<Rightarrow> int \<Rightarrow> db \<Rightarrow> db option" where
  "writability_loop flt i dev [] now d = Some d"
| "writability_loop flt i dev (n # ns) now d =
     (if flt (WriteStmt i) then None
      else writability_loop flt (Suc i) dev ns now
        (d\<lparr>cwmp_params := tbl_upsert (dev, pi_Name n)
            \<lparr>pr_value = None, pr_writable = Some (boolToInt (pi_Writable n)), pr_cached_at = now\<rparr>
            (\<lambda>row. row\<lparr>pr_writable := Some (boolToInt (pi_Writable n))\<rparr>) (cwmp_params d)\<rparr>))"

definition SaveWritability ::
    "faults \<Rightarrow> string \<Rightarrow> ParameterInfoStruct list \<Rightarrow> int \<Rightarrow> db \<Rightarrow> db" where
  "SaveWritability flt dev names now d =
     (if flt BeginTx then d
      else case writability_loop flt 0 dev names now d of
        None \<Rightarrow> d
      | Some d1 \<Rightarrow>
          if flt (WriteStmt (length names)) \<or> flt CommitTx then d
          else d1\<lparr>cwmp_devices := tbl_update_where dev (\<lambda>r. r\<lparr>dr_writability_loaded := 1\<rparr>)
                   (cwmp_devices d1)\<rparr>)"

definition HasWritabilityMap :: "bool \<Rightarrow> string \<Rightarrow> db \<Rightarrow> bool" where
  "HasWritabilityMap fails dev d =
     (if fails then False
      else case map_of (cwmp_devices d) dev of
        None \<Rightarrow> False | Some r \<Rightarrow> dr_writability_loaded r = 1)"

definition GetParams :: "bool \<Rightarrow> string \<Rightarrow> string list \<Rightarrow> db \<Rightarrow> (string, string) tbl" where
  "GetParams fails dev paths d =
     (if paths = [] \<or> fails then []
      else map (\<lambda>((_, p), r). (p, the (pr_value r)))
        (filter (\<lambda>((dv, p), r). dv = dev \<and> p \<in> set paths \<and> pr_value r \<noteq> None) (cwmp_params d)))"

definition device_of_row :: "string \<times> device_row \<Rightarrow> DeviceRecord" where
  "device_of_row kr = (case kr of (k, r) \<Rightarrow>
     \<lparr>d_DeviceID = k, d_IP = dr_ip r, d_Manufacturer = dr_manufacturer r,
      d_ProductClass = dr_product_class r, d_SerialNumber = dr_serial_number r,
      d_SWVersion = dr_sw_version r,
      d_LastInformAt = (if dr_last_inform_at r > 0 then Some (dr_last_inform_at r) else None)\<rparr>)"

definition ListDevices :: "bool \<Rightarrow> db \<Rightarrow> DeviceRecord list" where
  "ListDevices fails d = (if fails then [] else map device_of_row (sort_key fst (cwmp_devices d)))"

definition DeviceIP :: "bool \<Rightarrow> string \<Rightarrow> db \<Rightarrow> string" where
  "DeviceIP fails dev d =
     (if fails then '''' else case map_of (cwmp_devices d) dev of None \<Rightarrow> '''' | Some r \<Rightarrow> dr_ip r)"

definition EmitEvent ::
    "bool \<Rightarrow> string \<Rightarrow> string \<Rightarrow> string \<Rightarrow> string \<Rightarrow> string \<Rightarrow> int \<Rightarrow> db \<Rightarrow> db" where
  "EmitEvent fails dev module etype severity message now d =
     (if fails then d else
      d\<lparr>cwmp_events := cwmp_events d @
          [\<lparr>er_id = events_seq d + 1, er_device_id = dev, er_module = module, er_event_type = etype,
            er_severity = severity, er_message = message, er_ts = now, er_uploaded = 0\<rparr>],
        events_seq := events_seq d + 1\<rparr>)"

definition stored_event :: "event_row \<Rightarrow> StoredEvent" where
  "stored_event r = \<lparr>se_DeviceID = er_device_id r, se_Module = er_module r,
     se_EventType = er_event_type r, se_Severity = er_severity r, se_Message = er_message r,
     se_TS = er_ts r\<rparr>"

fun drain_events_loop :: "faults \<Rightarrow> event_row list \<Rightarrow> db \<Rightarrow> StoredEvent list \<times> db" where
  "drain_events_loop flt [] d = ([], d)"
| "drain_events_loop flt (r # rs) d =
     (if flt (UpdateRow (er_id r)) then drain_events_loop flt rs d
      else let d1 = d\<lparr>cwmp_events := map (\<lambda>x. if er_id x = er_id r then x\<lparr>er_uploaded := 1\<rparr> else x)
                        (cwmp_events d)\<rparr>;
               (out, d2) = drain_events_loop flt rs d1
           in (stored_event r # out, d2))"

definition pending_events :: "db \<Rightarrow> event_row list" where
  "pending_events d = filter (\<lambda>r. er_uploaded r = 0) (sort_key er_id (cwmp_events d))"

definition DrainEvents :: "faults \<Rightarrow> db \<Rightarrow> StoredEvent list \<times> db" where
  "DrainEvents flt d =
     (if flt SelectRows then ([], d) else drain_events_loop flt (take 500 (pending_events d)) d)"

text \<open>The cached value of a parameter, and its writable bit.\<close>

definition param_value :: "db \<Rightarrow> string \<Rightarrow> string \<Rightarrow> string option" where
  "param_value d dev p = Option.bind (map_of (cwmp_params d) (dev, p)) pr_value"

definition param_writable :: "db \<Rightarrow> string \<Rightarrow> string \<Rightarrow> int option" where
  "param_writable d dev p = Option.bind (map_of (cwmp_params d) (dev, p)) pr_writable"

subsection \<open>The interface\<close>

text \<open>
  What the session and the collector rely on: a cached value is read back, and only it
  changes; recording a device sets its address and keeps every learned writability map
  and every cached value. From these, what a whole parameter list leaves in the cache.
\<close>

locale cwmp_store =
  fixes cache :: "string \<Rightarrow> string \<Rightarrow> string \<Rightarrow> 's \<Rightarrow> 's"
    and upsert :: "DeviceRecord \<Rightarrow> 's \<Rightarrow> 's"
    and lookup :: "'s \<Rightarrow> string \<Rightarrow> string \<Rightarrow> string option"
    and has_map :: "'s \<Rightarrow> string \<Rightarrow> bool"
    and addr :: "'s \<Rightarrow> string \<Rightarrow> string"
  assumes lookup_cache: "lookup (cache dev p v s) dev' p' =
      (if dev' = dev \<and> p' = p then Some v else lookup s dev' p')"
    and has_map_cache: "has_map (cache dev p v s) = has_map s"
    and addr_cache: "addr (cache dev p v s) = addr s"
    and lookup_upsert: "lookup (upsert r s) = lookup s"
    and has_map_upsert: "has_map (upsert r s) = has_map s"
    and addr_upsert: "addr (upsert r s) dev = (if dev = d_DeviceID r then d_IP r else addr s dev)"
begin

lemma lookup_cache_list:
  "lookup (fold (\<lambda>pv. cache dev (pv_Name pv) (vn_Text (pv_Value pv))) pvs s) dev' p =
     (case find (\<lambda>pv. pv_Name pv = p) (rev pvs) of
        Some pv \<Rightarrow> if dev' = dev then Some (vn_Text (pv_Value pv)) else lookup s dev' p
      | None \<Rightarrow> lookup s dev' p)"
proof (induction pvs arbitrary: s rule: rev_induct)
  case (snoc pv pvs)
  then show ?case by (auto simp: lookup_cache split: option.splits)
qed simp

lemma has_map_cache_list:
  "has_map (fold (\<lambda>pv. cache dev (pv_Name pv) (vn_Text (pv_Value pv))) pvs s) = has_map s"
  by (induction pvs arbitrary: s) (auto simp: has_map_cache)

lemma addr_cache_list:
  "addr (fold (\<lambda>pv. cache dev (pv_Name pv) (vn_Text (pv_Value pv))) pvs s) = addr s"
  by (induction pvs arbitrary: s) (auto simp: addr_cache)

lemma lookup_other_device:
  "dev' \<noteq> dev \<Longrightarrow>
     lookup (fold (\<lambda>pv. cache dev (pv_Name pv) (vn_Text (pv_Value pv))) pvs s) dev' p = lookup s dev' p"
  by (simp add: lookup_cache_list split: option.splits)

end

lemma param_value_CacheParam:
  "param_value (CacheParam fails dev p v now d) dev' p' =
     (if \<not> fails \<and> dev' = dev \<and> p' = p then Some v else param_value d dev' p')"
  by (auto simp: param_value_def CacheParam_def split: option.splits)

lemma CacheParam_devices [simp]: "cwmp_devices (CacheParam fails dev p v now d) = cwmp_devices d"
  by (simp add: CacheParam_def)

lemma UpsertDevice_params [simp]: "cwmp_params (UpsertDevice fails r d) = cwmp_params d"
  by (simp add: UpsertDevice_def)

lemma HasWritabilityMap_UpsertDevice:
  "HasWritabilityMap f dev (UpsertDevice fails r d) = HasWritabilityMap f dev d"
  by (auto simp: HasWritabilityMap_def UpsertDevice_def split: option.splits)

lemma DeviceIP_UpsertDevice:
  "DeviceIP False dev (UpsertDevice False r d) = (if dev = d_DeviceID r then d_IP r else DeviceIP False dev d)"
  by (auto simp: DeviceIP_def UpsertDevice_def split: option.splits)

interpretation buf_store: cwmp_store
    "\<lambda>dev p v d. CacheParam False dev p v now d" "UpsertDevice False" param_value
    "\<lambda>d dev. HasWritabilityMap False dev d" "\<lambda>d dev. DeviceIP False dev d" for now
proof unfold_locales
  fix dev p v d dev' p'
  show "param_value (CacheParam False dev p v now d) dev' p' =
      (if dev' = dev \<and> p' = p then Some v else param_value d dev' p')"
    by (simp add: param_value_CacheParam)
  show "(\<lambda>dv. HasWritabilityMap False dv (CacheParam False dev p v now d)) = (\<lambda>dv. HasWritabilityMap False dv d)"
    by (simp add: HasWritabilityMap_def)
  show "(\<lambda>dv. DeviceIP False dv (CacheParam False dev p v now d)) = (\<lambda>dv. DeviceIP False dv d)"
    by (simp add: DeviceIP_def)
next
  fix r d dev
  show "param_value (UpsertDevice False r d) = param_value d"
    by (simp add: param_value_def fun_eq_iff)
  show "(\<lambda>dv. HasWritabilityMap False dv (UpsertDevice False r d)) = (\<lambda>dv. HasWritabilityMap False dv d)"
    by (simp add: HasWritabilityMap_UpsertDevice)
  show "DeviceIP False dev (UpsertDevice False r d) = (if dev = d_DeviceID r then d_IP r else DeviceIP False dev d)"
    by (rule DeviceIP_UpsertDevice)
qed

subsection \<open>Reading parameters\<close>

lemma map_of_param_rows:
  "keyed t \<Longrightarrow>
   map_of (map (\<lambda>((_, p), r). (p, the (pr_value r)))
      (filter (\<lambda>((dv, p), r). dv = dev \<and> p \<in> set paths \<and> pr_value r \<noteq> None) t)) p =
     (if p \<in> set paths then Option.bind (map_of t (dev, p)) pr_value else None)"
proof (induction t)
  case (Cons row t)
  obtain dv q r where row: "row = ((dv, q), r)" by (metis prod.collapse)
  have fresh: "map_of t (dv, q) = None"
    using Cons.prems row by (auto simp: map_of_eq_None_iff)
  show ?case
    using Cons.IH Cons.prems fresh by (cases "pr_value r") (auto simp: row)
qed simp

lemma map_of_GetParams:
  "db_ok d \<Longrightarrow> map_of (GetParams False dev paths d) p = (if p \<in> set paths then param_value d dev p else None)"
  by (simp add: GetParams_def map_of_param_rows param_value_def db_ok_def del: not_None_eq)

lemma GetParams_keys: "fst ` set (GetParams fails dev paths d) \<subseteq> set paths"
  by (auto simp: GetParams_def)

subsection \<open>The writability walk\<close>

lemma writability_loop_frame:
  "writability_loop flt i dev ns now d = Some d' \<Longrightarrow>
     d' = d\<lparr>cwmp_params := cwmp_params d'\<rparr> \<and> param_value d' = param_value d
     \<and> (keyed (cwmp_params d) \<longrightarrow> keyed (cwmp_params d'))"
proof (induction flt i dev ns now d rule: writability_loop.induct)
  case (2 flt i dev n ns now d)
  let ?d1 = "d\<lparr>cwmp_params := tbl_upsert (dev, pi_Name n)
      \<lparr>pr_value = None, pr_writable = Some (boolToInt (pi_Writable n)), pr_cached_at = now\<rparr>
      (\<lambda>row. row\<lparr>pr_writable := Some (boolToInt (pi_Writable n))\<rparr>) (cwmp_params d)\<rparr>"
  have "param_value ?d1 = param_value d"
    by (auto simp: param_value_def fun_eq_iff split: option.splits)
  with 2 show ?case by (auto split: if_splits)
qed auto

lemma writability_loop_bits:
  "writability_loop flt i dev ns now d = Some d' \<Longrightarrow>
     param_writable d' dv p =
       (case find (\<lambda>n. pi_Name n = p) (rev ns) of
          Some n \<Rightarrow> if dv = dev then Some (boolToInt (pi_Writable n)) else param_writable d dv p
        | None \<Rightarrow> param_writable d dv p)"
proof (induction flt i dev ns now d rule: writability_loop.induct)
  case (2 flt i dev n ns now d)
  then show ?case
    by (auto simp: find_append param_writable_def split: if_splits option.splits)
qed simp

lemma writability_loop_no_faults: "\<exists>d'. writability_loop no_faults i dev ns now d = Some d'"
  by (induction ns arbitrary: i d) auto

text \<open>The first-contact writability walk is stored all or nothing: either the store is
  unchanged, or every name of the walk has its writable bit (the last entry of a repeated
  name wins), no other bit and no cached value changed, and a known device now counts as
  walked.\<close>

theorem SaveWritability_all_or_nothing:
  assumes "d' = SaveWritability flt dev names now d"
  shows "d' = d \<or>
    ((\<forall>dv p. param_writable d' dv p =
        (case find (\<lambda>n. pi_Name n = p) (rev names) of
           Some n \<Rightarrow> if dv = dev then Some (boolToInt (pi_Writable n)) else param_writable d dv p
         | None \<Rightarrow> param_writable d dv p))
     \<and> param_value d' = param_value d
     \<and> (\<forall>dv. HasWritabilityMap False dv d' \<longleftrightarrow>
          HasWritabilityMap False dv d \<or> (dv = dev \<and> map_of (cwmp_devices d) dev \<noteq> None))
     \<and> outbox d' = outbox d \<and> ftp_ingested d' = ftp_ingested d \<and> cwmp_events d' = cwmp_events d)"
proof (cases "d' = d")
  case False
  then obtain d1 where d1: "writability_loop flt 0 dev names now d = Some d1"
    and d': "d' = d1\<lparr>cwmp_devices := tbl_update_where dev (\<lambda>r. r\<lparr>dr_writability_loaded := 1\<rparr>)
               (cwmp_devices d1)\<rparr>"
    using assms by (auto simp: SaveWritability_def split: if_splits option.splits)
  from writability_loop_frame [OF d1] obtain ps where ps: "d1 = d\<lparr>cwmp_params := ps\<rparr>"
    "param_value d1 = param_value d" by blast
  have "param_writable d' dv p = param_writable d1 dv p" for dv p
    by (simp add: d' param_writable_def)
  with writability_loop_bits [OF d1] have
    "\<forall>dv p. param_writable d' dv p =
        (case find (\<lambda>n. pi_Name n = p) (rev names) of
           Some n \<Rightarrow> if dv = dev then Some (boolToInt (pi_Writable n)) else param_writable d dv p
         | None \<Rightarrow> param_writable d dv p)"
    by simp
  moreover have "param_value d' = param_value d"
    using ps(2) by (simp add: d' param_value_def fun_eq_iff)
  moreover have "HasWritabilityMap False dv d' \<longleftrightarrow>
      HasWritabilityMap False dv d \<or> (dv = dev \<and> map_of (cwmp_devices d) dev \<noteq> None)" for dv
    by (auto simp: HasWritabilityMap_def d' ps(1) split: option.splits)
  ultimately show ?thesis by (simp add: d' ps(1))
qed simp

text \<open>A walk of two names over an empty store; a walk whose second statement fails changes
  nothing.\<close>

theorem SaveWritability_all_or_nothing_witness:
  "param_writable (SaveWritability no_faults ''A-1'' [\<lparr>pi_Name = ''Device.X'', pi_Writable = True\<rparr>,
       \<lparr>pi_Name = ''Device.Y'', pi_Writable = False\<rparr>] 5 init_db) ''A-1'' ''Device.Y'' = Some 0
   \<and> SaveWritability (\<lambda>st. st = WriteStmt 1) ''A-1'' [\<lparr>pi_Name = ''Device.X'', pi_Writable = True\<rparr>,
       \<lparr>pi_Name = ''Device.Y'', pi_Writable = False\<rparr>] 5 init_db = init_db"
  using SaveWritability_all_or_nothing [OF refl, of no_faults "''A-1''"
      "[\<lparr>pi_Name = ''Device.X'', pi_Writable = True\<rparr>, \<lparr>pi_Name = ''Device.Y'', pi_Writable = False\<rparr>]" 5 init_db]
  by (auto simp: SaveWritability_def init_db_def tbl_upsert_def param_writable_def boolToInt_def)

lemma SaveWritability_no_faults_marks:
  "map_of (cwmp_devices d) dev = Some r \<Longrightarrow> HasWritabilityMap False dev (SaveWritability no_faults dev names now d)"
proof -
  assume dev: "map_of (cwmp_devices d) dev = Some r"
  obtain d1 where d1: "writability_loop no_faults 0 dev names now d = Some d1"
    using writability_loop_no_faults by blast
  have "cwmp_devices d1 = cwmp_devices d"
    using writability_loop_frame [OF d1] by (metis db.ext_inject db.surjective db.update_convs(5))
  then show ?thesis
    using dev d1 by (simp add: HasWritabilityMap_def SaveWritability_def)
qed

subsection \<open>The event queue\<close>

abbreviation marked_ok :: "faults \<Rightarrow> event_row list \<Rightarrow> event_row list" where
  "marked_ok flt rs \<equiv> filter (\<lambda>r. \<not> flt (UpdateRow (er_id r))) rs"

lemma drain_events_loop_eq:
  "drain_events_loop flt rs d =
     (map stored_event (marked_ok flt rs),
      d\<lparr>cwmp_events := map (\<lambda>x. if er_id x \<in> er_id ` set (marked_ok flt rs)
          then x\<lparr>er_uploaded := 1\<rparr> else x) (cwmp_events d)\<rparr>)"
proof (induction rs arbitrary: d)
  case (Cons r rs)
  show ?case
  proof (cases "flt (UpdateRow (er_id r))")
    case False
    then show ?thesis by (auto simp: Let_def Cons.IH split: prod.splits)
  qed (simp add: Cons.IH)
qed simp

lemma pending_events_ok:
  "db_ok d \<Longrightarrow> pending_events d = filter (\<lambda>r. er_uploaded r = 0) (cwmp_events d)"
  using ids_ok_sort [of er_id "cwmp_events d" "events_seq d"] by (simp add: pending_events_def db_ok_def)

lemma ids_ok_inj:
  "ids_ok (map f xs) s \<Longrightarrow> x \<in> set xs \<Longrightarrow> y \<in> set xs \<Longrightarrow> f x = f y \<Longrightarrow> x = y"
  by (auto simp: ids_ok_def strict_sorted_iff distinct_map inj_on_def)

lemma pending_after_mark:
  assumes "\<And>x. x \<in> set xs \<Longrightarrow> er_id x \<in> er_id ` T \<longleftrightarrow> x \<in> T"
  shows "filter (\<lambda>r. er_uploaded r = 0) (map (\<lambda>x. if er_id x \<in> er_id ` T then x\<lparr>er_uploaded := 1\<rparr> else x) xs)
       = filter (\<lambda>r. r \<notin> T) (filter (\<lambda>r. er_uploaded r = 0) xs)"
  using assms by (induction xs) auto

lemma DrainEvents_spec:
  assumes ok: "db_ok d" and dr: "DrainEvents flt d = (out, d')"
  shows "\<exists>taken. out = map stored_event taken
     \<and> taken = (if flt SelectRows then [] else marked_ok flt (take 500 (pending_events d)))
     \<and> pending_events d' = filter (\<lambda>r. r \<notin> set taken) (pending_events d)
     \<and> db_ok d' \<and> outbox d' = outbox d \<and> ftp_ingested d' = ftp_ingested d"
proof (cases "flt SelectRows")
  case True
  with ok dr show ?thesis by (simp add: DrainEvents_def)
next
  case False
  let ?t = "marked_ok flt (take 500 (pending_events d))"
  let ?g = "\<lambda>x. if er_id x \<in> er_id ` set ?t then x\<lparr>er_uploaded := 1\<rparr> else x"
  have out: "out = map stored_event ?t" and d': "d' = d\<lparr>cwmp_events := map ?g (cwmp_events d)\<rparr>"
    using dr False by (auto simp: DrainEvents_def drain_events_loop_eq)
  have "map er_id (map ?g xs) = map er_id xs" for xs :: "event_row list"
    by (induction xs) auto
  then have ok': "db_ok d'"
    using ok by (simp add: db_ok_def d' del: map_map)
  have evs: "ids_ok (map er_id (cwmp_events d)) (events_seq d)" using ok by (simp add: db_ok_def)
  have sub: "set ?t \<subseteq> set (cwmp_events d)"
    by (auto simp: pending_events_ok [OF ok] dest: in_set_takeD)
  have mem: "er_id x \<in> er_id ` set ?t \<longleftrightarrow> x \<in> set ?t" if "x \<in> set (cwmp_events d)" for x
    using ids_ok_inj [OF evs] sub that by blast
  have "pending_events d' = filter (\<lambda>r. er_uploaded r = 0) (map ?g (cwmp_events d))"
    unfolding pending_events_ok [OF ok'] by (simp add: d')
  also have "\<dots> = filter (\<lambda>r. r \<notin> set ?t) (filter (\<lambda>r. er_uploaded r = 0) (cwmp_events d))"
    by (rule pending_after_mark) (rule mem)
  also have "\<dots> = filter (\<lambda>r. r \<notin> set ?t) (pending_events d)"
    by (simp only: pending_events_ok [OF ok])
  finally have "pending_events d' = filter (\<lambda>r. r \<notin> set ?t) (pending_events d)" .
  with out False ok' d' show ?thesis by auto
qed

text \<open>C30. The event queue hands each event over once: the call returns, oldest first and at
  most 500 of them, exactly the pending events it managed to mark, and afterwards exactly
  the others are still pending, in order.\<close>

theorem DrainEvents_hand_over:
  assumes ok: "db_ok d" and dr: "DrainEvents flt d = (out, d')"
  shows "\<exists>taken. out = map stored_event taken
     \<and> taken = (if flt SelectRows then [] else marked_ok flt (take 500 (pending_events d)))
     \<and> pending_events d' = filter (\<lambda>r. r \<notin> set taken) (pending_events d)
     \<and> db_ok d' \<and> outbox d' = outbox d \<and> ftp_ingested d' = ftp_ingested d"
  using DrainEvents_spec [OF assms] .

subsection \<open>Every store operation keeps the file well formed\<close>

lemma db_ok_UpsertDevice [simp]: "db_ok d \<Longrightarrow> db_ok (UpsertDevice fails r d)"
  by (simp add: db_ok_def UpsertDevice_def)

lemma db_ok_CacheParam [simp]: "db_ok d \<Longrightarrow> db_ok (CacheParam fails dev p v now d)"
  by (simp add: db_ok_def CacheParam_def)

lemma db_ok_EmitEvent [simp]: "db_ok d \<Longrightarrow> db_ok (EmitEvent fails dev m t sev msg now d)"
  by (simp add: db_ok_def EmitEvent_def ids_ok_append)

lemma db_ok_SaveWritability [simp]:
  assumes "db_ok d"
  shows "db_ok (SaveWritability flt dev names now d)"
proof (cases "writability_loop flt 0 dev names now d")
  case (Some d1)
  from writability_loop_frame [OF Some] obtain ps where "d1 = d\<lparr>cwmp_params := ps\<rparr>"
    "keyed (cwmp_params d) \<longrightarrow> keyed ps" by (metis db.simps(5) db.update_convs(5) db.surjective)
  with assms Some show ?thesis by (simp add: SaveWritability_def db_ok_def)
qed (use assms in \<open>simp add: SaveWritability_def\<close>)

lemma db_ok_DrainEvents: "db_ok d \<Longrightarrow> DrainEvents flt d = (out, d') \<Longrightarrow> db_ok d'"
  using DrainEvents_spec by blast

text \<open>Two pending events and an update that fails for the first: only the second is
  handed over, and the first stays pending.\<close>

definition demo_events_db :: db where
  "demo_events_db = EmitEvent False ''A-1'' ''TR69'' ''boot'' ''info'' ''second'' 8
     (EmitEvent False ''A-1'' ''TR69'' ''boot'' ''info'' ''first'' 7 init_db)"

theorem DrainEvents_hand_over_witness:
  "fst (DrainEvents (\<lambda>st. st = UpdateRow 1) demo_events_db) =
     [\<lparr>se_DeviceID = ''A-1'', se_Module = ''TR69'', se_EventType = ''boot'', se_Severity = ''info'',
       se_Message = ''second'', se_TS = 8\<rparr>]
   \<and> db_ok (snd (DrainEvents (\<lambda>st. st = UpdateRow 1) demo_events_db))"
proof -
  have ok: "db_ok demo_events_db" by (simp add: demo_events_db_def)
  from DrainEvents_hand_over [OF ok, of "\<lambda>st. st = UpdateRow 1", OF prod.collapse [symmetric]]
  show ?thesis
    by (auto simp: demo_events_db_def init_db_def EmitEvent_def pending_events_def stored_event_def)
qed

subsection \<open>Listing devices\<close>

lemma ListDevices_ids:
  "d_DeviceID ` set (ListDevices False d) = fst ` set (cwmp_devices d)"
  by (auto simp: ListDevices_def device_of_row_def image_image case_prod_beta)

lemma ListDevices_mem:
  assumes "db_ok d" and "r \<in> set (ListDevices fails d)"
  obtains row where "map_of (cwmp_devices d) (d_DeviceID r) = Some row" "dr_serial_number row = d_SerialNumber r"
    "r = device_of_row (d_DeviceID r, row)"
proof -
  from assms(2) obtain k row where kr: "(k, row) \<in> set (cwmp_devices d)" "r = device_of_row (k, row)"
    by (auto simp: ListDevices_def split: if_splits)
  moreover have "map_of (cwmp_devices d) k = Some row"
    using assms(1) kr(1) by (simp add: db_ok_def)
  ultimately show ?thesis by (intro that [of row]) (simp_all add: device_of_row_def)
qed

lemma ListDevices_sorted: "sorted (map d_DeviceID (ListDevices fails d))"
  by (simp add: ListDevices_def comp_def device_of_row_def case_prod_beta)

end
