(* ===== verification/Session.thy ===== *)
theory Session
  imports CwmpStore
begin

text \<open>
  The per-device CWMP session (\<^verbatim>\<open>src/goagent/internal/cwmp/session.go\<close>) and the waiting
  side of it (\<open>Await\<close> in \<^verbatim>\<open>server.go\<close>). A handler takes the session and the store and
  returns the message to send (\<open>None\<close>: 204), the session and the store. The two Go channels
  of a session are bounded lists; the private channel of a waiter has an identity (a
  number), because \<open>waiters\<close> maps a command id to a channel and a waiter keeps its own
  channel even if the map is changed. Which statements of the store fail is the argument
  \<open>sf\<close>; \<open>now\<close> is the clock.
\<close>

record Session =
  s_IP :: string
  s_DeviceID :: string
  s_MsgID :: string
  s_taskQueue :: "Task list"
  s_results :: "TaskResult list"
  s_waiters :: "(string, nat) tbl"
  s_chans :: "(nat, TaskResult) tbl"
  s_nextChan :: nat
  s_inflight :: "Task option"
  s_firstContactGPV :: "string list"

definition chanCap :: nat where
  "chanCap = 256"

datatype store_call = UpsertCall | CacheCall nat | HasMapCall | EmitCall | SaveCall stmt

type_synonym store_faults = "store_call \<Rightarrow> bool"

abbreviation no_store_faults :: store_faults where
  "no_store_faults \<equiv> (\<lambda>_. False)"

definition swVersion :: "ParameterValueStruct list \<Rightarrow> string" where
  "swVersion params =
     (case find (\<lambda>pv. pv_Name pv = ''Device.DeviceInfo.SoftwareVersion'') params of
        Some pv \<Rightarrow> vn_Text (pv_Value pv) | None \<Rightarrow> '''')"

definition enqueue :: "Task \<Rightarrow> Session \<Rightarrow> Session" where
  "enqueue t s = s\<lparr>s_taskQueue := chan_send chanCap t (s_taskQueue s)\<rparr>"

definition request_of :: "Task \<Rightarrow> acs_msg" where
  "request_of t = (case t_Type t of
     TaskGPV \<Rightarrow> GetParameterValues (t_Paths t)
   | TaskSPV \<Rightarrow> SetParameterValues (t_Writes t) (t_CmdKey t)
   | TaskGPN \<Rightarrow> GetParameterNames (case t_Paths t of [] \<Rightarrow> ''Device.'' | p # _ \<Rightarrow> p) False
   | TaskReboot \<Rightarrow> Reboot (t_CmdKey t))"

definition nextTask :: "Session \<Rightarrow> acs_msg option \<times> Session" where
  "nextTask s = (case s_taskQueue s of
     [] \<Rightarrow> (None, s)
   | t # q \<Rightarrow> (Some (request_of t), s\<lparr>s_taskQueue := q, s_inflight := Some t\<rparr>))"

definition deliver_shared :: "TaskResult \<Rightarrow> Session \<Rightarrow> Session" where
  "deliver_shared res s = s\<lparr>s_results := chan_send chanCap res (s_results s)\<rparr>"

definition deliver :: "TaskResult \<Rightarrow> Session \<Rightarrow> Session" where
  "deliver res s = (case map_of (s_waiters s) (tr_CommandID res) of
     Some c \<Rightarrow> (if map_of (s_chans s) c = None then s\<lparr>s_chans := (c, res) # s_chans s\<rparr>
                else deliver_shared res s)
   | None \<Rightarrow> deliver_shared res s)"

definition waitFor :: "string \<Rightarrow> Session \<Rightarrow> nat \<times> Session" where
  "waitFor cid s = (s_nextChan s,
     s\<lparr>s_waiters := AList.update cid (s_nextChan s) (s_waiters s), s_nextChan := Suc (s_nextChan s)\<rparr>)"

definition release :: "string \<Rightarrow> Session \<Rightarrow> Session" where
  "release cid s = s\<lparr>s_waiters := AList.delete cid (s_waiters s)\<rparr>"

definition finishInflight :: "TaskResult \<Rightarrow> Session \<Rightarrow> acs_msg option \<times> Session" where
  "finishInflight res s =
     nextTask (case s_inflight s of
        None \<Rightarrow> s
      | Some t \<Rightarrow>
          (if t_CommandID t \<noteq> '''' then deliver (res\<lparr>tr_CommandID := t_CommandID t\<rparr>) s else s)
            \<lparr>s_inflight := None\<rparr>)"

definition requeueOrphanedTask :: "Session \<Rightarrow> Session" where
  "requeueOrphanedTask s = (case s_inflight s of
     None \<Rightarrow> s\<lparr>s_inflight := None\<rparr>
   | Some t \<Rightarrow>
       if t_CommandID t = '''' \<or> t_Type t = TaskReboot then s\<lparr>s_inflight := None\<rparr>
       else s\<lparr>s_inflight := None, s_taskQueue := chan_send chanCap t (s_taskQueue s)\<rparr>)"

fun cache_list :: "store_faults \<Rightarrow> nat \<Rightarrow> string \<Rightarrow> ParameterValueStruct list \<Rightarrow> int \<Rightarrow> db \<Rightarrow> db" where
  "cache_list sf i dev [] now d = d"
| "cache_list sf i dev (pv # pvs) now d =
     cache_list sf (Suc i) dev pvs now
       (CacheParam (sf (CacheCall i)) dev (pv_Name pv) (vn_Text (pv_Value pv)) now d)"

definition onInform ::
    "store_faults \<Rightarrow> int \<Rightarrow> Inform \<Rightarrow> Session \<Rightarrow> db \<Rightarrow> acs_msg option \<times> Session \<times> db" where
  "onInform sf now ifm s d =
     (let di = inf_DeviceID ifm;
          s1 = s\<lparr>s_DeviceID := CanonicalID (di_OUI di) (di_ProductClass di) (di_SerialNumber di)\<rparr>;
          d1 = UpsertDevice (sf UpsertCall)
                 \<lparr>d_DeviceID = s_DeviceID s1, d_IP = s_IP s1, d_Manufacturer = di_Manufacturer di,
                  d_ProductClass = di_ProductClass di, d_SerialNumber = di_SerialNumber di,
                  d_SWVersion = swVersion (inf_ParameterList ifm), d_LastInformAt = Some now\<rparr> d;
          d2 = cache_list sf 0 (s_DeviceID s1) (inf_ParameterList ifm) now d1;
          s2 = (if HasWritabilityMap (sf HasMapCall) (s_DeviceID s1) d2 then s1
                else let s' = enqueue (zero_Task\<lparr>t_Type := TaskGPN, t_Paths := [''Device.'']\<rparr>) s1
                     in if s_firstContactGPV s' \<noteq> []
                        then enqueue (zero_Task\<lparr>t_Type := TaskGPV, t_Paths := s_firstContactGPV s'\<rparr>) s'
                        else s')
      in (Some (InformResponse 1), s2, d2))"

definition onGetRPCMethods :: "acs_msg option" where
  "onGetRPCMethods = Some (GetRPCMethodsResponse
     [''GetRPCMethods'', ''Inform'', ''TransferComplete'', ''AutonomousTransferComplete''])"

definition onATC ::
    "store_faults \<Rightarrow> int \<Rightarrow> AutonomousTransferComplete \<Rightarrow> Session \<Rightarrow> db \<Rightarrow> acs_msg option \<times> Session \<times> db" where
  "onATC sf now atc s d =
     (let code = fs_FaultCode (atc_FaultStruct atc);
          severity = (if code \<noteq> 0 then ''major'' else ''info'')
      in (Some AutonomousTransferCompleteResponse, s,
          EmitEvent (sf EmitCall) (s_DeviceID s) ''TR69'' ''autonomous_transfer_complete'' severity
            (''ATC '' @ atc_TargetFileName atc @ '' ('' @ show_int (atc_FileSize atc) @ ''B) fault='' @ show_int code)
            now d))"

definition gpv_params :: "ParameterValueStruct list \<Rightarrow> (string, string) tbl" where
  "gpv_params pvs = fold (\<lambda>pv. AList.update (pv_Name pv) (vn_Text (pv_Value pv))) pvs []"

definition onGPV ::
    "store_faults \<Rightarrow> int \<Rightarrow> ParameterValueStruct list \<Rightarrow> Session \<Rightarrow> db \<Rightarrow> acs_msg option \<times> Session \<times> db" where
  "onGPV sf now pvs s d =
     (let d1 = cache_list sf 0 (s_DeviceID s) pvs now d;
          (m, s1) = finishInflight (zero_TaskResult\<lparr>tr_Type := TaskGPV, tr_Params := gpv_params pvs\<rparr>) s
      in (m, s1, d1))"

definition onSPV :: "int \<Rightarrow> Session \<Rightarrow> db \<Rightarrow> acs_msg option \<times> Session \<times> db" where
  "onSPV status s d =
     (let (m, s1) = finishInflight (zero_TaskResult\<lparr>tr_Type := TaskSPV, tr_Status := status\<rparr>) s
      in (m, s1, d))"

definition onGPN ::
    "store_faults \<Rightarrow> int \<Rightarrow> ParameterInfoStruct list \<Rightarrow> Session \<Rightarrow> db \<Rightarrow> acs_msg option \<times> Session \<times> db" where
  "onGPN sf now names s d =
     (let d1 = SaveWritability (\<lambda>st. sf (SaveCall st)) (s_DeviceID s) names now d;
          (m, s1) = finishInflight (zero_TaskResult\<lparr>tr_Type := TaskGPN, tr_Names := names\<rparr>) s
      in (m, s1, d1))"

definition onFault :: "Fault \<Rightarrow> Session \<Rightarrow> db \<Rightarrow> acs_msg option \<times> Session \<times> db" where
  "onFault f s d = (case s_inflight s of
     Some t \<Rightarrow>
       (let (m, s1) = finishInflight
              (zero_TaskResult\<lparr>tr_Type := t_Type t, tr_Err := cf_FaultString (f_Detail f)\<rparr>) s
        in (m, s1, d))
   | None \<Rightarrow> (None, s, d))"

text \<open>The message switch of \<open>Handle\<close>: first the calls of the device, then
  (\<open>handle_reply\<close>) its answers to our calls, a fault, or anything else.\<close>

definition handle_reply ::
    "store_faults \<Rightarrow> int \<Rightarrow> Body \<Rightarrow> Session \<Rightarrow> db \<Rightarrow> acs_msg option \<times> Session \<times> db" where
  "handle_reply sf now b s d =
     (case b_GetParameterValuesResponse b of Some pvs \<Rightarrow> onGPV sf now pvs s d
    | None \<Rightarrow> case b_SetParameterValuesResponse b of Some st \<Rightarrow> onSPV st s d
    | None \<Rightarrow> case b_GetParameterNamesResponse b of Some ns \<Rightarrow> onGPN sf now ns s d
    | None \<Rightarrow> if b_RebootResponse b \<noteq> None
       then let (m, s1) = finishInflight (zero_TaskResult\<lparr>tr_Type := TaskReboot\<rparr>) s in (m, s1, d)
       else case b_Fault b of Some f \<Rightarrow> onFault f s d
    | None \<Rightarrow> let (m, s1) = nextTask s in (m, s1, d))"

definition Handle ::
    "store_faults \<Rightarrow> int \<Rightarrow> Envelope \<Rightarrow> Session \<Rightarrow> db \<Rightarrow> acs_msg option \<times> Session \<times> db" where
  "Handle sf now env s0 d =
     (let s = s0\<lparr>s_MsgID := env_ID env\<rparr>; b = env_Body env in
      case b_Inform b of Some ifm \<Rightarrow> onInform sf now ifm (requeueOrphanedTask s) d
    | None \<Rightarrow> if b_GetRPCMethods b \<noteq> None then (onGetRPCMethods, s, d)
      else case b_AutonomousTransferComplete b of Some atc \<Rightarrow> onATC sf now atc s d
    | None \<Rightarrow> if b_TransferComplete b \<noteq> None then (Some TransferCompleteResponse, s, d)
      else handle_reply sf now b s d)"

text \<open>
  One turn of the \<^verbatim>\<open>select\<close> loop of \<open>Await\<close> for a command id and the channel \<open>waitFor\<close>
  gave; the Go runtime picks among the ready cases, so the case is an argument. A case that
  is not ready leaves the waiter waiting.
\<close>

datatype await_case = FromMine | FromResults | Deadline
datatype await_outcome = Returned TaskResult | TimedOut | Waiting

fun await_turn :: "string \<Rightarrow> nat \<Rightarrow> await_case \<Rightarrow> Session \<Rightarrow> await_outcome \<times> Session" where
  "await_turn cid c FromMine s = (case map_of (s_chans s) c of
     Some r \<Rightarrow> (Returned r, s\<lparr>s_chans := AList.delete c (s_chans s)\<rparr>)
   | None \<Rightarrow> (Waiting, s))"
| "await_turn cid c FromResults s = (case s_results s of
     [] \<Rightarrow> (Waiting, s)
   | r # rs \<Rightarrow> (if tr_CommandID r = cid then (Returned r, s\<lparr>s_results := rs\<rparr>)
               else (Waiting, deliver r (s\<lparr>s_results := rs\<rparr>))))"
| "await_turn cid c Deadline s = (TimedOut, s)"

text \<open>The anonymous wait takes whatever is published next.\<close>

definition await_any :: "await_case \<Rightarrow> Session \<Rightarrow> await_outcome \<times> Session" where
  "await_any ch s = (case ch of
     FromResults \<Rightarrow> (case s_results s of [] \<Rightarrow> (Waiting, s) | r # rs \<Rightarrow> (Returned r, s\<lparr>s_results := rs\<rparr>))
   | Deadline \<Rightarrow> (TimedOut, s)
   | FromMine \<Rightarrow> (Waiting, s))"

lemmas handler_defs [cwmp_defs] = onInform_def onGetRPCMethods_def onATC_def onGPV_def onSPV_def
  onGPN_def onFault_def finishInflight_def requeueOrphanedTask_def nextTask_def enqueue_def
  deliver_def deliver_shared_def

subsection \<open>The session invariant\<close>

text \<open>
  Both channels stay within their capacity; a registered channel is one that was handed
  out, belongs to one command id only, and holds at most a result of that command.
\<close>

definition waiters_ok :: "(string, nat) tbl \<Rightarrow> (nat, TaskResult) tbl \<Rightarrow> nat \<Rightarrow> bool" where
  "waiters_ok W C n \<longleftrightarrow>
     (\<forall>cid c. map_of W cid = Some c \<longrightarrow> c < n)
     \<and> (\<forall>cid cid' c. map_of W cid = Some c \<longrightarrow> map_of W cid' = Some c \<longrightarrow> cid = cid')
     \<and> (\<forall>c r. map_of C c = Some r \<longrightarrow> c < n)
     \<and> (\<forall>cid c r. map_of W cid = Some c \<longrightarrow> map_of C c = Some r \<longrightarrow> tr_CommandID r = cid)"

definition session_inv :: "Session \<Rightarrow> bool" where
  "session_inv s \<longleftrightarrow> length (s_taskQueue s) \<le> chanCap \<and> length (s_results s) \<le> chanCap
     \<and> waiters_ok (s_waiters s) (s_chans s) (s_nextChan s)"

lemma waiters_ok_put:
  "waiters_ok W C n \<Longrightarrow> map_of W (tr_CommandID r) = Some c \<Longrightarrow> waiters_ok W ((c, r) # C) n"
  unfolding waiters_ok_def by (auto split: if_splits)

lemma waiters_ok_take: "waiters_ok W C n \<Longrightarrow> waiters_ok W (AList.delete c C) n"
  unfolding waiters_ok_def by (auto split: if_splits)

lemma waiters_ok_register: "waiters_ok W C n \<Longrightarrow> waiters_ok (AList.update cid n W) C (Suc n)"
  unfolding waiters_ok_def by (auto split: if_splits simp: less_Suc_eq)

lemma waiters_ok_release: "waiters_ok W C n \<Longrightarrow> waiters_ok (AList.delete cid W) C n"
  unfolding waiters_ok_def by (auto split: if_splits)

lemma inv_enqueue: "session_inv s \<Longrightarrow> session_inv (enqueue t s)"
  by (simp add: session_inv_def enqueue_def length_chan_send)

lemma inv_nextTask: "session_inv s \<Longrightarrow> session_inv (snd (nextTask s))"
  by (auto simp: session_inv_def nextTask_def split: list.splits)

lemma inv_deliver: "session_inv s \<Longrightarrow> session_inv (deliver r s)"
  by (auto simp: session_inv_def deliver_def deliver_shared_def length_chan_send
      intro: waiters_ok_put split: option.splits)

lemma inv_waitFor: "session_inv s \<Longrightarrow> session_inv (snd (waitFor cid s))"
  by (simp add: session_inv_def waitFor_def waiters_ok_register)

lemma inv_release: "session_inv s \<Longrightarrow> session_inv (release cid s)"
  by (simp add: session_inv_def release_def waiters_ok_release)

lemma inv_fields: "session_inv s \<Longrightarrow> session_inv (s\<lparr>s_inflight := t\<rparr>)"
  "session_inv s \<Longrightarrow> session_inv (s\<lparr>s_MsgID := m\<rparr>)"
  "session_inv s \<Longrightarrow> session_inv (s\<lparr>s_DeviceID := m\<rparr>)"
  "session_inv s \<Longrightarrow> session_inv (s\<lparr>s_IP := m\<rparr>)"
  by (simp_all add: session_inv_def)

lemma inv_finishInflight: "session_inv s \<Longrightarrow> session_inv (snd (finishInflight r s))"
  by (auto simp: finishInflight_def intro!: inv_nextTask inv_fields inv_deliver split: option.splits)

lemma inv_requeue: "session_inv s \<Longrightarrow> session_inv (requeueOrphanedTask s)"
  by (auto simp: requeueOrphanedTask_def session_inv_def length_chan_send split: option.splits)

lemma inv_onInform: "session_inv s \<Longrightarrow> session_inv (fst (snd (onInform sf now ifm s d)))"
  by (auto simp: onInform_def Let_def intro!: inv_enqueue inv_fields)

lemma inv_handle_reply: "session_inv s \<Longrightarrow> session_inv (fst (snd (handle_reply sf now b s d)))"
  using inv_finishInflight [of s] inv_nextTask [of s]
  by (auto simp: handle_reply_def onGPV_def onSPV_def onGPN_def onFault_def Let_def case_prod_beta
      split: option.splits)

lemma inv_Handle: "session_inv s \<Longrightarrow> session_inv (fst (snd (Handle sf now env s d)))"
  using inv_onInform [OF inv_requeue [OF inv_fields(2)]] inv_handle_reply [OF inv_fields(2)]
  by (auto simp: Handle_def Let_def onATC_def intro: inv_fields split: option.splits)

lemma inv_await_turn: "session_inv s \<Longrightarrow> session_inv (snd (await_turn cid c ch s))"
proof (cases ch)
  case FromMine
  assume "session_inv s"
  with FromMine show ?thesis
    by (auto simp: session_inv_def intro: waiters_ok_take split: option.splits)
next
  case FromResults
  assume "session_inv s"
  then have "s_results s = r # rs \<Longrightarrow> session_inv (s\<lparr>s_results := rs\<rparr>)" for r rs
    by (simp add: session_inv_def)
  with FromResults \<open>session_inv s\<close> show ?thesis
    by (auto intro: inv_deliver split: list.splits)
qed simp

lemma cache_list_ok: "db_ok d \<Longrightarrow> db_ok (cache_list sf i dev pvs now d)"
  by (induction sf i dev pvs now d rule: cache_list.induct) auto

lemma db_ok_Handle: "db_ok d \<Longrightarrow> db_ok (snd (snd (Handle sf now env s d)))"
  by (auto simp: Handle_def handle_reply_def onInform_def onATC_def onGPV_def onSPV_def onGPN_def
      onFault_def Let_def case_prod_beta cache_list_ok split: option.splits)

subsection \<open>All interleavings of a session\<close>

text \<open>
  The steps the goroutines around one session can take, in any order: a request of the
  device, an empty POST, a task queued by the worker, a waiter registering, taking one turn
  of its loop or releasing its channel.
\<close>

inductive session_step :: "Session \<times> db \<Rightarrow> Session \<times> db \<Rightarrow> bool" where
  request: "Handle sf now env (s\<lparr>s_IP := ip\<rparr>) d = (m, s', d') \<Longrightarrow> session_step (s, d) (s', d')"
| empty_post: "nextTask (s\<lparr>s_IP := ip\<rparr>) = (m, s') \<Longrightarrow> session_step (s, d) (s', d)"
| queue_task: "session_step (s, d) (enqueue t s, d)"
| register: "waitFor cid s = (c, s') \<Longrightarrow> session_step (s, d) (s', d)"
| turn: "await_turn cid c ch s = (out, s') \<Longrightarrow> session_step (s, d) (s', d)"
| leave: "session_step (s, d) (release cid s, d)"

inductive_cases session_stepE: "session_step (s, d) (s', d')"

inductive session_reach :: "Session \<times> db \<Rightarrow> Session \<times> db \<Rightarrow> bool" for x where
  start: "session_reach x x"
| step: "session_reach x y \<Longrightarrow> session_step y z \<Longrightarrow> session_reach x z"

lemma session_step_inv:
  assumes "session_step x y" "session_inv (fst x)" "db_ok (snd x)"
  shows "session_inv (fst y) \<and> db_ok (snd y)"
  using assms
proof (induction rule: session_step.induct)
  case (request sf now env ip s d m s' d')
  then show ?case
    using inv_Handle [of "s\<lparr>s_IP := ip\<rparr>" sf now env d] db_ok_Handle [of d sf now env "s\<lparr>s_IP := ip\<rparr>"]
    by (simp add: inv_fields)
next
  case (empty_post ip s m s' d)
  then show ?case using inv_nextTask [of "s\<lparr>s_IP := ip\<rparr>"] by (simp add: inv_fields)
next
  case (register cid s c s' d)
  then show ?case using inv_waitFor [of s cid] by simp
next
  case (turn cid c ch s out s' d)
  then show ?case using inv_await_turn [of s cid c ch] by simp
qed (auto intro: inv_enqueue inv_release)

lemma session_reach_inv:
  "session_reach x y \<Longrightarrow> session_inv (fst x) \<Longrightarrow> db_ok (snd x) \<Longrightarrow> session_inv (fst y) \<and> db_ok (snd y)"
  by (induction rule: session_reach.induct) (auto dest: session_step_inv)

subsection \<open>Answers\<close>

text \<open>
  What a device's answer to the task in flight publishes: the result a reply body carries
  for a task (\<open>None\<close>: the body answers nothing). The bodies that are calls of the device
  are told apart by \<open>device_call\<close>.
\<close>

definition device_call :: "Body \<Rightarrow> bool" where
  "device_call b \<longleftrightarrow> b_Inform b \<noteq> None \<or> b_GetRPCMethods b \<noteq> None
     \<or> b_AutonomousTransferComplete b \<noteq> None \<or> b_TransferComplete b \<noteq> None"

definition answer_of :: "Body \<Rightarrow> Task \<Rightarrow> TaskResult option" where
  "answer_of b t =
     (case b_GetParameterValuesResponse b of
        Some pvs \<Rightarrow> Some (zero_TaskResult\<lparr>tr_Type := TaskGPV, tr_Params := gpv_params pvs\<rparr>)
    | None \<Rightarrow> case b_SetParameterValuesResponse b of
        Some st \<Rightarrow> Some (zero_TaskResult\<lparr>tr_Type := TaskSPV, tr_Status := st\<rparr>)
    | None \<Rightarrow> case b_GetParameterNamesResponse b of
        Some ns \<Rightarrow> Some (zero_TaskResult\<lparr>tr_Type := TaskGPN, tr_Names := ns\<rparr>)
    | None \<Rightarrow> if b_RebootResponse b \<noteq> None then Some (zero_TaskResult\<lparr>tr_Type := TaskReboot\<rparr>)
        else map_option (\<lambda>f. zero_TaskResult\<lparr>tr_Type := t_Type t,
               tr_Err := cf_FaultString (f_Detail f)\<rparr>) (b_Fault b))"

lemma handle_reply_answer:
  assumes "s_inflight s = Some t" and "answer_of b t = Some r"
  shows "\<exists>d'. handle_reply sf now b s d = (fst (finishInflight r s), snd (finishInflight r s), d')"
  using assms
  by (auto simp: handle_reply_def answer_of_def onGPV_def onSPV_def onGPN_def onFault_def Let_def
      case_prod_beta split: option.splits if_splits)

lemma Handle_reply:
  "\<not> device_call (env_Body env) \<Longrightarrow>
     Handle sf now env s d = handle_reply sf now (env_Body env) (s\<lparr>s_MsgID := env_ID env\<rparr>) d"
  by (simp add: Handle_def device_call_def Let_def)

lemma nextTask_fields [simp]:
  "s_chans (snd (nextTask s)) = s_chans s" "s_results (snd (nextTask s)) = s_results s"
  "s_waiters (snd (nextTask s)) = s_waiters s" "s_nextChan (snd (nextTask s)) = s_nextChan s"
  "s_taskQueue (snd (nextTask s)) = tl (s_taskQueue s)"
  "s_DeviceID (snd (nextTask s)) = s_DeviceID s" "s_MsgID (snd (nextTask s)) = s_MsgID s"
  by (simp_all add: nextTask_def split: list.split)

lemma nextTask_msg:
  "fst (nextTask s) = (case s_taskQueue s of [] \<Rightarrow> None | t # _ \<Rightarrow> Some (request_of t))"
  "s_inflight (snd (nextTask s)) = (case s_taskQueue s of [] \<Rightarrow> s_inflight s | t # _ \<Rightarrow> Some t)"
  by (simp_all add: nextTask_def split: list.split)

lemma cache_list_fold:
  "cache_list no_store_faults i dv pvs now d =
     fold (\<lambda>pv d. CacheParam False dv (pv_Name pv) (vn_Text (pv_Value pv)) now d) pvs d"
  by (induction pvs arbitrary: i d) auto

lemma deliver_registered:
  "map_of (s_waiters s) (tr_CommandID r) = Some c \<Longrightarrow> map_of (s_chans s) c = None \<Longrightarrow>
     deliver r s = s\<lparr>s_chans := (c, r) # s_chans s\<rparr>"
  by (simp add: deliver_def)

lemma answer_to_waiter:
  assumes call: "\<not> device_call (env_Body env)"
    and fl: "s_inflight s = Some t" and named: "t_CommandID t \<noteq> ''''"
    and ans: "answer_of (env_Body env) t = Some r"
    and w: "map_of (s_waiters s) (t_CommandID t) = Some c" "map_of (s_chans s) c = None"
    and h: "Handle sf now env s d = (m, s', d')"
  shows "fst (await_turn (t_CommandID t) c FromMine s') = Returned (r\<lparr>tr_CommandID := t_CommandID t\<rparr>)
     \<and> (\<forall>c'. c' \<noteq> c \<longrightarrow> map_of (s_chans s') c' = map_of (s_chans s) c')
     \<and> s_results s' = s_results s
     \<and> m = (case s_taskQueue s of [] \<Rightarrow> None | u # _ \<Rightarrow> Some (request_of u))
     \<and> s_taskQueue s' = tl (s_taskQueue s)
     \<and> s_inflight s' = (case s_taskQueue s of [] \<Rightarrow> None | u # _ \<Rightarrow> Some u)"
proof -
  let ?s = "s\<lparr>s_MsgID := env_ID env\<rparr>" and ?r = "r\<lparr>tr_CommandID := t_CommandID t\<rparr>"
  have "finishInflight r ?s = nextTask (?s\<lparr>s_chans := (c, ?r) # s_chans s, s_inflight := None\<rparr>)"
    using fl named w by (simp add: finishInflight_def deliver_registered)
  moreover obtain d1 where "handle_reply sf now (env_Body env) ?s d
      = (fst (finishInflight r ?s), snd (finishInflight r ?s), d1)"
    using handle_reply_answer [of ?s t] fl ans by fastforce
  ultimately show ?thesis
    using h call by (auto simp: Handle_reply nextTask_msg split: list.split)
qed

text \<open>C7. An answer reaches the waiter of its own command and nobody else: whatever kind of
  answer arrives for a command in flight whose waiter is registered, the result stamped with
  that command id lands in the channel of that waiter, where its next turn picks it up; no
  other waiter's channel and not the shared channel change; and the device is handed the next
  queued task in the same exchange.\<close>

theorem answer_reaches_its_waiter:
  assumes call: "\<not> device_call (env_Body env)"
    and fl: "s_inflight s = Some t" and named: "t_CommandID t \<noteq> ''''"
    and ans: "answer_of (env_Body env) t = Some r"
    and w: "map_of (s_waiters s) (t_CommandID t) = Some c" "map_of (s_chans s) c = None"
    and h: "Handle sf now env s d = (m, s', d')"
  shows "fst (await_turn (t_CommandID t) c FromMine s') = Returned (r\<lparr>tr_CommandID := t_CommandID t\<rparr>)
     \<and> (\<forall>c'. c' \<noteq> c \<longrightarrow> map_of (s_chans s') c' = map_of (s_chans s) c')
     \<and> s_results s' = s_results s
     \<and> m = (case s_taskQueue s of [] \<Rightarrow> None | u # _ \<Rightarrow> Some (request_of u))
     \<and> s_taskQueue s' = tl (s_taskQueue s)
     \<and> s_inflight s' = (case s_taskQueue s of [] \<Rightarrow> None | u # _ \<Rightarrow> Some u)"
  by (rule answer_to_waiter [OF assms])

text \<open>The answer to an AutonomousTransferComplete is always the empty response, never a
  fault and never a 204, and the session lives on: nothing of it changes but the message id
  to echo, so the queued tasks are still there for the turn of the ACS. The transfer is
  recorded as one more pending event of the device, graded major exactly for a transfer
  that failed.\<close>

theorem ATC_answered:
  assumes "b_Inform (env_Body env) = None" "b_GetRPCMethods (env_Body env) = None"
    and "b_AutonomousTransferComplete (env_Body env) = Some atc"
    and "Handle no_store_faults now env s d = (m, s', d')" and "db_ok d"
  shows "m = Some AutonomousTransferCompleteResponse \<and> s' = s\<lparr>s_MsgID := env_ID env\<rparr>
     \<and> (\<exists>e. map stored_event (pending_events d') = map stored_event (pending_events d) @ [e]
          \<and> se_DeviceID e = s_DeviceID s \<and> se_TS e = now
          \<and> (se_Severity e = ''major'' \<longleftrightarrow> fs_FaultCode (atc_FaultStruct atc) \<noteq> 0))"
proof -
  have d': "d' = snd (snd (onATC no_store_faults now atc s d))"
    and ms: "m = Some AutonomousTransferCompleteResponse" "s' = s\<lparr>s_MsgID := env_ID env\<rparr>"
    using assms by (auto simp: Handle_def onATC_def Let_def)
  have "db_ok d'" using assms(5) by (simp add: d' onATC_def Let_def)
  then show ?thesis
    using ms assms(5) by (simp add: pending_events_ok d' onATC_def Let_def EmitEvent_def stored_event_def)
qed

text \<open>C25. An Inform picks the work up where the last session dropped it. When the queue has
  room, the queue after it is the old one, then the command the device never answered
  (never a reboot, never a fire-and-forget read), then, until the device's writability walk
  has been stored, the walk and the first-contact read. Nothing is in flight any more and
  the device is answered with an InformResponse.\<close>

theorem Inform_requeues_unanswered:
  assumes "b_Inform (env_Body env) = Some ifm" and "length (s_taskQueue s) + 3 \<le> chanCap"
    and "Handle no_store_faults now env s d = (m, s', d')"
    and "dev = CanonicalID (di_OUI (inf_DeviceID ifm)) (di_ProductClass (inf_DeviceID ifm))
           (di_SerialNumber (inf_DeviceID ifm))"
  shows "m = Some (InformResponse 1) \<and> s_DeviceID s' = dev \<and> s_inflight s' = None
     \<and> s_taskQueue s' = s_taskQueue s
         @ (case s_inflight s of None \<Rightarrow> []
            | Some t \<Rightarrow> if t_CommandID t = '''' \<or> t_Type t = TaskReboot then [] else [t])
         @ (if HasWritabilityMap False dev d then []
            else zero_Task\<lparr>t_Type := TaskGPN, t_Paths := [''Device.'']\<rparr> #
              (if s_firstContactGPV s = [] then []
               else [zero_Task\<lparr>t_Type := TaskGPV, t_Paths := s_firstContactGPV s\<rparr>]))"
proof -
  have room: "chan_send chanCap x xs = xs @ [x]" if "length xs < chanCap" for x :: Task and xs
    using that by (simp add: chan_send_def)
  have hm: "HasWritabilityMap False dev (cache_list no_store_faults 0 dv pvs now (UpsertDevice False r d))
      = HasWritabilityMap False dev d" for dv pvs r
    using buf_store.has_map_cache_list [of dv now pvs "UpsertDevice False r d", THEN fun_cong, of dev]
    by (simp add: cache_list_fold HasWritabilityMap_UpsertDevice)
  show ?thesis
    using assms(1-3)
    by (cases "s_inflight s")
      (auto simp: Handle_def Let_def onInform_def requeueOrphanedTask_def enqueue_def hm room
        simp flip: assms(4) split: if_splits)
qed

subsection \<open>Witnesses: one command from the queue to its waiter\<close>

definition demo_session :: Session where
  "demo_session = \<lparr>s_IP = ''10.0.0.7'', s_DeviceID = ''A-B-1'', s_MsgID = '''',
     s_taskQueue = [zero_Task\<lparr>t_Type := TaskReboot, t_CmdKey := ''k2'', t_CommandID := ''c2''\<rparr>],
     s_results = [], s_waiters = [(''c1'', 0)], s_chans = [], s_nextChan = 1,
     s_inflight = Some (zero_Task\<lparr>t_Type := TaskSPV, t_CmdKey := ''k1'', t_CommandID := ''c1''\<rparr>),
     s_firstContactGPV = [''Device.X'']\<rparr>"

definition demo_envelope :: "Body \<Rightarrow> Envelope" where
  "demo_envelope b = \<lparr>env_ID = ''77'', env_Body = b\<rparr>"

definition demo_atc :: AutonomousTransferComplete where
  "demo_atc = \<lparr>atc_AnnounceURL = '''', atc_TransferURL = '''', atc_IsDownload = False, atc_FileType = '''',
     atc_FileSize = 12, atc_TargetFileName = ''f'', atc_FaultStruct = \<lparr>fs_FaultCode = 0, fs_FaultString = ''''\<rparr>,
     atc_StartTime = '''', atc_CompleteTime = ''''\<rparr>"

definition demo_inform :: Inform where
  "demo_inform = \<lparr>inf_DeviceID = \<lparr>di_Manufacturer = ''M'', di_OUI = ''A'', di_ProductClass = ''B'',
       di_SerialNumber = ''1''\<rparr>, inf_Event = [], inf_MaxEnvelopes = 1, inf_CurrentTime = '''',
     inf_RetryCount = 0, inf_ParameterList = []\<rparr>"

lemmas demo_defs = demo_session_def demo_envelope_def demo_atc_def demo_inform_def empty_body_def

theorem answer_reaches_its_waiter_witness:
  "fst (Handle no_store_faults 5 (demo_envelope (empty_body\<lparr>b_SetParameterValuesResponse := Some 1\<rparr>))
       demo_session init_db) = Some (Reboot ''k2'')"
proof -
  let ?h = "Handle no_store_faults 5 (demo_envelope (empty_body\<lparr>b_SetParameterValuesResponse := Some 1\<rparr>))
    demo_session init_db"
  have h: "?h = (fst ?h, fst (snd ?h), snd (snd ?h))" by simp
  show ?thesis
    using answer_reaches_its_waiter [OF _ _ _ _ _ _ h]
    by (simp add: demo_defs device_call_def answer_of_def request_of_def zero_Task_def)
qed

theorem ATC_answered_witness:
  "fst (snd (Handle no_store_faults 5
       (demo_envelope (empty_body\<lparr>b_AutonomousTransferComplete := Some demo_atc\<rparr>)) demo_session init_db))
     = demo_session\<lparr>s_MsgID := ''77''\<rparr>"
proof -
  let ?h = "Handle no_store_faults 5
    (demo_envelope (empty_body\<lparr>b_AutonomousTransferComplete := Some demo_atc\<rparr>)) demo_session init_db"
  have h: "?h = (fst ?h, fst (snd ?h), snd (snd ?h))" by simp
  show ?thesis
    using ATC_answered [OF _ _ _ h db_ok_init] by (simp add: demo_envelope_def empty_body_def)
qed

theorem Inform_requeues_unanswered_witness:
  "map t_CommandID (s_taskQueue (fst (snd (Handle no_store_faults 5
       (demo_envelope (empty_body\<lparr>b_Inform := Some demo_inform\<rparr>)) demo_session init_db))))
     = [''c2'', ''c1'', '''', '''']"
proof -
  let ?h = "Handle no_store_faults 5 (demo_envelope (empty_body\<lparr>b_Inform := Some demo_inform\<rparr>))
    demo_session init_db"
  have h: "?h = (fst ?h, fst (snd ?h), snd (snd ?h))" by simp
  show ?thesis
    using Inform_requeues_unanswered [OF _ _ h refl]
    by (simp add: demo_defs chanCap_def HasWritabilityMap_def init_db_def zero_Task_def)
qed

subsection \<open>Reachable sessions\<close>

definition newSession :: "string list \<Rightarrow> Session" where
  "newSession fc = \<lparr>s_IP = '''', s_DeviceID = '''', s_MsgID = '''', s_taskQueue = [], s_results = [],
     s_waiters = [], s_chans = [], s_nextChan = 0, s_inflight = None, s_firstContactGPV = fc\<rparr>"

lemma session_inv_new [simp]: "session_inv (newSession fc)"
  by (simp add: newSession_def session_inv_def waiters_ok_def)

lemma await_turn_own:
  assumes "session_inv s" "map_of (s_waiters s) cid = Some c" "await_turn cid c ch s = (Returned r, s')"
  shows "tr_CommandID r = cid"
proof (cases ch)
  case FromMine
  with assms(3) have "map_of (s_chans s) c = Some r" by (simp split: option.splits)
  with assms(1,2) show ?thesis unfolding session_inv_def waiters_ok_def by blast
next
  case FromResults
  with assms(3) show ?thesis by (simp split: list.splits if_splits)
qed (use assms(3) in simp)

text \<open>C24. However requests, tasks and waiters interleave around one session, the queue and
  the shared channel stay within their capacity, the file stays well formed, and a waiter
  that is registered for a command and returns a result returns a result of that very
  command, from either channel.\<close>

theorem reachable_session_safe:
  assumes "session_reach (newSession fc, init_db) (s, d)"
  shows "length (s_taskQueue s) \<le> 256 \<and> length (s_results s) \<le> 256 \<and> db_ok d
     \<and> (\<forall>cid c ch r s'. map_of (s_waiters s) cid = Some c \<longrightarrow>
          await_turn cid c ch s = (Returned r, s') \<longrightarrow> tr_CommandID r = cid)"
proof -
  have inv: "session_inv s \<and> db_ok d"
    using session_reach_inv [OF assms] by simp
  have "tr_CommandID r = cid"
    if "map_of (s_waiters s) cid = Some c" "await_turn cid c ch s = (Returned r, s')" for cid c ch r s'
    using await_turn_own [OF _ that] inv by simp
  with inv show ?thesis by (auto simp: session_inv_def chanCap_def)
qed

theorem reachable_session_safe_witness:
  "session_reach (newSession [], init_db) (snd (waitFor ''c1'' (newSession [])), init_db)
   \<and> length (s_taskQueue (snd (waitFor ''c1'' (newSession [])))) \<le> 256"
proof -
  have r: "session_reach (newSession [], init_db) (snd (waitFor ''c1'' (newSession [])), init_db)"
    by (rule session_reach.step [OF session_reach.start session_step.register [of "''c1''" _ 0]])
      (simp add: waitFor_def newSession_def)
  with reachable_session_safe [OF r] show ?thesis by simp
qed

subsection \<open>The cache after a read\<close>

text \<open>C29. A GetParameterValuesResponse makes the cache current for the device of the session:
  when the store does not fail, every parameter of the answer reads back with its value (the
  last one, if it is repeated), every other parameter of the device and every parameter of
  every other device reads as before.\<close>

theorem GPV_refreshes_cache:
  assumes "\<not> device_call (env_Body env)" and "b_GetParameterValuesResponse (env_Body env) = Some pvs"
    and "Handle no_store_faults now env s d = (m, s', d')" and "db_ok d"
  shows "map_of (GetParams False dev paths d') p =
     (if p \<notin> set paths then None
      else case find (\<lambda>pv. pv_Name pv = p) (rev pvs) of
         Some pv \<Rightarrow> if dev = s_DeviceID s then Some (vn_Text (pv_Value pv)) else param_value d dev p
       | None \<Rightarrow> param_value d dev p)"
proof -
  have d': "d' = cache_list no_store_faults 0 (s_DeviceID s) pvs now d"
    using assms(1-3) by (auto simp: Handle_reply handle_reply_def onGPV_def Let_def case_prod_beta)
  with assms(4) have "db_ok d'" by (simp add: cache_list_ok)
  then show ?thesis
    by (simp add: map_of_GetParams d' cache_list_fold buf_store.lookup_cache_list split: option.split)
qed

theorem GPV_refreshes_cache_witness:
  "map_of (GetParams False ''A-B-1'' [''Device.X''] (snd (snd (Handle no_store_faults 5
      (demo_envelope (empty_body\<lparr>b_GetParameterValuesResponse := Some
         [\<lparr>pv_Name = ''Device.X'', pv_Value = \<lparr>vn_Type = '''', vn_Text = ''1''\<rparr>\<rparr>,
          \<lparr>pv_Name = ''Device.X'', pv_Value = \<lparr>vn_Type = '''', vn_Text = ''2''\<rparr>\<rparr>]\<rparr>))
      demo_session init_db)))) ''Device.X'' = Some ''2''"
proof -
  let ?b = "empty_body\<lparr>b_GetParameterValuesResponse := Some
         [\<lparr>pv_Name = ''Device.X'', pv_Value = \<lparr>vn_Type = '''', vn_Text = ''1''\<rparr>\<rparr>,
          \<lparr>pv_Name = ''Device.X'', pv_Value = \<lparr>vn_Type = '''', vn_Text = ''2''\<rparr>\<rparr>]\<rparr>"
  let ?h = "Handle no_store_faults 5 (demo_envelope ?b) demo_session init_db"
  have h: "?h = (fst ?h, fst (snd ?h), snd (snd ?h))" by simp
  show ?thesis
    using GPV_refreshes_cache [OF _ _ h db_ok_init, of _ "''A-B-1''" "[''Device.X'']" "''Device.X''"]
    by (simp add: demo_envelope_def empty_body_def device_call_def demo_session_def)
qed

subsection \<open>A stale shared result\<close>

text \<open>A result left on the shared channel after its waiter gave up makes every later
  waiter of the session spin: each turn takes it off the channel and puts it back, so the
  turn leaves the session exactly as it was, and the case is ready again at once.\<close>

theorem stale_result_spins:
  assumes "s_results s = [r]" and "tr_CommandID r \<noteq> cid"
    and "map_of (s_waiters s) (tr_CommandID r) = None"
  shows "(((\<lambda>x. snd (await_turn cid c FromResults x)) ^^ n) s) = s
     \<and> fst (await_turn cid c FromResults s) = Waiting"
proof -
  have "await_turn cid c FromResults s = (Waiting, s)"
    using assms by (simp add: deliver_def deliver_shared_def chan_send_def chanCap_def)
  then show ?thesis by (induction n) (simp_all del: await_turn.simps)
qed

theorem stale_result_spins_witness:
  "fst (await_turn ''c9'' 4 FromResults ((newSession [])\<lparr>s_results := [zero_TaskResult\<lparr>tr_CommandID := ''old''\<rparr>]\<rparr>))
     = Waiting"
  using stale_result_spins [of "(newSession [])\<lparr>s_results := [zero_TaskResult\<lparr>tr_CommandID := ''old''\<rparr>]\<rparr>" _ "''c9''" 4]
  by (simp add: newSession_def)

subsection \<open>What the log may say\<close>

definition isSecretParam :: "string \<Rightarrow> bool" where
  "isSecretParam name = (let n = ToLower name in
     Contains n ''password'' \<or> Contains n ''passphrase'' \<or> Contains n ''presharedkey''
     \<or> Contains n ''wepkey'' \<or> Contains n ''secret'')"

definition formatWrites :: "ParameterValueStruct list \<Rightarrow> string" where
  "formatWrites ws = Join (map (\<lambda>w. pv_Name w @ ''='' @
     (if isSecretParam (pv_Name w) then ''<redacted>'' else vn_Text (pv_Value w))) ws) '', ''"

definition eventCodes :: "EventStruct list \<Rightarrow> string list" where
  "eventCodes ev = map es_EventCode ev"

text \<open>The log line of a write does not depend on any secret: two batches of writes with the
  same names and the same values of the parameters that are not secret are logged alike,
  whatever the credentials in them are.\<close>

theorem formatWrites_hides_secrets:
  assumes "list_all2 (\<lambda>v w. pv_Name v = pv_Name w
      \<and> (\<not> isSecretParam (pv_Name v) \<longrightarrow> vn_Text (pv_Value v) = vn_Text (pv_Value w))) vs ws"
  shows "formatWrites vs = formatWrites ws"
proof -
  have "map (\<lambda>w. pv_Name w @ ''='' @ (if isSecretParam (pv_Name w) then ''<redacted>'' else vn_Text (pv_Value w))) vs
      = map (\<lambda>w. pv_Name w @ ''='' @ (if isSecretParam (pv_Name w) then ''<redacted>'' else vn_Text (pv_Value w))) ws"
    using assms by (induction vs ws rule: list_all2_induct) auto
  then show ?thesis by (simp add: formatWrites_def)
qed

theorem formatWrites_hides_secrets_witness:
  "formatWrites [\<lparr>pv_Name = ''Device.ManagementServer.Password'', pv_Value = \<lparr>vn_Type = '''', vn_Text = ''hunter2''\<rparr>\<rparr>]
   = formatWrites [\<lparr>pv_Name = ''Device.ManagementServer.Password'', pv_Value = \<lparr>vn_Type = '''', vn_Text = ''other''\<rparr>\<rparr>]"
proof -
  have "isSecretParam ''Device.ManagementServer.Password''"
    by code_simp
  then show ?thesis by (intro formatWrites_hides_secrets) simp
qed

end
