(* ===== verification/Utf8.thy ===== *)
theory Utf8
  imports GoStrings
begin

text \<open>
  UTF-8 as Go's \<^verbatim>\<open>unicode/utf8\<close> decodes it, the character range of XML, and what \<^verbatim>\<open>encoding/xml\<close>
  calls legal text: a valid sequence of runes of that range. Strings are lists of bytes, so a
  character beyond ASCII is the two to four bytes of its sequence.
\<close>

subsection \<open>Runes\<close>

abbreviation code :: "char \<Rightarrow> nat" where
  "code \<equiv> of_char"

definition between :: "nat \<Rightarrow> nat \<Rightarrow> char \<Rightarrow> bool" where
  "between lo hi c \<longleftrightarrow> lo \<le> code c \<and> code c \<le> hi"

definition low6 :: "char \<Rightarrow> nat" where
  "low6 c = code c mod 64"

text \<open>\<^verbatim>\<open>utf8.DecodeRune\<close>: the rune and the bytes behind it; \<open>None\<close> is an invalid sequence.\<close>

definition decode_rune :: "string \<Rightarrow> (nat \<times> string) option" where
  "decode_rune s =
     (case s of
        [] \<Rightarrow> None
      | b # r \<Rightarrow>
          if code b < 128 then Some (code b, r)
          else if between 0xC2 0xDF b then
            (case r of c # r1 \<Rightarrow> if between 0x80 0xBF c then Some ((code b mod 32) * 64 + low6 c, r1) else None | _ \<Rightarrow> None)
          else if between 0xE0 0xEF b then
            (case r of c # d # r2 \<Rightarrow>
               if between (if code b = 0xE0 then 0xA0 else 0x80) (if code b = 0xED then 0x9F else 0xBF) c \<and> between 0x80 0xBF d
               then Some (((code b mod 16) * 64 + low6 c) * 64 + low6 d, r2) else None
             | _ \<Rightarrow> None)
          else if between 0xF0 0xF4 b then
            (case r of c # d # e # r3 \<Rightarrow>
               if between (if code b = 0xF0 then 0x90 else 0x80) (if code b = 0xF4 then 0x8F else 0xBF) c
                  \<and> between 0x80 0xBF d \<and> between 0x80 0xBF e
               then Some ((((code b mod 8) * 64 + low6 c) * 64 + low6 d) * 64 + low6 e, r3) else None
             | _ \<Rightarrow> None)
          else None)"

lemma decode_rune_shorter: "decode_rune s = Some (r, t) \<Longrightarrow> length t < length s"
  by (auto simp: decode_rune_def split: list.splits if_splits)

function runes :: "string \<Rightarrow> nat list option" where
  "runes s =
     (if s = [] then Some []
      else case decode_rune s of None \<Rightarrow> None | Some (r, t) \<Rightarrow> map_option (Cons r) (runes t))"
  by pat_completeness auto
termination
  by (relation "measure length") (auto dest: decode_rune_shorter)

declare runes.simps [simp del]

text \<open>\<^verbatim>\<open>string(rune(n))\<close>; a surrogate half becomes U+FFFD.\<close>

definition encode_rune :: "nat \<Rightarrow> string" where
  "encode_rune n =
     (if n < 0x80 then [char_of n]
      else if n < 0x800 then [char_of (0xC0 + n div 64), char_of (0x80 + n mod 64)]
      else if 0xD800 \<le> n \<and> n \<le> 0xDFFF then [CHR 0xEF, CHR 0xBF, CHR 0xBD]
      else if n < 0x10000 then [char_of (0xE0 + n div 4096), char_of (0x80 + n div 64 mod 64), char_of (0x80 + n mod 64)]
      else [char_of (0xF0 + n div 262144), char_of (0x80 + n div 4096 mod 64), char_of (0x80 + n div 64 mod 64), char_of (0x80 + n mod 64)])"

definition isInCharacterRange :: "nat \<Rightarrow> bool" where
  "isInCharacterRange r \<longleftrightarrow> r = 0x09 \<or> r = 0x0A \<or> r = 0x0D \<or> (0x20 \<le> r \<and> r \<le> 0xD7FF)
     \<or> (0xE000 \<le> r \<and> r \<le> 0xFFFD) \<or> (0x10000 \<le> r \<and> r \<le> 0x10FFFF)"

definition legal_text :: "string \<Rightarrow> bool" where
  "legal_text s \<longleftrightarrow> (case runes s of None \<Rightarrow> False | Some rs \<Rightarrow> list_all isInCharacterRange rs)"

subsection \<open>Legal text\<close>

lemma decode_rune_append: "decode_rune s = Some (r, t) \<Longrightarrow> decode_rune (s @ u) = Some (r, t @ u)"
proof -
  assume d: "decode_rune s = Some (r, t)"
  then obtain b s' where s: "s = b # s'" by (auto simp: decode_rune_def split: list.splits)
  define k1 where "k1 = (if code b = 0xE0 then 0xA0 else 0x80 :: nat)"
  define k2 where "k2 = (if code b = 0xED then 0x9F else 0xBF :: nat)"
  define k3 where "k3 = (if code b = 0xF0 then 0x90 else 0x80 :: nat)"
  define k4 where "k4 = (if code b = 0xF4 then 0x8F else 0xBF :: nat)"
  show ?thesis
    using d unfolding s decode_rune_def k1_def [symmetric] k2_def [symmetric] k3_def [symmetric] k4_def [symmetric]
    by (simp only: list.case append.simps split: if_split_asm list.split_asm) simp_all
qed

lemma runes_append: "runes s = Some rs \<Longrightarrow> runes (s @ t) = map_option ((@) rs) (runes t)"
proof (induction s arbitrary: rs rule: runes.induct)
  case (1 s)
  show ?case
  proof (cases "s = []")
    case True
    with "1.prems" show ?thesis by (simp add: runes.simps [of "[]"] option.map_ident)
  next
    case False
    obtain r u where d: "decode_rune s = Some (r, u)" using "1.prems" False by (subst (asm) runes.simps) (auto split: option.splits)
    with "1.prems" False obtain rs' where u: "runes u = Some rs'" "rs = r # rs'" by (subst (asm) runes.simps) auto
    have "runes (u @ t) = map_option ((@) rs') (runes t)" using "1.IH" [OF False d _ u(1)] by simp
    then show ?thesis using False decode_rune_append [OF d, of t] u(2)
      by (subst runes.simps) (cases "runes t"; simp)
  qed
qed

lemma legal_text_append: "legal_text s \<Longrightarrow> legal_text (s @ t) = legal_text t"
  by (auto simp: legal_text_def runes_append split: option.splits)

lemma runes_ascii: "list_all (\<lambda>c. code c < 128) s \<Longrightarrow> runes s = Some (map code s)"
proof (induction s)
  case (Cons c s)
  then show ?case by (subst runes.simps) (simp add: decode_rune_def)
qed (simp add: runes.simps)

definition text_byte :: "char \<Rightarrow> bool" where
  "text_byte c \<longleftrightarrow> 32 \<le> code c \<or> c = CHR 0x09 \<or> c = CHR 0x0A \<or> c = CHR 0x0D"

lemma decode_rune_bytes:
  assumes "decode_rune s = Some (r, t)" "isInCharacterRange r"
  shows "\<exists>p. s = p @ t \<and> list_all text_byte p"
proof -
  have small: "text_byte c" if "isInCharacterRange (code c)" for c
  proof -
    have k: "code (CHR 0x09) = 9" "code (CHR 0x0A) = 10" "code (CHR 0x0D) = 13" by simp_all
    from that consider "32 \<le> code c" | "code c = code (CHR 0x09)" | "code c = code (CHR 0x0A)" | "code c = code (CHR 0x0D)"
      unfolding isInCharacterRange_def k by linarith
    then show ?thesis by cases (auto simp: text_byte_def of_char_eq_iff simp del: of_char_Char)
  qed
  have big: "between lo hi c \<Longrightarrow> 32 \<le> lo \<Longrightarrow> text_byte c" for lo hi c by (simp add: between_def text_byte_def)
  obtain b s' where s: "s = b # s'" using assms(1) by (auto simp: decode_rune_def split: list.splits)
  show ?thesis
  proof (cases "code b < 128")
    case True
    with assms s small [of b] show ?thesis by (intro exI [of _ "[b]"]) (simp add: decode_rune_def)
  next
    case False
    then have "text_byte b" by (simp add: text_byte_def)
    with assms(1) False show ?thesis unfolding s decode_rune_def
      by (auto split: if_split_asm list.split_asm dest: big)
  qed
qed

lemma legal_text_bytes: "legal_text s \<Longrightarrow> list_all text_byte s"
proof (induction s rule: runes.induct)
  case (1 s)
  show ?case
  proof (cases "s = []")
    case False
    obtain rs where rs: "runes s = Some rs" "list_all isInCharacterRange rs" using "1.prems" by (auto simp: legal_text_def split: option.splits)
    then obtain r u rs' where d: "decode_rune s = Some (r, u)" "runes u = Some rs'" "rs = r # rs'"
      using False by (subst (asm) runes.simps) (auto split: option.splits)
    then have "legal_text u" "isInCharacterRange r" using rs(2) by (simp_all add: legal_text_def)
    with "1.IH" [OF False d(1)] decode_rune_bytes [OF d(1)] show ?thesis by auto
  qed simp
qed

lemma mod_window: "q * d \<le> n \<Longrightarrow> n < q * d + d \<Longrightarrow> n mod d = n - q * d" for q d n :: nat
proof -
  assume "q * d \<le> n" "n < q * d + d"
  then have "n = (n - q * d) + q * d" "n - q * d < d" by simp_all
  then show ?thesis by (metis mod_mult_self1 mod_less)
qed

lemma decode_rune_width:
  assumes "decode_rune s = Some (r, t)"
  obtains b where "s = b # t" "code b < 128" "r = code b"
    | p where "s = p @ t" "p \<noteq> []" "list_all (\<lambda>c. 128 \<le> code c) p" "128 \<le> r"
proof -
  obtain b s' where s: "s = b # s'" using assms by (auto simp: decode_rune_def split: list.splits)
  show ?thesis
  proof (cases "code b < 128")
    case True
    with assms show ?thesis by (intro that(1) [of b]) (auto simp: s decode_rune_def)
  next
    case False
    have two: "128 \<le> (n mod 32) * 64 + k" if "194 \<le> n" "n \<le> 223" for n k :: nat
    proof -
      have "2 \<le> n mod 32" using that mod_window [of 6 32 n] by simp
      then show ?thesis by simp
    qed
    have three: "128 \<le> ((n mod 16) * 64 + m mod 64) * 64 + k" if "224 \<le> n" "n \<le> 239" "(if n = 224 then 160 else 128) \<le> m" "m \<le> 191" for n m k :: nat
    proof -
      have "2 \<le> (n mod 16) * 64 + m mod 64"
      proof (cases "n = 224")
        case True
        with that(3,4) have "2 \<le> m mod 64" using mod_window [of 2 64 m] by simp
        then show ?thesis by simp
      next
        case False
        with that(1,2) have "1 \<le> n mod 16" using mod_window [of 14 16 n] by simp
        then show ?thesis by simp
      qed
      then show ?thesis by simp
    qed
    have four: "128 \<le> (((n mod 8) * 64 + m mod 64) * 64 + k) * 64 + l" if "240 \<le> n" "n \<le> 244" "(if n = 240 then 144 else 128) \<le> m" "m \<le> 191" for n m k l :: nat
    proof -
      have "1 \<le> (n mod 8) * 64 + m mod 64"
      proof (cases "n = 240")
        case True
        with that(3,4) have "1 \<le> m mod 64" using mod_window [of 2 64 m] by simp
        then show ?thesis by simp
      next
        case False
        with that(1,2) have "1 \<le> n mod 8" using mod_window [of 30 8 n] by simp
        then show ?thesis by simp
      qed
      then show ?thesis by simp
    qed
    define k1 where "k1 = (if code b = 0xE0 then 0xA0 else 0x80 :: nat)"
    define k2 where "k2 = (if code b = 0xED then 0x9F else 0xBF :: nat)"
    define k3 where "k3 = (if code b = 0xF0 then 0x90 else 0x80 :: nat)"
    define k4 where "k4 = (if code b = 0xF4 then 0x8F else 0xBF :: nat)"
    have w: "between lo k2 c \<Longrightarrow> between lo 0xBF c" "between lo k4 c \<Longrightarrow> between lo 0xBF c" for lo c
      by (auto simp: between_def k2_def k4_def split: if_splits)
    consider c where "s' = c # t" "between 0xC2 0xDF b" "between 0x80 0xBF c" "r = (code b mod 32) * 64 + low6 c"
      | c d where "s' = c # d # t" "between 0xE0 0xEF b" "between k1 k2 c" "between 0x80 0xBF d" "r = ((code b mod 16) * 64 + low6 c) * 64 + low6 d"
      | c d e where "s' = c # d # e # t" "between 0xF0 0xF4 b" "between k3 k4 c" "between 0x80 0xBF d" "between 0x80 0xBF e"
          "r = (((code b mod 8) * 64 + low6 c) * 64 + low6 d) * 64 + low6 e"
      using assms False unfolding s decode_rune_def
      by (simp only: list.case if_False split: if_split_asm list.split_asm) (simp_all add: k1_def k2_def k3_def k4_def)
    then show ?thesis
    proof cases
      case 1
      then show ?thesis using two [of "code b" "low6 c"] by (intro that(2) [of "[b, c]"]) (simp_all add: s between_def)
    next
      case 2
      then show ?thesis using three [of "code b" "code c" "low6 d"] w(1) [of k1 c]
        by (intro that(2) [of "[b, c, d]"]) (auto simp: s between_def low6_def k1_def split: if_splits)
    next
      case 3
      then show ?thesis using four [of "code b" "code c" "low6 d" "low6 e"] w(2) [of k3 c]
        by (intro that(2) [of "[b, c, d, e]"]) (auto simp: s between_def low6_def k3_def split: if_splits)
    qed
  qed
qed

end
