(* ===== verification/Soap.thy ===== *)
theory Soap
  imports CwmpTypes Utf8
begin

text \<open>
  The outbound half of the SOAP codec (\<^verbatim>\<open>src/goagent/internal/cwmp/soap.go\<close>). \<open>xml_marshal\<close> is what
  \<^verbatim>\<open>encoding/xml\<close> produces for the message types of \<^verbatim>\<open>rpc.go\<close>: a list of tokens, with
  text and attribute values escaped, rune by rune, with U+FFFD for what is no legal character.
  Shown here: renaming the root by textual replacement is exact for every message, whatever
  text it carries.
\<close>

subsection \<open>Marshalling\<close>

text \<open>\<open>seq\<close> is the sequence of bytes the rune was read from.\<close>

definition escape_rune :: "nat \<Rightarrow> string \<Rightarrow> string" where
  "escape_rune r seq =
     (if r = 0x22 then ''&#34;'' else if r = 0x27 then ''&#39;''
      else if r = 0x26 then ''&amp;'' else if r = 0x3C then ''&lt;''
      else if r = 0x3E then ''&gt;'' else if r = 0x09 then ''&#x9;''
      else if r = 0x0A then ''&#xA;'' else if r = 0x0D then ''&#xD;''
      else if \<not> isInCharacterRange r then [CHR 0xEF, CHR 0xBF, CHR 0xBD] else seq)"

function EscapeText :: "string \<Rightarrow> string" where
  "EscapeText s =
     (if s = [] then []
      else case decode_rune s of
        None \<Rightarrow> [CHR 0xEF, CHR 0xBF, CHR 0xBD] @ EscapeText (tl s)
      | Some (r, t) \<Rightarrow> escape_rune r (take (length s - length t) s) @ EscapeText t)"
  by pat_completeness auto
termination
  by (relation "measure length") (auto dest: decode_rune_shorter)

declare EscapeText.simps [simp del]

datatype xml_tok = OpenTag string "(string \<times> string) list" | CloseTag string | CharData string

fun print_tok :: "xml_tok \<Rightarrow> string" where
  "print_tok (OpenTag n atts) = ''<'' @ n
     @ concat (map (\<lambda>(a, v). '' '' @ a @ [CHR ''='', CHR 0x22] @ EscapeText v @ [CHR 0x22]) atts) @ ''>''"
| "print_tok (CloseTag n) = ''</'' @ n @ ''>''"
| "print_tok (CharData t) = EscapeText t"

definition print_toks :: "xml_tok list \<Rightarrow> string" where
  "print_toks ts = concat (map print_tok ts)"

definition elem :: "string \<Rightarrow> xml_tok list \<Rightarrow> xml_tok list" where
  "elem n ts = OpenTag n [] # ts @ [CloseTag n]"

definition text_elem :: "string \<Rightarrow> string \<Rightarrow> xml_tok list" where
  "text_elem n t = elem n [CharData t]"

definition value_elem :: "ValueNode \<Rightarrow> xml_tok list" where
  "value_elem v = [OpenTag ''Value'' (if vn_Type v = '''' then [] else [(''xsi:type'', vn_Type v)]),
     CharData (vn_Text v), CloseTag ''Value'']"

definition pvs_elem :: "ParameterValueStruct \<Rightarrow> xml_tok list" where
  "pvs_elem pv = elem ''ParameterValueStruct'' (text_elem ''Name'' (pv_Name pv) @ value_elem (pv_Value pv))"

fun root_name :: "acs_msg \<Rightarrow> string" where
  "root_name (InformResponse n) = ''InformResponse''"
| "root_name (GetRPCMethodsResponse ms) = ''GetRPCMethodsResponse''"
| "root_name TransferCompleteResponse = ''TransferCompleteResponse''"
| "root_name AutonomousTransferCompleteResponse = ''AutonomousTransferCompleteResponse''"
| "root_name (GetParameterValues ns) = ''GetParameterValues''"
| "root_name (SetParameterValues ws k) = ''SetParameterValues''"
| "root_name (GetParameterNames p nl) = ''GetParameterNames''"
| "root_name (Reboot k) = ''Reboot''"

fun members :: "acs_msg \<Rightarrow> xml_tok list" where
  "members (InformResponse n) = text_elem ''MaxEnvelopes'' (show_int n)"
| "members (GetRPCMethodsResponse ms) = elem ''MethodList'' (concat (map (text_elem ''string'') ms))"
| "members TransferCompleteResponse = []"
| "members AutonomousTransferCompleteResponse = []"
| "members (GetParameterValues ns) = elem ''ParameterNames'' (concat (map (text_elem ''string'') ns))"
| "members (SetParameterValues ws k) =
     elem ''ParameterList'' (concat (map pvs_elem ws)) @ text_elem ''ParameterKey'' k"
| "members (GetParameterNames p nl) =
     text_elem ''ParameterPath'' p @ text_elem ''NextLevel'' (if nl then ''true'' else ''false'')"
| "members (Reboot k) = text_elem ''CommandKey'' k"

definition xml_marshal :: "acs_msg \<Rightarrow> string" where
  "xml_marshal m = print_toks (elem (root_name m) (members m))"

subsection \<open>The envelope\<close>

fun cwmpElement :: "acs_msg \<Rightarrow> string" where
  "cwmpElement (InformResponse n) = ''cwmp:InformResponse''"
| "cwmpElement (GetRPCMethodsResponse ms) = ''cwmp:GetRPCMethodsResponse''"
| "cwmpElement TransferCompleteResponse = ''cwmp:TransferCompleteResponse''"
| "cwmpElement AutonomousTransferCompleteResponse = ''cwmp:AutonomousTransferCompleteResponse''"
| "cwmpElement (GetParameterValues ns) = ''cwmp:GetParameterValues''"
| "cwmpElement (SetParameterValues ws k) = ''cwmp:SetParameterValues''"
| "cwmpElement (GetParameterNames p nl) = ''cwmp:GetParameterNames''"
| "cwmpElement (Reboot k) = ''cwmp:Reboot''"

text \<open>\<^verbatim>\<open>bytes.Replace(s, old, new, 1)\<close> for a non-empty \<open>old\<close>.\<close>

fun replace_first :: "string \<Rightarrow> string \<Rightarrow> string \<Rightarrow> string" where
  "replace_first old new [] = []"
| "replace_first old new (c # s) =
     (if prefix old (c # s) then new @ drop (length old) (c # s) else c # replace_first old new s)"

definition rewriteRoot :: "string \<Rightarrow> string \<Rightarrow> string" where
  "rewriteRoot inner el = (case inner of [] \<Rightarrow> inner
     | c # rest \<Rightarrow> if c \<noteq> CHR ''<'' then inner
         else let local = takeWhile (\<lambda>x. x \<noteq> CHR ''>'' \<and> x \<noteq> CHR '' '' \<and> x \<noteq> CHR ''/'') rest in
           if local = '''' then inner
           else replace_first (''</'' @ local @ ''>'') (''</'' @ el @ ''>'')
                  (replace_first (''<'' @ local) (''<'' @ el) inner))"

text \<open>The header constant has line breaks (the \<open>0x0A\<close> bytes) and quotes (\<open>0x22\<close>).\<close>

definition dquote :: "string \<Rightarrow> string" where
  "dquote s = CHR 0x22 # s @ [CHR 0x22]"

definition soapOpen :: "string \<Rightarrow> string" where
  "soapOpen msgID = ''<?xml version='' @ dquote ''1.0'' @ '' encoding='' @ dquote ''UTF-8'' @ ''?>'' @ [CHR 0x0A]
     @ ''<soapenv:Envelope xmlns:soapenv='' @ dquote ''http://schemas.xmlsoap.org/soap/envelope/''
     @ '' xmlns:soap='' @ dquote ''http://schemas.xmlsoap.org/soap/encoding/''
     @ '' xmlns:xsd='' @ dquote ''http://www.w3.org/2001/XMLSchema''
     @ '' xmlns:xsi='' @ dquote ''http://www.w3.org/2001/XMLSchema-instance''
     @ '' xmlns:cwmp='' @ dquote ''urn:dslforum-org:cwmp-1-2'' @ ''>'' @ [CHR 0x0A]
     @ ''<soapenv:Header><cwmp:ID soapenv:mustUnderstand='' @ dquote ''1'' @ ''>'' @ msgID
     @ ''</cwmp:ID></soapenv:Header>'' @ [CHR 0x0A] @ ''<soapenv:Body>''"

definition soapClose :: string where
  "soapClose = ''</soapenv:Body></soapenv:Envelope>''"

definition EncodeResponse :: "string \<Rightarrow> acs_msg \<Rightarrow> string option" where
  "EncodeResponse msgID body =
     (let el = cwmpElement body in
      if el = '''' then None
      else Some (soapOpen msgID @ rewriteRoot (xml_marshal body) el @ soapClose))"

subsection \<open>Renaming the root is exact\<close>

lemma escape_rune_no_lt:
  assumes "decode_rune s = Some (r, t)"
  shows "CHR ''<'' \<notin> set (escape_rune r (take (length s - length t) s))"
  using assms
proof (cases rule: decode_rune_width)
  case (1 b)
  then show ?thesis by (auto simp: escape_rune_def)
next
  case (2 p)
  then have "CHR ''<'' \<notin> set p" by (auto simp: list_all_iff)
  with 2 show ?thesis by (auto simp: escape_rune_def)
qed

lemma EscapeText_no_lt [simp]: "CHR ''<'' \<notin> set (EscapeText s)"
proof (induction s rule: EscapeText.induct)
  case (1 s)
  show ?case
    using 1 escape_rune_no_lt [of s] by (subst EscapeText.simps) (auto split: option.split)
qed

text \<open>On legal text the escapes act byte by byte.\<close>

definition escape_char :: "char \<Rightarrow> string" where
  "escape_char c = (if code c < 128 then escape_rune (code c) [c] else [c])"

lemma EscapeText_legal: "legal_text s \<Longrightarrow> EscapeText s = concat (map escape_char s)"
proof (induction s rule: EscapeText.induct)
  case (1 s)
  show ?case
  proof (cases "s = []")
    case False
    obtain rs where rs: "runes s = Some rs" "list_all isInCharacterRange rs" using "1.prems" by (auto simp: legal_text_def split: option.splits)
    then obtain r u rs' where d: "decode_rune s = Some (r, u)" "runes u = Some rs'" "rs = r # rs'"
      using False by (subst (asm) runes.simps) (auto split: option.splits)
    then have u: "legal_text u" "isInCharacterRange r" using rs(2) by (simp_all add: legal_text_def)
    then have e: "EscapeText s = escape_rune r (take (length s - length u) s) @ concat (map escape_char u)"
      using False d(1) "1.IH"(2) [OF False d(1) refl] by (subst EscapeText.simps) simp
    from d(1) show ?thesis
    proof (cases rule: decode_rune_width)
      case (1 b)
      then have "escape_char b = escape_rune r [b]" by (simp add: escape_char_def)
      with e 1 show ?thesis by simp
    next
      case (2 p)
      have "concat (map escape_char p) = p" using 2(3) by (induction p) (auto simp: escape_char_def)
      moreover have "escape_rune r p = p" using 2(4) u(2) by (simp add: escape_rune_def)
      ultimately show ?thesis using e 2(1) by simp
    qed
  qed (simp add: EscapeText.simps)
qed

text \<open>Replacement passes over a part in which the pattern does not start.\<close>

lemma replace_first_no_lt:
  "CHR ''<'' \<notin> set u \<Longrightarrow> replace_first (CHR ''<'' # old) new (u @ v) = u @ replace_first (CHR ''<'' # old) new v"
  by (induction u) auto

text \<open>A token the search for the closing tag of \<open>local\<close> passes over.\<close>

fun tok_ok :: "string \<Rightarrow> xml_tok \<Rightarrow> bool" where
  "tok_ok local (OpenTag n atts) \<longleftrightarrow> n \<noteq> [] \<and> hd n \<noteq> CHR ''/'' \<and> CHR ''<'' \<notin> set n
     \<and> (\<forall>av\<in>set atts. CHR ''<'' \<notin> set (fst av))"
| "tok_ok local (CloseTag n) \<longleftrightarrow> n \<noteq> local \<and> CHR ''>'' \<notin> set n \<and> CHR ''<'' \<notin> set n"
| "tok_ok local (CharData t) \<longleftrightarrow> True"

lemma closing_tag_differs:
  assumes "n \<noteq> local" "CHR ''>'' \<notin> set n" "CHR ''>'' \<notin> set local"
  shows "\<not> prefix (local @ ''>'') (n @ ''>'' @ v)"
proof
  assume "prefix (local @ ''>'') (n @ ''>'' @ v)"
  then obtain z where z: "n @ ''>'' @ v = local @ ''>'' @ z" by (auto simp: prefix_def)
  then have "takeWhile (\<lambda>c. c \<noteq> CHR ''>'') (n @ ''>'' @ v) = takeWhile (\<lambda>c. c \<noteq> CHR ''>'') (local @ ''>'' @ z)"
    by simp
  then show False using assms by (simp add: takeWhile_neq_append)
qed

lemma replace_first_tok:
  assumes "tok_ok local t" and "CHR ''>'' \<notin> set local"
  shows "replace_first (''</'' @ local @ ''>'') new (print_tok t @ v)
       = print_tok t @ replace_first (''</'' @ local @ ''>'') new v"
proof (cases t)
  case (OpenTag n atts)
  let ?as = "concat (map (\<lambda>(a, v). '' '' @ a @ [CHR ''='', CHR 0x22] @ EscapeText v @ [CHR 0x22]) atts)"
  have "CHR ''<'' \<notin> set (n @ ?as @ ''>'')"
    using assms(1) OpenTag by auto
  moreover obtain c n' where "n = c # n'" "c \<noteq> CHR ''/''"
    using assms(1) OpenTag by (cases n) auto
  ultimately show ?thesis
    using replace_first_no_lt [of "n @ ?as @ ''>''" "''/'' @ local @ ''>''" new v]
    by (simp add: OpenTag)
next
  case (CloseTag n)
  then have "\<not> prefix (''</'' @ local @ ''>'') (''</'' @ n @ ''>'' @ v)" and n: "CHR ''<'' \<notin> set (''/'' @ n @ ''>'')"
    using closing_tag_differs [of n local v] assms by auto
  then show ?thesis
    using replace_first_no_lt [OF n, of "''/'' @ local @ ''>''" new v] by (simp add: CloseTag)
next
  case (CharData t)
  then show ?thesis
    using replace_first_no_lt [OF EscapeText_no_lt, of "''/'' @ local @ ''>''" new t v] by simp
qed

lemma replace_first_toks:
  "list_all (tok_ok local) ts \<Longrightarrow> CHR ''>'' \<notin> set local \<Longrightarrow>
     replace_first (''</'' @ local @ ''>'') new (print_toks ts @ v)
       = print_toks ts @ replace_first (''</'' @ local @ ''>'') new v"
proof (induction ts)
  case (Cons t ts)
  then show ?case using replace_first_tok [of local t new "print_toks ts @ v"] by (simp add: print_toks_def)
qed (simp add: print_toks_def)

lemma members_ok: "list_all (tok_ok (root_name m)) (members m)"
  by (cases m) (auto simp: text_elem_def elem_def pvs_elem_def value_elem_def list_all_iff)

lemma root_name_plain:
  "takeWhile (\<lambda>x. x \<noteq> CHR ''>'' \<and> x \<noteq> CHR '' '' \<and> x \<noteq> CHR ''/'') (root_name m @ ''>'' @ v) = root_name m"
  "root_name m \<noteq> ''''" "CHR ''>'' \<notin> set (root_name m)"
  by (cases m; simp)+

lemma cwmpElement_ok:
  "tok_ok (root_name m) (OpenTag (cwmpElement m) [])" "cwmpElement m \<noteq> ''''"
  by (cases m; simp)+

text \<open>Every message of the ACS is encoded, and its encoding is the envelope around the
  message with its root tags, and only them, in the cwmp namespace: renaming by text search
  finds the closing tag of the root and nothing inside the members, whatever text the
  parameters carry.\<close>

theorem EncodeResponse_exact:
  "EncodeResponse msgID m = Some (soapOpen msgID
     @ print_toks (elem (cwmpElement m) (members m)) @ soapClose)"
proof -
  let ?l = "root_name m" and ?e = "cwmpElement m" and ?M = "print_toks (members m)"
  have mar: "xml_marshal m = ''<'' @ ?l @ ''>'' @ ?M @ ''</'' @ ?l @ ''>''"
    by (simp add: xml_marshal_def elem_def print_toks_def)
  have one: "replace_first (''<'' @ ?l) (''<'' @ ?e) (xml_marshal m) = ''<'' @ ?e @ ''>'' @ ?M @ ''</'' @ ?l @ ''>''"
    by (simp add: mar)
  have "replace_first (''</'' @ ?l @ ''>'') (''</'' @ ?e @ ''>'')
      (print_toks (OpenTag ?e [] # members m) @ ''</'' @ ?l @ ''>'')
    = print_toks (OpenTag ?e [] # members m) @ ''</'' @ ?e @ ''>''"
    using replace_first_toks [of ?l "OpenTag ?e [] # members m"] members_ok cwmpElement_ok(1)
      root_name_plain(3) by simp
  then have "rewriteRoot (xml_marshal m) ?e = print_toks (elem ?e (members m))"
    using one root_name_plain(1) [of m "?M @ ''</'' @ ?l @ ''>''"] root_name_plain(2)
    by (simp add: rewriteRoot_def mar print_toks_def elem_def Let_def)
  then show ?thesis by (simp add: EncodeResponse_def cwmpElement_ok Let_def)
qed

end
