(* ===== verification/Server.thy ===== *)
theory Server
  imports Session Soap
begin

text \<open>
  The in-agent ACS (\<^verbatim>\<open>src/goagent/internal/cwmp/server.go\<close>): which session a request
  belongs to, the HTTP handler, and the calls of the worker and the collector. A session is
  a pointer in Go; here it is named by its key in \<open>sessions\<close>, from which no entry is ever
  removed. A request is one step: the session lock covers the handling. The decoder
  of the SOAP body is the argument \<open>decode\<close>, for which the composed theories put \<open>DecodeEnvelope\<close>;
  \<open>ipf\<close> says whether the address lookup of the
  store fails.
\<close>

record crSettings =
  cr_user :: string
  cr_pass :: string
  cr_urlOverride :: string

record Server =
  srv_cr :: crSettings
  srv_firstContactGPV :: "string list"
  srv_sessions :: "(string, Session) tbl"
  srv_byIP :: "(string, string) tbl"

definition NewServer :: Server where
  "NewServer = \<lparr>srv_cr = \<lparr>cr_user = '''', cr_pass = '''', cr_urlOverride = ''''\<rparr>,
     srv_firstContactGPV = [], srv_sessions = [], srv_byIP = []\<rparr>"

definition UseConnRequest :: "string \<Rightarrow> string \<Rightarrow> string \<Rightarrow> Server \<Rightarrow> Server" where
  "UseConnRequest user pass urlOverride srv =
     srv\<lparr>srv_cr := \<lparr>cr_user = user, cr_pass = pass, cr_urlOverride = urlOverride\<rparr>\<rparr>"

definition UseFirstContactSnapshot :: "string list \<Rightarrow> Server \<Rightarrow> Server" where
  "UseFirstContactSnapshot paths srv = srv\<lparr>srv_firstContactGPV := paths\<rparr>"

definition deviceSessionLocked :: "bool \<Rightarrow> string \<Rightarrow> db \<Rightarrow> Server \<Rightarrow> Server" where
  "deviceSessionLocked ipf deviceID d srv =
     (case map_of (srv_sessions srv) deviceID of
        Some s \<Rightarrow> srv
      | None \<Rightarrow> srv\<lparr>srv_sessions := AList.update deviceID
           ((newSession (srv_firstContactGPV srv))\<lparr>s_DeviceID := deviceID, s_IP := DeviceIP ipf deviceID d\<rparr>)
           (srv_sessions srv)\<rparr>)"

definition provisionalSession :: "string \<Rightarrow> Server \<Rightarrow> string \<times> Server" where
  "provisionalSession host srv =
     (let key = ''ip:'' @ host;
          srv1 = srv\<lparr>srv_byIP := AList.update host key (srv_byIP srv)\<rparr>
      in (key, case map_of (srv_sessions srv) key of
           Some s \<Rightarrow> srv1
         | None \<Rightarrow> srv1\<lparr>srv_sessions := AList.update key
             ((newSession (srv_firstContactGPV srv))\<lparr>s_IP := host\<rparr>) (srv_sessions srv)\<rparr>))"

definition routeSession ::
    "bool \<Rightarrow> string \<Rightarrow> string option \<Rightarrow> Envelope option \<Rightarrow> db \<Rightarrow> Server \<Rightarrow> string \<times> Server" where
  "routeSession ipf host cookie env d srv =
     (case Option.bind env (\<lambda>e. b_Inform (env_Body e)) of
        Some ifm \<Rightarrow>
          (let di = inf_DeviceID ifm;
               sid = CanonicalID (di_OUI di) (di_ProductClass di) (di_SerialNumber di)
           in (sid, deviceSessionLocked ipf sid d (srv\<lparr>srv_byIP := AList.update host sid (srv_byIP srv)\<rparr>)))
      | None \<Rightarrow>
          (let known = (\<lambda>k. map_of (srv_sessions srv) k \<noteq> None);
               c = (case cookie of Some v \<Rightarrow> v | None \<Rightarrow> '''')
           in if c \<noteq> '''' \<and> known c then (c, srv)
              else case map_of (srv_byIP srv) host of
                Some k \<Rightarrow> if known k then (k, srv) else provisionalSession host srv
              | None \<Rightarrow> provisionalSession host srv))"

text \<open>The calls of the worker and the collector.\<close>

definition put_session :: "string \<Rightarrow> Session \<Rightarrow> Server \<Rightarrow> Server" where
  "put_session k s srv = srv\<lparr>srv_sessions := AList.update k s (srv_sessions srv)\<rparr>"

definition on_session :: "string \<Rightarrow> (Session \<Rightarrow> 'a \<times> Session) \<Rightarrow> 'a \<Rightarrow> Server \<Rightarrow> 'a \<times> Server" where
  "on_session k f x srv = (case map_of (srv_sessions srv) k of
     None \<Rightarrow> (x, srv) | Some s \<Rightarrow> (let (r, s') = f s in (r, put_session k s' srv)))"

definition srv_Enqueue :: "bool \<Rightarrow> string \<Rightarrow> Task \<Rightarrow> db \<Rightarrow> Server \<Rightarrow> Server" where
  "srv_Enqueue ipf deviceID t d srv =
     snd (on_session deviceID (\<lambda>s. ((), enqueue t s)) () (deviceSessionLocked ipf deviceID d srv))"

definition await_begin :: "bool \<Rightarrow> string \<Rightarrow> string \<Rightarrow> db \<Rightarrow> Server \<Rightarrow> nat \<times> Server" where
  "await_begin ipf deviceID cid d srv =
     on_session deviceID (waitFor cid) 0 (deviceSessionLocked ipf deviceID d srv)"

text \<open>\<open>RequestAndAwait\<close> up to its select loop: the task is queued, then the waiter is
  registered; the connection request runs beside it and touches no state.\<close>

definition request_begin :: "bool \<Rightarrow> string \<Rightarrow> Task \<Rightarrow> db \<Rightarrow> Server \<Rightarrow> nat \<times> Server" where
  "request_begin ipf deviceID t d srv = await_begin ipf deviceID (t_CommandID t) d (srv_Enqueue ipf deviceID t d srv)"

definition Refresh :: "bool \<Rightarrow> string \<Rightarrow> string list \<Rightarrow> db \<Rightarrow> Server \<Rightarrow> Server" where
  "Refresh ipf deviceID paths d srv =
     (if paths = [] \<or> DeviceIP ipf deviceID d = '''' then srv
      else srv_Enqueue ipf deviceID (zero_Task\<lparr>t_Type := TaskGPV, t_Paths := paths\<rparr>) d srv)"

definition connectionRequestURLPath :: string where
  "connectionRequestURLPath = ''Device.ManagementServer.ConnectionRequestURL''"

definition crURL :: "bool \<Rightarrow> bool \<Rightarrow> string \<Rightarrow> db \<Rightarrow> Server \<Rightarrow> string" where
  "crURL gpf ipf deviceID d srv =
     (if cr_urlOverride (srv_cr srv) \<noteq> '''' then cr_urlOverride (srv_cr srv)
      else let adv = (case map_of (GetParams gpf deviceID [connectionRequestURLPath] d) connectionRequestURLPath of
                        Some v \<Rightarrow> v | None \<Rightarrow> '''') in
        if adv \<noteq> '''' then adv
        else let ip = DeviceIP ipf deviceID d in
          if ip = '''' then '''' else ''http://'' @ ip @ '':30005/'')"

text \<open>The HTTP handler.\<close>

definition maxRequestBytes :: nat where
  "maxRequestBytes = 16777216"

record request =
  rq_host :: string
  rq_cookie :: "string option"
  rq_body :: bytes
  rq_read_fails :: bool

record response =
  rs_status :: nat
  rs_cookie :: "string option"
  rs_body :: bytes

definition writeResponse :: "string \<Rightarrow> acs_msg option \<Rightarrow> string option \<Rightarrow> response" where
  "writeResponse msgID respBody cookie =
     (case respBody of
        None \<Rightarrow> \<lparr>rs_status = 204, rs_cookie = cookie, rs_body = ''''\<rparr>
      | Some m \<Rightarrow> (case EncodeResponse msgID m of
          None \<Rightarrow> \<lparr>rs_status = 500, rs_cookie = cookie, rs_body = ''encode''\<rparr>
        | Some out \<Rightarrow> \<lparr>rs_status = 200, rs_cookie = cookie, rs_body = out\<rparr>))"

definition bad_request :: "string \<Rightarrow> response" where
  "bad_request msg = \<lparr>rs_status = 400, rs_cookie = None, rs_body = msg\<rparr>"

text \<open>What the selected session does with the request, under its lock.\<close>

definition serve_session ::
    "store_faults \<Rightarrow> int \<Rightarrow> string \<Rightarrow> Envelope option \<Rightarrow> Session \<Rightarrow> db \<Rightarrow> acs_msg option \<times> Session \<times> db" where
  "serve_session sf now host env s d =
     (let s1 = (if host \<noteq> '''' then s\<lparr>s_IP := host\<rparr> else s) in
      case env of
        None \<Rightarrow> (let (m, s2) = nextTask s1 in (m, s2, d))
      | Some e \<Rightarrow> Handle sf now e s1 d)"

definition serve_routed ::
    "store_faults \<Rightarrow> bool \<Rightarrow> int \<Rightarrow> request \<Rightarrow> Envelope option \<Rightarrow> Server \<Rightarrow> db \<Rightarrow> response \<times> Server \<times> db" where
  "serve_routed sf ipf now r env srv d =
     (let (k, srv1) = routeSession ipf (rq_host r) (rq_cookie r) env d srv in
      case map_of (srv_sessions srv1) k of
        None \<Rightarrow> (bad_request ''bad body'', srv1, d)
      | Some s \<Rightarrow>
          (let (m, s2, d2) = serve_session sf now (rq_host r) env s d
           in (writeResponse (s_MsgID s2) m (if s_DeviceID s2 \<noteq> '''' then Some (s_DeviceID s2) else None),
               put_session k s2 srv1, d2)))"

definition ServeHTTP ::
    "(bytes \<Rightarrow> Envelope option) \<Rightarrow> store_faults \<Rightarrow> bool \<Rightarrow> int \<Rightarrow> request \<Rightarrow> Server \<Rightarrow> db \<Rightarrow>
       response \<times> Server \<times> db" where
  "ServeHTTP decode sf ipf now r srv d =
     (if rq_read_fails r \<or> maxRequestBytes < length (rq_body r) then (bad_request ''bad body'', srv, d)
      else if TrimSpace (rq_body r) = '''' then serve_routed sf ipf now r None srv d
      else case decode (rq_body r) of
        None \<Rightarrow> (bad_request ''bad soap'', srv, d)
      | Some env \<Rightarrow> serve_routed sf ipf now r (Some env) srv d)"

subsection \<open>Routing\<close>

lemma deviceSessionLocked_known: "map_of (srv_sessions (deviceSessionLocked ipf k d srv)) k \<noteq> None"
  by (auto simp: deviceSessionLocked_def split: option.split)

lemma deviceSessionLocked_lookup:
  "map_of (srv_sessions (deviceSessionLocked ipf k d srv)) k' =
     (if k' = k \<and> map_of (srv_sessions srv) k = None
      then Some ((newSession (srv_firstContactGPV srv))\<lparr>s_DeviceID := k, s_IP := DeviceIP ipf k d\<rparr>)
      else map_of (srv_sessions srv) k')"
  by (auto simp: deviceSessionLocked_def split: option.split)

lemma provisionalSession_lookup:
  "map_of (srv_sessions (snd (provisionalSession host srv))) k' =
     (if k' = ''ip:'' @ host \<and> map_of (srv_sessions srv) k' = None
      then Some ((newSession (srv_firstContactGPV srv))\<lparr>s_IP := host\<rparr>)
      else map_of (srv_sessions srv) k')"
  "fst (provisionalSession host srv) = ''ip:'' @ host"
  by (auto simp: provisionalSession_def Let_def split: option.split)

text \<open>Routing always selects an existing session and changes none: the new sessions it
  makes are empty ones.\<close>

lemma routeSession_known:
  assumes "routeSession ipf host cookie env d srv = (k, srv1)"
  obtains s where "map_of (srv_sessions srv1) k = Some s"
proof -
  have "map_of (srv_sessions srv1) k \<noteq> None"
    using assms deviceSessionLocked_known provisionalSession_lookup
    by (auto simp: routeSession_def Let_def prod_eq_iff split: option.splits if_splits)
  then show ?thesis using that by auto
qed

lemma routeSession_lookup:
  assumes "routeSession ipf host cookie env d srv = (k, srv1)" and "map_of (srv_sessions srv1) k' = Some s"
  shows "map_of (srv_sessions srv) k' = Some s
     \<or> (k' = k \<and> s_taskQueue s = [] \<and> s_inflight s = None \<and> session_inv s
        \<and> (s_DeviceID s = k \<or> s_DeviceID s = '''' \<and> k = ''ip:'' @ host))"
proof -
  have inv: "session_inv ((newSession fc)\<lparr>s_IP := a\<rparr>)" "session_inv ((newSession fc)\<lparr>s_DeviceID := a', s_IP := a\<rparr>)" for fc a a'
    by (simp_all add: inv_fields)
  show ?thesis
    using assms provisionalSession_lookup [of host srv]
    by (auto simp: routeSession_def deviceSessionLocked_lookup Let_def prod_eq_iff newSession_def
        inv [unfolded newSession_def, simplified] split: option.splits if_splits)
qed

subsection \<open>What a session holds\<close>

definition tasks_of :: "Session \<Rightarrow> Task set" where
  "tasks_of s = set (s_taskQueue s) \<union> set_option (s_inflight s)"

lemma tasks_of_nextTask: "tasks_of (snd (nextTask s)) \<subseteq> tasks_of s"
  by (auto simp: tasks_of_def nextTask_def split: list.splits)

lemma tasks_of_deliver [simp]: "tasks_of (deliver r s) = tasks_of s"
  by (simp add: tasks_of_def deliver_def deliver_shared_def split: option.split)

lemma deliver_DeviceID [simp]: "s_DeviceID (deliver r s) = s_DeviceID s"
  by (simp add: deliver_def deliver_shared_def split: option.split)

lemma tasks_of_fields [simp]:
  "tasks_of (s\<lparr>s_MsgID := m\<rparr>) = tasks_of s" "tasks_of (s\<lparr>s_IP := m\<rparr>) = tasks_of s"
  "tasks_of (s\<lparr>s_DeviceID := m\<rparr>) = tasks_of s" "tasks_of (s\<lparr>s_waiters := w\<rparr>) = tasks_of s"
  "tasks_of (s\<lparr>s_chans := ch\<rparr>) = tasks_of s" "tasks_of (s\<lparr>s_results := rs\<rparr>) = tasks_of s"
  "tasks_of (s\<lparr>s_nextChan := n\<rparr>) = tasks_of s"
  by (simp_all add: tasks_of_def)

lemma tasks_of_enqueue: "tasks_of (enqueue t s) \<subseteq> insert t (tasks_of s)"
  using set_chan_send [of chanCap t "s_taskQueue s"] by (auto simp: tasks_of_def enqueue_def)

lemma tasks_of_finishInflight: "tasks_of (snd (finishInflight r s)) \<subseteq> tasks_of s"
proof -
  have drop: "tasks_of (x\<lparr>s_inflight := None\<rparr>) \<subseteq> tasks_of x" for x
    by (auto simp: tasks_of_def)
  have "tasks_of (case s_inflight s of None \<Rightarrow> s | Some t \<Rightarrow>
      (if t_CommandID t \<noteq> [] then deliver (r\<lparr>tr_CommandID := t_CommandID t\<rparr>) s else s)\<lparr>s_inflight := None\<rparr>) \<subseteq> tasks_of s"
    by (cases "s_inflight s")
      (simp_all add: order_trans [OF drop [of "deliver _ _"], unfolded tasks_of_deliver, OF order_refl] drop)
  then show ?thesis
    unfolding finishInflight_def by (rule order_trans [OF tasks_of_nextTask])
qed

lemma finishInflight_DeviceID [simp]: "s_DeviceID (snd (finishInflight r s)) = s_DeviceID s"
  by (simp add: finishInflight_def split: option.split)

lemma requeue_keeps [simp]:
  "tasks_of (requeueOrphanedTask s) \<subseteq> tasks_of s" "s_DeviceID (requeueOrphanedTask s) = s_DeviceID s"
  using set_chan_send [of chanCap _ "s_taskQueue s"]
  by (auto simp: requeueOrphanedTask_def tasks_of_def split: option.split)

lemma handle_reply_keeps:
  "tasks_of (fst (snd (handle_reply sf now b s d))) \<subseteq> tasks_of s"
  "s_DeviceID (fst (snd (handle_reply sf now b s d))) = s_DeviceID s"
  by (simp_all add: handle_reply_def onGPV_def onSPV_def onGPN_def onFault_def Let_def case_prod_beta
      tasks_of_finishInflight tasks_of_nextTask split: option.split)

lemma onInform_keeps:
  "s_DeviceID (fst (snd (onInform sf now ifm s d))) =
     CanonicalID (di_OUI (inf_DeviceID ifm)) (di_ProductClass (inf_DeviceID ifm)) (di_SerialNumber (inf_DeviceID ifm))"
  "tasks_of (fst (snd (onInform sf now ifm s d))) \<subseteq> tasks_of s \<union> {t. t_CommandID t = ''''}"
proof -
  have anon: "t_CommandID t = '''' \<Longrightarrow> tasks_of x \<subseteq> T \<union> {t. t_CommandID t = ''''}
      \<Longrightarrow> tasks_of (enqueue t x) \<subseteq> T \<union> {t. t_CommandID t = ''''}" for x t T
    using tasks_of_enqueue [of t x] by auto
  show "tasks_of (fst (snd (onInform sf now ifm s d))) \<subseteq> tasks_of s \<union> {t. t_CommandID t = ''''}"
    by (simp add: onInform_def Let_def) (intro conjI impI anon; simp add: zero_Task_def)
qed (simp add: onInform_def Let_def enqueue_def)

lemma Handle_keeps:
  assumes "Handle sf now env s d = (m, s', d')"
  shows "case b_Inform (env_Body env) of
      None \<Rightarrow> tasks_of s' \<subseteq> tasks_of s \<and> s_DeviceID s' = s_DeviceID s
    | Some ifm \<Rightarrow> tasks_of s' \<subseteq> tasks_of s \<union> {t. t_CommandID t = ''''}
        \<and> s_DeviceID s' = CanonicalID (di_OUI (inf_DeviceID ifm)) (di_ProductClass (inf_DeviceID ifm))
            (di_SerialNumber (inf_DeviceID ifm))"
proof (cases "b_Inform (env_Body env)")
  case None
  have "s' = s\<lparr>s_MsgID := env_ID env\<rparr> \<or> s' = fst (snd (handle_reply sf now (env_Body env) (s\<lparr>s_MsgID := env_ID env\<rparr>) d))"
    using assms None by (auto simp: Handle_def onATC_def Let_def split: if_splits option.splits)
  with None handle_reply_keeps show ?thesis by fastforce
next
  case (Some ifm)
  let ?s = "requeueOrphanedTask (s\<lparr>s_MsgID := env_ID env\<rparr>)"
  have "s' = fst (snd (onInform sf now ifm ?s d))"
    using assms Some by (simp add: Handle_def Let_def)
  moreover have "tasks_of ?s \<subseteq> tasks_of s" using requeue_keeps(1) by fastforce
  ultimately show ?thesis using Some onInform_keeps [of sf now ifm ?s d] by auto
qed

lemma serve_session_keeps:
  assumes "serve_session sf now host env s d = (m, s', d')"
  shows "case Option.bind env (\<lambda>e. b_Inform (env_Body e)) of
      None \<Rightarrow> tasks_of s' \<subseteq> tasks_of s \<and> s_DeviceID s' = s_DeviceID s
    | Some ifm \<Rightarrow> tasks_of s' \<subseteq> tasks_of s \<union> {t. t_CommandID t = ''''}
        \<and> s_DeviceID s' = CanonicalID (di_OUI (inf_DeviceID ifm)) (di_ProductClass (inf_DeviceID ifm))
            (di_SerialNumber (inf_DeviceID ifm))"
proof (cases env)
  case None
  then show ?thesis
    using assms tasks_of_nextTask [of "s\<lparr>s_IP := host\<rparr>"] tasks_of_nextTask [of s]
    by (auto simp: serve_session_def Let_def case_prod_beta split: if_splits)
next
  case (Some e)
  then show ?thesis
    using assms Handle_keeps [of sf now e "s\<lparr>s_IP := host\<rparr>" d m s' d'] Handle_keeps [of sf now e s d m s' d']
    by (simp add: serve_session_def Let_def split: if_splits option.splits)
qed

lemma serve_session_inv:
  assumes "session_inv s" "db_ok d" "serve_session sf now host env s d = (m, s', d')"
  shows "session_inv s' \<and> db_ok d'"
proof -
  define s1 where "s1 = (if host \<noteq> [] then s\<lparr>s_IP := host\<rparr> else s)"
  have inv: "session_inv s1" using assms(1) by (simp add: s1_def inv_fields)
  show ?thesis
  proof (cases env)
    case None
    with assms inv inv_nextTask [OF inv] show ?thesis
      by (auto simp: serve_session_def case_prod_beta simp flip: s1_def)
  next
    case (Some e)
    with assms(3) have "Handle sf now e s1 d = (m, s', d')" by (simp add: serve_session_def s1_def Let_def)
    then show ?thesis
      using inv_Handle [OF inv, of sf now e d] db_ok_Handle [OF assms(2), of sf now e s1] by simp
  qed
qed

subsection \<open>Reachable servers\<close>

text \<open>
  The steps around the server, in any order, from a freshly configured one: an HTTP request
  of anybody, a task queued for a device, a refresh, a waiter registering, taking a turn,
  leaving. The third component records, for the statements only, which task was ever queued
  for which device.
\<close>

type_synonym srv_state = "Server \<times> db \<times> (string \<times> Task) set"

inductive srv_step :: "srv_state \<Rightarrow> srv_state \<Rightarrow> bool" where
  http: "ServeHTTP decode sf ipf now r srv d = (rs, srv', d') \<Longrightarrow> srv_step (srv, d, L) (srv', d', L)"
| queue: "srv_step (srv, d, L) (srv_Enqueue ipf dev t d srv, d, insert (dev, t) L)"
| refresh: "srv_step (srv, d, L) (Refresh ipf dev paths d srv, d,
     insert (dev, zero_Task\<lparr>t_Type := TaskGPV, t_Paths := paths\<rparr>) L)"
| register: "await_begin ipf dev cid d srv = (c, srv') \<Longrightarrow> srv_step (srv, d, L) (srv', d, L)"
| turn: "on_session dev (await_turn cid c ch) Waiting srv = (out, srv') \<Longrightarrow> srv_step (srv, d, L) (srv', d, L)"
| leave: "on_session dev (\<lambda>s. ((), release cid s)) () srv = (u, srv') \<Longrightarrow> srv_step (srv, d, L) (srv', d, L)"

inductive srv_reach :: "srv_state \<Rightarrow> bool" where
  fresh: "srv_reach (UseFirstContactSnapshot paths (UseConnRequest user pass url NewServer), init_db, {})"
| step: "srv_reach x \<Longrightarrow> srv_step x y \<Longrightarrow> srv_reach y"

definition keyed_session :: "(string \<times> Task) set \<Rightarrow> string \<Rightarrow> Session \<Rightarrow> bool" where
  "keyed_session L k s \<longleftrightarrow> session_inv s
     \<and> (s_DeviceID s = k \<or> s_DeviceID s = '''' \<and> (\<exists>h. k = ''ip:'' @ h))
     \<and> (\<forall>t\<in>tasks_of s. (k, t) \<in> L \<or> t_CommandID t = '''' \<and> CHR ''-'' \<in> set k)"

definition srv_inv :: "srv_state \<Rightarrow> bool" where
  "srv_inv x \<longleftrightarrow> (case x of (srv, d, L) \<Rightarrow>
     db_ok d \<and> (\<forall>k s. map_of (srv_sessions srv) k = Some s \<longrightarrow> keyed_session L k s))"

lemma CanonicalID_hyphen: "CHR ''-'' \<in> set (CanonicalID oui pc serial)"
  by (simp add: CanonicalID_def)

lemma keyed_session_fresh: "keyed_session L k ((newSession fc)\<lparr>s_DeviceID := k, s_IP := ip\<rparr>)"
  by (simp add: keyed_session_def inv_fields) (simp add: newSession_def tasks_of_def)

lemma keyed_session_mono: "keyed_session L k s \<Longrightarrow> L \<subseteq> L' \<Longrightarrow> keyed_session L' k s"
  by (auto simp: keyed_session_def)

lemma keyed_session_same:
  "keyed_session L k s \<Longrightarrow> session_inv s' \<Longrightarrow> s_DeviceID s' = s_DeviceID s \<Longrightarrow> tasks_of s' \<subseteq> tasks_of s
     \<Longrightarrow> keyed_session L k s'"
  by (auto simp: keyed_session_def)

lemma srv_inv_put:
  "srv_inv (srv, d, L) \<Longrightarrow> keyed_session L k s \<Longrightarrow> srv_inv (put_session k s srv, d, L)"
  by (simp add: srv_inv_def put_session_def)

lemma srv_inv_mono: "srv_inv (srv, d, L) \<Longrightarrow> L \<subseteq> L' \<Longrightarrow> srv_inv (srv, d, L')"
  by (auto simp: srv_inv_def intro: keyed_session_mono)

lemma srv_inv_deviceSession: "srv_inv (srv, d, L) \<Longrightarrow> srv_inv (deviceSessionLocked ipf k d srv, d, L)"
  by (auto simp: srv_inv_def deviceSessionLocked_lookup keyed_session_fresh split: if_splits)

lemma srv_inv_on_session:
  assumes "srv_inv (srv, d, L)" and "on_session k f x srv = (y, srv')"
    and "\<And>s. keyed_session L k s \<Longrightarrow> keyed_session L k (snd (f s))"
  shows "srv_inv (srv', d, L)"
  using assms(1,2)
proof (cases "map_of (srv_sessions srv) k")
  case (Some s)
  with assms(1) have "keyed_session L k s" by (simp add: srv_inv_def)
  then show ?thesis
    using assms Some srv_inv_put [OF assms(1) assms(3)] by (auto simp: on_session_def case_prod_beta)
qed (simp add: on_session_def)

lemma keyed_enqueue: "keyed_session L k s \<Longrightarrow> keyed_session (insert (k, t) L) k (enqueue t s)"
  using tasks_of_enqueue [of t s] by (auto simp: keyed_session_def inv_enqueue) (auto simp: enqueue_def)

lemma srv_inv_Enqueue:
  assumes "srv_inv (srv, d, L)"
  shows "srv_inv (srv_Enqueue ipf dev t d srv, d, insert (dev, t) L)"
proof -
  have "srv_inv (deviceSessionLocked ipf dev d srv, d, insert (dev, t) L)"
    using assms by (blast intro: srv_inv_deviceSession srv_inv_mono)
  moreover have "keyed_session (insert (dev, t) L) dev s \<Longrightarrow> keyed_session (insert (dev, t) L) dev (enqueue t s)" for s
    using keyed_enqueue [of "insert (dev, t) L" dev s t] by simp
  ultimately show ?thesis
    unfolding srv_Enqueue_def by (intro srv_inv_on_session [OF _ prod.collapse [symmetric]]) simp_all
qed

text \<open>One request: the routed session, and only it, is replaced by what it made of it.\<close>

lemma serve_routed_cases:
  assumes "serve_routed sf ipf now r env srv d = (rs, srv', d')"
  obtains k srv1 s m s' where
    "routeSession ipf (rq_host r) (rq_cookie r) env d srv = (k, srv1)"
    "map_of (srv_sessions srv1) k = Some s"
    "serve_session sf now (rq_host r) env s d = (m, s', d')"
    "srv' = put_session k s' srv1"
    "rs = writeResponse (s_MsgID s') m (if s_DeviceID s' \<noteq> [] then Some (s_DeviceID s') else None)"
proof -
  obtain k srv1 where r: "routeSession ipf (rq_host r) (rq_cookie r) env d srv = (k, srv1)"
    by (metis surj_pair)
  obtain s where s: "map_of (srv_sessions srv1) k = Some s" by (rule routeSession_known [OF r])
  obtain m s' d2 where sv: "serve_session sf now (rq_host r) env s d = (m, s', d2)" by (metis surj_pair)
  show ?thesis
    using assms r s sv by (intro that [OF r s, of m s']) (auto simp: serve_routed_def)
qed

lemma routeSession_key:
  "routeSession ipf host cookie env d srv = (k, srv1) \<Longrightarrow>
     Option.bind env (\<lambda>e. b_Inform (env_Body e)) = Some ifm \<Longrightarrow>
     k = CanonicalID (di_OUI (inf_DeviceID ifm)) (di_ProductClass (inf_DeviceID ifm)) (di_SerialNumber (inf_DeviceID ifm))"
  by (simp add: routeSession_def Let_def)

lemma keyed_serve_session:
  assumes s: "keyed_session L k s" and sv: "serve_session sf now host env s d = (m, s', d')" "db_ok d"
    and rt: "routeSession ipf host' cookie env d0 srv = (k, srv1)"
  shows "keyed_session L k s'"
proof -
  have inv: "session_inv s'" using s sv serve_session_inv unfolding keyed_session_def by blast
  show ?thesis
  proof (cases "Option.bind env (\<lambda>e. b_Inform (env_Body e))")
    case None
    then show ?thesis
      using serve_session_keeps [OF sv(1)] keyed_session_same [OF s inv] by simp
  next
    case (Some ifm)
    then have "s_DeviceID s' = k" "CHR ''-'' \<in> set k"
      using serve_session_keeps [OF sv(1)] routeSession_key [OF rt Some] CanonicalID_hyphen by simp_all
    then show ?thesis
      using serve_session_keeps [OF sv(1)] s inv Some by (auto simp: keyed_session_def)
  qed
qed

lemma srv_inv_route:
  assumes "srv_inv (srv, d, L)" and "routeSession ipf host cookie env d srv = (k, srv1)"
  shows "srv_inv (srv1, d, L)"
  using assms routeSession_lookup [OF assms(2)]
  by (fastforce simp: srv_inv_def keyed_session_def tasks_of_def)

lemma srv_inv_serve_routed:
  assumes "srv_inv (srv, d, L)" and "serve_routed sf ipf now r env srv d = (rs, srv', d')"
  shows "srv_inv (srv', d', L)"
  using assms(2)
proof (rule serve_routed_cases)
  fix k srv1 s m s'
  assume rt: "routeSession ipf (rq_host r) (rq_cookie r) env d srv = (k, srv1)"
    and s: "map_of (srv_sessions srv1) k = Some s"
    and sv: "serve_session sf now (rq_host r) env s d = (m, s', d')" and srv': "srv' = put_session k s' srv1"
  have i1: "srv_inv (srv1, d, L)" by (rule srv_inv_route [OF assms(1) rt])
  then have ks: "keyed_session L k s" and ok: "db_ok d" using s by (auto simp: srv_inv_def)
  have "db_ok d'" using serve_session_inv [OF _ ok sv] ks by (simp add: keyed_session_def)
  then have "srv_inv (srv1, d', L)" using i1 by (simp add: srv_inv_def)
  then show ?thesis
    unfolding srv' by (rule srv_inv_put) (rule keyed_serve_session [OF ks sv ok rt])
qed

lemma srv_step_inv: "srv_step x y \<Longrightarrow> srv_inv x \<Longrightarrow> srv_inv y"
proof (induction rule: srv_step.induct)
  case (http decode sf ipf now r srv d rs srv' d' L)
  then show ?case
    by (auto simp: ServeHTTP_def dest: srv_inv_serve_routed split: if_splits option.splits)
next
  case (queue srv d L ipf dev t)
  then show ?case by (rule srv_inv_Enqueue)
next
  case (refresh srv d L ipf dev paths)
  then show ?case
    by (auto simp: Refresh_def intro: srv_inv_Enqueue srv_inv_mono)
next
  case (register ipf dev cid d srv c srv' L)
  have "keyed_session L dev s \<Longrightarrow> keyed_session L dev (snd (waitFor cid s))" for s
    by (intro keyed_session_same [of L dev s "snd (waitFor cid s)"])
      (auto simp: keyed_session_def intro: inv_waitFor, simp_all add: waitFor_def)
  with register show ?case
    by (intro srv_inv_on_session [OF srv_inv_deviceSession register(1) [unfolded await_begin_def]])
next
  case (turn dev cid c ch srv out srv' d L)
  have "tasks_of (snd (await_turn cid c ch s)) = tasks_of s \<and> s_DeviceID (snd (await_turn cid c ch s)) = s_DeviceID s" for s
    by (cases ch) (auto split: option.splits list.splits)
  then have "keyed_session L dev s \<Longrightarrow> keyed_session L dev (snd (await_turn cid c ch s))" for s
    by (intro keyed_session_same [of L dev s "snd (await_turn cid c ch s)"])
      (simp_all add: keyed_session_def inv_await_turn)
  with turn show ?case by (intro srv_inv_on_session [OF _ turn(1)])
next
  case (leave dev cid srv u srv' d L)
  have "keyed_session L dev s \<Longrightarrow> keyed_session L dev (snd ((), release cid s))" for s
    by (intro keyed_session_same [of L dev s "snd ((), release cid s)"])
      (auto simp: keyed_session_def inv_release, simp_all add: release_def)
  with leave show ?case by (intro srv_inv_on_session [OF _ leave(1)])
qed

lemma srv_reach_inv: "srv_reach x \<Longrightarrow> srv_inv x"
proof (induction rule: srv_reach.induct)
  case (fresh paths user pass url)
  then show ?case by (simp add: srv_inv_def UseFirstContactSnapshot_def UseConnRequest_def NewServer_def)
next
  case (step x y)
  then show ?case using srv_step_inv by blast
qed

subsection \<open>Isolation of devices\<close>

lemma writeResponse_cookie [simp]: "rs_cookie (writeResponse msgID m c) = c"
  by (simp add: writeResponse_def split: option.split)

lemma serve_routed_frame:
  assumes "serve_routed sf ipf now r env srv d = (rs, srv', d')"
    and "k' \<noteq> fst (routeSession ipf (rq_host r) (rq_cookie r) env d srv)"
  shows "map_of (srv_sessions srv') k' = map_of (srv_sessions srv) k'"
proof -
  obtain k srv1 s' where rt: "routeSession ipf (rq_host r) (rq_cookie r) env d srv = (k, srv1)"
    and srv': "srv' = put_session k s' srv1"
    using assms(1) by (rule serve_routed_cases)
  have "map_of (srv_sessions srv1) k' = map_of (srv_sessions srv) k'" if "k' \<noteq> k"
    using rt that provisionalSession_lookup [of "rq_host r" srv]
    by (auto simp: routeSession_def deviceSessionLocked_lookup Let_def prod_eq_iff split: option.splits if_splits)
  then show ?thesis using assms(2) rt by (simp add: srv' put_session_def)
qed

text \<open>C6. Devices are isolated even behind one source address. In every reachable state a
  request is handled by one session: that of the device it Informs as, else that of the
  device its cookie names. No other session changes, the cookie it is given names the same
  session, and a command handed out in it was queued for that very device.\<close>

theorem task_isolation:
  assumes "srv_reach (srv, d, L)" and "serve_routed sf ipf now r env srv d = (rs, srv', d')"
    and "k = fst (routeSession ipf (rq_host r) (rq_cookie r) env d srv)"
  shows "(\<forall>ifm. Option.bind env (\<lambda>e. b_Inform (env_Body e)) = Some ifm \<longrightarrow>
        k = CanonicalID (di_OUI (inf_DeviceID ifm)) (di_ProductClass (inf_DeviceID ifm)) (di_SerialNumber (inf_DeviceID ifm)))
     \<and> (\<forall>c s. Option.bind env (\<lambda>e. b_Inform (env_Body e)) = None \<longrightarrow> rq_cookie r = Some c \<longrightarrow> c \<noteq> '''' \<longrightarrow>
        map_of (srv_sessions srv) c = Some s \<longrightarrow> k = c)
     \<and> (\<forall>k'. k' \<noteq> k \<longrightarrow> map_of (srv_sessions srv') k' = map_of (srv_sessions srv) k')
     \<and> (rs_cookie rs = None \<or> rs_cookie rs = Some k)
     \<and> (\<forall>s t. map_of (srv_sessions srv') k = Some s \<longrightarrow> s_inflight s = Some t \<longrightarrow>
          t_CommandID t \<noteq> '''' \<longrightarrow> (k, t) \<in> L)"
proof -
  have inv': "srv_inv (srv', d', L)"
    by (rule srv_inv_serve_routed [OF srv_reach_inv [OF assms(1)] assms(2)])
  obtain srv1 m s' where rt: "routeSession ipf (rq_host r) (rq_cookie r) env d srv = (k, srv1)"
    and srv': "srv' = put_session k s' srv1"
    and rs: "rs = writeResponse (s_MsgID s') m (if s_DeviceID s' \<noteq> [] then Some (s_DeviceID s') else None)"
    using assms(2,3) by (metis serve_routed_cases fst_conv)
  have ks: "keyed_session L k s" if "map_of (srv_sessions srv') k = Some s" for s
    using inv' that by (simp add: srv_inv_def)
  then have "rs_cookie rs = None \<or> rs_cookie rs = Some k"
    using ks [of s'] by (auto simp: rs srv' put_session_def keyed_session_def)
  moreover have "(k, t) \<in> L" if "map_of (srv_sessions srv') k = Some s" "s_inflight s = Some t" "t_CommandID t \<noteq> []" for s t
    using ks [OF that(1)] that(2,3) by (auto simp: keyed_session_def tasks_of_def)
  moreover have "k = c" if "Option.bind env (\<lambda>e. b_Inform (env_Body e)) = None" "rq_cookie r = Some c" "c \<noteq> []"
      "map_of (srv_sessions srv) c = Some s" for c s
    using rt that by (simp add: routeSession_def)
  ultimately show ?thesis
    using serve_routed_frame [OF assms(2)] rt routeSession_key [OF rt] by auto
qed

text \<open>A provisional session, one for a source address no device has Informed from, never
  holds a task, so all it can be handed is a 204, as long as nobody queues tasks under a key
  of that form.\<close>

theorem provisional_sessions_idle:
  assumes "srv_reach (srv, d, L)" and "\<forall>(dev, t)\<in>L. \<not> HasPrefix dev ''ip:''"
    and "map_of (srv_sessions srv) (''ip:'' @ host) = Some s" and "CHR ''-'' \<notin> set host"
  shows "fst (nextTask s) = None \<and> s_inflight s = None"
proof -
  have "keyed_session L (''ip:'' @ host) s"
    using srv_reach_inv [OF assms(1)] assms(3) by (simp add: srv_inv_def)
  moreover have "(''ip:'' @ host, t) \<notin> L" for t using assms(2) by auto
  ultimately have "tasks_of s = {}" using assms(4) by (auto simp: keyed_session_def)
  then show ?thesis by (simp add: tasks_of_def nextTask_def split: list.splits)
qed

text \<open>A transfer notice that comes before any Inform the running agent has seen from that
  address, and with no cookie it knows (after a restart of the agent, in the middle of a
  CWMP session), is answered, but recorded under the empty device id.\<close>

theorem early_ATC_unattributed:
  assumes "map_of (srv_byIP srv) (rq_host r) = None" "rq_cookie r = None"
    and "map_of (srv_sessions srv) (''ip:'' @ rq_host r) = None"
    and "b_Inform (env_Body e) = None" "b_GetRPCMethods (env_Body e) = None"
    and "b_AutonomousTransferComplete (env_Body e) = Some atc" and "db_ok d"
    and "serve_routed no_store_faults ipf now r (Some e) srv d = (rs, srv', d')"
  shows "rs_status rs = 200 \<and> rs_cookie rs = None
     \<and> (\<exists>ev. map stored_event (pending_events d') = map stored_event (pending_events d) @ [ev]
          \<and> se_DeviceID ev = '''')"
proof -
  let ?s = "(newSession (srv_firstContactGPV srv))\<lparr>s_IP := rq_host r\<rparr>"
  have rt: "fst (routeSession ipf (rq_host r) (rq_cookie r) (Some e) d srv) = ''ip:'' @ rq_host r"
    "map_of (srv_sessions (snd (routeSession ipf (rq_host r) (rq_cookie r) (Some e) d srv))) (''ip:'' @ rq_host r) = Some ?s"
    using assms(1-4) provisionalSession_lookup [of "rq_host r" srv] by (simp_all add: routeSession_def)
  let ?s1 = "if rq_host r \<noteq> [] then ?s\<lparr>s_IP := rq_host r\<rparr> else ?s"
  have dev: "s_DeviceID ?s1 = ''''" by (simp add: newSession_def)
  have h: "Handle no_store_faults now e ?s1 d = onATC no_store_faults now atc (?s1\<lparr>s_MsgID := env_ID e\<rparr>) d"
    using assms(4-6) by (simp add: Handle_def Let_def)
  have rs: "rs = writeResponse (env_ID e) (Some AutonomousTransferCompleteResponse) None"
    and d': "d' = snd (snd (onATC no_store_faults now atc (?s1\<lparr>s_MsgID := env_ID e\<rparr>) d))"
    using assms(8) rt h dev
    by (auto simp: serve_routed_def serve_session_def case_prod_beta onATC_def Let_def split: if_splits)
  have "db_ok d'" using assms(7) by (simp add: d' onATC_def Let_def)
  then show ?thesis
    using assms(7) dev
    by (simp add: rs writeResponse_def EncodeResponse_def cwmpElement_ok Let_def pending_events_ok d' onATC_def
        EmitEvent_def stored_event_def)
qed

subsection \<open>A command end to end\<close>

lemma serve_known_cookie:
  assumes "rq_cookie r = Some dev" "dev \<noteq> ''''" "map_of (srv_sessions srv) dev = Some s"
    and "case env of None \<Rightarrow> True | Some e \<Rightarrow> b_Inform (env_Body e) = None"
    and "serve_session sf now (rq_host r) env s d = (m, s', d')"
  shows "serve_routed sf ipf now r env srv d =
     (writeResponse (s_MsgID s') m (if s_DeviceID s' \<noteq> '''' then Some (s_DeviceID s') else None),
      put_session dev s' srv, d')"
proof -
  have "routeSession ipf (rq_host r) (rq_cookie r) env d srv = (dev, srv)"
    using assms(1-4) by (auto simp: routeSession_def split: option.splits)
  then show ?thesis using assms(3,5) by (simp add: serve_routed_def)
qed

text \<open>A command goes out and its answer comes back to the caller: after
  \<open>RequestAndAwait\<close> has queued a named command on an idle session and registered its
  waiter, the device's empty POST is answered with exactly that request, and when the device
  then answers it, in whatever way, the waiter's next turn returns that answer under the id
  of the command.\<close>

theorem command_round_trip:
  assumes s: "map_of (srv_sessions srv) dev = Some s" "s_taskQueue s = []" "session_inv s"
    and ids: "dev \<noteq> ''''" "t_CommandID t \<noteq> ''''" "rq_cookie r = Some dev"
    and rb: "request_begin ipf dev t d srv = (c, srv1)"
    and post: "serve_routed sf ipf now r None srv1 d = (rs1, srv2, d1)"
    and ans: "\<not> device_call (env_Body e)" "answer_of (env_Body e) t = Some res"
      "serve_routed sf ipf now' r (Some e) srv2 d1 = (rs2, srv3, d2)"
  shows "Some (rs_body rs1) = EncodeResponse (s_MsgID s) (request_of t)
     \<and> fst (on_session dev (await_turn (t_CommandID t) c FromMine) Waiting srv3)
         = Returned (res\<lparr>tr_CommandID := t_CommandID t\<rparr>)"
proof -
  let ?n = "s_nextChan s"
  let ?s1 = "s\<lparr>s_taskQueue := [t], s_waiters := AList.update (t_CommandID t) ?n (s_waiters s), s_nextChan := Suc ?n\<rparr>"
  have c: "c = ?n" and srv1: "map_of (srv_sessions srv1) dev = Some ?s1"
    using rb s(1,2)
    by (auto simp: request_begin_def await_begin_def srv_Enqueue_def deviceSessionLocked_def on_session_def
        put_session_def enqueue_def chan_send_def chanCap_def waitFor_def)
  have free: "map_of (s_chans s) ?n = None"
    using s(3) by (auto simp: session_inv_def waiters_ok_def)
  let ?a = "if rq_host r \<noteq> [] then ?s1\<lparr>s_IP := rq_host r\<rparr> else ?s1"
  let ?s2 = "?a\<lparr>s_taskQueue := [], s_inflight := Some t\<rparr>"
  have "serve_session sf now (rq_host r) None ?s1 d = (Some (request_of t), ?s2, d)"
    by (simp add: serve_session_def nextTask_def)
  from serve_known_cookie [OF ids(3,1) srv1 _ this] post
  have rs1: "rs1 = writeResponse (s_MsgID s) (Some (request_of t)) (if s_DeviceID ?s2 \<noteq> [] then Some (s_DeviceID ?s2) else None)"
    and srv2: "map_of (srv_sessions srv2) dev = Some ?s2"
    by (auto simp: put_session_def)
  let ?s2' = "if rq_host r \<noteq> [] then ?s2\<lparr>s_IP := rq_host r\<rparr> else ?s2"
  obtain m s3 d3 where h: "Handle sf now' e ?s2' d1 = (m, s3, d3)" by (metis surj_pair)
  then have "serve_session sf now' (rq_host r) (Some e) ?s2 d1 = (m, s3, d3)"
    by (simp add: serve_session_def Let_def)
  from serve_known_cookie [OF ids(3,1) srv2 _ this] ans(1,3)
  have srv3: "map_of (srv_sessions srv3) dev = Some s3"
    by (auto simp: put_session_def device_call_def)
  have "fst (await_turn (t_CommandID t) ?n FromMine s3) = Returned (res\<lparr>tr_CommandID := t_CommandID t\<rparr>)"
    using answer_to_waiter [OF ans(1) _ ids(2) ans(2) _ _ h, of ?n] free by simp
  then show ?thesis
    by (simp add: rs1 writeResponse_def EncodeResponse_def cwmpElement_ok Let_def srv3 on_session_def case_prod_beta c)
qed

subsection \<open>Witnesses\<close>

definition fresh_server :: Server where
  "fresh_server = UseFirstContactSnapshot [] (UseConnRequest '''' '''' '''' NewServer)"

definition demo_request :: "string option \<Rightarrow> request" where
  "demo_request cookie = \<lparr>rq_host = ''10.0.0.7'', rq_cookie = cookie, rq_body = '''', rq_read_fails = False\<rparr>"

definition demo_task :: Task where
  "demo_task = zero_Task\<lparr>t_Type := TaskReboot, t_CmdKey := ''k1'', t_CommandID := ''c1''\<rparr>"

lemma reach_fresh: "srv_reach (fresh_server, init_db, {})"
  unfolding fresh_server_def by (rule srv_reach.fresh)

lemmas server_demo_defs = fresh_server_def demo_request_def demo_task_def zero_Task_def UseFirstContactSnapshot_def
  UseConnRequest_def NewServer_def srv_Enqueue_def deviceSessionLocked_def on_session_def put_session_def
  routeSession_def provisionalSession_def

theorem task_isolation_witness:
  "srv_reach (srv_Enqueue False ''A-B-1'' demo_task init_db fresh_server, init_db, {(''A-B-1'', demo_task)})
   \<and> map_of (srv_sessions (fst (snd (serve_routed no_store_faults False 5 (demo_request None) None
        (srv_Enqueue False ''A-B-1'' demo_task init_db fresh_server) init_db)))) ''A-B-1''
     = map_of (srv_sessions (srv_Enqueue False ''A-B-1'' demo_task init_db fresh_server)) ''A-B-1''"
proof -
  let ?srv = "srv_Enqueue False ''A-B-1'' demo_task init_db fresh_server"
  let ?x = "serve_routed no_store_faults False 5 (demo_request None) None ?srv init_db"
  have r: "srv_reach (?srv, init_db, {(''A-B-1'', demo_task)})"
    by (rule srv_reach.step [OF reach_fresh srv_step.queue])
  have x: "?x = (fst ?x, fst (snd ?x), snd (snd ?x))" by simp
  have k: "fst (routeSession False (rq_host (demo_request None)) (rq_cookie (demo_request None)) None init_db ?srv) = ''ip:10.0.0.7''"
    by (simp add: server_demo_defs Let_def)
  show ?thesis using r task_isolation [OF r x refl] unfolding k by simp
qed

theorem provisional_sessions_idle_witness:
  "\<exists>s. map_of (srv_sessions (fst (snd (ServeHTTP (\<lambda>_. None) no_store_faults False 5 (demo_request None)
        fresh_server init_db)))) ''ip:10.0.0.7'' = Some s \<and> fst (nextTask s) = None"
proof -
  let ?x = "ServeHTTP (\<lambda>_. None) no_store_faults False 5 (demo_request None) fresh_server init_db"
  have x: "?x = (fst ?x, fst (snd ?x), snd (snd ?x))" by simp
  have r: "srv_reach (fst (snd ?x), snd (snd ?x), {})"
    by (rule srv_reach.step [OF reach_fresh srv_step.http [OF x]])
  obtain s where s: "map_of (srv_sessions (fst (snd ?x))) (''ip:'' @ ''10.0.0.7'') = Some s"
    by (simp add: ServeHTTP_def TrimSpace_def maxRequestBytes_def serve_routed_def case_prod_beta server_demo_defs Let_def)
  show ?thesis using s provisional_sessions_idle [OF r _ s] by simp
qed

theorem early_ATC_unattributed_witness:
  "rs_cookie (fst (serve_routed no_store_faults False 5 (demo_request None)
     (Some (demo_envelope (empty_body\<lparr>b_AutonomousTransferComplete := Some demo_atc\<rparr>))) fresh_server init_db)) = None"
proof -
  let ?e = "demo_envelope (empty_body\<lparr>b_AutonomousTransferComplete := Some demo_atc\<rparr>)"
  let ?x = "serve_routed no_store_faults False 5 (demo_request None) (Some ?e) fresh_server init_db"
  have x: "?x = (fst ?x, fst (snd ?x), snd (snd ?x))" by simp
  show ?thesis
    using early_ATC_unattributed [OF _ _ _ _ _ _ db_ok_init x]
    by (simp add: server_demo_defs demo_envelope_def empty_body_def)
qed

definition demo_server :: Server where
  "demo_server = put_session ''A-B-1'' ((newSession [])\<lparr>s_DeviceID := ''A-B-1''\<rparr>) fresh_server"

theorem command_round_trip_witness:
  "fst (on_session ''A-B-1'' (await_turn ''c1'' 0 FromMine) Waiting
     (fst (snd (serve_routed no_store_faults False 6 (demo_request (Some ''A-B-1''))
       (Some (demo_envelope (empty_body\<lparr>b_RebootResponse := Some ()\<rparr>)))
       (fst (snd (serve_routed no_store_faults False 5 (demo_request (Some ''A-B-1'')) None
          (snd (request_begin False ''A-B-1'' demo_task init_db demo_server)) init_db))) init_db))))
   = Returned (zero_TaskResult\<lparr>tr_Type := TaskReboot, tr_CommandID := ''c1''\<rparr>)"
proof -
  let ?b = "request_begin False ''A-B-1'' demo_task init_db demo_server"
  let ?e = "demo_envelope (empty_body\<lparr>b_RebootResponse := Some ()\<rparr>)"
  let ?x = "serve_routed no_store_faults False 5 (demo_request (Some ''A-B-1'')) None (snd ?b) init_db"
  let ?y = "serve_routed no_store_faults False 6 (demo_request (Some ''A-B-1'')) (Some ?e) (fst (snd ?x)) init_db"
  have s: "map_of (srv_sessions demo_server) ''A-B-1'' = Some ((newSession [])\<lparr>s_DeviceID := ''A-B-1''\<rparr>)"
    by (simp add: demo_server_def put_session_def)
  have b: "?b = (0, snd ?b)"
    by (simp add: request_begin_def await_begin_def waitFor_def enqueue_def chan_send_def chanCap_def newSession_def
        demo_server_def server_demo_defs)
  have x: "?x = (fst ?x, fst (snd ?x), init_db)"
    by (simp add: prod_eq_iff serve_routed_def serve_session_def case_prod_beta Let_def split: option.split)
  have y: "?y = (fst ?y, fst (snd ?y), snd (snd ?y))" by simp
  have cid: "t_CommandID demo_task = ''c1''" by (simp add: demo_task_def zero_Task_def)
  have "\<not> device_call (env_Body ?e)"
    "answer_of (env_Body ?e) demo_task = Some (zero_TaskResult\<lparr>tr_Type := TaskReboot\<rparr>)"
    "s_taskQueue ((newSession [])\<lparr>s_DeviceID := ''A-B-1''\<rparr>) = []"
    "session_inv ((newSession [])\<lparr>s_DeviceID := ''A-B-1''\<rparr>)"
    by (simp_all add: demo_envelope_def empty_body_def device_call_def answer_of_def inv_fields)
      (simp add: newSession_def)
  then show ?thesis
    using command_round_trip [OF s _ _ _ _ _ b x _ _ y] cid by (simp add: demo_request_def)
qed

end
