(* ===== verification/CloudTypes.thy ===== *)
theory CloudTypes
  imports GoStrings
begin

text \<open>
  The northbound data types (\<^verbatim>\<open>src/goagent/internal/cloud/client.go\<close>). A value of Go type
  \<^verbatim>\<open>any\<close> is one of the dynamic types the agent meets: a string, a boolean, nothing, a
  float64 (every JSON number; named by its plain decimal rendering, the format \<^verbatim>\<open>'f'\<close> with the
  fewest digits, which tells finite floats apart), a list or a map. A time stamp is the
  RFC 3339 string the agent sends.
\<close>

datatype any = VString string | VBool bool | VNil | VFloat string | VList "any list" | VMap "(string \<times> any) list"

type_synonym any_map = "(string, any) tbl"

record InventoryItem =
  inv_CWMPID :: string
  inv_SerialNumber :: string
  inv_ProductClass :: string
  inv_AdminLANIP :: string
  inv_WANIP :: string
  inv_SWVersion :: string
  inv_RFTxStatus :: "bool option"
  inv_OpState :: "bool option"
  inv_LastInformAt :: string

record RegisterRequest =
  rr_AgentVersion :: string
  rr_Meta :: any_map

record HeartbeatRequest =
  hb_Devices :: "InventoryItem list"

record MetricSample =
  ms_CWMPID :: string
  ms_Timestamp :: string
  ms_Tier :: int
  ms_Metrics :: any_map

record EventItem =
  ev_CWMPID :: string
  ev_Timestamp :: string
  ev_Module :: string
  ev_EventType :: string
  ev_Severity :: string
  ev_Message :: string
  ev_Attrs :: any_map
  ev_DedupKey :: string

record AlarmItem =
  al_CWMPID :: string
  al_Timestamp :: string
  al_Severity :: string
  al_AlarmType :: string
  al_Message :: string
  al_Active :: bool

record TelemetryRequest =
  tq_Metrics :: "MetricSample list"
  tq_Events :: "EventItem list"
  tq_Alarms :: "AlarmItem list"

record SnapshotRequest =
  sn_Params :: any_map
  sn_Source :: string

record Write =
  wr_Path :: string
  wr_Value :: any
  wr_XSDType :: string

record CommandPayload =
  pl_Writes :: "Write list"
  pl_Verify :: any_map
  pl_RollbackOnFail :: bool
  pl_ReadPaths :: "string list"

record Command =
  cmd_ID :: string
  cmd_DeviceID :: string
  cmd_CWMPID :: string
  cmd_Type :: string
  cmd_Payload :: CommandPayload

record PollData =
  pd_ServerTime :: string
  pd_Commands :: "Command list"

record AckResult =
  ar_Readback :: any_map
  ar_Mismatch :: "any_map list"
  ar_TaskID :: string
  ar_Detail :: string

record AckRequest =
  ack_Status :: string
  ack_Result :: AckResult

definition zero_AckResult :: AckResult where
  "zero_AckResult = \<lparr>ar_Readback = [], ar_Mismatch = [], ar_TaskID = '''', ar_Detail = ''''\<rparr>"

subsection \<open>Formats\<close>

text \<open>The sign of a float, its significant digits and the power of ten of the first of them, from its
  plain rendering; the exponent form is put together from these.\<close>

definition float_parts :: "string \<Rightarrow> string \<times> string \<times> int" where
  "float_parts s =
     (let sg = (if prefix ''-'' s then ''-'' else ''''); t = drop (length sg) s;
          ip = takeWhile (\<lambda>c. c \<noteq> CHR ''.'') t; fp = drop (Suc (length ip)) t;
          ds = dropWhile (\<lambda>c. c = CHR ''0'') (ip @ fp)
      in (sg, TrimRight ds (CHR ''0''), int (length ds) - int (length fp) - 1))"

definition exp_form :: "nat \<Rightarrow> string \<times> string \<times> int \<Rightarrow> string" where
  "exp_form width p = (case p of (sg, ds, x) \<Rightarrow>
     let e = show_nat (nat \<bar>x\<bar>) in
     sg @ take 1 ds @ (if tl ds = [] then [] else CHR ''.'' # tl ds) @ [CHR ''e'', if x < 0 then CHR ''-'' else CHR ''+'']
       @ replicate (width - length e) (CHR ''0'') @ e)"

definition infinite :: "string \<Rightarrow> bool" where
  "infinite s \<longleftrightarrow> s = ''NaN'' \<or> s = ''+Inf'' \<or> s = ''-Inf''"

text \<open>The format \<^verbatim>\<open>%v\<close> of a float is \<^verbatim>\<open>%g\<close>: very small and very large ones have an exponent.\<close>

definition format_g :: "string \<Rightarrow> string" where
  "format_g s =
     (if infinite s then s
      else let p = float_parts s; x = snd (snd p) in
        if fst (snd p) \<noteq> [] \<and> (x < -4 \<or> 6 \<le> x) then exp_form 2 p else s)"

text \<open>\<^verbatim>\<open>fmt.Sprint\<close> of a value; maps are printed in the order of their keys.\<close>

primrec sprint :: "any \<Rightarrow> string" where
  "sprint (VString s) = s"
| "sprint (VBool b) = (if b then ''true'' else ''false'')"
| "sprint VNil = ''<nil>''"
| "sprint (VFloat s) = format_g s"
| "sprint (VList vs) = ''['' @ Join (map sprint vs) '' '' @ '']''"
| "sprint (VMap ms) = ''map['' @ Join (map (\<lambda>(k, v). k @ '':'' @ v) (sort_key fst (map (map_prod id sprint) ms))) '' '' @ '']''"

end
