(* ===== verification/Rules.thy ===== *)
theory Rules
  imports CloudTypes
begin

text \<open>
  The log classifier (\<^verbatim>\<open>src/goagent/internal/rules/engine.go\<close>). A compiled regular expression is
  the predicate it decides; the regexp compiler (\<open>regexp\<close>: \<open>None\<close> for a pattern it
  refuses), the YAML reader and the two hash functions (hex-encoded) are arguments. The
  one fixed pattern of the engine, the inline module tag, is matched by \<open>moduleFromLine\<close>
  itself.
\<close>

type_synonym matcher = "string \<Rightarrow> bool"

record Rule =
  r_Module :: string
  r_Match :: string
  r_EventType :: string
  r_Severity :: string
  r_Message :: string
  r_re :: matcher

record Engine =
  eng_rules :: "Rule list"

definition rulesVersion :: int where
  "rulesVersion = 2"

fun compile_rules :: "(string \<Rightarrow> matcher option) \<Rightarrow> Rule list \<Rightarrow> Rule list option" where
  "compile_rules regexp [] = Some []"
| "compile_rules regexp (r # rs) =
     (case regexp (r_Match r) of
        None \<Rightarrow> None
      | Some re \<Rightarrow> map_option (\<lambda>rs'. r\<lparr>r_re := re\<rparr> # rs') (compile_rules regexp rs))"

definition compile :: "(string \<Rightarrow> matcher option) \<Rightarrow> Rule list \<Rightarrow> Engine option" where
  "compile regexp rs = map_option (\<lambda>rs'. \<lparr>eng_rules = rs'\<rparr>) (compile_rules regexp rs)"

datatype load_error = ReadError | YamlError | VersionError int | RegexpError

text \<open>\<open>file\<close> is the file's content (\<open>None\<close>: unreadable), \<open>yaml\<close> its version and rules.\<close>

definition Load ::
    "(string \<Rightarrow> matcher option) \<Rightarrow> (bytes \<Rightarrow> (int \<times> Rule list) option) \<Rightarrow> bytes option \<Rightarrow> load_error + Engine" where
  "Load regexp yaml file =
     (case file of
        None \<Rightarrow> Inl ReadError
      | Some b \<Rightarrow> (case yaml b of
          None \<Rightarrow> Inl YamlError
        | Some (version, rs) \<Rightarrow>
            if version \<noteq> rulesVersion then Inl (VersionError version)
            else case compile regexp rs of None \<Rightarrow> Inl RegexpError | Some e \<Rightarrow> Inr e))"

definition mk_rule :: "string \<Rightarrow> string \<Rightarrow> string \<Rightarrow> string \<Rightarrow> string \<Rightarrow> Rule" where
  "mk_rule m pat et sev msg =
     \<lparr>r_Module = m, r_Match = pat, r_EventType = et, r_Severity = sev, r_Message = msg, r_re = (\<lambda>_. False)\<rparr>"

text \<open>Backslashes of the patterns are the byte \<open>0x5C\<close>.\<close>

definition curl_code :: "string \<Rightarrow> string" where
  "curl_code n = ''curl code='' @ [CHR 0x5C] @ ''('' @ n @ [CHR 0x5C] @ '')''"

definition default_rules :: "Rule list" where
  "default_rules =
    [mk_rule ''TR69'' ''ACS (Connect Status = 2|connect failed|Disconnect with error)''
       ''vendor_acs_unreachable'' ''major'' ''Vendor ACS unreachable'',
     mk_rule ''TR69'' ''RPC Unknown received from ACS'' ''atc_fault_loop'' ''major'' ''ACS returned Fault to ATC'',
     mk_rule ''FILE_TRANS'' (''File upload success, '' @ curl_code ''0'') ''ftp_upload_ok'' ''info'' ''FTP upload succeeded'',
     mk_rule ''FILE_TRANS'' (curl_code ''7'') ''ftp_conn_fail'' ''major'' ''FTP connection failed'',
     mk_rule ''FILE_TRANS'' (curl_code ''25'') ''ftp_upload_path_reject'' ''minor'' ''FTP upload path rejected'',
     mk_rule ''FILE_TRANS'' (curl_code ''28'') ''ftp_upload_timeout'' ''major'' ''FTP upload timed out'',
     mk_rule ''FILE_TRANS'' (curl_code ''67'') ''ftp_auth_fail'' ''major'' ''FTP authentication failed'',
     mk_rule ''FM'' ''(?i)reboot|restart'' ''device_reboot'' ''critical'' ''Device reboot detected'']"

definition DefaultEngine :: "(string \<Rightarrow> matcher option) \<Rightarrow> Engine option" where
  "DefaultEngine regexp = compile regexp default_rules"

text \<open>The tag pattern: an opening bracket, one or more word characters, a closing bracket; the
  leftmost place where all three follow each other.\<close>

definition is_word :: "char \<Rightarrow> bool" where
  "is_word c = (let n = of_char c :: nat in
     (65 \<le> n \<and> n \<le> 90) \<or> (97 \<le> n \<and> n \<le> 122) \<or> (48 \<le> n \<and> n \<le> 57) \<or> n = 95)"

definition tag_here :: "string \<Rightarrow> string option" where
  "tag_here s = (case s of [] \<Rightarrow> None
     | c # rest \<Rightarrow> (let w = takeWhile is_word rest in
         if c = CHR ''['' \<and> w \<noteq> '''' \<and> prefix '']'' (drop (length w) rest) then Some w else None))"

fun moduleFromLine :: "string \<Rightarrow> string" where
  "moduleFromLine [] = ''''"
| "moduleFromLine (c # s) = (case tag_here (c # s) of Some w \<Rightarrow> w | None \<Rightarrow> moduleFromLine s)"

definition alarmy :: "string \<Rightarrow> bool" where
  "alarmy line = (let l = ToLower line in
     Contains l ''alarm'' \<or> Contains l ''fault'' \<or> Contains l ''fail'' \<or> Contains l ''error'')"

definition dedup_text :: "(string \<Rightarrow> string) \<Rightarrow> string \<Rightarrow> string \<Rightarrow> string \<Rightarrow> string \<Rightarrow> string" where
  "dedup_text sha1 device eventType bucket raw =
     device @ ''|'' @ eventType @ ''|'' @ bucket @ ''|'' @ sha1 raw"

definition dedup ::
    "(string \<Rightarrow> string) \<Rightarrow> (string \<Rightarrow> string) \<Rightarrow> string \<Rightarrow> string \<Rightarrow> string \<Rightarrow> string \<Rightarrow> string" where
  "dedup sha1 sha256 device eventType bucket raw = sha256 (dedup_text sha1 device eventType bucket raw)"

record hashes =
  h_sha1 :: "string \<Rightarrow> string"
  h_sha256 :: "string \<Rightarrow> string"

definition event ::
    "hashes \<Rightarrow> string \<Rightarrow> string \<Rightarrow> string \<Rightarrow> string \<Rightarrow> string \<Rightarrow> string \<Rightarrow> string \<Rightarrow> string \<Rightarrow> EventItem" where
  "event h device0 ts module eventType severity message raw bucket =
     (let device = (if device0 = '''' then ''unknown'' else device0) in
      \<lparr>ev_CWMPID = device, ev_Timestamp = ts, ev_Module = module, ev_EventType = eventType,
       ev_Severity = severity, ev_Message = message, ev_Attrs = [(''raw'', VString raw)],
       ev_DedupKey = dedup (h_sha1 h) (h_sha256 h) device eventType bucket raw\<rparr>)"

text \<open>The inner loop: the first rule of the line's module whose pattern matches.\<close>

fun first_rule :: "Rule list \<Rightarrow> string \<Rightarrow> string \<Rightarrow> Rule option" where
  "first_rule [] module line = None"
| "first_rule (r # rs) module line =
     (if \<not> EqualFold (r_Module r) module \<or> \<not> r_re r line then first_rule rs module line else Some r)"

fun apply_loop ::
    "hashes \<Rightarrow> Rule list \<Rightarrow> string \<Rightarrow> string list \<Rightarrow> string \<Rightarrow> string \<Rightarrow> EventItem list \<Rightarrow> EventItem list" where
  "apply_loop h rs now [] device bucket out = out"
| "apply_loop h rs now (l # ls) device bucket out =
     (let line = TrimSpace l in
      if line = '''' then apply_loop h rs now ls device bucket out
      else let module = moduleFromLine line in
        case first_rule rs module line of
          Some r \<Rightarrow> apply_loop h rs now ls device bucket
             (out @ [event h device now module (r_EventType r) (r_Severity r) (r_Message r) line bucket])
        | None \<Rightarrow>
            if alarmy line then apply_loop h rs now ls device bucket
              (out @ [event h device now module ''unclassified'' ''warning'' '''' line bucket])
            else apply_loop h rs now ls device bucket out)"

definition Apply ::
    "hashes \<Rightarrow> Engine \<Rightarrow> string \<Rightarrow> string list \<Rightarrow> string \<Rightarrow> string \<Rightarrow> EventItem list" where
  "Apply h e now lines device bucket = apply_loop h (eng_rules e) now lines device bucket []"

subsection \<open>What an upload is classified into\<close>

text \<open>The reference: each line on its own.\<close>

definition classify ::
    "hashes \<Rightarrow> Rule list \<Rightarrow> string \<Rightarrow> string \<Rightarrow> string \<Rightarrow> string \<Rightarrow> EventItem list" where
  "classify h rs now device bucket l =
     (let line = TrimSpace l; module = moduleFromLine line in
      if line = '''' then []
      else case find (\<lambda>r. EqualFold (r_Module r) module \<and> r_re r line) rs of
        Some r \<Rightarrow> [event h device now module (r_EventType r) (r_Severity r) (r_Message r) line bucket]
      | None \<Rightarrow> if alarmy line then [event h device now module ''unclassified'' ''warning'' '''' line bucket] else [])"

lemma first_rule_find: "first_rule rs m line = find (\<lambda>r. EqualFold (r_Module r) m \<and> r_re r line) rs"
  by (induction rs) auto

lemma apply_loop_eq:
  "apply_loop h rs now ls device bucket out = out @ concat (map (classify h rs now device bucket) ls)"
proof (induction ls arbitrary: out)
  case (Cons l ls)
  then show ?case
    by (simp add: classify_def first_rule_find Let_def split: option.split)
qed simp

lemma Apply_eq: "Apply h e now ls device bucket = concat (map (classify h (eng_rules e) now device bucket) ls)"
  by (simp add: Apply_def apply_loop_eq)

lemma classify_time:
  "map ev_DedupKey (classify h rs now device bucket l) = map ev_DedupKey (classify h rs now' device bucket l)"
  by (simp add: classify_def event_def Let_def split: option.split)

lemma Apply_device:
  "x \<in> set (Apply h e now ls device bucket) \<Longrightarrow> ev_CWMPID x = (if device = '''' then ''unknown'' else device)"
  by (auto simp: Apply_eq classify_def event_def Let_def split: if_splits option.splits)

lemma tag_here_tag:
  assumes "w \<noteq> []" "\<forall>c\<in>set w. is_word c"
  shows "tag_here (''['' @ w @ '']'' @ post) = Some w"
proof -
  have "\<not> is_word (CHR '']'')" by (simp add: is_word_def)
  then have "takeWhile is_word (w @ '']'' @ post) = w" using assms(2) by (simp add: takeWhile_append)
  then show ?thesis using assms(1) by (simp add: tag_here_def)
qed

lemma moduleFromLine_tag:
  assumes "CHR ''['' \<notin> set pre" "w \<noteq> []" "\<forall>c\<in>set w. is_word c"
  shows "moduleFromLine (pre @ ''['' @ w @ '']'' @ post) = w"
  using assms(1)
proof (induction pre)
  case Nil
  then show ?case using tag_here_tag [OF assms(2,3), of post] by simp
next
  case (Cons c pre)
  then have "tag_here (c # pre @ ''['' @ w @ '']'' @ post) = None" by (auto simp: tag_here_def Let_def)
  with Cons show ?case by simp
qed

text \<open>C28. Every line of an upload is classified by itself, in order: a blank line gives
  nothing; otherwise the first rule for the module of the line whose pattern matches gives
  its event, and a line no rule takes gives a warning exactly when it reads like an alarm.\<close>

theorem Apply_classifies_each_line:
  "Apply h e now lines device bucket =
     concat (map (\<lambda>l. let line = TrimSpace l; module = moduleFromLine line in
       if line = '''' then []
       else case find (\<lambda>r. EqualFold (r_Module r) module \<and> r_re r line) (eng_rules e) of
         Some r \<Rightarrow> [event h device now module (r_EventType r) (r_Severity r) (r_Message r) line bucket]
       | None \<Rightarrow> if alarmy line then [event h device now module ''unclassified'' ''warning'' '''' line bucket]
                 else []) lines)"
  unfolding Apply_eq by (intro arg_cong [where f = concat] map_cong refl) (simp add: classify_def)

text \<open>Parsing again makes no new events for the cloud: whatever the clock says, lines that
  were all in an earlier parse for the same device and day (the same file again, or the
  ErrorLog slice of a Log) carry only dedup keys of that earlier parse.\<close>

theorem reparse_yields_known_keys:
  assumes "set lines \<subseteq> set lines0"
  shows "set (map ev_DedupKey (Apply h e now lines device bucket))
     \<subseteq> set (map ev_DedupKey (Apply h e now0 lines0 device bucket))"
proof -
  have "set (map ev_DedupKey (Apply h e t ls device bucket))
      = (\<Union>l\<in>set ls. set (map ev_DedupKey (classify h (eng_rules e) now0 device bucket l)))" for t ls
    using classify_time [of h "eng_rules e" t device bucket _ now0, THEN arg_cong [where f = set]]
    by (auto simp: Apply_eq image_UN)
  then show ?thesis using assms by blast
qed

text \<open>The dedup key tells occurrences apart: if the hashes do not collide on the texts at
  hand, and print no bar, two lines get the same key exactly when device, event type, day
  and the line itself agree.\<close>

theorem dedup_key_identifies:
  assumes coll256: "sha256 (dedup_text sha1 dev1 et1 b1 raw1) = sha256 (dedup_text sha1 dev2 et2 b2 raw2)
      \<longrightarrow> dedup_text sha1 dev1 et1 b1 raw1 = dedup_text sha1 dev2 et2 b2 raw2"
    and coll1: "sha1 raw1 = sha1 raw2 \<longrightarrow> raw1 = raw2"
    and hex: "CHR ''|'' \<notin> set (sha1 raw1)" "CHR ''|'' \<notin> set (sha1 raw2)"
    and bars: "CHR ''|'' \<notin> set et1" "CHR ''|'' \<notin> set et2" "CHR ''|'' \<notin> set b1" "CHR ''|'' \<notin> set b2"
  shows "dedup sha1 sha256 dev1 et1 b1 raw1 = dedup sha1 sha256 dev2 et2 b2 raw2
     \<longleftrightarrow> dev1 = dev2 \<and> et1 = et2 \<and> b1 = b2 \<and> raw1 = raw2"
proof
  assume "dedup sha1 sha256 dev1 et1 b1 raw1 = dedup sha1 sha256 dev2 et2 b2 raw2"
  then have eq: "dev1 @ ''|'' @ et1 @ ''|'' @ b1 @ ''|'' @ sha1 raw1 = dev2 @ ''|'' @ et2 @ ''|'' @ b2 @ ''|'' @ sha1 raw2"
    using coll256 by (simp add: dedup_def dedup_text_def)
  have last: "x = y \<and> u = v" if "x @ ''|'' @ u = y @ ''|'' @ v" "CHR ''|'' \<notin> set u" "CHR ''|'' \<notin> set v" for x y u v :: string
  proof -
    have "after_last (CHR ''|'') (x @ ''|'' @ u) = after_last (CHR ''|'') (y @ ''|'' @ v)" using that(1) by simp
    then have "u = v" using that(2,3) by (simp add: after_last_append)
    then show ?thesis using that(1) by simp
  qed
  from eq last [of "dev1 @ ''|'' @ et1 @ ''|'' @ b1" "sha1 raw1" "dev2 @ ''|'' @ et2 @ ''|'' @ b2" "sha1 raw2"] hex
  have 1: "dev1 @ ''|'' @ et1 @ ''|'' @ b1 = dev2 @ ''|'' @ et2 @ ''|'' @ b2" "sha1 raw1 = sha1 raw2" by simp_all
  from 1(1) last [of "dev1 @ ''|'' @ et1" b1 "dev2 @ ''|'' @ et2" b2] bars
  have 2: "dev1 @ ''|'' @ et1 = dev2 @ ''|'' @ et2" "b1 = b2" by simp_all
  from last [OF 2(1)] bars 1(2) 2(2) coll1 show "dev1 = dev2 \<and> et1 = et2 \<and> b1 = b2 \<and> raw1 = raw2" by simp
qed simp

subsection \<open>Witnesses\<close>

definition demo_hashes :: hashes where
  "demo_hashes = \<lparr>h_sha1 = (\<lambda>s. s), h_sha256 = (\<lambda>s. s)\<rparr>"

theorem reparse_yields_known_keys_witness:
  "set (map ev_DedupKey (Apply demo_hashes \<lparr>eng_rules = []\<rparr> ''t1'' [''5 [FM] fault''] ''A-B-1'' ''20260101''))
   \<subseteq> set (map ev_DedupKey (Apply demo_hashes \<lparr>eng_rules = []\<rparr> ''t0'' [''4 [FM] ok'', ''5 [FM] fault''] ''A-B-1'' ''20260101''))"
  by (rule reparse_yields_known_keys) simp

theorem dedup_key_identifies_witness:
  "dedup (h_sha1 demo_hashes) (h_sha256 demo_hashes) ''A-B-1'' ''device_reboot'' ''20260101'' ''x''
     \<noteq> dedup (h_sha1 demo_hashes) (h_sha256 demo_hashes) ''A-B-1'' ''device_reboot'' ''20260102'' ''x''"
  using dedup_key_identifies [of "h_sha256 demo_hashes" "h_sha1 demo_hashes" "''A-B-1''" "''device_reboot''"
      "''20260101''" "''x''" "''A-B-1''" "''device_reboot''" "''20260102''" "''x''"]
  by (simp add: demo_hashes_def)

end
