(* ===== verification/Collector.thy ===== *)
theory Collector
  imports Server Rules
begin

text \<open>
  The FTP side of the collector (\<^verbatim>\<open>src/goagent/internal/collector/collector.go\<close>): the scan
  of the watch directory, the bookkeeping of what was seen, deferred and retried, and the
  hand-off of parsed events with the marks of their uploads. What a scan finds is its
  argument \<open>scan_env\<close>: the directory, both stats of an entry, the decompressed content of a
  file, its modification day, what the device store lists at the lookup of a file, and the
  clock. The ledger is the buffer's, with its failures.
\<close>

record eventMark =
  em_mark :: FTPMark
  em_end :: nat

record FTPBatch =
  fb_Events :: "EventItem list"
  fb_marks :: "eventMark list"

definition MarksIn :: "FTPBatch \<Rightarrow> nat \<Rightarrow> nat \<Rightarrow> FTPMark list" where
  "MarksIn b start end = map em_mark (filter (\<lambda>m. em_end m > start \<and> em_end m \<le> end) (fb_marks b))"

record Collector =
  col_rules :: Engine
  col_ftpDir :: string
  col_ledger :: bool
  col_events :: "EventItem list"
  col_eventMarks :: "eventMark list"
  col_requeued :: "FTPMark list"
  col_seenPaths :: "(string, FTPStamp) tbl"
  col_deferred :: "(string, nat) tbl"
  col_parseFails :: "(string, nat) tbl"
  col_scans :: nat
  col_pendingMarks :: "FTPMark list"

definition New :: "Engine \<Rightarrow> string \<Rightarrow> Collector" where
  "New e dir = \<lparr>col_rules = e, col_ftpDir = dir, col_ledger = False, col_events = [], col_eventMarks = [],
     col_requeued = [], col_seenPaths = [], col_deferred = [], col_parseFails = [], col_scans = 0,
     col_pendingMarks = []\<rparr>"

definition UseIngestLedger :: "faults \<Rightarrow> db \<Rightarrow> Collector \<Rightarrow> stmt option \<times> Collector" where
  "UseIngestLedger flt d c =
     (case LoadFTPIngested flt d of
        Inl e \<Rightarrow> (Some e, c)
      | Inr seen \<Rightarrow> (None, c\<lparr>col_ledger := True, col_seenPaths := seen\<rparr>))"

definition DrainFTP :: "Collector \<Rightarrow> FTPBatch \<times> Collector" where
  "DrainFTP c = (\<lparr>fb_Events = col_events c, fb_marks = col_eventMarks c\<rparr>,
     c\<lparr>col_events := [], col_eventMarks := []\<rparr>)"

definition Requeue :: "FTPMark list \<Rightarrow> Collector \<Rightarrow> Collector" where
  "Requeue marks c = (if marks = [] then c else c\<lparr>col_requeued := col_requeued c @ marks\<rparr>)"

fun forget_requeued :: "FTPMark list \<Rightarrow> (string, FTPStamp) tbl \<Rightarrow> (string, FTPStamp) tbl" where
  "forget_requeued [] seen = seen"
| "forget_requeued (m # ms) seen =
     forget_requeued ms (if map_of seen (fm_Path m) = Some (fm_Stamp m) then AList.delete (fm_Path m) seen else seen)"

definition takeRequeued :: "Collector \<Rightarrow> Collector" where
  "takeRequeued c = c\<lparr>col_requeued := [], col_seenPaths := forget_requeued (col_requeued c) (col_seenPaths c)\<rparr>"

subsection \<open>File names\<close>

definition isPeriodicLog :: "string \<Rightarrow> bool" where
  "isPeriodicLog name = (HasSuffix name ''.gz'' \<and> (HasPrefix name ''Log_'' \<or> HasPrefix name ''ErrorLog_''))"

definition isLogUpload :: "string \<Rightarrow> bool" where
  "isLogUpload name = isPeriodicLog name"

definition ouiSerialFromName :: "string \<Rightarrow> string \<times> string" where
  "ouiSerialFromName path =
     (let base = Base path in
      if isPeriodicLog base then
        (case Cut (after_last (CHR ''_'') (TrimSuffix base ''.gz'')) (CHR ''.'') of
           (o', s, ok) \<Rightarrow> if ok then (o', s) else ('''', ''''))
      else case SplitN 3 (TrimSuffix base ''.tgz'') (CHR ''_'') of
        p0 # p1 # _ \<Rightarrow> (p0, p1) | _ \<Rightarrow> ('''', ''''))"

definition occurrenceBucket :: "(string \<Rightarrow> string option) \<Rightarrow> string \<Rightarrow> string" where
  "occurrenceBucket mtime_day path =
     (let base = Base path;
          rest = TrimPrefix (TrimPrefix base ''ErrorLog_'') ''Log_'';
          by_stat = (case mtime_day path of Some day \<Rightarrow> day | None \<Rightarrow> '''')
      in if isPeriodicLog base then
           (case Cut rest (CHR ''.'') of (date, _, ok) \<Rightarrow> if ok \<and> length date = 8 then date else by_stat)
         else by_stat)"

definition resolveDeviceID :: "DeviceRecord list \<Rightarrow> string \<Rightarrow> string option" where
  "resolveDeviceID devices path =
     (case ouiSerialFromName path of (oui, serial) \<Rightarrow>
        if oui = '''' \<or> serial = '''' then None
        else map_option d_DeviceID
          (find (\<lambda>d. d_SerialNumber d = serial \<and> HasPrefix (d_DeviceID d) (oui @ ''-'')) devices))"

subsection \<open>The scan\<close>

definition maxDeferTicks :: nat where "maxDeferTicks = 30"
definition resolveRetryTicks :: nat where "resolveRetryTicks = 30"
definition maxParseRetries :: nat where "maxParseRetries = 5"
definition rewriteCheckTicks :: nat where "rewriteCheckTicks = 30"
definition maxLogBytes :: nat where "maxLogBytes = 8388608"

record dir_entry =
  de_name :: string
  de_isDir :: bool
  de_checkStamp :: "FTPStamp option"
  de_stamp :: "FTPStamp option"

record scan_env =
  se_entries :: "dir_entry list option"
  se_gunzip :: "string \<Rightarrow> (bytes \<times> bool) option"
  se_day :: "string \<Rightarrow> string option"
  se_devices :: "string \<Rightarrow> DeviceRecord list"
  se_hashes :: hashes
  se_now :: string

text \<open>The content of a gzip file: what the stream yields and whether it then breaks off; at
  most \<open>maxLogBytes\<close> of it are read, and a break behind that point is not seen.\<close>

definition eventsFromGzipLog :: "scan_env \<Rightarrow> Engine \<Rightarrow> string \<Rightarrow> string \<Rightarrow> EventItem list option" where
  "eventsFromGzipLog env e path dev =
     (case se_gunzip env path of
        None \<Rightarrow> None
      | Some (b, broken) \<Rightarrow>
          if length b < maxLogBytes \<and> broken then None
          else Some (Apply (se_hashes env) e (se_now env) (Split (take maxLogBytes b) (CHR 0x0A)) dev
                      (occurrenceBucket (se_day env) path)))"

definition parseUpload :: "scan_env \<Rightarrow> Engine \<Rightarrow> string \<Rightarrow> string \<Rightarrow> EventItem list option" where
  "parseUpload env e path dev = eventsFromGzipLog env e path dev"

definition tick_of :: "(string, nat) tbl \<Rightarrow> string \<Rightarrow> nat" where
  "tick_of t p = (case map_of t p of Some n \<Rightarrow> n | None \<Rightarrow> 0)"

definition bump :: "string \<Rightarrow> (string, nat) tbl \<Rightarrow> (string, nat) tbl" where
  "bump p t = AList.update p (tick_of t p + 1) t"

definition markSeen :: "string \<Rightarrow> FTPStamp \<Rightarrow> EventItem list \<Rightarrow> Collector \<Rightarrow> Collector" where
  "markSeen path stamp events c =
     (let c1 = c\<lparr>col_seenPaths := AList.update path stamp (col_seenPaths c),
                 col_deferred := AList.delete path (col_deferred c),
                 col_parseFails := AList.delete path (col_parseFails c)\<rparr>;
          mark = \<lparr>fm_Path = path, fm_Stamp = stamp\<rparr>
      in if events = [] then
           (if col_ledger c then c1\<lparr>col_pendingMarks := col_pendingMarks c @ [mark]\<rparr> else c1)
         else let evs = col_events c @ events; c2 = c1\<lparr>col_events := evs\<rparr>
              in if col_ledger c
                 then c2\<lparr>col_eventMarks := col_eventMarks c @ [\<lparr>em_mark = mark, em_end = length evs\<rparr>]\<rparr>
                 else c2)"

definition slow_poll :: "nat \<Rightarrow> bool" where
  "slow_poll tick \<longleftrightarrow> tick \<ge> maxDeferTicks \<and> (tick - maxDeferTicks) mod resolveRetryTicks \<noteq> 0"

text \<open>One upload that is not seen: look up its device unless the slow window skips this
  poll, then stamp, parse and record it.\<close>

definition try_ingest :: "scan_env \<Rightarrow> string \<Rightarrow> dir_entry \<Rightarrow> Collector \<Rightarrow> Collector" where
  "try_ingest env path e c =
     (if slow_poll (tick_of (col_deferred c) path)
      then c\<lparr>col_deferred := bump path (col_deferred c)\<rparr>
      else case resolveDeviceID (se_devices env path) path of
        None \<Rightarrow> c\<lparr>col_deferred := bump path (col_deferred c)\<rparr>
      | Some dev \<Rightarrow> (case de_stamp e of
          None \<Rightarrow> c
        | Some stamp \<Rightarrow> (case parseUpload env (col_rules c) path dev of
            None \<Rightarrow>
              (let c1 = c\<lparr>col_parseFails := bump path (col_parseFails c)\<rparr> in
               if tick_of (col_parseFails c1) path < maxParseRetries then c1
               else markSeen path stamp [] c1)
          | Some events \<Rightarrow> markSeen path stamp events c)))"

definition scan_entry :: "scan_env \<Rightarrow> bool \<Rightarrow> dir_entry \<Rightarrow> Collector \<Rightarrow> Collector" where
  "scan_entry env check e c =
     (if de_isDir e \<or> \<not> isLogUpload (de_name e) then c
      else let path = path_join (col_ftpDir c) (de_name e) in
        case map_of (col_seenPaths c) path of
          None \<Rightarrow> try_ingest env path e c
        | Some st \<Rightarrow>
            if \<not> check then c
            else (case de_checkStamp e of
                None \<Rightarrow> c
              | Some cur \<Rightarrow> if cur = st then c
                  else try_ingest env path e (c\<lparr>col_seenPaths := AList.delete path (col_seenPaths c)\<rparr>)))"

definition present_paths :: "string \<Rightarrow> dir_entry list \<Rightarrow> string list" where
  "present_paths dir es =
     map (\<lambda>e. path_join dir (de_name e)) (filter (\<lambda>e. \<not> de_isDir e \<and> isLogUpload (de_name e)) es)"

definition keepPresent :: "FTPMark list \<Rightarrow> string list \<Rightarrow> FTPMark list" where
  "keepPresent marks present = filter (\<lambda>m. fm_Path m \<in> set present) marks"

definition keep_keys :: "string list \<Rightarrow> (string, 'v) tbl \<Rightarrow> (string, 'v) tbl" where
  "keep_keys present t = filter (\<lambda>(p, _). p \<in> set present) t"

record ledger_faults =
  lf_forget :: "nat \<Rightarrow> faults"
  lf_mark :: "nat \<Rightarrow> faults"

definition persistScan ::
    "ledger_faults \<Rightarrow> int \<Rightarrow> string list \<Rightarrow> string list \<Rightarrow> Collector \<Rightarrow> db \<Rightarrow> Collector \<times> db" where
  "persistScan lf unix present gone c d =
     (if \<not> col_ledger c then (c, d)
      else let (c1, d1) =
             (if gone \<noteq> [] then
                (c\<lparr>col_pendingMarks := keepPresent (col_pendingMarks c) present,
                   col_eventMarks := filter (\<lambda>m. fm_Path (em_mark m) \<in> set present) (col_eventMarks c)\<rparr>,
                 snd (ForgetFTPIngested (lf_forget lf) gone d))
              else (c, d))
           in if col_pendingMarks c1 = [] then (c1, d1)
              else case MarkFTPIngested (lf_mark lf) (col_pendingMarks c1) unix d1 of
                (Some err, d2) \<Rightarrow> (c1, d2)
              | (None, d2) \<Rightarrow> (c1\<lparr>col_pendingMarks := []\<rparr>, d2))"

definition scanFTP :: "scan_env \<Rightarrow> ledger_faults \<Rightarrow> int \<Rightarrow> Collector \<Rightarrow> db \<Rightarrow> Collector \<times> db" where
  "scanFTP env lf unix c d =
     (let c0 = takeRequeued c in
      case se_entries env of
        None \<Rightarrow> (c0, d)
      | Some entries \<Rightarrow>
          (let check = (col_scans c0 mod rewriteCheckTicks = 0);
               c1 = fold (scan_entry env check) entries (c0\<lparr>col_scans := col_scans c0 + 1\<rparr>);
               present = present_paths (col_ftpDir c) entries;
               gone = map fst (filter (\<lambda>(p, _). p \<notin> set present) (col_seenPaths c1));
               c2 = c1\<lparr>col_seenPaths := keep_keys present (col_seenPaths c1),
                       col_deferred := keep_keys present (col_deferred c1),
                       col_parseFails := keep_keys present (col_parseFails c1)\<rparr>
           in persistScan lf unix present gone c2 d))"

subsection \<open>Upload names\<close>

lemma Base_join_name:
  assumes "CHR ''/'' \<notin> set name" "name \<noteq> ''''"
  shows "Base (dir @ ''/'' @ name) = name"
proof -
  have "dropWhile (\<lambda>x. x = CHR ''/'') (rev name @ ''/'' @ rev dir) = rev name @ ''/'' @ rev dir"
    using assms by (cases "rev name") (auto simp: rev_eq_Cons_iff)
  then have "TrimRight (dir @ ''/'' @ name) (CHR ''/'') = dir @ ''/'' @ name"
    by (simp add: TrimRight_def)
  then show ?thesis
    using assms after_last_append [of "CHR ''/''" name dir] by (simp add: Base_def)
qed

text \<open>A periodic upload as the device names it.\<close>

definition periodic_name :: "string \<Rightarrow> string \<Rightarrow> string \<Rightarrow> string \<Rightarrow> string" where
  "periodic_name pre stamp oui serial = pre @ stamp @ ''_'' @ oui @ ''.'' @ serial @ ''.gz''"

lemma periodic_isPeriodic:
  "pre = ''Log_'' \<or> pre = ''ErrorLog_'' \<Longrightarrow> isPeriodicLog (periodic_name pre stamp oui serial)"
  by (auto simp: isPeriodicLog_def periodic_name_def suffix_def)

lemma ouiSerial_periodic:
  assumes "pre = ''Log_'' \<or> pre = ''ErrorLog_''" and "CHR ''/'' \<notin> set (periodic_name pre stamp oui serial)"
    and "CHR ''_'' \<notin> set oui" "CHR ''_'' \<notin> set serial" "CHR ''.'' \<notin> set oui"
  shows "ouiSerialFromName (dir @ ''/'' @ periodic_name pre stamp oui serial) = (oui, serial)"
proof -
  let ?n = "periodic_name pre stamp oui serial"
  have base: "Base (dir @ ''/'' @ ?n) = ?n"
    using assms(2) by (intro Base_join_name) (auto simp: periodic_name_def)
  have "TrimSuffix ?n ''.gz'' = pre @ stamp @ ''_'' @ oui @ ''.'' @ serial"
    unfolding periodic_name_def using TrimSuffix_append [of "pre @ stamp @ ''_'' @ oui @ ''.'' @ serial" "''.gz''"] by simp
  moreover have "after_last (CHR ''_'') (pre @ stamp @ ''_'' @ oui @ ''.'' @ serial) = oui @ ''.'' @ serial"
    using after_last_append [of "CHR ''_''" "oui @ ''.'' @ serial" "pre @ stamp"] assms(3,4) by simp
  moreover have "Cut (oui @ ''.'' @ serial) (CHR ''.'') = (oui, serial, True)"
    using Cut_append [OF assms(5), of serial] by simp
  ultimately show ?thesis
    unfolding ouiSerialFromName_def by (simp only: Let_def base periodic_isPeriodic [OF assms(1)] if_True prod.case)
qed

lemma resolve_mem:
  assumes "resolveDeviceID devices path = Some dev" and "ouiSerialFromName path = (oui, serial)"
  obtains r where "r \<in> set devices" "d_DeviceID r = dev" "d_SerialNumber r = serial"
    "HasPrefix dev (oui @ ''-'')" "oui \<noteq> ''''" "serial \<noteq> ''''"
proof -
  obtain r where "find (\<lambda>d. d_SerialNumber d = serial \<and> HasPrefix (d_DeviceID d) (oui @ ''-'')) devices = Some r"
    "d_DeviceID r = dev" "oui \<noteq> ''''" "serial \<noteq> ''''"
    using assms by (auto simp: resolveDeviceID_def split: if_splits)
  then show ?thesis by (intro that [of r]) (auto simp: find_Some_iff)
qed

text \<open>C18. An upload is attributed to the device that made it, and to no other: for a periodic
  upload named with an OUI and a serial number, the lookup finds a device exactly when one
  with that serial number and that very OUI has Informed (an OUI that is only a prefix of
  another does not match), whatever product class it has.\<close>

theorem upload_resolves_to_its_device:
  assumes name: "pre = ''Log_'' \<or> pre = ''ErrorLog_''" "CHR ''/'' \<notin> set (periodic_name pre stamp oui serial)"
      "CHR ''_'' \<notin> set oui" "CHR ''_'' \<notin> set serial" "CHR ''.'' \<notin> set oui" "CHR ''-'' \<notin> set oui"
      "oui \<noteq> ''''" "serial \<noteq> ''''"
    and devs: "\<forall>r\<in>set devices. \<exists>o' pc. d_DeviceID r = CanonicalID o' pc (d_SerialNumber r) \<and> CHR ''-'' \<notin> set o'"
  shows "case resolveDeviceID devices (dir @ ''/'' @ periodic_name pre stamp oui serial) of
      Some dev \<Rightarrow> \<exists>pc. dev = CanonicalID oui pc serial \<and> dev \<in> d_DeviceID ` set devices
    | None \<Rightarrow> \<not> (\<exists>r\<in>set devices. \<exists>pc. d_DeviceID r = CanonicalID oui pc serial \<and> d_SerialNumber r = serial)"
proof -
  let ?P = "\<lambda>d. d_SerialNumber d = serial \<and> HasPrefix (d_DeviceID d) (oui @ ''-'')"
  have enc: "enc_hyphen x = x" if "CHR ''-'' \<notin> set x" for x
    using that by (simp add: enc_hyphen_def ReplaceAll1_absent)
  have P: "?P r \<longleftrightarrow> d_SerialNumber r = serial \<and> (\<exists>pc. d_DeviceID r = CanonicalID oui pc serial)"
    if r: "r \<in> set devices" for r
  proof -
    obtain o' pc where o': "d_DeviceID r = CanonicalID o' pc (d_SerialNumber r)" "CHR ''-'' \<notin> set o'"
      using devs r by blast
    show ?thesis
      using CanonicalID_prefix_oui [OF name(6)] enc [OF name(6)] enc [OF o'(2)] o'(1) by metis
  qed
  have res: "resolveDeviceID devices (dir @ ''/'' @ periodic_name pre stamp oui serial) = map_option d_DeviceID (find ?P devices)"
    unfolding resolveDeviceID_def ouiSerial_periodic [OF name(1-5)] using name(7,8) by simp
  show ?thesis
  proof (cases "find ?P devices")
    case None
    then have "\<not> (\<exists>r\<in>set devices. ?P r)" by (auto simp: find_None_iff)
    then show ?thesis using P None unfolding res by auto
  next
    case (Some r)
    then have "r \<in> set devices" "?P r" by (auto simp: find_Some_iff)
    then show ?thesis using P [of r] Some unfolding res by auto
  qed
qed

theorem upload_resolves_to_its_device_witness:
  "resolveDeviceID [\<lparr>d_DeviceID = CanonicalID ''8C1F644'' ''P'' ''22'', d_IP = '''', d_Manufacturer = '''', d_ProductClass = ''P'',
       d_SerialNumber = ''22'', d_SWVersion = '''', d_LastInformAt = None\<rparr>]
     (''/ftp/'' @ periodic_name ''Log_'' ''20260101.0000+0000'' ''8C1F64'' ''22'') = None"
proof -
  let ?r = "\<lparr>d_DeviceID = CanonicalID ''8C1F644'' ''P'' ''22'', d_IP = '''', d_Manufacturer = '''', d_ProductClass = ''P'',
       d_SerialNumber = ''22'', d_SWVersion = '''', d_LastInformAt = None\<rparr>"
  have ne: "CanonicalID ''8C1F644'' ''P'' ''22'' \<noteq> CanonicalID ''8C1F64'' pc ''22''" for pc
    by (simp add: CanonicalID_def enc_hyphen_def)
  have "case resolveDeviceID [?r] (''/ftp'' @ ''/'' @ periodic_name ''Log_'' ''20260101.0000+0000'' ''8C1F64'' ''22'') of
      Some dev \<Rightarrow> \<exists>pc. dev = CanonicalID ''8C1F64'' pc ''22'' \<and> dev \<in> d_DeviceID ` set [?r]
    | None \<Rightarrow> \<not> (\<exists>r\<in>set [?r]. \<exists>pc. d_DeviceID r = CanonicalID ''8C1F64'' pc ''22'' \<and> d_SerialNumber r = ''22'')"
    by (rule upload_resolves_to_its_device) (auto simp: periodic_name_def intro: exI [of _ "''8C1F644''"])
  then show ?thesis using ne by (auto split: option.splits)
qed

subsection \<open>One directory entry\<close>

lemma tick_of_bump: "tick_of (bump p t) q = (if q = p then tick_of t p + 1 else tick_of t q)"
  by (simp add: tick_of_def bump_def)

abbreviation upload_entry :: "dir_entry \<Rightarrow> bool" where
  "upload_entry e \<equiv> \<not> de_isDir e \<and> isLogUpload (de_name e)"

text \<open>What a scan can do with one entry: nothing; update the bookkeeping of its path; or
  record it as seen, either given up on (no events) or parsed for a known device.\<close>

lemma try_ingest_cases:
  obtains (idle) "try_ingest env path e c = c"
  | (deferred) "try_ingest env path e c = c\<lparr>col_deferred := bump path (col_deferred c)\<rparr>"
  | (retry) "try_ingest env path e c = c\<lparr>col_parseFails := bump path (col_parseFails c)\<rparr>"
      "tick_of (col_parseFails c) path + 1 < maxParseRetries"
  | (given_up) stamp where "try_ingest env path e c
        = markSeen path stamp [] (c\<lparr>col_parseFails := bump path (col_parseFails c)\<rparr>)" "de_stamp e = Some stamp"
  | (parsed) stamp dev events where "try_ingest env path e c = markSeen path stamp events c" "de_stamp e = Some stamp"
      "resolveDeviceID (se_devices env path) path = Some dev" "parseUpload env (col_rules c) path dev = Some events"
proof (cases "slow_poll (tick_of (col_deferred c) path)")
  case True
  then show ?thesis by (intro deferred) (simp add: try_ingest_def)
next
  case False
  note go = try_ingest_def [of env path e c] False
  show ?thesis
  proof (cases "resolveDeviceID (se_devices env path) path")
    case None
    then show ?thesis by (intro deferred) (simp add: go)
  next
    case (Some dev)
    note dev = this
    show ?thesis
    proof (cases "de_stamp e")
      case None
      then show ?thesis by (intro idle) (simp add: go dev)
    next
      case (Some stamp)
      note stamp = this
      show ?thesis
      proof (cases "parseUpload env (col_rules c) path dev")
        case None
        then show ?thesis
          using retry given_up [of stamp] by (cases "tick_of (col_parseFails c) path + 1 < maxParseRetries")
            (auto simp: go dev stamp Let_def tick_of_bump)
      next
        case (Some events)
        then show ?thesis by (intro parsed [OF _ stamp dev]) (simp_all add: go dev stamp)
      qed
    qed
  qed
qed

lemma scan_entry_cases:
  obtains (skip) "scan_entry env check e c = c"
  | (work) S where "upload_entry e"
      "scan_entry env check e c = try_ingest env (path_join (col_ftpDir c) (de_name e)) e (c\<lparr>col_seenPaths := S\<rparr>)"
      "S = col_seenPaths c \<or> S = AList.delete (path_join (col_ftpDir c) (de_name e)) (col_seenPaths c)"
      "map_of S (path_join (col_ftpDir c) (de_name e)) = None"
proof (cases "upload_entry e")
  case True
  let ?p = "path_join (col_ftpDir c) (de_name e)"
  show ?thesis
  proof (cases "map_of (col_seenPaths c) ?p")
    case None
    then show ?thesis using True by (intro work [of "col_seenPaths c"]) (simp_all add: scan_entry_def)
  next
    case (Some st)
    then have "scan_entry env check e c = c \<or>
        scan_entry env check e c = try_ingest env ?p e (c\<lparr>col_seenPaths := AList.delete ?p (col_seenPaths c)\<rparr>)"
      using True by (simp add: scan_entry_def Let_def split: option.split)
    then show ?thesis
      using True skip work [of "AList.delete ?p (col_seenPaths c)"] by auto
  qed
qed (use skip in \<open>auto simp: scan_entry_def\<close>)

lemma present_paths_mem:
  "e \<in> set es \<Longrightarrow> upload_entry e \<Longrightarrow> path_join dir (de_name e) \<in> set (present_paths dir es)"
  by (auto simp: present_paths_def)

subsection \<open>The collector's books\<close>

text \<open>Tables are keyed, no retry counter has reached its bound, the marks of the queued events
  have ascending ends within them, and without a ledger no mark is kept.\<close>

definition marks_ok :: "nat \<Rightarrow> eventMark list \<Rightarrow> bool" where
  "marks_ok n ms \<longleftrightarrow> sorted_wrt (<) (map em_end ms) \<and> (\<forall>m\<in>set ms. 0 < em_end m \<and> em_end m \<le> n)"

definition books_ok :: "string set \<Rightarrow> Collector \<Rightarrow> bool" where
  "books_ok X c \<longleftrightarrow> keyed (col_seenPaths c) \<and> keyed (col_deferred c) \<and> keyed (col_parseFails c)
     \<and> (\<forall>p. p \<notin> X \<longrightarrow> tick_of (col_parseFails c) p < maxParseRetries)
     \<and> marks_ok (length (col_events c)) (col_eventMarks c)
     \<and> (\<not> col_ledger c \<longrightarrow> col_eventMarks c = [] \<and> col_pendingMarks c = [])"

abbreviation col_inv :: "Collector \<Rightarrow> bool" where
  "col_inv c \<equiv> books_ok {} c"

lemma keyed_bump [simp]: "keyed t \<Longrightarrow> keyed (bump p t)"
  by (simp add: bump_def)

lemma marks_ok_snoc: "marks_ok n ms \<Longrightarrow> n < m \<Longrightarrow> marks_ok m (ms @ [\<lparr>em_mark = x, em_end = m\<rparr>])"
  by (force simp: marks_ok_def sorted_wrt_append)

lemma marks_ok_mono: "marks_ok n ms \<Longrightarrow> n \<le> m \<Longrightarrow> marks_ok m ms"
  by (force simp: marks_ok_def)

lemma marks_ok_filter: "marks_ok n ms \<Longrightarrow> marks_ok n (filter P ms)"
  by (auto simp: marks_ok_def sorted_wrt_map sorted_wrt_filter)

lemma books_markSeen: "books_ok {path} c \<Longrightarrow> col_inv (markSeen path stamp events c)"
  by (auto simp: books_ok_def markSeen_def Let_def tick_of_def maxParseRetries_def
      intro: marks_ok_snoc marks_ok_mono)

lemma books_weaken: "col_inv c \<Longrightarrow> books_ok X c"
  by (simp add: books_ok_def)

lemma books_seen: "books_ok X c \<Longrightarrow> keyed S \<Longrightarrow> books_ok X (c\<lparr>col_seenPaths := S\<rparr>)"
  by (simp add: books_ok_def)

lemma books_try_ingest: "col_inv c \<Longrightarrow> col_inv (try_ingest env path e c)"
proof (cases rule: try_ingest_cases [of env path e c])
  case (given_up stamp)
  assume "col_inv c"
  then have "books_ok {path} (c\<lparr>col_parseFails := bump path (col_parseFails c)\<rparr>)"
    by (simp add: books_ok_def tick_of_bump)
  then show ?thesis using given_up books_markSeen by simp
next
  case retry
  assume "col_inv c"
  then show ?thesis using retry by (simp add: books_ok_def tick_of_bump)
next
  case (parsed stamp dev events)
  assume "col_inv c"
  then show ?thesis unfolding parsed(1) by (rule books_markSeen [OF books_weaken])
qed (simp_all add: books_ok_def)

lemma books_scan_entry: "col_inv c \<Longrightarrow> col_inv (scan_entry env check e c)"
proof (cases rule: scan_entry_cases [of env check e c])
  case (work S)
  assume "col_inv c"
  then have "col_inv (c\<lparr>col_seenPaths := S\<rparr>)"
    using work(3) by (intro books_seen) (auto simp: books_ok_def)
  then show ?thesis unfolding work(2) by (rule books_try_ingest)
qed simp

lemma keyed_forget_requeued: "keyed seen \<Longrightarrow> keyed (forget_requeued ms seen)"
  by (induction ms arbitrary: seen) auto

lemma map_of_forget_requeued:
  "map_of (forget_requeued ms seen) p =
     (case map_of seen p of None \<Rightarrow> None
      | Some st \<Rightarrow> if \<lparr>fm_Path = p, fm_Stamp = st\<rparr> \<in> set ms then None else Some st)"
proof (induction ms arbitrary: seen)
  case (Cons m ms)
  have "m = \<lparr>fm_Path = fm_Path m, fm_Stamp = fm_Stamp m\<rparr>" by simp
  then show ?case using Cons by (auto split: option.splits if_splits)
qed (simp split: option.split)

lemma books_takeRequeued: "col_inv c \<Longrightarrow> col_inv (takeRequeued c)"
  by (simp add: books_ok_def takeRequeued_def keyed_forget_requeued)

lemma books_persistScan: "col_inv c \<Longrightarrow> col_inv (fst (persistScan lf unix present gone c d))"
  by (auto simp: persistScan_def Let_def books_ok_def marks_ok_filter keepPresent_def
      split: prod.splits option.splits)

lemma persistScan_keeps:
  "col_seenPaths (fst (persistScan lf unix present gone c d)) = col_seenPaths c"
  "col_deferred (fst (persistScan lf unix present gone c d)) = col_deferred c"
  "col_parseFails (fst (persistScan lf unix present gone c d)) = col_parseFails c"
  "col_events (fst (persistScan lf unix present gone c d)) = col_events c"
  "col_requeued (fst (persistScan lf unix present gone c d)) = col_requeued c"
  "col_ledger (fst (persistScan lf unix present gone c d)) = col_ledger c"
  "col_rules (fst (persistScan lf unix present gone c d)) = col_rules c"
  "col_ftpDir (fst (persistScan lf unix present gone c d)) = col_ftpDir c"
  "col_scans (fst (persistScan lf unix present gone c d)) = col_scans c"
  by (auto simp: persistScan_def Let_def split: prod.splits option.splits)

lemma books_fold: "col_inv c \<Longrightarrow> col_inv (fold (scan_entry env check) es c)"
  by (induction es arbitrary: c) (simp_all add: books_scan_entry)

lemma tick_of_keep_keys: "keyed t \<Longrightarrow> tick_of (keep_keys present t) p \<le> tick_of t p"
  by (simp add: tick_of_def keep_keys_def map_of_filter_keyed split: option.split)

lemma keyed_keep_keys: "keyed t \<Longrightarrow> keyed (keep_keys present t)"
  by (simp add: keep_keys_def keyed_filter)

lemma books_keep_keys:
  "col_inv c \<Longrightarrow> col_inv (c\<lparr>col_seenPaths := keep_keys present (col_seenPaths c),
      col_deferred := keep_keys present (col_deferred c), col_parseFails := keep_keys present (col_parseFails c)\<rparr>)"
  using le_less_trans [OF tick_of_keep_keys [of "col_parseFails c" present]]
  by (simp add: books_ok_def keyed_keep_keys)

lemma books_scanFTP: "col_inv c \<Longrightarrow> col_inv (fst (scanFTP env lf unix c d))"
proof -
  assume "col_inv c"
  then have c0: "col_inv (takeRequeued c)" by (rule books_takeRequeued)
  show ?thesis
  proof (cases "se_entries env")
    case (Some es)
    let ?c = "(takeRequeued c)\<lparr>col_scans := col_scans (takeRequeued c) + 1\<rparr>"
    have "col_inv ?c" using c0 by (simp add: books_ok_def)
    then show ?thesis
      using Some by (simp add: scanFTP_def Let_def books_persistScan books_keep_keys books_fold)
  qed (use c0 in \<open>simp add: scanFTP_def Let_def\<close>)
qed

subsection \<open>Where the events of a scan come from\<close>

text \<open>An event of a scan carries the id of a device the store lists, the one the name of an
  upload in the directory resolves to.\<close>

definition attributed :: "scan_env \<Rightarrow> string set \<Rightarrow> EventItem \<Rightarrow> bool" where
  "attributed env present x \<longleftrightarrow> (\<exists>path\<in>present. \<exists>r\<in>set (se_devices env path).
     ev_CWMPID x = d_DeviceID r \<and> d_SerialNumber r = snd (ouiSerialFromName path)
     \<and> HasPrefix (d_DeviceID r) (fst (ouiSerialFromName path) @ ''-''))"

definition grows :: "scan_env \<Rightarrow> string set \<Rightarrow> Collector \<Rightarrow> Collector \<Rightarrow> bool" where
  "grows env present c c' \<longleftrightarrow> col_ftpDir c' = col_ftpDir c \<and> col_rules c' = col_rules c \<and> col_ledger c' = col_ledger c
     \<and> col_requeued c' = col_requeued c
     \<and> (\<exists>new. col_events c' = col_events c @ new \<and> (\<forall>x\<in>set new. attributed env present x))"

lemma grows_refl [simp]: "grows env present c c"
  by (simp add: grows_def)

lemma grows_trans: "grows env present a b \<Longrightarrow> grows env present b c \<Longrightarrow> grows env present a c"
  by (auto simp: grows_def)

lemma grows_fields [simp]:
  "grows env present c (c\<lparr>col_deferred := D\<rparr>)" "grows env present c (c\<lparr>col_parseFails := F\<rparr>)"
  "grows env present c (c\<lparr>col_seenPaths := S\<rparr>)" "grows env present c (c\<lparr>col_scans := n\<rparr>)"
  by (simp_all add: grows_def)

lemma grows_markSeen:
  "\<forall>x\<in>set events. attributed env present x \<Longrightarrow> grows env present c (markSeen path stamp events c)"
  by (simp add: grows_def markSeen_def Let_def)

lemma parse_attributed:
  assumes "resolveDeviceID (se_devices env path) path = Some dev" "parseUpload env e path dev = Some events"
    and "path \<in> present" "x \<in> set events"
  shows "attributed env present x"
proof -
  obtain oui serial where n: "ouiSerialFromName path = (oui, serial)" by force
  obtain r where r: "r \<in> set (se_devices env path)" "d_DeviceID r = dev" "d_SerialNumber r = serial"
    "HasPrefix dev (oui @ ''-'')"
    by (rule resolve_mem [OF assms(1) n])
  then have "dev \<noteq> ''''" by auto
  then have "ev_CWMPID x = dev"
    using assms(2,4) Apply_device by (auto simp: parseUpload_def eventsFromGzipLog_def split: option.splits if_splits)
  with r n assms(3) show ?thesis
    unfolding attributed_def by (intro bexI [of _ path] bexI [of _ r]) auto
qed

lemma grows_try_ingest: "path \<in> present \<Longrightarrow> grows env present c (try_ingest env path e c)"
proof (cases rule: try_ingest_cases [of env path e c])
  case (given_up stamp)
  have "grows env present (c\<lparr>col_parseFails := bump path (col_parseFails c)\<rparr>)
      (markSeen path stamp [] (c\<lparr>col_parseFails := bump path (col_parseFails c)\<rparr>))"
    by (rule grows_markSeen) simp
  then show ?thesis unfolding given_up(1) by (rule grows_trans [OF grows_fields(2)])
next
  case (parsed stamp dev events)
  assume "path \<in> present"
  then show ?thesis
    unfolding parsed(1) using parse_attributed [OF parsed(3,4)] by (blast intro: grows_markSeen)
qed simp_all

lemma grows_scan_entry:
  assumes "upload_entry e \<Longrightarrow> path_join (col_ftpDir c) (de_name e) \<in> present"
  shows "grows env present c (scan_entry env check e c)"
proof (cases rule: scan_entry_cases [of env check e c])
  case (work S)
  then show ?thesis
    using assms grows_try_ingest grows_trans [OF grows_fields(3)] by metis
qed simp

lemma grows_fold:
  "(\<And>e. e \<in> set es \<Longrightarrow> upload_entry e \<Longrightarrow> path_join (col_ftpDir c) (de_name e) \<in> present) \<Longrightarrow>
     grows env present c (fold (scan_entry env check) es c)"
proof (induction es arbitrary: c)
  case (Cons e es)
  have 1: "grows env present c (scan_entry env check e c)"
    by (rule grows_scan_entry) (use Cons.prems in simp)
  then have "col_ftpDir (scan_entry env check e c) = col_ftpDir c" by (simp add: grows_def)
  then have "grows env present (scan_entry env check e c) (fold (scan_entry env check) es (scan_entry env check e c))"
    using Cons.prems by (intro Cons.IH) auto
  with 1 show ?case by (auto intro: grows_trans)
qed simp

lemma keep_keys_sub: "fst ` set (keep_keys present t) \<subseteq> set present"
  by (auto simp: keep_keys_def)

lemma takeRequeued_fields [simp]:
  "col_events (takeRequeued c) = col_events c" "col_ftpDir (takeRequeued c) = col_ftpDir c"
  "col_rules (takeRequeued c) = col_rules c" "col_ledger (takeRequeued c) = col_ledger c"
  "col_eventMarks (takeRequeued c) = col_eventMarks c" "col_pendingMarks (takeRequeued c) = col_pendingMarks c"
  "col_deferred (takeRequeued c) = col_deferred c" "col_parseFails (takeRequeued c) = col_parseFails c"
  "col_requeued (takeRequeued c) = []" "col_scans (takeRequeued c) = col_scans c"
  by (simp_all add: takeRequeued_def)

text \<open>C20. A scan keeps its books bounded and in order: afterwards only uploads that are in the
  directory are remembered as seen, deferred or failing, no retry counter has reached its
  bound, and the marks of queued events are in the order of the events.\<close>

theorem scan_keeps_books:
  assumes "col_inv c" "se_entries env = Some es" "scanFTP env lf unix c d = (c', d')"
  shows "col_inv c' \<and> fst ` set (col_seenPaths c') \<subseteq> set (present_paths (col_ftpDir c) es)
     \<and> fst ` set (col_deferred c') \<subseteq> set (present_paths (col_ftpDir c) es)
     \<and> fst ` set (col_parseFails c') \<subseteq> set (present_paths (col_ftpDir c) es)
     \<and> (\<forall>p. tick_of (col_parseFails c') p < 5)"
proof -
  have c': "c' = fst (scanFTP env lf unix c d)" using assms(3) by simp
  have inv: "col_inv c'" unfolding c' by (rule books_scanFTP [OF assms(1)])
  then have "\<forall>p. tick_of (col_parseFails c') p < 5" by (simp add: books_ok_def maxParseRetries_def)
  moreover obtain S D F where "col_seenPaths c' = keep_keys (present_paths (col_ftpDir c) es) S"
    "col_deferred c' = keep_keys (present_paths (col_ftpDir c) es) D"
    "col_parseFails c' = keep_keys (present_paths (col_ftpDir c) es) F"
    unfolding c' using assms(2) by (simp add: scanFTP_def Let_def persistScan_keeps)
  ultimately show ?thesis using inv keep_keys_sub by metis
qed

text \<open>C21. No event is ever made up for an unknown device: a scan only appends to the queued
  events, and every event it appends carries the canonical id of a device the store listed,
  with the serial number and the OUI in the name of an upload in the directory.\<close>

theorem scan_events_attributed:
  assumes "se_entries env = Some es" "scanFTP env lf unix c d = (c', d')"
  shows "\<exists>new. col_events c' = col_events c @ new
     \<and> (\<forall>x\<in>set new. \<exists>path\<in>set (present_paths (col_ftpDir c) es). \<exists>r\<in>set (se_devices env path).
          ev_CWMPID x = d_DeviceID r \<and> d_SerialNumber r = snd (ouiSerialFromName path)
          \<and> HasPrefix (d_DeviceID r) (fst (ouiSerialFromName path) @ ''-''))"
proof -
  let ?c = "(takeRequeued c)\<lparr>col_scans := col_scans c + 1\<rparr>"
  let ?check = "col_scans c mod rewriteCheckTicks = 0"
  let ?P = "set (present_paths (col_ftpDir c) es)"
  have "grows env ?P ?c (fold (scan_entry env ?check) es ?c)"
    by (rule grows_fold) (simp add: present_paths_mem)
  then obtain new where "col_events (fold (scan_entry env ?check) es ?c) = col_events c @ new"
    "\<forall>x\<in>set new. attributed env ?P x"
    by (auto simp: grows_def)
  moreover have "col_events (fst (scanFTP env lf unix c d)) = col_events (fold (scan_entry env ?check) es ?c)"
    using assms(1) by (simp add: scanFTP_def Let_def persistScan_keeps)
  then have "col_events c' = col_events (fold (scan_entry env ?check) es ?c)" by (simp add: assms(2))
  ultimately show ?thesis by (auto simp: attributed_def)
qed

subsection \<open>A deferred upload is not forgotten\<close>

text \<open>What an entry does to the books of another path: nothing.\<close>

definition same_at :: "string \<Rightarrow> Collector \<Rightarrow> Collector \<Rightarrow> bool" where
  "same_at p c c' \<longleftrightarrow> map_of (col_seenPaths c') p = map_of (col_seenPaths c) p
     \<and> tick_of (col_deferred c') p = tick_of (col_deferred c) p \<and> col_ftpDir c' = col_ftpDir c
     \<and> col_rules c' = col_rules c"

lemma same_at_refl [simp]: "same_at p c c"
  by (simp add: same_at_def)

lemma same_at_trans: "same_at p a b \<Longrightarrow> same_at p b c \<Longrightarrow> same_at p a c"
  by (simp add: same_at_def)

lemma same_at_markSeen: "path \<noteq> p \<Longrightarrow> same_at p c (markSeen path stamp events c)"
  by (simp add: same_at_def markSeen_def Let_def tick_of_def)

lemma same_at_try_ingest: "path \<noteq> p \<Longrightarrow> same_at p c (try_ingest env path e c)"
proof (cases rule: try_ingest_cases [of env path e c])
  case deferred
  assume "path \<noteq> p"
  then show ?thesis by (simp add: deferred same_at_def tick_of_bump)
next
  case (given_up stamp)
  let ?c = "c\<lparr>col_parseFails := bump path (col_parseFails c)\<rparr>"
  assume "path \<noteq> p"
  then have "same_at p ?c (markSeen path stamp [] ?c)" by (rule same_at_markSeen)
  then show ?thesis by (simp add: given_up same_at_def)
qed (auto simp: same_at_def [of _ _ "_\<lparr>col_parseFails := _\<rparr>"] same_at_markSeen)

lemma same_at_scan_entry:
  assumes "upload_entry e \<Longrightarrow> path_join (col_ftpDir c) (de_name e) \<noteq> p"
  shows "same_at p c (scan_entry env check e c)"
proof (cases rule: scan_entry_cases [of env check e c])
  case (work S)
  then have "same_at p (c\<lparr>col_seenPaths := S\<rparr>) (scan_entry env check e c)"
    using assms same_at_try_ingest by simp
  moreover have "same_at p c (c\<lparr>col_seenPaths := S\<rparr>)"
    using work(1,3) assms by (auto simp: same_at_def)
  ultimately show ?thesis by (rule same_at_trans [rotated])
qed simp

lemma same_at_fold:
  "(\<And>e. e \<in> set es \<Longrightarrow> upload_entry e \<Longrightarrow> path_join (col_ftpDir c) (de_name e) \<noteq> p) \<Longrightarrow>
     same_at p c (fold (scan_entry env check) es c)"
proof (induction es arbitrary: c)
  case (Cons e es)
  have 1: "same_at p c (scan_entry env check e c)"
    by (rule same_at_scan_entry) (use Cons.prems in simp)
  then have "same_at p (scan_entry env check e c) (fold (scan_entry env check) es (scan_entry env check e c))"
    using Cons.prems by (intro Cons.IH) (simp add: same_at_def)
  with 1 show ?case by (auto intro: same_at_trans)
qed simp

text \<open>A poll that finds the upload, of a device the store knows, readable and stable.\<close>

definition good_poll :: "string \<Rightarrow> Engine \<Rightarrow> string \<Rightarrow> scan_env \<Rightarrow> bool" where
  "good_poll dir rs p env \<longleftrightarrow> (\<exists>xs e ys dev stamp events. se_entries env = Some (xs @ e # ys)
     \<and> upload_entry e \<and> path_join dir (de_name e) = p
     \<and> (\<forall>x\<in>set (xs @ ys). upload_entry x \<longrightarrow> path_join dir (de_name x) \<noteq> p)
     \<and> de_stamp e = Some stamp \<and> resolveDeviceID (se_devices env p) p = Some dev
     \<and> parseUpload env rs p dev = Some events)"

lemma good_poll_step:
  assumes "good_poll (col_ftpDir c) (col_rules c) p env" and "map_of (col_seenPaths c) p = None" and "col_inv c"
    and c'_def: "c' = fst (scanFTP env lf unix c d)"
  shows "col_ftpDir c' = col_ftpDir c \<and> col_rules c' = col_rules c \<and>
    (if slow_poll (tick_of (col_deferred c) p)
     then map_of (col_seenPaths c') p = None \<and> tick_of (col_deferred c') p = tick_of (col_deferred c) p + 1
     else map_of (col_seenPaths c') p \<noteq> None)"
proof -
  obtain xs e ys dev stamp events where es: "se_entries env = Some (xs @ e # ys)" and e: "upload_entry e"
      "path_join (col_ftpDir c) (de_name e) = p"
    and oth: "\<forall>x\<in>set (xs @ ys). upload_entry x \<longrightarrow> path_join (col_ftpDir c) (de_name x) \<noteq> p"
    and ok: "de_stamp e = Some stamp" "resolveDeviceID (se_devices env p) p = Some dev"
      "parseUpload env (col_rules c) p dev = Some events"
    using assms(1) unfolding good_poll_def by blast
  define chk where "chk = (col_scans c mod rewriteCheckTicks = 0)"
  define c0 where "c0 = (takeRequeued c)\<lparr>col_scans := col_scans c + 1\<rparr>"
  define c1 where "c1 = fold (scan_entry env chk) xs c0"
  define c2 where "c2 = scan_entry env chk e c1"
  define c3 where "c3 = fold (scan_entry env chk) ys c2"
  let ?P = "present_paths (col_ftpDir c) (xs @ e # ys)" and ?tick = "tick_of (col_deferred c) p"
  have s0: "map_of (col_seenPaths c0) p = None" "tick_of (col_deferred c0) p = ?tick" "col_ftpDir c0 = col_ftpDir c"
    "col_rules c0 = col_rules c"
    using assms(2) by (simp_all add: c0_def takeRequeued_def map_of_forget_requeued)
  have "same_at p c0 c1" unfolding c1_def by (rule same_at_fold) (use oth s0 in auto)
  then have c1: "map_of (col_seenPaths c1) p = None" "tick_of (col_deferred c1) p = ?tick"
    "col_ftpDir c1 = col_ftpDir c" "col_rules c1 = col_rules c"
    using s0 by (simp_all add: same_at_def)
  have c2: "c2 = (if slow_poll ?tick then c1\<lparr>col_deferred := bump p (col_deferred c1)\<rparr> else markSeen p stamp events c1)"
    using e ok c1 by (simp add: c2_def scan_entry_def try_ingest_def)
  have dir2: "col_ftpDir c2 = col_ftpDir c" "col_rules c2 = col_rules c"
    using c1 by (simp_all add: c2 markSeen_def Let_def)
  have s3: "same_at p c2 c3" unfolding c3_def by (rule same_at_fold) (use oth dir2 in auto)
  have fold3: "fold (scan_entry env chk) (xs @ e # ys) c0 = c3"
    by (simp add: c1_def c2_def c3_def)
  have inv3: "col_inv c3"
    unfolding fold3 [symmetric] using books_takeRequeued [OF assms(3)]
    by (intro books_fold) (simp add: c0_def books_ok_def)
  have mem: "p \<in> set ?P" using e by (auto simp: present_paths_def)
  have scan: "c' = fst (persistScan lf unix ?P (map fst (filter (\<lambda>(p, _). p \<notin> set ?P) (col_seenPaths c3)))
      (c3\<lparr>col_seenPaths := keep_keys ?P (col_seenPaths c3), col_deferred := keep_keys ?P (col_deferred c3),
          col_parseFails := keep_keys ?P (col_parseFails c3)\<rparr>) d)"
    using es fold3 by (simp add: c'_def scanFTP_def Let_def c0_def chk_def)
  have "map_of (col_seenPaths c') p = map_of (col_seenPaths c3) p" "tick_of (col_deferred c') p = tick_of (col_deferred c3) p"
    "col_ftpDir c' = col_ftpDir c3" "col_rules c' = col_rules c3"
    using inv3 mem
    by (simp_all add: scan persistScan_keeps keep_keys_def tick_of_def books_ok_def map_of_filter_keyed split: option.split)
  then show ?thesis
    using s3 dir2 c1 by (simp add: same_at_def) (auto simp: c2 tick_of_bump markSeen_def Let_def)
qed

definition polls_left :: "nat \<Rightarrow> nat" where
  "polls_left t = (if slow_poll t then 30 - (t - 30) mod 30 else 0)"

lemma polls_left_step: "slow_poll t \<Longrightarrow> polls_left (t + 1) < polls_left t"
proof -
  assume sp: "slow_poll t"
  define r where "r = (t - 30) mod 30"
  have t: "30 \<le> t" "r \<noteq> 0" "r < 30"
    using sp by (auto simp: r_def slow_poll_def maxDeferTicks_def resolveRetryTicks_def)
  have "(t + 1 - 30) mod 30 = (if r = 29 then 0 else r + 1)"
    using mod_Suc [of "t - 30" 30] Suc_diff_le [of 30 t] t(1) by (simp add: r_def)
  then have "polls_left (t + 1) = (if r = 29 then 0 else 29 - r)"
    using t by (simp add: polls_left_def slow_poll_def maxDeferTicks_def resolveRetryTicks_def)
  moreover have "polls_left t = 30 - r" using sp by (simp add: polls_left_def r_def)
  ultimately show ?thesis using t by (cases "r = 29") simp_all
qed

fun scans :: "(scan_env \<times> ledger_faults \<times> int) list \<Rightarrow> Collector \<times> db \<Rightarrow> Collector \<times> db" where
  "scans [] cd = cd"
| "scans ((env, lf, unix) # xs) cd = scans xs (scanFTP env lf unix (fst cd) (snd cd))"

lemma scans_reach:
  assumes "polls_left (tick_of (col_deferred (fst cd)) p) < length polls" and "col_inv (fst cd)"
    and "map_of (col_seenPaths (fst cd)) p = None"
    and "\<forall>(env, _)\<in>set polls. good_poll (col_ftpDir (fst cd)) (col_rules (fst cd)) p env"
  shows "\<exists>k\<le>length polls. map_of (col_seenPaths (fst (scans (take k polls) cd))) p \<noteq> None"
  using assms
proof (induction polls arbitrary: cd)
  case (Cons poll polls)
  obtain env lf unix where poll: "poll = (env, lf, unix)" by (cases poll)
  let ?t = "tick_of (col_deferred (fst cd)) p" and ?cd = "scanFTP env lf unix (fst cd) (snd cd)"
  have gp: "good_poll (col_ftpDir (fst cd)) (col_rules (fst cd)) p env" using Cons.prems(4) by (auto simp: poll)
  note st = good_poll_step [OF gp Cons.prems(3,2), of "fst (scanFTP env lf unix (fst cd) (snd cd))", OF refl]
  show ?case
  proof (cases "slow_poll ?t")
    case True
    have "polls_left (tick_of (col_deferred (fst ?cd)) p) < length polls"
      using polls_left_step [OF True] Cons.prems(1) st True by simp
    moreover have "col_inv (fst ?cd)" by (rule books_scanFTP [OF Cons.prems(2)])
    ultimately have "\<exists>k\<le>length polls. map_of (col_seenPaths (fst (scans (take k polls) ?cd))) p \<noteq> None"
      using st True Cons.prems(4) by (intro Cons.IH) auto
    then obtain k where "k \<le> length polls" "map_of (col_seenPaths (fst (scans (take k polls) ?cd))) p \<noteq> None" by blast
    then show ?thesis by (intro exI [of _ "Suc k"]) (simp add: poll)
  next
    case False
    then show ?thesis using st by (intro exI [of _ 1]) (simp add: poll)
  qed
qed simp

text \<open>C19. A deferred upload is not forgotten: however long it has been waiting for its device
  to Inform, once the device is known (and the file is there and readable) at most thirty
  polls pass until the upload is recorded as ingested.\<close>

theorem deferred_upload_ingested:
  assumes "length polls = 30" and "col_inv c" and "map_of (col_seenPaths c) p = None"
    and "\<forall>(env, _)\<in>set polls. good_poll (col_ftpDir c) (col_rules c) p env"
  shows "\<exists>k\<le>30. \<exists>stamp. map_of (col_seenPaths (fst (scans (take k polls) (c, d)))) p = Some stamp"
proof -
  have "polls_left (tick_of (col_deferred c) p) < length polls"
    using assms(1) by (auto simp: polls_left_def slow_poll_def maxDeferTicks_def resolveRetryTicks_def)
  from scans_reach [of "(c, d)", simplified, OF this assms(2,3)] assms(1,4) show ?thesis by auto
qed

subsection \<open>Witnesses\<close>

definition demo_name :: string where
  "demo_name = ''Log_20260101.0000+0000_8C1F64.22.gz''"

definition demo_device :: DeviceRecord where
  "demo_device = \<lparr>d_DeviceID = ''8C1F64-P-22'', d_IP = '''', d_Manufacturer = '''', d_ProductClass = ''P'',
     d_SerialNumber = ''22'', d_SWVersion = '''', d_LastInformAt = None\<rparr>"

definition demo_entry :: dir_entry where
  "demo_entry = \<lparr>de_name = demo_name, de_isDir = False, de_checkStamp = Some \<lparr>st_Size = 3, st_ModTime = 9\<rparr>,
     de_stamp = Some \<lparr>st_Size = 3, st_ModTime = 9\<rparr>\<rparr>"

definition demo_env :: scan_env where
  "demo_env = \<lparr>se_entries = Some [demo_entry], se_gunzip = (\<lambda>_. Some (''5 [FM] fault'', False)),
     se_day = (\<lambda>_. None), se_devices = (\<lambda>_. [demo_device]), se_hashes = demo_hashes, se_now = ''t0''\<rparr>"

definition demo_lf :: ledger_faults where
  "demo_lf = \<lparr>lf_forget = (\<lambda>_. no_faults), lf_mark = (\<lambda>_. no_faults)\<rparr>"

definition demo_collector :: Collector where
  "demo_collector = (New \<lparr>eng_rules = []\<rparr> ''/ftp'')\<lparr>col_ledger := True, col_deferred := [(''/ftp/'' @ demo_name, 41)]\<rparr>"

lemma demo_path: "path_join ''/ftp'' demo_name = ''/ftp/'' @ demo_name"
  by code_simp

lemma demo_upload: "isLogUpload demo_name"
  by code_simp

lemma demo_resolve: "resolveDeviceID [demo_device] (''/ftp/'' @ demo_name) = Some ''8C1F64-P-22''"
  by code_simp

lemma demo_inv: "col_inv demo_collector"
  by (simp add: demo_collector_def New_def books_ok_def marks_ok_def tick_of_def maxParseRetries_def)

theorem scan_keeps_books_witness:
  "fst ` set (col_seenPaths (fst (scanFTP demo_env demo_lf 7 demo_collector init_db))) \<subseteq> {''/ftp/'' @ demo_name}"
proof -
  have es: "se_entries demo_env = Some [demo_entry]" by (simp add: demo_env_def)
  have P: "present_paths (col_ftpDir demo_collector) [demo_entry] = [''/ftp/'' @ demo_name]"
    using demo_path demo_upload by (simp add: present_paths_def demo_entry_def demo_collector_def New_def)
  show ?thesis
    using scan_keeps_books [OF demo_inv es prod.collapse [symmetric], of demo_lf 7 init_db] unfolding P by simp
qed

theorem scan_events_attributed_witness:
  "\<exists>new. col_events (fst (scanFTP demo_env demo_lf 7 demo_collector init_db)) = new
     \<and> (\<forall>x\<in>set new. ev_CWMPID x = ''8C1F64-P-22'')"
proof -
  have es: "se_entries demo_env = Some [demo_entry]" by (simp add: demo_env_def)
  show ?thesis
    using scan_events_attributed [OF es prod.collapse [symmetric], of demo_lf 7 demo_collector init_db]
    by (auto simp: demo_env_def demo_device_def demo_collector_def New_def)
qed

lemma demo_good_poll: "good_poll (col_ftpDir demo_collector) (col_rules demo_collector) (''/ftp/'' @ demo_name) demo_env"
proof -
  obtain events where ev: "parseUpload demo_env (col_rules demo_collector) (''/ftp/'' @ demo_name) ''8C1F64-P-22'' = Some events"
    by (simp add: parseUpload_def eventsFromGzipLog_def demo_env_def)
  show ?thesis
    unfolding good_poll_def
  proof (intro exI conjI)
    show "se_entries demo_env = Some ([] @ demo_entry # [])" by (simp add: demo_env_def)
    show "de_stamp demo_entry = Some \<lparr>st_Size = 3, st_ModTime = 9\<rparr>" by (simp add: demo_entry_def)
    show "resolveDeviceID (se_devices demo_env (''/ftp/'' @ demo_name)) (''/ftp/'' @ demo_name) = Some ''8C1F64-P-22''"
      using demo_resolve by (simp add: demo_env_def)
    show "path_join (col_ftpDir demo_collector) (de_name demo_entry) = ''/ftp/'' @ demo_name"
      using demo_path by (simp add: demo_entry_def demo_collector_def New_def)
  qed (use ev demo_upload in \<open>simp_all add: demo_entry_def\<close>)
qed

theorem deferred_upload_ingested_witness:
  "slow_poll (tick_of (col_deferred demo_collector) (''/ftp/'' @ demo_name)) \<and>
   (\<exists>k\<le>30. \<exists>stamp. map_of (col_seenPaths (fst (scans (take k (replicate 30 (demo_env, demo_lf, 7)))
      (demo_collector, init_db)))) (''/ftp/'' @ demo_name) = Some stamp)"
proof -
  have "slow_poll (tick_of (col_deferred demo_collector) (''/ftp/'' @ demo_name))"
    by (simp add: demo_collector_def slow_poll_def tick_of_def maxDeferTicks_def resolveRetryTicks_def)
  moreover have "map_of (col_seenPaths demo_collector) (''/ftp/'' @ demo_name) = None"
    by (simp add: demo_collector_def New_def)
  ultimately show ?thesis
    using deferred_upload_ingested [of "replicate 30 (demo_env, demo_lf, 7)", OF _ demo_inv] demo_good_poll by auto
qed

end
