(* ===== verification/Metrics.thy ===== *)
theory Metrics
  imports Server CloudTypes
begin

text \<open>
  The metric and alarm catalogue (\<^verbatim>\<open>src/goagent/internal/collector/metrics.go\<close>) and the part
  of the collector that reads the parameter cache (\<^verbatim>\<open>collector.go\<close>: \<open>Inventory\<close>,
  \<open>CollectTier\<close>, \<open>truthy\<close>, \<open>ToAnyMap\<close>). Floating-point arithmetic is the argument
  \<open>float_ops\<close>: parsing, the two comparisons, truncation, and the percentage with its
  rendering. Clock and time format are arguments as well.
\<close>

record 'f float_ops =
  fo_parse :: "string \<Rightarrow> 'f option"
  fo_nonpos :: "'f \<Rightarrow> bool"
  fo_nonneg :: "'f \<Rightarrow> bool"
  fo_trunc :: "'f \<Rightarrow> int"
  fo_percent :: "'f \<Rightarrow> 'f \<Rightarrow> string"

definition fap :: string where
  "fap = ''Device.Services.FAPService.1.''"

definition sampleSet :: string where
  "sampleSet = ''Device.PeriodicStatistics.SampleSet.1.''"

definition pmValuePath :: "int \<Rightarrow> string" where
  "pmValuePath i = sampleSet @ ''Parameter.'' @ show_int i @ ''.X_8C1F64_CurrentValue''"

definition tier1Metrics :: "(string, string) tbl" where
  "tier1Metrics =
    [(''op_state'', fap @ ''FAPControl.LTE.OpState''),
     (''rf_tx_status'', fap @ ''FAPControl.LTE.RFTxStatus''),
     (''admin_state'', fap @ ''FAPControl.LTE.AdminState''),
     (''s1_status'', fap @ ''FAPControl.LTE.Gateway.X_8C1F64_S1Status''),
     (''sctp_status'', fap @ ''Transport.SCTP.Assoc.1.Status''),
     (''connected_ues'', fap @ ''X_8C1F64_Status.UeNumber''),
     (''volte_ues'', fap @ ''X_8C1F64_Status.VolteUeNumber'')]"

definition tier2Metrics :: "(string, string) tbl" where
  "tier2Metrics =
    [(''rip_average'', fap @ ''X_8C1F64_SON.RIP.RIPAverage''),
     (''rip_prb'', fap @ ''X_8C1F64_SON.RIP.RIPPRB''),
     (''rip_threshold'', fap @ ''X_8C1F64_SON.RIP.RIPThreshold''),
     (''earfcn_dl_inuse'', fap @ ''CellConfig.LTE.RAN.RF.X_8C1F64_EARFCNDLInUse''),
     (''pci_inuse'', fap @ ''CellConfig.LTE.RAN.RF.X_8C1F64_PhyCellIDInUse''),
     (''rs_power'', fap @ ''CellConfig.LTE.RAN.RF.ReferenceSignalPower''),
     (''dl_bw'', fap @ ''CellConfig.LTE.RAN.RF.DLBandwidth''),
     (''ul_bw'', fap @ ''CellConfig.LTE.RAN.RF.ULBandwidth'')]"

definition tier3Metrics :: "(string, string) tbl" where
  "tier3Metrics =
    [(''prb_dl_pct'', pmValuePath 316), (''prb_ul_pct'', pmValuePath 315), (''sinr_avg_db'', pmValuePath 412),
     (''rrc_conn_mean'', pmValuePath 10), (''thp_dl'', pmValuePath 118), (''thp_ul'', pmValuePath 119),
     (''uptime'', ''Device.DeviceInfo.UpTime''),
     (''mem_free'', ''Device.DeviceInfo.MemoryStatus.Free''),
     (''mem_total'', ''Device.DeviceInfo.MemoryStatus.Total''),
     (''cpu_usage'', ''Device.DeviceInfo.ProcessStatus.CPUUsage'')]"

definition pathRRCAtt :: string where
  "pathRRCAtt = sampleSet @ ''Parameter.168.X_8C1F64_CurrentValue''"

definition pathRRCSucc :: string where
  "pathRRCSucc = sampleSet @ ''Parameter.170.X_8C1F64_CurrentValue''"

definition maxAlarmRows :: int where
  "maxAlarmRows = 16"

definition tierDefs :: "int \<Rightarrow> (string, string) tbl" where
  "tierDefs tier = (if tier = 1 then tier1Metrics else if tier = 2 then tier2Metrics
     else if tier = 3 then tier3Metrics else [])"

definition tierReadPaths :: "int \<Rightarrow> string list" where
  "tierReadPaths tier = map snd (tierDefs tier) @ (if tier = 3 then [pathRRCAtt, pathRRCSucc] else [])"

definition raw_get :: "any_map \<Rightarrow> string \<Rightarrow> any" where
  "raw_get raw k = (case map_of raw k of Some v \<Rightarrow> v | None \<Rightarrow> VNil)"

fun toFloat :: "('f, 'z) float_ops_scheme \<Rightarrow> any \<Rightarrow> 'f option" where
  "toFloat fo (VFloat s) = fo_parse fo s"
| "toFloat fo (VString s) = fo_parse fo s"
| "toFloat fo _ = None"

definition rrcSuccessPct :: "('f, 'z) float_ops_scheme \<Rightarrow> any_map \<Rightarrow> any option" where
  "rrcSuccessPct fo raw =
     (case (toFloat fo (raw_get raw pathRRCAtt), toFloat fo (raw_get raw pathRRCSucc)) of
        (Some att, Some succ) \<Rightarrow> if fo_nonpos fo att then None else Some (VFloat (fo_percent fo succ att))
      | _ \<Rightarrow> None)"

definition buildMetrics :: "('f, 'z) float_ops_scheme \<Rightarrow> int \<Rightarrow> any_map \<Rightarrow> any_map" where
  "buildMetrics fo tier raw =
     (let m = fold (\<lambda>(k, p) m. case map_of raw p of Some v \<Rightarrow> AList.update k v m | None \<Rightarrow> m) (tierDefs tier) []
      in if tier = 3 then (case rrcSuccessPct fo raw of Some v \<Rightarrow> AList.update ''rrc_success_pct'' v m | None \<Rightarrow> m)
         else m)"

definition alarm_base :: "int \<Rightarrow> string" where
  "alarm_base i = ''Device.FaultMgmt.CurrentAlarm.'' @ show_int i @ ''.''"

definition alarmReadPaths :: "string list" where
  "alarmReadPaths = ''Device.FaultMgmt.CurrentAlarmNumberOfEntries''
     # concat (map (\<lambda>i. map (\<lambda>f. alarm_base i @ f)
         [''EventType'', ''PerceivedSeverity'', ''EventTime'', ''SpecificProblem'']) [1..maxAlarmRows])"

definition alarmTime :: "any \<Rightarrow> string \<Rightarrow> string" where
  "alarmTime v fallback = (if v \<noteq> VNil \<and> sprint v \<noteq> '''' then sprint v else fallback)"

definition normalizeSeverity :: "any \<Rightarrow> string" where
  "normalizeSeverity v = (let s = sprint v in
     if s = ''Critical'' \<or> s = ''critical'' then ''critical''
     else if s = ''Major'' \<or> s = ''major'' then ''major''
     else if s = ''Minor'' \<or> s = ''minor'' then ''minor''
     else if s = ''Warning'' \<or> s = ''warning'' then ''warning''
     else if s = ''Cleared'' \<or> s = ''cleared'' \<or> s = ''clear'' then ''clear''
     else ''warning'')"

definition alarm_limit :: "('f, 'z) float_ops_scheme \<Rightarrow> any_map \<Rightarrow> int" where
  "alarm_limit fo raw =
     (case toFloat fo (raw_get raw ''Device.FaultMgmt.CurrentAlarmNumberOfEntries'') of
        Some count \<Rightarrow> if fo_nonneg fo count \<and> fo_trunc fo count < maxAlarmRows then fo_trunc fo count else maxAlarmRows
      | None \<Rightarrow> maxAlarmRows)"

definition alarm_row :: "string \<Rightarrow> string \<Rightarrow> any_map \<Rightarrow> int \<Rightarrow> AlarmItem list" where
  "alarm_row cwmpID ts raw i =
     (case map_of raw (alarm_base i @ ''EventType'') of
        None \<Rightarrow> []
      | Some etype \<Rightarrow>
          if sprint etype = '''' then []
          else [\<lparr>al_CWMPID = cwmpID, al_Timestamp = alarmTime (raw_get raw (alarm_base i @ ''EventTime'')) ts,
                 al_Severity = normalizeSeverity (raw_get raw (alarm_base i @ ''PerceivedSeverity'')),
                 al_AlarmType = sprint etype,
                 al_Message = (case map_of raw (alarm_base i @ ''SpecificProblem'') of Some m \<Rightarrow> sprint m | None \<Rightarrow> ''''),
                 al_Active = True\<rparr>])"

definition buildAlarms :: "('f, 'z) float_ops_scheme \<Rightarrow> string \<Rightarrow> string \<Rightarrow> any_map \<Rightarrow> AlarmItem list" where
  "buildAlarms fo cwmpID ts raw = concat (map (alarm_row cwmpID ts raw) [1..alarm_limit fo raw])"

subsection \<open>Reading the cache\<close>

definition truthy :: "string \<Rightarrow> bool" where
  "truthy v = (v = ''1'' \<or> EqualFold v ''true'' \<or> EqualFold v ''up'')"

definition ToAnyMap :: "(string, string) tbl \<Rightarrow> any_map" where
  "ToAnyMap m = map (\<lambda>(k, v). (k, VString v)) m"

definition pathRFTxStatus :: string where
  "pathRFTxStatus = ''Device.Services.FAPService.1.FAPControl.LTE.RFTxStatus''"
definition pathOpState :: string where
  "pathOpState = ''Device.Services.FAPService.1.FAPControl.LTE.OpState''"
definition pathLANIP :: string where
  "pathLANIP = ''Device.LAN.IPAddress''"
definition pathWANIP :: string where
  "pathWANIP = ''Device.WAN.IPAddress''"

definition inventoryStatusPaths :: "string list" where
  "inventoryStatusPaths = [pathRFTxStatus, pathOpState, pathLANIP, pathWANIP]"

definition str_get :: "(string, string) tbl \<Rightarrow> string \<Rightarrow> string" where
  "str_get m k = (case map_of m k of Some v \<Rightarrow> v | None \<Rightarrow> '''')"

text \<open>Failures of the store: of the listing, and of the parameter reads of a device.\<close>

record read_faults =
  rf_list :: bool
  rf_params :: "string \<Rightarrow> bool"
  rf_addr :: "string \<Rightarrow> bool"

definition inventory_item :: "(int \<Rightarrow> string) \<Rightarrow> (string, string) tbl \<Rightarrow> DeviceRecord \<Rightarrow> InventoryItem" where
  "inventory_item rfc3339 st r =
     \<lparr>inv_CWMPID = d_DeviceID r, inv_SerialNumber = d_SerialNumber r, inv_ProductClass = d_ProductClass r,
      inv_AdminLANIP = str_get st pathLANIP, inv_WANIP = str_get st pathWANIP, inv_SWVersion = d_SWVersion r,
      inv_RFTxStatus = map_option truthy (map_of st pathRFTxStatus),
      inv_OpState = map_option truthy (map_of st pathOpState),
      inv_LastInformAt = (case d_LastInformAt r of Some t \<Rightarrow> rfc3339 t | None \<Rightarrow> '''')\<rparr>"

definition Inventory :: "read_faults \<Rightarrow> (int \<Rightarrow> string) \<Rightarrow> db \<Rightarrow> InventoryItem list" where
  "Inventory rf rfc3339 d =
     map (\<lambda>r. inventory_item rfc3339 (GetParams (rf_params rf (d_DeviceID r)) (d_DeviceID r) inventoryStatusPaths d) r)
       (ListDevices (rf_list rf) d)"

definition tier_paths :: "int \<Rightarrow> string list" where
  "tier_paths tier = tierReadPaths tier @ (if tier = 3 then alarmReadPaths else [])"

definition device_metrics :: "('f, 'z) float_ops_scheme \<Rightarrow> int \<Rightarrow> InventoryItem \<Rightarrow> any_map \<Rightarrow> any_map" where
  "device_metrics fo tier dv raw =
     (let m = buildMetrics fo tier raw in
      if tier = 1 then
        let m1 = (case (map_of m ''rf_tx_status'', inv_RFTxStatus dv) of
                    (None, Some b) \<Rightarrow> AList.update ''rf_tx_status'' (VBool b) m | _ \<Rightarrow> m)
        in (case (map_of m1 ''op_state'', inv_OpState dv) of
              (None, Some b) \<Rightarrow> AList.update ''op_state'' (VBool b) m1 | _ \<Rightarrow> m1)
      else m)"

fun collect_loop ::
    "('f, 'z) float_ops_scheme \<Rightarrow> read_faults \<Rightarrow> string \<Rightarrow> int \<Rightarrow> db \<Rightarrow> InventoryItem list \<Rightarrow> Server \<Rightarrow>
       MetricSample list \<times> AlarmItem list \<times> Server" where
  "collect_loop fo rf now tier d [] srv = ([], [], srv)"
| "collect_loop fo rf now tier d (dv # dvs) srv =
     (let dev = inv_CWMPID dv;
          raw = ToAnyMap (GetParams (rf_params rf dev) dev (tier_paths tier) d);
          srv1 = Refresh (rf_addr rf dev) dev (tier_paths tier) d srv;
          metrics = device_metrics fo tier dv raw;
          (samples, alarms, srv2) = collect_loop fo rf now tier d dvs srv1
      in ((if metrics \<noteq> [] then [\<lparr>ms_CWMPID = dev, ms_Timestamp = now, ms_Tier = tier, ms_Metrics = metrics\<rparr>] else [])
            @ samples,
          (if tier = 3 then buildAlarms fo dev now raw else []) @ alarms, srv2))"

definition CollectTier ::
    "('f, 'z) float_ops_scheme \<Rightarrow> read_faults \<Rightarrow> (int \<Rightarrow> string) \<Rightarrow> int \<Rightarrow> int \<Rightarrow> db \<Rightarrow> Server \<Rightarrow>
       MetricSample list \<times> AlarmItem list \<times> Server" where
  "CollectTier fo rf rfc3339 now tier d srv =
     collect_loop fo rf (rfc3339 now) tier d (Inventory rf rfc3339 d) srv"

subsection \<open>What a tier reports\<close>

lemma tierDefs_keyed: "keyed (tierDefs tier)"
  by (simp add: tierDefs_def tier1Metrics_def tier2Metrics_def tier3Metrics_def)

lemma rrc_not_in_tier: "map_of (tierDefs tier) ''rrc_success_pct'' = None"
  by (simp add: tierDefs_def tier1Metrics_def tier2Metrics_def tier3Metrics_def)

lemma map_of_fold_metrics:
  "keyed defs \<Longrightarrow> map_of (fold (\<lambda>(k, p) m. case map_of raw p of Some v \<Rightarrow> AList.update k v m | None \<Rightarrow> m) defs m) k =
     (case Option.bind (map_of defs k) (map_of raw) of Some v \<Rightarrow> Some v | None \<Rightarrow> map_of m k)"
proof (induction defs arbitrary: m)
  case (Cons kp defs)
  obtain k' p where kp: "kp = (k', p)" by (cases kp)
  have "map_of defs k' = None" using Cons.prems by (auto simp: kp map_of_eq_None_iff)
  then show ?case
    using Cons.prems Cons.IH by (auto simp: kp split: option.split)
qed simp

text \<open>A sample says nothing but what the cache says: the metric of a key of the tier is the
  cached value of the one path the catalogue gives for it, absent when the cache has none;
  no other key is reported but the derived success rate of tier 3.\<close>

theorem buildMetrics_reads_catalogue:
  "map_of (buildMetrics fo tier raw) k =
     (if tier = 3 \<and> k = ''rrc_success_pct'' then rrcSuccessPct fo raw
      else Option.bind (map_of (tierDefs tier) k) (map_of raw))"
proof -
  have "map_of (fold (\<lambda>(k, p) m. case map_of raw p of Some v \<Rightarrow> AList.update k v m | None \<Rightarrow> m) (tierDefs tier) []) k
      = Option.bind (map_of (tierDefs tier) k) (map_of raw)"
    by (simp add: map_of_fold_metrics [OF tierDefs_keyed] split: option.split)
  then show ?thesis
    by (auto simp: buildMetrics_def Let_def rrc_not_in_tier [of 3] split: option.splits)
qed

lemma normalizeSeverity_range:
  "normalizeSeverity v \<in> {''critical'', ''major'', ''minor'', ''warning'', ''clear''}"
  by (simp add: normalizeSeverity_def Let_def)

lemma alarm_limit_le: "alarm_limit fo raw \<le> 16"
  by (simp add: alarm_limit_def maxAlarmRows_def split: option.split)

lemma length_alarm_row: "length (alarm_row cwmpID ts raw i) \<le> 1"
  by (simp add: alarm_row_def split: option.split)

lemma alarm_row_ok:
  "a \<in> set (alarm_row cwmpID ts raw i) \<Longrightarrow>
     al_CWMPID a = cwmpID \<and> al_Active a \<and> al_AlarmType a \<noteq> '''' \<and> (\<exists>v. al_Severity a = normalizeSeverity v)"
  by (auto simp: alarm_row_def split: option.splits if_splits)

lemma length_concat_le_one: "(\<And>x. length (f x) \<le> 1) \<Longrightarrow> length (concat (map f xs)) \<le> length xs"
proof (induction xs)
  case (Cons x xs)
  from Cons.prems [of x] Cons.IH [OF Cons.prems] show ?case by simp
qed simp

text \<open>C35. The alarm table is read within bounds: at most sixteen rows become alarms, however
  many entries the device claims to have, and every alarm is an active one of that device,
  has a type, and a severity of the cloud's enumeration.\<close>

theorem buildAlarms_bounded:
  "length (buildAlarms fo cwmpID ts raw) \<le> 16
   \<and> list_all (\<lambda>a. al_CWMPID a = cwmpID \<and> al_Active a \<and> al_AlarmType a \<noteq> ''''
        \<and> al_Severity a \<in> {''critical'', ''major'', ''minor'', ''warning'', ''clear''}) (buildAlarms fo cwmpID ts raw)"
proof -
  have "length (buildAlarms fo cwmpID ts raw) \<le> length [1..alarm_limit fo raw]"
    unfolding buildAlarms_def by (intro length_concat_le_one length_alarm_row)
  also have "\<dots> \<le> 16" using alarm_limit_le [of fo raw] by simp
  finally have "length (buildAlarms fo cwmpID ts raw) \<le> 16" .
  moreover have "al_CWMPID a = cwmpID \<and> al_Active a \<and> al_AlarmType a \<noteq> ''''
      \<and> al_Severity a \<in> {''critical'', ''major'', ''minor'', ''warning'', ''clear''}"
    if a: "a \<in> set (buildAlarms fo cwmpID ts raw)" for a
  proof -
    obtain i where "a \<in> set (alarm_row cwmpID ts raw i)" using a by (auto simp: buildAlarms_def)
    from alarm_row_ok [OF this] show ?thesis using normalizeSeverity_range by metis
  qed
  ultimately show ?thesis unfolding list_all_iff by blast
qed

text \<open>The sample and the alarms one device contributes.\<close>

definition device_raw :: "read_faults \<Rightarrow> int \<Rightarrow> db \<Rightarrow> string \<Rightarrow> any_map" where
  "device_raw rf tier d dev = ToAnyMap (GetParams (rf_params rf dev) dev (tier_paths tier) d)"

definition device_samples ::
    "('f, 'z) float_ops_scheme \<Rightarrow> read_faults \<Rightarrow> string \<Rightarrow> int \<Rightarrow> db \<Rightarrow> InventoryItem \<Rightarrow> MetricSample list" where
  "device_samples fo rf now tier d dv =
     (let m = device_metrics fo tier dv (device_raw rf tier d (inv_CWMPID dv)) in
      if m = [] then [] else [\<lparr>ms_CWMPID = inv_CWMPID dv, ms_Timestamp = now, ms_Tier = tier, ms_Metrics = m\<rparr>])"

lemma collect_loop_eq:
  "fst (collect_loop fo rf now tier d dvs srv) = concat (map (device_samples fo rf now tier d) dvs)"
  "fst (snd (collect_loop fo rf now tier d dvs srv)) =
     (if tier = 3 then concat (map (\<lambda>dv. buildAlarms fo (inv_CWMPID dv) now (device_raw rf tier d (inv_CWMPID dv))) dvs) else [])"
  "snd (snd (collect_loop fo rf now tier d dvs srv)) =
     fold (\<lambda>dv. Refresh (rf_addr rf (inv_CWMPID dv)) (inv_CWMPID dv) (tier_paths tier) d) dvs srv"
  by (induction dvs arbitrary: srv)
    (auto simp: Let_def case_prod_beta device_samples_def device_raw_def)

lemma Refresh_frame:
  "k \<noteq> dev \<Longrightarrow> map_of (srv_sessions (Refresh ipf dev paths d srv)) k = map_of (srv_sessions srv) k"
  by (simp add: Refresh_def srv_Enqueue_def on_session_def put_session_def deviceSessionLocked_lookup
      split: option.split)

lemma Refresh_fold_frame:
  "k \<notin> inv_CWMPID ` set dvs \<Longrightarrow>
     map_of (srv_sessions (fold (\<lambda>dv. Refresh (rf_addr rf (inv_CWMPID dv)) (inv_CWMPID dv) paths d) dvs srv)) k
       = map_of (srv_sessions srv) k"
  by (induction dvs arbitrary: srv) (auto simp: Refresh_frame)

lemma Inventory_ids: "map inv_CWMPID (Inventory rf rfc3339 d) = map d_DeviceID (ListDevices (rf_list rf) d)"
  by (simp add: Inventory_def inventory_item_def comp_def)

text \<open>Telemetry keeps devices apart: what is reported for a device is computed from the
  parameters cached for that device alone, in the order of the device list; a device with
  nothing to report is left out; and the refresh it queues touches no session but those of
  listed devices.\<close>

theorem CollectTier_per_device:
  assumes "CollectTier fo rf rfc3339 now tier d srv = (samples, alarms, srv')"
  shows "samples = concat (map (device_samples fo rf (rfc3339 now) tier d) (Inventory rf rfc3339 d))
     \<and> alarms = (if tier = 3 then concat (map (\<lambda>dv. buildAlarms fo (inv_CWMPID dv) (rfc3339 now)
           (device_raw rf tier d (inv_CWMPID dv))) (Inventory rf rfc3339 d)) else [])
     \<and> (\<forall>s\<in>set samples. ms_Metrics s \<noteq> [] \<and> ms_CWMPID s \<in> d_DeviceID ` set (ListDevices (rf_list rf) d))
     \<and> (\<forall>k. k \<notin> d_DeviceID ` set (ListDevices (rf_list rf) d) \<longrightarrow>
          map_of (srv_sessions srv') k = map_of (srv_sessions srv) k)"
proof -
  let ?dvs = "Inventory rf rfc3339 d"
  have ids: "inv_CWMPID ` set ?dvs = d_DeviceID ` set (ListDevices (rf_list rf) d)"
    using arg_cong [OF Inventory_ids [of rf rfc3339 d], of set] by simp
  have samples: "samples = concat (map (device_samples fo rf (rfc3339 now) tier d) ?dvs)"
    using collect_loop_eq(1) [of fo rf "rfc3339 now" tier d ?dvs srv] assms by (simp add: CollectTier_def)
  have srv': "srv' = fold (\<lambda>dv. Refresh (rf_addr rf (inv_CWMPID dv)) (inv_CWMPID dv) (tier_paths tier) d) ?dvs srv"
    using collect_loop_eq(3) [of fo rf "rfc3339 now" tier d ?dvs srv] assms by (simp add: CollectTier_def)
  have alarms: "alarms = (if tier = 3 then concat (map (\<lambda>dv. buildAlarms fo (inv_CWMPID dv) (rfc3339 now)
      (device_raw rf tier d (inv_CWMPID dv))) ?dvs) else [])"
    using collect_loop_eq(2) [of fo rf "rfc3339 now" tier d ?dvs srv] assms by (simp add: CollectTier_def)
  have "ms_Metrics s \<noteq> [] \<and> ms_CWMPID s \<in> inv_CWMPID ` set ?dvs" if "s \<in> set samples" for s
    using that by (auto simp: samples device_samples_def Let_def split: if_splits)
  moreover have "map_of (srv_sessions srv') k = map_of (srv_sessions srv) k" if "k \<notin> inv_CWMPID ` set ?dvs" for k
    unfolding srv' by (rule Refresh_fold_frame [OF that])
  ultimately show ?thesis unfolding ids [symmetric] using samples alarms by blast
qed

definition demo_float :: "int float_ops" where
  "demo_float = \<lparr>fo_parse = (\<lambda>_. None), fo_nonpos = (\<lambda>x. x \<le> 0), fo_nonneg = (\<lambda>x. 0 \<le> x), fo_trunc = (\<lambda>x. x),
     fo_percent = (\<lambda>_ _. ''0'')\<rparr>"

theorem CollectTier_per_device_witness:
  "map_of (srv_sessions (snd (snd (CollectTier demo_float \<lparr>rf_list = False, rf_params = (\<lambda>_. False), rf_addr = (\<lambda>_. False)\<rparr>
      show_int 5 1 init_db fresh_server)))) ''A-B-1'' = None"
proof -
  let ?rf = "\<lparr>rf_list = False, rf_params = (\<lambda>_. False), rf_addr = (\<lambda>_. False)\<rparr>"
  obtain samples alarms srv' where c: "CollectTier demo_float ?rf show_int 5 1 init_db fresh_server = (samples, alarms, srv')"
    by (metis surj_pair)
  from CollectTier_per_device [OF c] show ?thesis
    unfolding c
    by (simp add: ListDevices_def init_db_def fresh_server_def UseFirstContactSnapshot_def UseConnRequest_def NewServer_def)
qed

end
