(* ===== verification/Await.thy ===== *)
theory Await
  imports Server
begin

text \<open>
  Waiting for a result (\<open>Await\<close> and \<open>RequestAndAwait\<close> in
  \<^verbatim>\<open>src/goagent/internal/cwmp/server.go\<close>) among concurrent goroutines. A schedule is a list
  of turns: what everybody else does to the server and the store before the turn, and which
  case of the \<^verbatim>\<open>select\<close> the runtime then looks at. A schedule that runs out is a timeout, as
  is the deadline case.
\<close>

type_synonym env_step = "Server \<times> db \<Rightarrow> Server \<times> db"
type_synonym schedule = "(env_step \<times> await_case) list"

fun await_loop ::
    "string \<Rightarrow> (await_case \<Rightarrow> Session \<Rightarrow> await_outcome \<times> Session) \<Rightarrow> schedule \<Rightarrow> Server \<Rightarrow> db \<Rightarrow>
       TaskResult option \<times> Server \<times> db" where
  "await_loop dev turn [] srv d = (None, srv, d)"
| "await_loop dev turn ((others, ch) # sched) srv d =
     (let (srv1, d1) = others (srv, d);
          (out, srv2) = on_session dev (turn ch) Waiting srv1
      in case out of
           Returned r \<Rightarrow> (Some r, srv2, d1)
         | TimedOut \<Rightarrow> (None, srv2, d1)
         | Waiting \<Rightarrow> await_loop dev turn sched srv2 d1)"

definition Await ::
    "bool \<Rightarrow> string \<Rightarrow> string \<Rightarrow> schedule \<Rightarrow> Server \<Rightarrow> db \<Rightarrow> TaskResult option \<times> Server \<times> db" where
  "Await ipf dev cid sched srv d =
     (if cid = '''' then await_loop dev await_any sched (deviceSessionLocked ipf dev d srv) d
      else let (c, srv1) = await_begin ipf dev cid d srv;
               (r, srv2, d2) = await_loop dev (await_turn cid c) sched srv1 d
           in (r, snd (on_session dev (\<lambda>s. ((), release cid s)) () srv2), d2))"

definition RequestAndAwait ::
    "bool \<Rightarrow> string \<Rightarrow> Task \<Rightarrow> schedule \<Rightarrow> Server \<Rightarrow> db \<Rightarrow> TaskResult option \<times> Server \<times> db" where
  "RequestAndAwait ipf dev t sched srv d =
     Await ipf dev (t_CommandID t) sched (srv_Enqueue ipf dev t d srv) d"

text \<open>What a waiter relies on of everybody else: they keep the invariant of the server, and
  nobody else registers for, or releases, its command.\<close>

definition registered :: "string \<Rightarrow> string \<Rightarrow> nat \<Rightarrow> Server \<Rightarrow> bool" where
  "registered dev cid c srv \<longleftrightarrow> (\<exists>s. map_of (srv_sessions srv) dev = Some s \<and> session_inv s
     \<and> map_of (s_waiters s) cid = Some c)"

definition considerate :: "string \<Rightarrow> string \<Rightarrow> env_step \<Rightarrow> bool" where
  "considerate dev cid f \<longleftrightarrow>
     (\<forall>srv d srv' d' c. f (srv, d) = (srv', d') \<longrightarrow> registered dev cid c srv \<longrightarrow> registered dev cid c srv')"

lemma await_turn_waiters: "s_waiters (snd (await_turn cid c ch s)) = s_waiters s"
proof -
  have "s_waiters (deliver r x) = s_waiters x" for r x
    by (simp add: deliver_def deliver_shared_def split: option.split)
  then show ?thesis by (cases ch) (auto split: option.split list.split)
qed

lemma await_turn_id:
  assumes "session_inv s" "map_of (s_waiters s) cid = Some c" "await_turn cid c ch s = (Returned r, s')"
  shows "tr_CommandID r = cid"
  by (rule await_turn_own [OF assms])

lemma await_loop_own:
  assumes "registered dev cid c srv" and "\<forall>(f, _)\<in>set sched. considerate dev cid f"
    and "await_loop dev (await_turn cid c) sched srv d = (Some r, srv', d')"
  shows "tr_CommandID r = cid"
  using assms
proof (induction sched arbitrary: srv d)
  case (Cons fc sched)
  obtain f ch where fc: "fc = (f, ch)" by (cases fc)
  obtain srv1 d1 where f: "f (srv, d) = (srv1, d1)" by (metis surj_pair)
  have "considerate dev cid f" using Cons.prems(2) by (auto simp: fc)
  then have "registered dev cid c srv1" using f Cons.prems(1) unfolding considerate_def by blast
  then obtain s where s: "map_of (srv_sessions srv1) dev = Some s" "session_inv s" "map_of (s_waiters s) cid = Some c"
    by (auto simp: registered_def)
  obtain out s1 where t: "await_turn cid c ch s = (out, s1)" by (metis surj_pair)
  have on: "on_session dev (await_turn cid c ch) Waiting srv1 = (out, put_session dev s1 srv1)"
    using s t by (simp add: on_session_def)
  have reg: "registered dev cid c (put_session dev s1 srv1)"
    using s t inv_await_turn [of s cid c ch] await_turn_waiters [of cid c ch s]
    by (simp add: registered_def put_session_def)
  show ?case
  proof (cases out)
    case (Returned r')
    then show ?thesis using Cons.prems(3) f on await_turn_id [OF s(2,3)] t by (simp add: fc)
  next
    case Waiting
    then show ?thesis using Cons.prems(2,3) f on by (intro Cons.IH [OF reg]) (auto simp: fc)
  qed (use Cons.prems(3) f on in \<open>simp add: fc\<close>)
qed simp

text \<open>A named request is only ever answered with its own result: whatever the other
  goroutines do between the turns, as long as nobody else waits under the same id, what
  \<open>RequestAndAwait\<close> returns for a command carries the id of that command.\<close>

theorem RequestAndAwait_own_result:
  assumes "srv_reach (srv, d, L)" and "t_CommandID t \<noteq> ''''"
    and "\<forall>(f, _)\<in>set sched. considerate dev (t_CommandID t) f"
    and "RequestAndAwait ipf dev t sched srv d = (Some r, srv', d')"
  shows "tr_CommandID r = t_CommandID t"
proof -
  let ?srv = "srv_Enqueue ipf dev t d srv" and ?cid = "t_CommandID t"
  have "srv_inv (deviceSessionLocked ipf dev d ?srv, d, insert (dev, t) L)"
    by (intro srv_inv_deviceSession srv_inv_Enqueue srv_reach_inv assms(1))
  moreover obtain s where s: "map_of (srv_sessions (deviceSessionLocked ipf dev d ?srv)) dev = Some s"
    using deviceSessionLocked_known by (metis not_None_eq)
  ultimately have inv: "session_inv s" by (auto simp: srv_inv_def keyed_session_def)
  have ab: "await_begin ipf dev ?cid d ?srv = (s_nextChan s, put_session dev (snd (waitFor ?cid s)) (deviceSessionLocked ipf dev d ?srv))"
    using s by (simp add: await_begin_def on_session_def waitFor_def)
  have "registered dev ?cid (s_nextChan s) (put_session dev (snd (waitFor ?cid s)) (deviceSessionLocked ipf dev d ?srv))"
    using inv_waitFor [OF inv] by (simp add: registered_def put_session_def) (simp add: waitFor_def)
  from await_loop_own [OF this assms(3)] show ?thesis
    using assms(2,4) ab by (auto simp: RequestAndAwait_def Await_def split: prod.splits)
qed

theorem RequestAndAwait_own_result_witness:
  "\<exists>f. considerate ''A-B-1'' ''c1'' f \<and> fst (RequestAndAwait False ''A-B-1'' demo_task [(f, FromResults)] fresh_server init_db)
     = Some (zero_TaskResult\<lparr>tr_CommandID := ''c1''\<rparr>)"
proof -
  let ?f = "\<lambda>(srv, d). (snd (on_session ''A-B-1'' (\<lambda>s. ((), s\<lparr>s_results := [zero_TaskResult\<lparr>tr_CommandID := ''c1''\<rparr>]\<rparr>)) () srv), d) :: Server \<times> db"
  have c: "considerate ''A-B-1'' ''c1'' ?f"
    by (auto simp: considerate_def registered_def on_session_def put_session_def session_inv_def chanCap_def)
  have r: "fst (RequestAndAwait False ''A-B-1'' demo_task [(?f, FromResults)] fresh_server init_db)
     = Some (zero_TaskResult\<lparr>tr_CommandID := ''c1''\<rparr>)"
    by (simp add: RequestAndAwait_def Await_def await_begin_def waitFor_def enqueue_def chan_send_def chanCap_def
        newSession_def server_demo_defs zero_TaskResult_def)
  obtain srv' d' where e: "RequestAndAwait False ''A-B-1'' demo_task [(?f, FromResults)] fresh_server init_db
      = (Some (zero_TaskResult\<lparr>tr_CommandID := ''c1''\<rparr>), srv', d')"
    using r by (metis prod.collapse)
  have "tr_CommandID (zero_TaskResult\<lparr>tr_CommandID := ''c1''\<rparr>) = t_CommandID demo_task"
    by (rule RequestAndAwait_own_result [OF reach_fresh _ _ e]) (use c in \<open>simp_all add: demo_task_def zero_Task_def\<close>)
  with c r show ?thesis by blast
qed

end
