(* ===== verification/Numbers.thy ===== *)
theory Numbers
  imports Utf8
begin

text \<open>
  Numbers in text: what is used of Go's \<^verbatim>\<open>strconv\<close> to read integers and truth values, shared by
  the XML and the JSON decoder. Shown here: an integer is read back from its decimal rendering.
\<close>

definition digit_val :: "nat \<Rightarrow> char \<Rightarrow> nat option" where
  "digit_val base c =
     (if between 48 57 c then Some (code c - 48)
      else if base = 16 \<and> between 97 102 c then Some (code c - 87)
      else if base = 16 \<and> between 65 70 c then Some (code c - 55)
      else None)"

definition digits_value :: "nat \<Rightarrow> string \<Rightarrow> nat" where
  "digits_value base ds = foldl (\<lambda>n c. n * base + the (digit_val base c)) 0 ds"

text \<open>\<^verbatim>\<open>strconv.ParseInt\<close> in base ten at 64 bits and \<^verbatim>\<open>strconv.ParseBool\<close>.\<close>

definition ParseInt :: "string \<Rightarrow> int option" where
  "ParseInt s =
     (let neg = prefix ''-'' s; ds = (if neg \<or> prefix ''+'' s then tl s else s);
          n = int (digits_value 10 ds); i = (if neg then - n else n)
      in if ds \<noteq> [] \<and> list_all (\<lambda>c. digit_val 10 c \<noteq> None) ds \<and> - (2 ^ 63) \<le> i \<and> i < 2 ^ 63 then Some i else None)"

definition ParseBool :: "string \<Rightarrow> bool option" where
  "ParseBool s =
     (if s \<in> {''1'', ''t'', ''T'', ''true'', ''TRUE'', ''True''} then Some True
      else if s \<in> {''0'', ''f'', ''F'', ''false'', ''FALSE'', ''False''} then Some False else None)"

lemma digit_char_code: "d < 10 \<Longrightarrow> code (digit_char d) = 48 + d"
  by (simp add: digit_char_def)

lemma digit_char_val: "d < 10 \<Longrightarrow> between 48 57 (digit_char d) \<and> digit_val 10 (digit_char d) = Some d"
  by (simp add: digit_val_def between_def digit_char_code)

lemma show_nat_value:
  "list_all (between 48 57) (show_nat n) \<and> digits_value 10 (show_nat n) = n"
proof (induction n rule: show_nat.induct)
  case (1 n)
  show ?case
  proof (cases "n < 10")
    case True
    then show ?thesis using digit_char_val [of n] by (simp add: show_nat.simps [of n] digits_value_def)
  next
    case False
    then show ?thesis using 1 [OF False] digit_char_val [of "n mod 10"]
      by (simp add: show_nat.simps [of n] digits_value_def)
  qed
qed

lemma show_nat_head: "0 < n \<Longrightarrow> hd (show_nat n) \<noteq> CHR ''0''"
proof (induction n rule: show_nat.induct)
  case (1 n)
  show ?case
  proof (cases "n < 10")
    case True
    have "code (CHR ''0'') = 48" by simp
    with True "1.prems" digit_char_code [of n] show ?thesis by (auto simp: show_nat.simps [of n] simp del: of_char_Char)
  next
    case False
    then show ?thesis using "1.IH" [OF False] show_nat_nonempty [of "n div 10"] by (simp add: show_nat.simps [of n])
  qed
qed

lemma digit_not_sign: "between 48 57 c \<Longrightarrow> c \<noteq> CHR ''-'' \<and> c \<noteq> CHR ''+''"
  by (auto simp: between_def)

lemma ParseInt_show_int: "- (2 ^ 63) \<le> i \<Longrightarrow> i < 2 ^ 63 \<Longrightarrow> ParseInt (show_int i) = Some i"
proof -
  assume i: "- (2 ^ 63) \<le> i" "i < 2 ^ 63"
  have d: "list_all (\<lambda>c. digit_val 10 c \<noteq> None) (show_nat n)" for n
    using show_nat_value [of n] by (auto simp: list_all_iff digit_val_def)
  have sg: "\<not> prefix ''-'' (show_nat n) \<and> \<not> prefix ''+'' (show_nat n)" for n
    using show_nat_value [of n] digit_not_sign show_nat_nonempty [of n] by (cases "show_nat n") auto
  show ?thesis
  proof (cases "i < 0")
    case True
    then show ?thesis using i d show_nat_nonempty show_nat_value [of "nat (- i)"] by (simp add: ParseInt_def show_int_def Let_def)
  next
    case False
    then show ?thesis using i d sg show_nat_nonempty show_nat_value [of "nat i"] by (simp add: ParseInt_def show_int_def Let_def)
  qed
qed

end
