(* ===== verification/Json.thy ===== *)
theory Json
  imports Numbers
begin

text \<open>
  What the program uses of Go's \<^verbatim>\<open>encoding/json\<close>: the compact text \<^verbatim>\<open>json.Marshal\<close> prints for a
  tree of values and the reading of a text into such a tree, with the escapes of strings rune by
  rune, the grammar of numbers and the bound on the nesting. A number is its literal; objects
  keep the order and the repetitions of their members. The reader is the scanner's stack of open
  arrays and objects.

  Shown here: every tree with proper literals is read back from what is printed for it, whatever
  follows; where a string was not valid UTF-8, its bad bytes have become U+FFFD.
\<close>

datatype json = JNull | JBool bool | JNum string | JStr string | JArr "json list" | JObj "(string \<times> json) list"

subsection \<open>Printing\<close>

text \<open>\<open>seq\<close> is the sequence of bytes the rune was read from; HTML characters and the two line
  separators are escaped, too.\<close>

definition u_escape :: "nat \<Rightarrow> string" where
  "u_escape n = CHR 0x5C # CHR ''u'' # map lower_hex [n div 4096 mod 16, n div 256 mod 16, n div 16 mod 16, n mod 16]"

definition json_rune :: "nat \<Rightarrow> string \<Rightarrow> string" where
  "json_rune r seq =
     (if r = 0x22 \<or> r = 0x5C then [CHR 0x5C, char_of r]
      else if r = 0x08 then [CHR 0x5C, CHR ''b''] else if r = 0x0C then [CHR 0x5C, CHR ''f'']
      else if r = 0x0A then [CHR 0x5C, CHR ''n''] else if r = 0x0D then [CHR 0x5C, CHR ''r'']
      else if r = 0x09 then [CHR 0x5C, CHR ''t'']
      else if r < 0x20 \<or> r = 0x3C \<or> r = 0x3E \<or> r = 0x26 \<or> r = 0x2028 \<or> r = 0x2029 then u_escape r
      else seq)"

function json_text :: "string \<Rightarrow> string" where
  "json_text s =
     (if s = [] then []
      else case decode_rune s of
        None \<Rightarrow> u_escape 0xFFFD @ json_text (tl s)
      | Some (r, t) \<Rightarrow> json_rune r (take (length s - length t) s) @ json_text t)"
  by pat_completeness auto
termination
  by (relation "measure length") (auto dest: decode_rune_shorter)

declare json_text.simps [simp del]

definition json_string :: "string \<Rightarrow> string" where
  "json_string s = CHR 0x22 # json_text s @ [CHR 0x22]"

primrec json_print :: "json \<Rightarrow> string" where
  "json_print JNull = ''null''"
| "json_print (JBool b) = (if b then ''true'' else ''false'')"
| "json_print (JNum l) = l"
| "json_print (JStr s) = json_string s"
| "json_print (JArr vs) = ''['' @ Join (map json_print vs) '','' @ '']''"
| "json_print (JObj ms) = ''{'' @ Join (map (\<lambda>(k, v). json_string k @ '':'' @ v) (map (map_prod id json_print) ms)) '','' @ ''}''"

subsection \<open>Reading\<close>

definition json_space :: "char \<Rightarrow> bool" where
  "json_space c \<longleftrightarrow> c = CHR '' '' \<or> c = CHR 0x09 \<or> c = CHR 0x0A \<or> c = CHR 0x0D"

definition skip :: "string \<Rightarrow> string" where
  "skip s = dropWhile json_space s"

text \<open>Four hex digits and what follows them.\<close>

definition hex4 :: "string \<Rightarrow> (nat \<times> string) option" where
  "hex4 s = (case s of
     a # b # c # d # t \<Rightarrow>
       (case (digit_val 16 a, digit_val 16 b, digit_val 16 c, digit_val 16 d) of
          (Some w, Some x, Some y, Some z) \<Rightarrow> Some (((w * 16 + x) * 16 + y) * 16 + z, t)
        | _ \<Rightarrow> None)
   | _ \<Rightarrow> None)"

text \<open>A surrogate is joined with the one that follows it, if that makes a pair, and is U+FFFD otherwise.\<close>

definition u_unescape :: "string \<Rightarrow> (string \<times> string) option" where
  "u_unescape s =
     (case hex4 s of
        None \<Rightarrow> None
      | Some (n, t) \<Rightarrow>
          if 0xD800 \<le> n \<and> n \<le> 0xDFFF then
            (case (if prefix [CHR 0x5C, CHR ''u''] t then hex4 (drop 2 t) else None) of
               Some (m, t') \<Rightarrow>
                 if n \<le> 0xDBFF \<and> 0xDC00 \<le> m \<and> m \<le> 0xDFFF
                 then Some (encode_rune (0x10000 + (n - 0xD800) * 0x400 + (m - 0xDC00)), t')
                 else Some ([CHR 0xEF, CHR 0xBF, CHR 0xBD], t)
             | None \<Rightarrow> Some ([CHR 0xEF, CHR 0xBF, CHR 0xBD], t))
          else Some (encode_rune n, t))"

definition unescape :: "string \<Rightarrow> (string \<times> string) option" where
  "unescape s = (case s of
     [] \<Rightarrow> None
   | c # t \<Rightarrow>
       if c = CHR 0x22 \<or> c = CHR 0x5C \<or> c = CHR ''/'' then Some ([c], t)
       else if c = CHR ''b'' then Some ([CHR 0x08], t) else if c = CHR ''f'' then Some ([CHR 0x0C], t)
       else if c = CHR ''n'' then Some ([CHR 0x0A], t) else if c = CHR ''r'' then Some ([CHR 0x0D], t)
       else if c = CHR ''t'' then Some ([CHR 0x09], t)
       else if c = CHR ''u'' then u_unescape t else None)"

lemma hex4_shorter: "hex4 s = Some (n, t) \<Longrightarrow> length t < length s"
  by (auto simp: hex4_def split: list.splits option.splits)

lemma u_unescape_shorter:
  assumes "u_unescape s = Some (x, t)"
  shows "length t < length s"
proof -
  obtain n u where h: "hex4 s = Some (n, u)" using assms by (auto simp: u_unescape_def split: option.splits)
  have "length t \<le> length u"
  proof -
    have "hex4 (drop 2 u) = Some (m, v) \<Longrightarrow> length v \<le> length u" for m v using hex4_shorter [of "drop 2 u" m v] by simp
    then show ?thesis using assms h by (auto simp: u_unescape_def split: option.splits if_splits prod.splits)
  qed
  with hex4_shorter [OF h] show ?thesis by simp
qed

lemma unescape_shorter: "unescape s = Some (x, t) \<Longrightarrow> length t < length s"
  by (auto simp: unescape_def split: list.splits if_splits dest: u_unescape_shorter)

text \<open>A string from behind its opening quote on, character by character; a byte that is no UTF-8
  becomes U+FFFD.\<close>

definition str_char :: "string \<Rightarrow> (string \<times> string) option" where
  "str_char s =
     (case s of
        [] \<Rightarrow> None
      | c # t \<Rightarrow>
          if c = CHR 0x5C then unescape t
          else if code c < 32 then None
          else (case decode_rune s of
              None \<Rightarrow> Some ([CHR 0xEF, CHR 0xBF, CHR 0xBD], t)
            | Some (r, u) \<Rightarrow> Some (take (length s - length u) s, u)))"

lemma str_char_shorter: "str_char s = Some (x, t) \<Longrightarrow> length t < length s"
  by (auto simp: str_char_def split: list.splits if_splits option.splits dest: unescape_shorter decode_rune_shorter)

function unquote :: "string \<Rightarrow> (string \<times> string) option" where
  "unquote s =
     (if prefix [CHR 0x22] s then Some ([], tl s)
      else case str_char s of None \<Rightarrow> None | Some (x, u) \<Rightarrow> map_option (apfst ((@) x)) (unquote u))"
  by pat_completeness auto
termination
  by (relation "measure length") (auto dest: str_char_shorter)

declare unquote.simps [simp del]

text \<open>A number: the literal and what follows it.\<close>

definition is_digit :: "char \<Rightarrow> bool" where
  "is_digit c \<longleftrightarrow> between 48 57 c"

definition digits :: "string \<Rightarrow> (string \<times> string) option" where
  "digits s = (let ds = takeWhile is_digit s in if ds = [] then None else Some (ds, dropWhile is_digit s))"

definition num_int :: "string \<Rightarrow> (string \<times> string) option" where
  "num_int s = (if prefix ''0'' s then Some (''0'', tl s) else digits s)"

definition num_frac :: "string \<Rightarrow> (string \<times> string) option" where
  "num_frac s = (if prefix ''.'' s then map_option (apfst ((@) ''.'')) (digits (tl s)) else Some ([], s))"

definition num_exp :: "string \<Rightarrow> (string \<times> string) option" where
  "num_exp s = (case s of
     e # t \<Rightarrow>
       if e = CHR ''e'' \<or> e = CHR ''E'' then
         (case t of
            g # u \<Rightarrow> if g = CHR ''+'' \<or> g = CHR ''-'' then map_option (apfst ((@) [e, g])) (digits u)
              else map_option (apfst ((@) [e])) (digits t)
          | [] \<Rightarrow> None)
       else Some ([], s)
   | [] \<Rightarrow> Some ([], s))"

definition number :: "string \<Rightarrow> (string \<times> string) option" where
  "number s =
     (let (sg, t) = (if prefix ''-'' s then (''-'', tl s) else ('''', s)) in
      case num_int t of None \<Rightarrow> None | Some (i, t1) \<Rightarrow>
      case num_frac t1 of None \<Rightarrow> None | Some (f, t2) \<Rightarrow>
      case num_exp t2 of None \<Rightarrow> None | Some (e, t3) \<Rightarrow> Some (sg @ i @ f @ e, t3))"

text \<open>An array or an object that is open, with what is read of it; an object with the key whose
  value is due.\<close>

datatype frame = FArr "json list" | FObj "(string \<times> json) list" string

datatype mode = Value | After json | Member "(string \<times> json) list"

definition maxNestingDepth :: nat where
  "maxNestingDepth = 10000"

lemma digits_shorter: "digits s = Some (ds, t) \<Longrightarrow> length t < length s"
proof -
  assume "digits s = Some (ds, t)"
  then have "ds = takeWhile is_digit s" "t = dropWhile is_digit s" "ds \<noteq> []" by (auto simp: digits_def Let_def split: if_splits)
  then show ?thesis using takeWhile_dropWhile_id [of is_digit s] by (metis append.left_neutral length_append length_greater_0_conv less_add_same_cancel2)
qed

lemma number_shorter:
  assumes "number s = Some (l, t)"
  shows "length t < length s"
proof -
  let ?s = "if prefix ''-'' s then tl s else s"
  obtain i t1 f t2 e where n: "num_int ?s = Some (i, t1)" "num_frac t1 = Some (f, t2)" "num_exp t2 = Some (e, t)"
    using assms by (auto simp: number_def Let_def split: if_splits option.splits prod.splits)
  have "length t1 < length ?s" using n(1) by (cases ?s) (auto simp: num_int_def split: if_splits dest: digits_shorter)
  moreover have "length t2 \<le> length t1"
  proof (cases "prefix ''.'' t1")
    case True
    then obtain ds where "digits (tl t1) = Some (ds, t2)" using n(2) by (auto simp: num_frac_def)
    then show ?thesis using digits_shorter [of "tl t1" ds t2] by simp
  qed (use n(2) in \<open>simp add: num_frac_def\<close>)
  moreover have "length t \<le> length t2"
    using n(3) by (auto simp: num_exp_def split: list.splits if_splits dest: digits_shorter)
  moreover have "length ?s \<le> length s" by simp
  ultimately show ?thesis by linarith
qed

lemma unquote_shorter: "unquote s = Some (x, t) \<Longrightarrow> length t < length s"
proof (induction s arbitrary: x t rule: unquote.induct)
  case (1 s)
  show ?case
  proof (cases "prefix [CHR 0x22] s")
    case True
    with "1.prems" show ?thesis by (subst (asm) unquote.simps) (cases s; simp)
  next
    case False
    with "1.prems" obtain y u z where u: "str_char s = Some (y, u)" "unquote u = Some (z, t)"
      by (subst (asm) unquote.simps) (auto split: option.splits)
    with "1.IH" [OF False u(1)] str_char_shorter [OF u(1)] show ?thesis by force
  qed
qed

lemma skip_shorter: "length (skip s) \<le> length s"
  by (simp add: skip_def length_dropWhile_le)

lemma skip_Cons_shorter: "skip s = c # t \<Longrightarrow> length t < length s"
  using skip_shorter [of s] by simp

lemma skip_tl_shorter: "prefix [c] (skip s) \<Longrightarrow> length (tl (skip s)) < length s"
  using skip_shorter [of s] by (cases "skip s") auto

definition keyword :: "string \<Rightarrow> (json \<times> string) option" where
  "keyword s =
     (if prefix ''null'' s then Some (JNull, drop 4 s)
      else if prefix ''true'' s then Some (JBool True, drop 4 s)
      else if prefix ''false'' s then Some (JBool False, drop 5 s)
      else map_option (apfst JNum) (number s))"

lemma keyword_shorter: "keyword s = Some (v, t) \<Longrightarrow> length t < length s"
  by (cases s) (auto simp: keyword_def split: if_splits dest: number_shorter)

function json_run :: "mode \<Rightarrow> frame list \<Rightarrow> string \<Rightarrow> (json \<times> string) option" where
  "json_run Value stk s =
     (case skip s of
        [] \<Rightarrow> None
      | c # t \<Rightarrow>
          if c = CHR 0x22 then (case unquote t of None \<Rightarrow> None | Some (x, u) \<Rightarrow> json_run (After (JStr x)) stk u)
          else if c = CHR ''['' then
            (if maxNestingDepth \<le> length stk then None
             else if prefix '']'' (skip t) then json_run (After (JArr [])) stk (tl (skip t))
             else json_run Value (FArr [] # stk) t)
          else if c = CHR ''{'' then
            (if maxNestingDepth \<le> length stk then None
             else if prefix ''}'' (skip t) then json_run (After (JObj [])) stk (tl (skip t))
             else json_run (Member []) stk t)
          else (case keyword (c # t) of None \<Rightarrow> None | Some (v, u) \<Rightarrow> json_run (After v) stk u))"
| "json_run (Member ms) stk s =
     (if prefix [CHR 0x22] (skip s) then
        (case unquote (tl (skip s)) of
           None \<Rightarrow> None
         | Some (k, u) \<Rightarrow> if prefix '':'' (skip u) then json_run Value (FObj ms k # stk) (tl (skip u)) else None)
      else None)"
| "json_run (After v) stk s =
     (case stk of
        [] \<Rightarrow> Some (v, s)
      | FArr vs # fs \<Rightarrow>
          if prefix '','' (skip s) then json_run Value (FArr (vs @ [v]) # fs) (tl (skip s))
          else if prefix '']'' (skip s) then json_run (After (JArr (vs @ [v]))) fs (tl (skip s)) else None
      | FObj ms k # fs \<Rightarrow>
          if prefix '','' (skip s) then json_run (Member (ms @ [(k, v)])) fs (tl (skip s))
          else if prefix ''}'' (skip s) then json_run (After (JObj (ms @ [(k, v)]))) fs (tl (skip s)) else None)"
  by pat_completeness auto
termination
proof (relation "measure (\<lambda>(m, stk, s). length s)", goal_cases)
  case (2 stk s c t p x u)
  then show ?case using unquote_shorter [of t x u] skip_Cons_shorter [of s c t] by simp
next
  case (3 stk s c t)
  then show ?case using skip_tl_shorter [of "CHR '']''" t] skip_Cons_shorter [of s c t] by simp
next
  case (4 stk s c t)
  then show ?case using skip_Cons_shorter [of s c t] by simp
next
  case (5 stk s c t)
  then show ?case using skip_tl_shorter [of "CHR ''}''" t] skip_Cons_shorter [of s c t] by simp
next
  case (6 stk s c t)
  then show ?case using skip_Cons_shorter [of s c t] by simp
next
  case (7 stk s c t p v u)
  then show ?case using keyword_shorter [of "c # t" v u] skip_Cons_shorter [of s c t] by simp
next
  case (8 ms stk s p k u)
  then show ?case using unquote_shorter [of "tl (skip s)" k u] skip_tl_shorter [of "CHR 0x22" s] skip_tl_shorter [of "CHR '':''" u] by simp
qed (use skip_tl_shorter in auto)

declare json_run.simps [simp del]

text \<open>\<^verbatim>\<open>json.Unmarshal\<close> reads the whole text, \<^verbatim>\<open>Decoder.Decode\<close> one value of a stream: behind an array or
  an object anything may follow.\<close>

definition json_unmarshal :: "string \<Rightarrow> json option" where
  "json_unmarshal s = (case json_run Value [] s of None \<Rightarrow> None | Some (v, t) \<Rightarrow> if skip t = [] then Some v else None)"

definition json_decode :: "string \<Rightarrow> json option" where
  "json_decode s =
     (case json_run Value [] s of
        None \<Rightarrow> None
      | Some (v, t) \<Rightarrow>
          (case v of JArr _ \<Rightarrow> Some v | JObj _ \<Rightarrow> Some v
           | _ \<Rightarrow> if t = [] \<or> json_space (hd t) then Some v else None))"

subsection \<open>Runes and their bytes\<close>

lemma decode_rune_self:
  assumes "decode_rune s = Some (r, t)"
  obtains p where "s = p @ t" "decode_rune p = Some (r, [])"
proof -
  obtain b s' where s: "s = b # s'" using assms by (auto simp: decode_rune_def split: list.splits)
  define k1 where "k1 = (if code b = 0xE0 then 0xA0 else 0x80 :: nat)"
  define k2 where "k2 = (if code b = 0xED then 0x9F else 0xBF :: nat)"
  define k3 where "k3 = (if code b = 0xF0 then 0x90 else 0x80 :: nat)"
  define k4 where "k4 = (if code b = 0xF4 then 0x8F else 0xBF :: nat)"
  let ?p = "take (length s - length t) s"
  have "s = ?p @ t \<and> decode_rune ?p = Some (r, [])"
    using assms unfolding s decode_rune_def k1_def [symmetric] k2_def [symmetric] k3_def [symmetric] k4_def [symmetric]
    by (simp only: list.case split: if_split_asm list.split_asm) (simp_all add: Suc_diff_le)
  then show ?thesis using that by blast
qed

lemma byte_again: "lo + d = code b \<Longrightarrow> char_of (lo + d) = b" for lo d :: nat
  by simp

lemma high_bits:
  "192 \<le> n \<Longrightarrow> n \<le> 223 \<Longrightarrow> 192 + n mod 32 = n" "224 \<le> n \<Longrightarrow> n \<le> 239 \<Longrightarrow> 224 + n mod 16 = n"
  "240 \<le> n \<Longrightarrow> n \<le> 247 \<Longrightarrow> 240 + n mod 8 = n" "128 \<le> n \<Longrightarrow> n \<le> 191 \<Longrightarrow> 128 + n mod 64 = n" for n :: nat
  using mod_window [of 6 32 n] mod_window [of 14 16 n] mod_window [of 30 8 n] mod_window [of 2 64 n] by simp_all

lemma two_bytes: "y < 64 \<Longrightarrow> (x * 64 + y) div 64 = x" "y < 64 \<Longrightarrow> (x * 64 + y) mod 64 = y" for x y :: nat
  by simp_all

lemma three_bytes:
  fixes r :: nat
  assumes "r = (x * 64 + y) * 64 + z" "y < 64" "z < 64"
  shows "r div 4096 = x" "r div 64 mod 64 = y" "r mod 64 = z"
proof -
  have q: "r div 64 = x * 64 + y" "r mod 64 = z" unfolding assms(1) by (rule two_bytes, rule assms(3))+
  then show "r div 64 mod 64 = y" "r mod 64 = z" by (simp_all only: two_bytes assms(2))
  show "r div 4096 = x" using div_mult2_eq [of r 64 64] by (simp add: q(1) two_bytes(1) [OF assms(2)])
qed

lemma four_bytes:
  fixes r :: nat
  assumes "r = ((w * 64 + x) * 64 + y) * 64 + z" "x < 64" "y < 64" "z < 64"
  shows "r div 262144 = w" "r div 4096 mod 64 = x" "r div 64 mod 64 = y" "r mod 64 = z"
proof -
  note t = three_bytes [OF assms(1,3,4)]
  show "r div 64 mod 64 = y" "r mod 64 = z" "r div 4096 mod 64 = x" by (simp_all only: t two_bytes(2) [OF assms(2)])
  show "r div 262144 = w" using div_mult2_eq [of r 4096 64] by (simp add: t(1) two_bytes(1) [OF assms(2)])
qed

text \<open>In UTF-8 a rune has one sequence of bytes only, the one it is encoded to.\<close>

lemma encode_decode_rune: "decode_rune p = Some (r, []) \<Longrightarrow> encode_rune r = p"
proof -
  assume d: "decode_rune p = Some (r, [])"
  obtain b s' where s: "p = b # s'" using d by (auto simp: decode_rune_def split: list.splits)
  show ?thesis
  proof (cases "code b < 128")
    case True
    with d show ?thesis by (auto simp: s decode_rune_def encode_rune_def)
  next
    case False
    have low: "low6 c < 64" "between lo hi c \<Longrightarrow> 128 \<le> lo \<Longrightarrow> hi \<le> 191 \<Longrightarrow> char_of (128 + low6 c) = c" for c lo hi
      using high_bits(4) [of "code c"] by (simp_all add: low6_def between_def)
    define k1 where "k1 = (if code b = 0xE0 then 0xA0 else 0x80 :: nat)"
    define k2 where "k2 = (if code b = 0xED then 0x9F else 0xBF :: nat)"
    define k3 where "k3 = (if code b = 0xF0 then 0x90 else 0x80 :: nat)"
    define k4 where "k4 = (if code b = 0xF4 then 0x8F else 0xBF :: nat)"
    have k: "128 \<le> k1" "k2 \<le> 191" "128 \<le> k3" "k4 \<le> 191" by (simp_all add: k1_def k2_def k3_def k4_def)
    consider c where "s' = [c]" "between 0xC2 0xDF b" "between 0x80 0xBF c" "r = (code b mod 32) * 64 + low6 c"
      | c d where "s' = [c, d]" "between 0xE0 0xEF b" "between k1 k2 c" "between 0x80 0xBF d" "r = ((code b mod 16) * 64 + low6 c) * 64 + low6 d"
      | c d e where "s' = [c, d, e]" "between 0xF0 0xF4 b" "between k3 k4 c" "between 0x80 0xBF d" "between 0x80 0xBF e"
          "r = (((code b mod 8) * 64 + low6 c) * 64 + low6 d) * 64 + low6 e"
      using d False unfolding s decode_rune_def
      by (simp only: list.case if_False split: if_split_asm list.split_asm) (simp_all add: k1_def k2_def k3_def k4_def)
    then show ?thesis
    proof cases
      case 1
      have "194 \<le> code b" "code b \<le> 223" using 1(2) by (simp_all add: between_def)
      then have n: "192 + code b mod 32 = code b" "2 \<le> code b mod 32" "code b mod 32 < 32"
        using high_bits(1) [of "code b"] mod_window [of 6 32 "code b"] by simp_all
      then have "128 \<le> r" "r < 0x800" using 1(4) low(1) [of c] by linarith+
      moreover have "char_of (192 + code b mod 32) = b" using n(1) by (rule byte_again)
      ultimately show ?thesis using 1 low by (simp add: encode_rune_def s two_bytes)
    next
      case 2
      let ?x = "(code b mod 16) * 64 + low6 c"
      have n: "224 + code b mod 16 = code b" using 2(2) high_bits(2) [of "code b"] by (simp add: between_def)
      have lo: "32 \<le> ?x"
      proof (cases "code b = 224")
        case True
        then have "160 \<le> code c" "code c \<le> 191" using 2(3) k(2) by (auto simp: k1_def between_def)
        then show ?thesis using mod_window [of 2 64 "code c"] by (simp add: low6_def)
      next
        case False
        with n have "1 \<le> code b mod 16" by linarith
        then show ?thesis by simp
      qed
      have sur: "\<not> (0xD800 \<le> r \<and> r \<le> 0xDFFF)"
      proof (cases "code b = 0xED")
        case True
        then have "128 \<le> code c" "code c \<le> 159" using 2(3) by (auto simp: k1_def k2_def between_def)
        then have "low6 c < 32" using mod_window [of 2 64 "code c"] by (simp add: low6_def)
        then show ?thesis using True 2(5) low(1) [of d] by simp
      next
        case False
        with n have "code b mod 16 \<noteq> 13" by linarith
        then have "code b mod 16 \<le> 12 \<or> 14 \<le> code b mod 16" by linarith
        then show ?thesis using 2(5) low(1) [of c] low(1) [of d] by auto
      qed
      have "code b mod 16 < 16" by simp
      then have "0x800 \<le> r" "r < 0x10000" using lo 2(5) low(1) [of c] low(1) [of d] by simp_all
      moreover have "r div 4096 = code b mod 16" "r div 64 mod 64 = low6 c" "r mod 64 = low6 d"
        by (rule three_bytes [OF 2(5) low(1) low(1)])+
      moreover have "char_of (224 + code b mod 16) = b" using n by (rule byte_again)
      ultimately show ?thesis using 2(1) low(2) [OF 2(3) k(1,2)] low(2) [OF 2(4)] sur by (auto simp: encode_rune_def s)
    next
      case 3
      let ?x = "(code b mod 8) * 64 + low6 c"
      have n: "240 + code b mod 8 = code b" using 3(2) high_bits(3) [of "code b"] by (simp add: between_def)
      have lo: "16 \<le> ?x"
      proof (cases "code b = 240")
        case True
        then have "144 \<le> code c" "code c \<le> 191" using 3(3) k(4) by (auto simp: k3_def between_def)
        then show ?thesis using mod_window [of 2 64 "code c"] by (simp add: low6_def)
      next
        case False
        with n have "1 \<le> code b mod 8" by linarith
        then show ?thesis by simp
      qed
      have "0x10000 \<le> r" using lo 3(6) by simp
      moreover have "r div 262144 = code b mod 8" "r div 4096 mod 64 = low6 c" "r div 64 mod 64 = low6 d" "r mod 64 = low6 e"
        by (rule four_bytes [OF 3(6) low(1) low(1) low(1)])+
      moreover have "char_of (240 + code b mod 8) = b" using n by (rule byte_again)
      ultimately show ?thesis using 3(1) low(2) [OF 3(3) k(3,4)] low(2) [OF 3(4)] low(2) [OF 3(5)] by (simp add: encode_rune_def s)
    qed
  qed
qed

subsection \<open>Strings read back\<close>

lemma hex_digit_round: "d < 16 \<Longrightarrow> digit_val 16 (lower_hex d) = Some d"
proof -
  assume "d < 16"
  then have "d \<in> set [0..<16]" by simp
  moreover have "list_all (\<lambda>d. digit_val 16 (lower_hex d) = Some d) [0..<16]" by code_simp
  ultimately show ?thesis by (simp add: list_all_iff)
qed

lemma hex4_round:
  "a < 16 \<Longrightarrow> b < 16 \<Longrightarrow> c < 16 \<Longrightarrow> d < 16 \<Longrightarrow> hex4 (map lower_hex [a, b, c, d] @ z) = Some (((a * 16 + b) * 16 + c) * 16 + d, z)"
  by (simp add: hex4_def hex_digit_round)

lemma escaped_codes:
  "char_of (34 :: nat) = CHR 0x22" "char_of (92 :: nat) = CHR 0x5C" "char_of (8 :: nat) = CHR 0x08" "char_of (12 :: nat) = CHR 0x0C"
  "char_of (10 :: nat) = CHR 0x0A" "char_of (13 :: nat) = CHR 0x0D" "char_of (9 :: nat) = CHR 0x09"
  by code_simp+

lemma u_round:
  assumes "n < 0xD800 \<or> 0xDFFF < n" "n < 0x10000"
  shows "u_unescape (map lower_hex [n div 4096 mod 16, n div 256 mod 16, n div 16 mod 16, n mod 16] @ z) = Some (encode_rune n, z)"
proof -
  have "n div 256 = n div 16 div 16" "n div 4096 = n div 16 div 16 div 16" by (simp_all add: div_mult2_eq [symmetric])
  moreover have "n div 16 div 16 div 16 < 16" using assms(2) by (simp add: div_mult2_eq [symmetric])
  ultimately have "((n div 4096 mod 16 * 16 + n div 256 mod 16) * 16 + n div 16 mod 16) * 16 + n mod 16 = n"
    by (simp only: mod_less div_mult_mod_eq)
  then have "hex4 (map lower_hex [n div 4096 mod 16, n div 256 mod 16, n div 16 mod 16, n mod 16] @ z) = Some (n, z)"
    using hex4_round [of "n div 4096 mod 16" "n div 256 mod 16" "n div 16 mod 16" "n mod 16" z]
    by (simp only: mod_less_divisor zero_less_numeral simp_thms)
  then show ?thesis using assms(1) by (auto simp: u_unescape_def)
qed

lemma str_char_escape:
  "str_char (CHR 0x5C # s) = unescape s"
  by (simp add: str_char_def)

lemma json_rune_read:
  assumes "decode_rune p = Some (r, [])"
  shows "str_char (json_rune r p @ z) = Some (p, z)" "\<not> prefix [CHR 0x22] (json_rune r p @ z)"
proof -
  have p: "p = encode_rune r" using encode_decode_rune [OF assms] ..
  have "str_char (json_rune r p @ z) = Some (p, z) \<and> \<not> prefix [CHR 0x22] (json_rune r p @ z)"
  proof (cases "json_rune r p = p")
    case True
    obtain b p' where b: "p = b # p'" using assms by (cases p) (simp_all add: decode_rune_def)
    have "b \<noteq> CHR 0x22 \<and> b \<noteq> CHR 0x5C \<and> \<not> code b < 32"
    proof (cases "code b < 128")
      case small: True
      then have r: "r = code b" "p' = []" using assms by (simp_all add: b decode_rune_def)
      show ?thesis
      proof (intro conjI notI)
        assume "b = CHR 0x22" then show False using True r by (simp add: b json_rune_def)
      next
        assume "b = CHR 0x5C" then show False using True r by (simp add: b json_rune_def)
      next
        assume "code b < 32" then show False using True r by (simp add: b json_rune_def u_escape_def split: if_splits)
      qed
    qed auto
    moreover have "decode_rune (b # p' @ z) = Some (r, z)" using decode_rune_append [OF assms, of z] by (simp add: b)
    ultimately show ?thesis unfolding True by (auto simp: b str_char_def)
  next
    case False
    consider "r = 0x22" | "r = 0x5C" | "r = 8" | "r = 12" | "r = 10" | "r = 13" | "r = 9"
      | "r \<noteq> 0x22 \<and> r \<noteq> 0x5C \<and> r \<noteq> 8 \<and> r \<noteq> 12 \<and> r \<noteq> 10 \<and> r \<noteq> 13 \<and> r \<noteq> 9" by blast
    then show ?thesis
    proof cases
      case 8
      then have j: "json_rune r p = (if r < 0x20 \<or> r = 0x3C \<or> r = 0x3E \<or> r = 0x26 \<or> r = 0x2028 \<or> r = 0x2029 then u_escape r else p)"
        by (simp add: json_rune_def)
      have "r < 0xD800 \<and> json_rune r p = u_escape r"
      proof (rule ccontr)
        assume "\<not> (r < 0xD800 \<and> json_rune r p = u_escape r)"
        with False show False unfolding j by (simp split: if_split_asm)
      qed
      then show ?thesis using u_round [of r z] by (simp add: u_escape_def str_char_escape unescape_def p)
    qed (simp_all add: p json_rune_def str_char_escape unescape_def encode_rune_def escaped_codes)
  qed
  then show "str_char (json_rune r p @ z) = Some (p, z)" "\<not> prefix [CHR 0x22] (json_rune r p @ z)" by simp_all
qed

definition valid_utf8 :: "string \<Rightarrow> bool" where
  "valid_utf8 s \<longleftrightarrow> runes s \<noteq> None"

lemma valid_utf8_Nil [simp]: "valid_utf8 []"
  by (simp add: valid_utf8_def runes.simps)

lemma legal_valid_utf8: "legal_text s \<Longrightarrow> valid_utf8 s"
  by (auto simp: legal_text_def valid_utf8_def split: option.splits)

text \<open>Text as it arrives: every byte that is no UTF-8 has become U+FFFD.\<close>

abbreviation replacement :: string where
  "replacement \<equiv> [CHR 0xEF, CHR 0xBF, CHR 0xBD]"

function fix_utf8 :: "string \<Rightarrow> string" where
  "fix_utf8 s =
     (if s = [] then []
      else case decode_rune s of
        None \<Rightarrow> replacement @ fix_utf8 (tl s)
      | Some (r, t) \<Rightarrow> take (length s - length t) s @ fix_utf8 t)"
  by pat_completeness auto
termination
  by (relation "measure length") (auto dest: decode_rune_shorter)

declare fix_utf8.simps [simp del]

lemma text_cases [case_names empty rune junk]:
  assumes "s = [] \<Longrightarrow> P" and "\<And>r p t. s = p @ t \<Longrightarrow> p \<noteq> [] \<Longrightarrow> decode_rune p = Some (r, []) \<Longrightarrow> decode_rune s = Some (r, t) \<Longrightarrow> P"
    and "\<And>c t. s = c # t \<Longrightarrow> decode_rune s = None \<Longrightarrow> P"
  shows P
proof (cases "decode_rune s")
  case None
  then show ?thesis using assms(1,3) by (cases s) auto
next
  case (Some x)
  then obtain r t where d: "decode_rune s = Some (r, t)" by (cases x) auto
  obtain p where p: "s = p @ t" "decode_rune p = Some (r, [])" by (rule decode_rune_self [OF d])
  moreover from p(2) have "p \<noteq> []" by (auto simp: decode_rune_def)
  ultimately show ?thesis using assms(2) d by blast
qed

lemma fix_utf8_steps:
  "fix_utf8 [] = []"
  "decode_rune (c # t) = None \<Longrightarrow> fix_utf8 (c # t) = replacement @ fix_utf8 t"
  "p \<noteq> [] \<Longrightarrow> decode_rune (p @ t) = Some (r, t) \<Longrightarrow> fix_utf8 (p @ t) = p @ fix_utf8 t"
  by (subst fix_utf8.simps; simp)+

lemma replacement_rune: "decode_rune replacement = Some (0xFFFD, [])" "encode_rune 0xFFFD = replacement"
proof -
  show "decode_rune replacement = Some (0xFFFD, [])" by (simp add: decode_rune_def between_def low6_def)
  then show "encode_rune 0xFFFD = replacement" by (rule encode_decode_rune)
qed

lemma valid_utf8_rune: "decode_rune p = Some (r, []) \<Longrightarrow> p \<noteq> [] \<Longrightarrow> valid_utf8 (p @ t) = valid_utf8 t"
  using decode_rune_append [of p r "[]" t] by (simp add: valid_utf8_def runes.simps [of "p @ t"])

lemma valid_fix_utf8 [simp]: "valid_utf8 (fix_utf8 s)"
proof (induction s rule: fix_utf8.induct)
  case (1 s)
  show ?case
  proof (cases s rule: text_cases)
    case (rune r p t)
    then show ?thesis using "1.IH"(2) by (simp add: fix_utf8_steps valid_utf8_rune)
  next
    case (junk c t)
    then show ?thesis using "1.IH"(1) valid_utf8_rune [OF replacement_rune(1), of "fix_utf8 t"] by (simp add: fix_utf8_steps)
  qed (simp add: fix_utf8_steps)
qed

lemma fix_utf8_valid [simp]: "valid_utf8 s \<Longrightarrow> fix_utf8 s = s"
proof (induction s rule: fix_utf8.induct)
  case (1 s)
  show ?case
  proof (cases s rule: text_cases)
    case (rune r p t)
    then show ?thesis using "1.IH"(2) "1.prems" by (simp add: fix_utf8_steps valid_utf8_rune)
  next
    case (junk c t)
    then show ?thesis using "1.prems" by (simp add: valid_utf8_def runes.simps)
  qed (simp add: fix_utf8_steps)
qed

lemma fix_utf8_Nil [simp]: "fix_utf8 s = [] \<longleftrightarrow> s = []"
  by (cases s rule: text_cases) (auto simp: fix_utf8_steps)

lemma unquote_text: "unquote (json_text s @ CHR 0x22 # z) = Some (fix_utf8 s, z)"
proof (induction s rule: json_text.induct)
  case (1 s)
  show ?case
  proof (cases s rule: text_cases)
    case empty
    then show ?thesis by (simp add: json_text.simps unquote.simps fix_utf8_steps)
  next
    case (rune r p t)
    then have "json_text s = json_rune r p @ json_text t" by (subst json_text.simps) simp
    moreover have "unquote (json_text t @ CHR 0x22 # z) = Some (fix_utf8 t, z)" using "1.IH"(2) rune by simp
    ultimately show ?thesis using json_rune_read [OF rune(3)] rune by (subst unquote.simps) (simp add: fix_utf8_steps)
  next
    case (junk c t)
    then have "json_text s = u_escape 0xFFFD @ json_text t" by (subst json_text.simps) simp
    moreover have "unquote (json_text t @ CHR 0x22 # z) = Some (fix_utf8 t, z)" using "1.IH"(1) junk by simp
    moreover have "str_char (u_escape 0xFFFD @ q) = Some (replacement, q)" for q
      using u_round [of "0xFFFD" q] by (simp add: u_escape_def str_char_escape unescape_def replacement_rune)
    moreover have "\<not> prefix [CHR 0x22] (u_escape 0xFFFD @ q)" for q by (simp add: u_escape_def)
    ultimately show ?thesis using junk by (subst unquote.simps) (simp add: fix_utf8_steps)
  qed
qed

subsection \<open>Numbers read back\<close>

text \<open>What follows a value inside an array or an object, or at the end of the text.\<close>

definition closes :: "string \<Rightarrow> bool" where
  "closes r \<longleftrightarrow> r = [] \<or> hd r = CHR '','' \<or> hd r = CHR '']'' \<or> hd r = CHR ''}''"

lemma closes_not_digit: "closes (c # r) \<Longrightarrow> \<not> is_digit c"
  by (auto simp: closes_def is_digit_def between_def)

lemma digits_append:
  assumes "digits s = Some (ds, t)" "closes r"
  shows "digits (s @ r) = Some (ds, t @ r)"
proof -
  have s: "takeWhile is_digit s = ds" "dropWhile is_digit s = t" "ds \<noteq> []" using assms(1) by (auto simp: digits_def Let_def split: if_splits)
  have r: "takeWhile is_digit r = []" "dropWhile is_digit r = r" using assms(2) closes_not_digit by (cases r; simp)+
  show ?thesis
  proof (cases "\<forall>c\<in>set s. is_digit c")
    case True
    then have "takeWhile is_digit s = s" "dropWhile is_digit s = []" by (simp_all add: takeWhile_eq_all_conv)
    with s True r show ?thesis by (simp add: digits_def takeWhile_append2 dropWhile_append2)
  next
    case False
    then obtain c where c: "c \<in> set s" "\<not> is_digit c" by blast
    then have "takeWhile is_digit (s @ r) = takeWhile is_digit s" "dropWhile is_digit (s @ r) = dropWhile is_digit s @ r"
      by (simp_all add: takeWhile_append1 dropWhile_append1)
    then show ?thesis using s by (simp add: digits_def)
  qed
qed

lemma num_int_append: "num_int s = Some (i, t) \<Longrightarrow> closes r \<Longrightarrow> num_int (s @ r) = Some (i, t @ r)"
proof -
  assume n: "num_int s = Some (i, t)" and r: "closes r"
  then have "s \<noteq> []" by (auto simp: num_int_def digits_def)
  then show ?thesis using n r by (cases s) (auto simp: num_int_def digits_append [where s = "_ # _", simplified] split: if_splits)
qed

lemma num_frac_append: "num_frac s = Some (f, t) \<Longrightarrow> closes r \<Longrightarrow> num_frac (s @ r) = Some (f, t @ r)"
proof (cases s)
  case Nil
  assume "num_frac s = Some (f, t)" "closes r"
  with Nil show ?thesis by (cases r) (auto simp: num_frac_def closes_def)
qed (auto simp: num_frac_def digits_append split: if_splits)

lemma num_exp_append: "num_exp s = Some (e, t) \<Longrightarrow> closes r \<Longrightarrow> num_exp (s @ r) = Some (e, t @ r)"
proof (cases s)
  case Nil
  assume "num_exp s = Some (e, t)" "closes r"
  with Nil show ?thesis by (cases r) (auto simp: num_exp_def closes_def)
next
  case (Cons x u)
  assume "num_exp s = Some (e, t)" "closes r"
  with Cons show ?thesis
    by (cases u) (auto simp: num_exp_def digits_append digits_append [where s = "_ # _", simplified] split: if_splits)
qed

lemma number_append: "number s = Some (l, t) \<Longrightarrow> closes r \<Longrightarrow> number (s @ r) = Some (l, t @ r)"
proof -
  assume n: "number s = Some (l, t)" and r: "closes r"
  then have "s \<noteq> []" by (auto simp: number_def num_int_def digits_def)
  moreover obtain i t1 f t2 e where p: "num_int (if prefix ''-'' s then tl s else s) = Some (i, t1)" "num_frac t1 = Some (f, t2)" "num_exp t2 = Some (e, t)"
    "l = (if prefix ''-'' s then ''-'' else []) @ i @ f @ e"
    using n by (auto simp: number_def Let_def split: if_splits option.splits prod.splits)
  moreover note num_int_append [OF p(1) r] num_frac_append [OF p(2) r] num_exp_append [OF p(3) r]
  ultimately show ?thesis by (cases s) (auto simp: number_def Let_def split: if_splits)
qed

definition num_ok :: "string \<Rightarrow> bool" where
  "num_ok l \<longleftrightarrow> number l = Some (l, [])"

lemma num_ok_head: "num_ok l \<Longrightarrow> \<exists>c t. l = c # t \<and> (c = CHR ''-'' \<or> is_digit c)"
proof -
  assume "num_ok l"
  then obtain c t where l: "l = c # t" by (cases l) (auto simp: num_ok_def number_def num_int_def digits_def)
  with \<open>num_ok l\<close> have "c = CHR ''-'' \<or> is_digit c"
    by (auto simp: num_ok_def number_def num_int_def digits_def is_digit_def between_def Let_def split: if_splits)
  with l show ?thesis by blast
qed

subsection \<open>Trees read back\<close>

text \<open>A tree that can be printed and read: proper strings and literals, and at most \<open>d\<close> levels.\<close>

primrec json_ok :: "json \<Rightarrow> nat \<Rightarrow> bool" where
  "json_ok JNull = (\<lambda>d. True)"
| "json_ok (JBool b) = (\<lambda>d. True)"
| "json_ok (JNum l) = (\<lambda>d. num_ok l)"
| "json_ok (JStr s) = (\<lambda>d. valid_utf8 s)"
| "json_ok (JArr vs) = (\<lambda>d. 0 < d \<and> list_all (\<lambda>f. f (d - 1)) (map json_ok vs))"
| "json_ok (JObj ms) = (\<lambda>d. 0 < d \<and> list_all (\<lambda>(k, f). valid_utf8 k \<and> f (d - 1)) (map (map_prod id json_ok) ms))"

text \<open>What becomes of a tree on the way, and the trees that can be read at all.\<close>

primrec clean :: "json \<Rightarrow> json" where
  "clean JNull = JNull"
| "clean (JBool b) = JBool b"
| "clean (JNum l) = JNum l"
| "clean (JStr s) = JStr (fix_utf8 s)"
| "clean (JArr vs) = JArr (map clean vs)"
| "clean (JObj ms) = JObj (map (\<lambda>(k, v). (fix_utf8 k, v)) (map (map_prod id clean) ms))"

primrec json_fits :: "json \<Rightarrow> nat \<Rightarrow> bool" where
  "json_fits JNull = (\<lambda>d. True)"
| "json_fits (JBool b) = (\<lambda>d. True)"
| "json_fits (JNum l) = (\<lambda>d. num_ok l)"
| "json_fits (JStr s) = (\<lambda>d. True)"
| "json_fits (JArr vs) = (\<lambda>d. 0 < d \<and> list_all (\<lambda>f. f (d - 1)) (map json_fits vs))"
| "json_fits (JObj ms) = (\<lambda>d. 0 < d \<and> list_all (\<lambda>(k, f). f (d - 1)) (map (map_prod id json_fits) ms))"

lemma json_fits_composite:
  "json_fits (JArr vs) d \<longleftrightarrow> 0 < d \<and> (\<forall>v\<in>set vs. json_fits v (d - 1))"
  "json_fits (JObj ms) d \<longleftrightarrow> 0 < d \<and> (\<forall>m\<in>set ms. json_fits (snd m) (d - 1))"
  by (simp_all add: list_all_iff case_prod_unfold)

lemma clean_object: "clean (JObj ms) = JObj (map (map_prod fix_utf8 clean) ms)"
  by (simp add: map_prod_def split_beta)

lemma json_ok_composite:
  "json_ok (JArr vs) d \<longleftrightarrow> 0 < d \<and> (\<forall>v\<in>set vs. json_ok v (d - 1))"
  "json_ok (JObj ms) d \<longleftrightarrow> 0 < d \<and> (\<forall>m\<in>set ms. valid_utf8 (fst m) \<and> json_ok (snd m) (d - 1))"
  by (simp_all add: list_all_iff case_prod_unfold)

lemma json_ok_fits: "json_ok v d \<Longrightarrow> json_fits v d \<and> clean v = v"
proof (induction v arbitrary: d)
  case (JArr vs)
  then show ?case by (auto simp: json_ok_composite json_fits_composite intro!: map_idI simp del: json_ok.simps json_fits.simps)
next
  case (JObj ms)
  have "map (map_prod fix_utf8 clean) ms = ms"
    using JObj by (intro map_idI) (force simp: json_ok_composite simp del: json_ok.simps)
  then show ?case using JObj by (auto simp: json_ok_composite json_fits_composite clean_object simp del: json_ok.simps json_fits.simps clean.simps)
qed simp_all

lemma json_ok_clean: "json_fits v d \<Longrightarrow> json_ok (clean v) d"
proof (induction v arbitrary: d)
  case (JArr vs)
  then show ?case by (auto simp: json_ok_composite json_fits_composite simp del: json_ok.simps json_fits.simps)
next
  case (JObj ms)
  then show ?case unfolding clean_object by (fastforce simp: json_ok_composite json_fits_composite simp del: json_ok.simps json_fits.simps)
qed simp_all

lemma json_fits_clean: "json_fits (clean v) d = json_fits v d"
proof (induction v arbitrary: d)
  case (JArr vs)
  then show ?case by (simp add: json_fits_composite del: json_fits.simps)
next
  case (JObj ms)
  then show ?case unfolding clean_object by (fastforce simp: json_fits_composite simp del: json_fits.simps)
qed simp_all

lemma skip_head: "\<not> json_space c \<Longrightarrow> skip (c # t) = c # t"
  by (simp add: skip_def)

lemma json_print_head:
  assumes "json_fits v d"
  shows "\<exists>c t. json_print v = c # t \<and> \<not> json_space c \<and> c \<noteq> CHR '']'' \<and> c \<noteq> CHR ''}''"
proof (cases v)
  case (JNum l)
  then obtain c t where l: "l = c # t" "c = CHR ''-'' \<or> is_digit c" using assms num_ok_head [of l] by auto
  moreover have "c \<noteq> CHR '']'' \<and> c \<noteq> CHR ''}'' \<and> \<not> json_space c" using l(2) by (auto simp: is_digit_def between_def json_space_def)
  ultimately show ?thesis using JNum by simp
qed (auto simp: json_string_def json_space_def)

lemma keyword_num:
  assumes "num_ok l" "closes r"
  shows "json_run Value stk (l @ r) = json_run (After (JNum l)) stk r"
proof -
  obtain c t where l: "l = c # t" "c = CHR ''-'' \<or> is_digit c" using num_ok_head [OF assms(1)] by blast
  have c: "\<not> json_space c \<and> c \<noteq> CHR 0x22 \<and> c \<noteq> CHR ''['' \<and> c \<noteq> CHR ''{'' \<and> c \<noteq> CHR ''n'' \<and> c \<noteq> CHR ''t'' \<and> c \<noteq> CHR ''f''"
    using l(2) by (auto simp: is_digit_def between_def json_space_def)
  moreover have "number (l @ r) = Some (l, r)" using number_append [of l l "[]" r] assms by (simp add: num_ok_def)
  ultimately have "keyword (c # t @ r) = Some (JNum l, r)" by (auto simp: keyword_def l)
  with c show ?thesis by (subst json_run.simps) (simp add: l skip_head)
qed

lemma closes_tail: "closes (CHR '','' # r)" "closes (CHR '']'' # r)" "closes (CHR ''}'' # r)" "closes []"
  by (simp_all add: closes_def)

lemma punctuation_plain:
  "\<not> json_space (CHR '','')" "\<not> json_space (CHR '']'')" "\<not> json_space (CHR ''}'')" "\<not> json_space (CHR '':'')" "\<not> json_space (CHR 0x22)"
  "\<not> json_space (CHR ''['')" "\<not> json_space (CHR ''{'')" "\<not> json_space (CHR ''n'')" "\<not> json_space (CHR ''t'')" "\<not> json_space (CHR ''f'')"
  by (simp_all add: json_space_def)

lemma after_array:
  "json_run (After v) (FArr vs # stk) (CHR '','' # r) = json_run Value (FArr (vs @ [v]) # stk) r"
  "json_run (After v) (FArr vs # stk) (CHR '']'' # r) = json_run (After (JArr (vs @ [v]))) stk r"
  by (simp_all add: json_run.simps(3) skip_head punctuation_plain)

lemma after_object:
  "json_run (After v) (FObj ms k # stk) (CHR '','' # r) = json_run (Member (ms @ [(k, v)])) stk r"
  "json_run (After v) (FObj ms k # stk) (CHR ''}'' # r) = json_run (After (JObj (ms @ [(k, v)]))) stk r"
  by (simp_all add: json_run.simps(3) skip_head punctuation_plain)

lemma run_member:
  "json_run (Member ms) stk (json_string k @ '':'' @ r) = json_run Value (FObj ms (fix_utf8 k) # stk) r"
  by (simp add: json_run.simps(2) json_string_def skip_head punctuation_plain unquote_text)

lemma array_items:
  assumes "\<forall>v\<in>set vs. \<forall>acc r. closes r \<longrightarrow> json_run Value (FArr acc # stk) (json_print v @ r) = json_run (After (clean v)) (FArr acc # stk) r"
    and "vs \<noteq> []"
  shows "json_run Value (FArr acc # stk) (Join (map json_print vs) '','' @ CHR '']'' # r) = json_run (After (JArr (acc @ map clean vs))) stk r"
  using assms
proof (induction vs arbitrary: acc)
  case (Cons v vs)
  show ?case
  proof (cases vs)
    case Nil
    then show ?thesis using Cons.prems(1) by (simp add: closes_tail after_array)
  next
    case (Cons w ws)
    have "json_run Value (FArr (acc @ [clean v]) # stk) (Join (map json_print vs) '','' @ CHR '']'' # r) = json_run (After (JArr ((acc @ [clean v]) @ map clean vs))) stk r"
      using Cons.IH [of "acc @ [clean v]"] Cons.prems(1) Cons by simp
    then show ?thesis using Cons.prems(1) Cons by (simp add: closes_tail after_array)
  qed
qed simp

definition print_member :: "string \<times> json \<Rightarrow> string" where
  "print_member m = json_string (fst m) @ '':'' @ json_print (snd m)"

lemma print_object: "json_print (JObj ms) = ''{'' @ Join (map print_member ms) '','' @ ''}''"
proof -
  have "map (\<lambda>(k, v). json_string k @ '':'' @ v) (map (map_prod id json_print) ms) = map print_member ms"
    by (simp add: print_member_def split_beta)
  then show ?thesis by (simp only: json_print.simps)
qed

lemma object_members:
  assumes "\<forall>m\<in>set ms. \<forall>acc k r. closes r \<longrightarrow> json_run Value (FObj acc k # stk) (json_print (snd m) @ r) = json_run (After (clean (snd m))) (FObj acc k # stk) r"
    and "ms \<noteq> []"
  shows "json_run (Member acc) stk (Join (map print_member ms) '','' @ CHR ''}'' # r) = json_run (After (JObj (acc @ map (map_prod fix_utf8 clean) ms))) stk r"
  using assms
proof (induction ms arbitrary: acc)
  case (Cons m ms)
  let ?m = "map_prod fix_utf8 clean m"
  have m: "json_run (Member acc) stk (print_member m @ q) = json_run (After (snd ?m)) (FObj acc (fst ?m) # stk) q" if "closes q" for q
    using run_member [of acc stk "fst m" "json_print (snd m) @ q"] Cons.prems(1) that by (simp add: print_member_def)
  show ?case
  proof (cases ms)
    case Nil
    then show ?thesis using m [of "CHR ''}'' # r"] by (simp add: closes_tail after_object map_prod_def split_beta)
  next
    case (Cons n ns)
    have "json_run (Member (acc @ [?m])) stk (Join (map print_member ms) '','' @ CHR ''}'' # r) = json_run (After (JObj ((acc @ [?m]) @ map (map_prod fix_utf8 clean) ms))) stk r"
      using Cons.IH [of "acc @ [?m]"] Cons.prems(1) Cons by simp
    then show ?thesis using m [of "CHR '','' # Join (map print_member ms) '','' @ CHR ''}'' # r"] Cons
      by (simp add: closes_tail after_object map_prod_def split_beta [abs_def])
  qed
qed simp

lemma object_text:
  assumes "\<not> maxNestingDepth \<le> length stk"
    and "\<forall>m\<in>set ms. \<forall>acc k q. closes q \<longrightarrow> json_run Value (FObj acc k # stk) (json_print (snd m) @ q) = json_run (After (clean (snd m))) (FObj acc k # stk) q"
  shows "json_run Value stk (json_print (JObj ms) @ r) = json_run (After (clean (JObj ms))) stk r"
proof (cases ms)
  case Nil
  with assms show ?thesis by (simp add: json_run.simps(1) skip_head punctuation_plain)
next
  case (Cons m ns)
  have "json_run Value stk (json_print (JObj ms) @ r) = json_run (Member []) stk (Join (map print_member ms) '','' @ CHR ''}'' # r)"
    using assms(1) unfolding print_object
    by (subst json_run.simps) (cases ns; simp add: Cons skip_head punctuation_plain print_member_def json_string_def)
  also have "\<dots> = json_run (After (clean (JObj ms))) stk r" unfolding clean_object using object_members [OF assms(2), of "[]" r] Cons by simp
  finally show ?thesis .
qed

lemma run_value:
  "json_fits v d \<Longrightarrow> length stk + d \<le> maxNestingDepth \<Longrightarrow> closes r \<Longrightarrow>
     json_run Value stk (json_print v @ r) = json_run (After (clean v)) stk r"
proof (induction v arbitrary: d stk r)
  case (JStr s)
  then show ?case by (simp add: json_run.simps(1) json_string_def skip_head punctuation_plain unquote_text)
next
  case (JNum l)
  then show ?case by (simp add: keyword_num)
next
  case (JArr vs)
  then have d: "\<not> maxNestingDepth \<le> length stk" "\<forall>v\<in>set vs. json_fits v (d - 1)" by (auto simp: list_all_iff)
  have IH: "json_run Value (FArr acc # stk) (json_print v @ q) = json_run (After (clean v)) (FArr acc # stk) q"
    if "v \<in> set vs" "closes q" for v acc q
    using JArr.IH [of v "d - 1" "FArr acc # stk" q] JArr.prems d(2) that by auto
  show ?case
  proof (cases vs)
    case Nil
    with d show ?thesis by (simp add: json_run.simps(1) skip_head punctuation_plain)
  next
    case (Cons v ws)
    obtain c t where h: "json_print v = c # t" "\<not> json_space c" "c \<noteq> CHR '']''" using json_print_head [of v "d - 1"] d(2) Cons by auto
    have "json_run Value stk (json_print (JArr vs) @ r) = json_run Value (FArr [] # stk) (Join (map json_print vs) '','' @ CHR '']'' # r)"
      using d(1) h by (subst json_run.simps) (cases ws; simp add: Cons skip_head punctuation_plain)
    also have "\<dots> = json_run (After (clean (JArr vs))) stk r"
      using array_items [of vs stk "[]" r] IH Cons by simp
    finally show ?thesis .
  qed
next
  case (JObj ms)
  then have d: "\<not> maxNestingDepth \<le> length stk" "\<forall>m\<in>set ms. json_fits (snd m) (d - 1)" by (auto simp: list_all_iff)
  have IH: "json_run Value (FObj acc k # stk) (json_print (snd m) @ q) = json_run (After (clean (snd m))) (FObj acc k # stk) q"
    if "m \<in> set ms" "closes q" for m acc k q
    using JObj.IH [of m "snd m" "d - 1" "FObj acc k # stk" q] JObj.prems d(2) that by (cases m) auto
  then show ?case using object_text [of stk ms r] d by blast
qed (simp_all add: json_run.simps(1) skip_head punctuation_plain keyword_def)

text \<open>Behind an object anything may follow.\<close>

lemma read_object:
  assumes "json_fits (JObj ms) maxNestingDepth"
  shows "json_decode (json_print (JObj ms) @ r) = Some (clean (JObj ms))"
proof -
  have "json_run Value [] (json_print (JObj ms) @ r) = json_run (After (clean (JObj ms))) [] r"
  proof (rule object_text)
    show "\<not> maxNestingDepth \<le> length []" by (simp add: maxNestingDepth_def)
    have "json_fits (snd m) (maxNestingDepth - 1)" if "m \<in> set ms" for m using assms that unfolding json_fits_composite by blast
    then show "\<forall>m\<in>set ms. \<forall>acc k q. closes q \<longrightarrow> json_run Value [FObj acc k] (json_print (snd m) @ q) = json_run (After (clean (snd m))) [FObj acc k] q"
      using run_value [of _ "maxNestingDepth - 1"] by (simp add: maxNestingDepth_def)
  qed
  then show ?thesis by (simp add: json_decode_def json_run.simps(3))
qed

lemma decode_object:
  assumes "json_ok (JObj ms) maxNestingDepth"
  shows "json_decode (json_print (JObj ms) @ r) = Some (JObj ms)"
  using read_object [of ms r] json_ok_fits [OF assms] by simp

text \<open>What is printed for a tree is read back as that tree, with proper texts in it.\<close>

theorem json_reading:
  assumes "json_fits v maxNestingDepth"
  shows "json_unmarshal (json_print v) = Some (clean v)" "json_decode (json_print v) = Some (clean v)"
proof -
  have "json_run Value [] (json_print v) = Some (clean v, [])"
    using run_value [OF assms, of "[]" "[]"] by (simp add: closes_tail json_run.simps(3))
  then show "json_unmarshal (json_print v) = Some (clean v)" "json_decode (json_print v) = Some (clean v)"
    by (simp_all add: json_unmarshal_def json_decode_def skip_def split: json.split)
qed

theorem json_round_trip:
  assumes "json_ok v maxNestingDepth"
  shows "json_unmarshal (json_print v) = Some v" "json_decode (json_print v) = Some v"
  using json_reading [of v] json_ok_fits [OF assms] by simp_all

end
