(* ===== verification/JsonTypes.thy ===== *)
theory JsonTypes
  imports Json CloudTypes
begin

text \<open>
  How \<^verbatim>\<open>encoding/json\<close> prints and fills the structs of \<^verbatim>\<open>src/goagent/internal/cloud/client.go\<close>. Printing:
  the members in the order of the struct, empty ones left out where their tag says so, maps in
  the order of their keys; a float that is no number cannot be printed. Filling: a member
  matches a field by its name, regardless of case if need be; what is of the wrong type is left
  alone and makes the whole an error, but the rest is filled all the same; null changes nothing
  except lists, maps and values of type \<^verbatim>\<open>any\<close>. A decoder takes what the field holds and returns
  what it holds then and whether there was no error. Which float a literal denotes is the argument
  \<open>fl\<close>: the plain rendering of the float, \<open>None\<close> when it is out of range.

  Shown here: a value of type \<^verbatim>\<open>any\<close> is read back from what is printed for it, up to the order of
  its maps, which no printed text depends on; what is printed for garbled texts is what is printed
  for their repaired ones; and without infinite numbers everything can be printed.
\<close>

subsection \<open>Values of type any\<close>

text \<open>Floats below a millionth or from ten to the 21st on are printed with an exponent.\<close>

definition json_float :: "string \<Rightarrow> string" where
  "json_float s =
     (let p = float_parts s; x = snd (snd p) in
      if fst (snd p) \<noteq> [] \<and> (x < -6 \<or> 21 \<le> x) then exp_form 1 p else s)"

primrec json_of_any :: "any \<Rightarrow> json option" where
  "json_of_any (VString s) = Some (JStr s)"
| "json_of_any (VBool b) = Some (JBool b)"
| "json_of_any VNil = Some JNull"
| "json_of_any (VFloat s) = (if infinite s then None else Some (JNum (json_float s)))"
| "json_of_any (VList vs) = map_option JArr (those (map json_of_any vs))"
| "json_of_any (VMap ms) = map_option JObj
     (those (map (\<lambda>(k, v). map_option (Pair k) v) (sort_key fst (map (map_prod id json_of_any) ms))))"

primrec any_of :: "(string \<Rightarrow> string option) \<Rightarrow> json \<Rightarrow> any \<times> bool" where
  "any_of fl JNull = (VNil, True)"
| "any_of fl (JBool b) = (VBool b, True)"
| "any_of fl (JNum l) = (case fl l of None \<Rightarrow> (VNil, False) | Some s \<Rightarrow> (VFloat s, True))"
| "any_of fl (JStr s) = (VString s, True)"
| "any_of fl (JArr vs) = (let rs = map (any_of fl) vs in (VList (map fst rs), list_all snd rs))"
| "any_of fl (JObj ms) = (let rs = map (map_prod id (any_of fl)) ms in
     (VMap (fold (\<lambda>(k, r). AList.update k (fst r)) rs []), list_all (\<lambda>(k, r). snd r) rs))"

text \<open>Maps in the order of their keys.\<close>

primrec any_norm :: "any \<Rightarrow> any" where
  "any_norm (VString s) = VString s"
| "any_norm (VBool b) = VBool b"
| "any_norm VNil = VNil"
| "any_norm (VFloat s) = VFloat s"
| "any_norm (VList vs) = VList (map any_norm vs)"
| "any_norm (VMap ms) = VMap (sort_key fst (map (map_prod id any_norm) ms))"

text \<open>A float that \<open>fl\<close> finds again in what is printed for it; a value with such floats, valid strings
  and maps, and at most \<open>d\<close> levels.\<close>

definition float_ok :: "(string \<Rightarrow> string option) \<Rightarrow> string \<Rightarrow> bool" where
  "float_ok fl s \<longleftrightarrow> \<not> infinite s \<and> num_ok (json_float s) \<and> fl (json_float s) = Some s"

primrec any_ok :: "(string \<Rightarrow> string option) \<Rightarrow> any \<Rightarrow> nat \<Rightarrow> bool" where
  "any_ok fl (VString s) = (\<lambda>d. valid_utf8 s)"
| "any_ok fl (VBool b) = (\<lambda>d. True)"
| "any_ok fl VNil = (\<lambda>d. True)"
| "any_ok fl (VFloat s) = (\<lambda>d. float_ok fl s)"
| "any_ok fl (VList vs) = (\<lambda>d. 0 < d \<and> list_all (\<lambda>f. f (d - 1)) (map (any_ok fl) vs))"
| "any_ok fl (VMap ms) = (\<lambda>d. 0 < d \<and> distinct (map fst ms) \<and> list_all (\<lambda>(k, f). valid_utf8 k \<and> f (d - 1)) (map (map_prod id (any_ok fl)) ms))"

lemma insort_key_map: "insort_key f (g x) (map g xs) = map g (insort_key (\<lambda>x. f (g x)) x xs)"
  by (induction xs) simp_all

lemma sort_key_map: "sort_key f (map g xs) = map g (sort_key (\<lambda>x. f (g x)) xs)"
  by (induction xs) (simp_all add: insort_key_map)

lemma sort_map_values: "sort_key fst (map (map_prod id f) ms) = map (map_prod id f) (sort_key fst ms)"
  by (simp add: sort_key_map)

lemma those_map: "(\<forall>x\<in>set xs. f x = Some (g x)) \<Longrightarrow> those (map f xs) = Some (map g xs)"
  by (induction xs) simp_all

lemma sort_sorted_keys: "sort_key fst (sort_key fst ms) = sort_key fst ms"
  by (simp add: sort_key_id_if_sorted)

lemma fold_updates: "distinct (map fst (acc @ ms)) \<Longrightarrow> fold (\<lambda>(k, v). AList.update k v) ms acc = acc @ ms"
proof (induction ms arbitrary: acc)
  case (Cons m ms)
  have u: "k \<notin> fst ` set xs \<Longrightarrow> AList.update k v xs = xs @ [(k, v)]" for k v and xs :: "('a \<times> 'b) list"
    by (induction xs) auto
  show ?case using Cons.IH [of "acc @ [m]"] Cons.prems u [of "fst m" acc "snd m"] by (cases m) auto
qed simp

definition json_ok_any :: "any \<Rightarrow> json" where
  "json_ok_any v = the (json_of_any v)"

lemma any_round_trip:
  "any_ok fl v d \<Longrightarrow> json_of_any v = Some (json_ok_any v) \<and> json_ok (json_ok_any v) d \<and> any_of fl (json_ok_any v) = (any_norm v, True)"
proof (induction v arbitrary: d)
  case (VFloat s)
  then show ?case by (simp add: float_ok_def json_ok_any_def)
next
  case (VList vs)
  then have v: "v \<in> set vs \<Longrightarrow> json_of_any v = Some (json_ok_any v) \<and> json_ok (json_ok_any v) (d - 1) \<and> any_of fl (json_ok_any v) = (any_norm v, True)" for v
    by (auto simp: list_all_iff)
  then have "json_of_any (VList vs) = Some (JArr (map json_ok_any vs))" using those_map [of vs json_of_any json_ok_any] by simp
  moreover from this have "json_ok_any (VList vs) = JArr (map json_ok_any vs)" by (simp add: json_ok_any_def)
  ultimately show ?case using v VList.prems by (auto simp: list_all_iff Let_def)
next
  case (VMap ms)
  let ?ms = "sort_key fst ms" and ?j = "map (map_prod id json_ok_any)"
  have m: "json_of_any v = Some (json_ok_any v) \<and> json_ok (json_ok_any v) (d - 1) \<and> any_of fl (json_ok_any v) = (any_norm v, True)"
    if "(k, v) \<in> set ms" for k v
    using VMap.IH [OF that, of v "d - 1"] VMap.prems that by (fastforce simp: list_all_iff)
  have s: "sort_key fst (map (map_prod id json_of_any) ms) = map (map_prod id json_of_any) ?ms"
    "sort_key fst (map (map_prod id any_norm) ms) = map (map_prod id any_norm) ?ms"
    by (rule sort_map_values)+
  have "those (map ((\<lambda>(k, v). map_option (Pair k) v) \<circ> map_prod id json_of_any) ?ms) = Some (?j ?ms)"
    by (rule those_map) (use m in auto)
  then have j: "json_of_any (VMap ms) = Some (JObj (?j ?ms))" by (simp add: s)
  then have t: "json_ok_any (VMap ms) = JObj (?j ?ms)" by (simp add: json_ok_any_def)
  have r: "map (map_prod id (any_of fl)) (?j ?ms) = map (map_prod id (\<lambda>v. (any_norm v, True))) ?ms" using m by auto
  have "distinct (map fst ?ms)" using VMap.prems by (simp add: distinct_map)
  then have "fold (\<lambda>(k, r). AList.update k (fst r)) (map (map_prod id (\<lambda>v. (any_norm v, True))) ?ms) [] = map (map_prod id any_norm) ?ms"
    using fold_updates [of "[]" "map (map_prod id any_norm) ?ms"] by (simp add: fold_map comp_def split_beta)
  then have "any_of fl (JObj (?j ?ms)) = (any_norm (VMap ms), True)" unfolding any_of.simps r Let_def by (auto simp: list_all_iff s)
  moreover have "json_ok (JObj (?j ?ms)) d" using VMap.prems m by (auto simp: list_all_iff)
  ultimately show ?case using j t by simp
qed (simp_all add: json_ok_any_def)

text \<open>The order of a map makes no difference to what is printed.\<close>

lemma json_of_norm: "json_of_any (any_norm v) = json_of_any v"
proof (induction v)
  case (VList vs)
  then show ?case by (simp cong: map_cong)
next
  case (VMap ms)
  have "map (map_prod id json_of_any) (map (map_prod id any_norm) (sort_key fst ms)) = map (map_prod id json_of_any) (sort_key fst ms)"
    using VMap by fastforce
  then show ?case by (simp only: any_norm.simps json_of_any.simps sort_map_values sort_sorted_keys)
qed simp_all

subsection \<open>Garbled texts and infinite numbers\<close>

text \<open>A value with proper texts only, and what is printed for it.\<close>

primrec clean_any :: "any \<Rightarrow> any" where
  "clean_any (VString s) = VString (fix_utf8 s)"
| "clean_any (VBool b) = VBool b"
| "clean_any VNil = VNil"
| "clean_any (VFloat s) = VFloat s"
| "clean_any (VList vs) = VList (map clean_any vs)"
| "clean_any (VMap ms) = VMap (map (map_prod id clean_any) ms)"

primrec keys_valid :: "any \<Rightarrow> bool" where
  "keys_valid (VString s) = True"
| "keys_valid (VBool b) = True"
| "keys_valid VNil = True"
| "keys_valid (VFloat s) = True"
| "keys_valid (VList vs) = list_all id (map keys_valid vs)"
| "keys_valid (VMap ms) = list_all (\<lambda>(k, b). valid_utf8 k \<and> b) (map (map_prod id keys_valid) ms)"

lemma those_map_option: "those (map (map_option f) xs) = map_option (map f) (those xs)"
  by (induction xs) (auto simp: option.map_comp comp_def split: option.split)

lemma clean_of_any: "keys_valid v \<Longrightarrow> json_of_any (clean_any v) = map_option clean (json_of_any v)"
proof (induction v)
  case (VList vs)
  then have "map json_of_any (map clean_any vs) = map (map_option clean) (map json_of_any vs)" by (auto simp: list_all_iff)
  then have "those (map json_of_any (map clean_any vs)) = map_option (map clean) (those (map json_of_any vs))"
    by (simp only: those_map_option)
  then show ?case by (cases "those (map json_of_any vs)") simp_all
next
  case (VMap ms)
  let ?ms = "sort_key fst ms" and ?g = "\<lambda>m. map_option (Pair (fst m)) (json_of_any (snd m))"
  have "?g (map_prod id clean_any m) = map_option (map_prod fix_utf8 clean) (?g m)" if "m \<in> set ms" for m
    using VMap.IH [of m "snd m"] VMap.prems that by (cases m) (auto simp: list_all_iff option.map_comp comp_def)
  then have g: "map ?g (map (map_prod id clean_any) ?ms) = map (map_option (map_prod fix_utf8 clean)) (map ?g ?ms)" by simp
  have p: "json_of_any (VMap qs) = map_option JObj (those (map ?g (sort_key fst qs)))" for qs
    by (simp add: sort_map_values split_beta comp_def)
  have s: "sort_key fst (map (map_prod id clean_any) ms) = map (map_prod id clean_any) ?ms" by (rule sort_map_values)
  have "those (map ?g (map (map_prod id clean_any) ?ms)) = map_option (map (map_prod fix_utf8 clean)) (those (map ?g ?ms))"
    unfolding g those_map_option ..
  then show ?case unfolding clean_any.simps p s
    by (cases "those (map ?g ?ms)") (simp_all add: clean_object del: clean.simps)
qed simp_all

text \<open>A value without infinite numbers can be printed; from a text none is read, if no literal denotes one.\<close>

primrec finite_any :: "any \<Rightarrow> bool" where
  "finite_any (VString s) = True"
| "finite_any (VBool b) = True"
| "finite_any VNil = True"
| "finite_any (VFloat s) = (\<not> infinite s)"
| "finite_any (VList vs) = list_all id (map finite_any vs)"
| "finite_any (VMap ms) = list_all (\<lambda>(k, b). b) (map (map_prod id finite_any) ms)"

lemma those_Some: "(\<forall>x\<in>set xs. x \<noteq> None) \<Longrightarrow> those xs \<noteq> None"
  by (induction xs) auto

lemma finite_printed: "finite_any v \<Longrightarrow> json_of_any v \<noteq> None"
proof (induction v)
  case (VList vs)
  then have "those (map json_of_any vs) \<noteq> None" by (intro those_Some) (auto simp: list_all_iff)
  then show ?case by simp
next
  case (VMap ms)
  then have "those (map (\<lambda>(k, v). map_option (Pair k) v) (sort_key fst (map (map_prod id json_of_any) ms))) \<noteq> None"
    by (intro those_Some) (fastforce simp: list_all_iff)
  then show ?case by simp
qed simp_all

definition finite_literals :: "(string \<Rightarrow> string option) \<Rightarrow> bool" where
  "finite_literals fl \<longleftrightarrow> (\<forall>l s. fl l = Some s \<longrightarrow> \<not> infinite s)"

abbreviation finite_map :: "any_map \<Rightarrow> bool" where
  "finite_map m \<equiv> \<forall>r\<in>set m. finite_any (snd r)"

lemma finite_map_update: "finite_map m \<Longrightarrow> finite_any v \<Longrightarrow> finite_map (AList.update k v m)"
  by (induction m) auto

lemma finite_read: "finite_literals fl \<Longrightarrow> finite_any (fst (any_of fl j))"
proof (induction j)
  case (JNum l)
  then show ?case by (auto simp: finite_literals_def split: option.split)
next
  case (JArr vs)
  then show ?case by (simp add: Let_def list_all_iff)
next
  case (JObj ms)
  have "finite_map (fold (\<lambda>(k, r). AList.update k (fst r)) (map (map_prod id (any_of fl)) qs) t)"
    if "set qs \<subseteq> set ms" "finite_map t" for qs t
    using that
  proof (induction qs arbitrary: t)
    case (Cons q qs)
    obtain k w where q: "q = (k, w)" by force
    have "finite_any (fst (any_of fl w))" using JObj.IH [of q w] JObj.prems Cons.prems(1) by (simp add: q)
    then show ?case using Cons.IH [of "AList.update k (fst (any_of fl w)) t"] Cons.prems finite_map_update by (simp add: q)
  qed simp
  from this [of ms "[]"] show ?case by (auto simp: Let_def list_all_iff)
qed simp_all

subsection \<open>Printing structs\<close>

definition obj :: "(string \<times> json option) list \<Rightarrow> json option" where
  "obj fs = map_option JObj (those (map (\<lambda>(k, v). map_option (Pair k) v) fs))"

definition arr :: "json option list \<Rightarrow> json option" where
  "arr vs = map_option JArr (those vs)"

definition omitempty :: "bool \<Rightarrow> string \<Rightarrow> json option \<Rightarrow> (string \<times> json option) list" where
  "omitempty e k v = (if e then [] else [(k, v)])"

abbreviation str :: "string \<Rightarrow> json option" where
  "str s \<equiv> Some (JStr s)"

definition json_map :: "any_map \<Rightarrow> json option" where
  "json_map m = json_of_any (VMap m)"

definition json_InventoryItem :: "InventoryItem \<Rightarrow> json option" where
  "json_InventoryItem i = obj ([(''cwmp_id'', str (inv_CWMPID i))]
     @ omitempty (inv_SerialNumber i = []) ''serial_number'' (str (inv_SerialNumber i))
     @ omitempty (inv_ProductClass i = []) ''product_class'' (str (inv_ProductClass i))
     @ omitempty (inv_AdminLANIP i = []) ''admin_lan_ip'' (str (inv_AdminLANIP i))
     @ omitempty (inv_WANIP i = []) ''wan_ip'' (str (inv_WANIP i))
     @ omitempty (inv_SWVersion i = []) ''sw_version'' (str (inv_SWVersion i))
     @ omitempty (inv_RFTxStatus i = None) ''rf_tx_status'' (map_option JBool (inv_RFTxStatus i))
     @ omitempty (inv_OpState i = None) ''op_state'' (map_option JBool (inv_OpState i))
     @ omitempty (inv_LastInformAt i = []) ''last_inform_at'' (str (inv_LastInformAt i)))"

definition json_RegisterRequest :: "RegisterRequest \<Rightarrow> json option" where
  "json_RegisterRequest r = obj ([(''agent_version'', str (rr_AgentVersion r))]
     @ omitempty (rr_Meta r = []) ''meta'' (json_map (rr_Meta r)))"

definition json_HeartbeatRequest :: "HeartbeatRequest \<Rightarrow> json option" where
  "json_HeartbeatRequest r = obj [(''devices'', arr (map json_InventoryItem (hb_Devices r)))]"

definition json_MetricSample :: "MetricSample \<Rightarrow> json option" where
  "json_MetricSample m = obj [(''cwmp_id'', str (ms_CWMPID m)), (''ts'', str (ms_Timestamp m)),
     (''tier'', Some (JNum (show_int (ms_Tier m)))), (''metrics'', json_map (ms_Metrics m))]"

definition json_EventItem :: "EventItem \<Rightarrow> json option" where
  "json_EventItem e = obj ([(''cwmp_id'', str (ev_CWMPID e)), (''ts'', str (ev_Timestamp e)), (''module'', str (ev_Module e)),
     (''event_type'', str (ev_EventType e)), (''severity'', str (ev_Severity e))]
     @ omitempty (ev_Message e = []) ''message'' (str (ev_Message e))
     @ omitempty (ev_Attrs e = []) ''attrs'' (json_map (ev_Attrs e))
     @ omitempty (ev_DedupKey e = []) ''dedup_key'' (str (ev_DedupKey e)))"

definition json_AlarmItem :: "AlarmItem \<Rightarrow> json option" where
  "json_AlarmItem a = obj ([(''cwmp_id'', str (al_CWMPID a)), (''ts'', str (al_Timestamp a)), (''severity'', str (al_Severity a))]
     @ omitempty (al_AlarmType a = []) ''alarm_type'' (str (al_AlarmType a))
     @ omitempty (al_Message a = []) ''message'' (str (al_Message a))
     @ [(''active'', Some (JBool (al_Active a)))])"

definition json_TelemetryRequest :: "TelemetryRequest \<Rightarrow> json option" where
  "json_TelemetryRequest r = obj (omitempty (tq_Metrics r = []) ''metrics'' (arr (map json_MetricSample (tq_Metrics r)))
     @ omitempty (tq_Events r = []) ''events'' (arr (map json_EventItem (tq_Events r)))
     @ omitempty (tq_Alarms r = []) ''alarms'' (arr (map json_AlarmItem (tq_Alarms r))))"

definition json_SnapshotRequest :: "SnapshotRequest \<Rightarrow> json option" where
  "json_SnapshotRequest r = obj [(''params'', json_map (sn_Params r)), (''source'', str (sn_Source r))]"

definition json_AckResult :: "AckResult \<Rightarrow> json option" where
  "json_AckResult r = obj (omitempty (ar_Readback r = []) ''readback'' (json_map (ar_Readback r))
     @ omitempty (ar_Mismatch r = []) ''mismatch'' (arr (map json_map (ar_Mismatch r)))
     @ omitempty (ar_TaskID r = []) ''task_id'' (str (ar_TaskID r))
     @ omitempty (ar_Detail r = []) ''detail'' (str (ar_Detail r)))"

definition json_AckRequest :: "AckRequest \<Rightarrow> json option" where
  "json_AckRequest r = obj [(''status'', str (ack_Status r)), (''result'', json_AckResult (ack_Result r))]"

text \<open>\<^verbatim>\<open>json.Marshal\<close>.\<close>

definition Marshal :: "('a \<Rightarrow> json option) \<Rightarrow> 'a \<Rightarrow> bytes option" where
  "Marshal f x = map_option json_print (f x)"

subsection \<open>Filling structs\<close>

text \<open>Field names are compared with the case of letters folded; two characters beyond ASCII fold to
  a letter.\<close>

definition upper_char :: "char \<Rightarrow> char" where
  "upper_char c = (if between 97 122 c then char_of (code c - 32) else c)"

function fold_name :: "string \<Rightarrow> string" where
  "fold_name s =
     (if s = [] then []
      else if prefix [CHR 0xC5, CHR 0xBF] s then CHR ''S'' # fold_name (drop 2 s)
      else if prefix [CHR 0xE2, CHR 0x84, CHR 0xAA] s then CHR ''K'' # fold_name (drop 3 s)
      else upper_char (hd s) # fold_name (tl s))"
  by pat_completeness auto
termination
  by (relation "measure length") auto

declare fold_name.simps [simp del]

definition resolve :: "string list \<Rightarrow> string \<Rightarrow> string option" where
  "resolve ns k = (if k \<in> set ns then Some k else find (\<lambda>n. fold_name n = fold_name k) ns)"

type_synonym 'a dec = "json \<Rightarrow> 'a \<Rightarrow> 'a \<times> bool"

definition d_string :: "string dec" where
  "d_string v x = (case v of JStr s \<Rightarrow> (s, True) | JNull \<Rightarrow> (x, True) | _ \<Rightarrow> (x, False))"

definition d_bool :: "bool dec" where
  "d_bool v x = (case v of JBool b \<Rightarrow> (b, True) | JNull \<Rightarrow> (x, True) | _ \<Rightarrow> (x, False))"

definition d_any :: "(string \<Rightarrow> string option) \<Rightarrow> any dec" where
  "d_any fl v x = (case v of JNum l \<Rightarrow> (case fl l of Some s \<Rightarrow> (VFloat s, True) | None \<Rightarrow> (x, False)) | _ \<Rightarrow> any_of fl v)"

definition d_map :: "(string \<Rightarrow> string option) \<Rightarrow> any_map dec" where
  "d_map fl v m = (case v of
     JObj ms \<Rightarrow> (fold (\<lambda>(k, w). AList.update k (fst (d_any fl w VNil))) ms m, list_all (\<lambda>(k, w). snd (d_any fl w VNil)) ms)
   | JNull \<Rightarrow> ([], True)
   | _ \<Rightarrow> (m, False))"

text \<open>The elements a list already has are filled again (when its key is repeated), new ones start from
  the zero value.\<close>

definition d_list :: "'a dec \<Rightarrow> 'a \<Rightarrow> 'a list dec" where
  "d_list d zero v xs = (case v of
     JArr vs \<Rightarrow> (let rs = map2 d vs (xs @ replicate (length vs - length xs) zero) in (map fst rs, list_all snd rs))
   | JNull \<Rightarrow> ([], True)
   | _ \<Rightarrow> (xs, False))"

definition d_struct :: "string list \<Rightarrow> (string \<Rightarrow> 'a dec) \<Rightarrow> 'a dec" where
  "d_struct ns f v x = (case v of
     JObj ms \<Rightarrow> fold (\<lambda>(k, w) (y, ok). case resolve ns k of
         None \<Rightarrow> (y, ok)
       | Some n \<Rightarrow> (case f n w y of (z, ok') \<Rightarrow> (z, ok \<and> ok'))) ms (x, True)
   | JNull \<Rightarrow> (x, True)
   | _ \<Rightarrow> (x, False))"

definition into :: "'b dec \<Rightarrow> json \<Rightarrow> 'b \<Rightarrow> ('b \<Rightarrow> 'a) \<Rightarrow> 'a \<times> bool" where
  "into d v x put = (case d v x of (z, ok) \<Rightarrow> (put z, ok))"

definition dec_Write :: "(string \<Rightarrow> string option) \<Rightarrow> Write dec" where
  "dec_Write fl = d_struct [''path'', ''value'', ''xsd_type''] (\<lambda>n v y.
     if n = ''path'' then into d_string v (wr_Path y) (\<lambda>z. y\<lparr>wr_Path := z\<rparr>)
     else if n = ''value'' then into (d_any fl) v (wr_Value y) (\<lambda>z. y\<lparr>wr_Value := z\<rparr>)
     else into d_string v (wr_XSDType y) (\<lambda>z. y\<lparr>wr_XSDType := z\<rparr>))"

definition zero_Write :: Write where
  "zero_Write = \<lparr>wr_Path = [], wr_Value = VNil, wr_XSDType = []\<rparr>"

definition dec_CommandPayload :: "(string \<Rightarrow> string option) \<Rightarrow> CommandPayload dec" where
  "dec_CommandPayload fl = d_struct [''writes'', ''verify'', ''rollback_on_fail'', ''read_paths''] (\<lambda>n v y.
     if n = ''writes'' then into (d_list (dec_Write fl) zero_Write) v (pl_Writes y) (\<lambda>z. y\<lparr>pl_Writes := z\<rparr>)
     else if n = ''verify'' then into (d_map fl) v (pl_Verify y) (\<lambda>z. y\<lparr>pl_Verify := z\<rparr>)
     else if n = ''rollback_on_fail'' then into d_bool v (pl_RollbackOnFail y) (\<lambda>z. y\<lparr>pl_RollbackOnFail := z\<rparr>)
     else into (d_list d_string []) v (pl_ReadPaths y) (\<lambda>z. y\<lparr>pl_ReadPaths := z\<rparr>))"

definition dec_Command :: "(string \<Rightarrow> string option) \<Rightarrow> Command dec" where
  "dec_Command fl = d_struct [''id'', ''device_id'', ''cwmp_id'', ''type'', ''payload''] (\<lambda>n v y.
     if n = ''id'' then into d_string v (cmd_ID y) (\<lambda>z. y\<lparr>cmd_ID := z\<rparr>)
     else if n = ''device_id'' then into d_string v (cmd_DeviceID y) (\<lambda>z. y\<lparr>cmd_DeviceID := z\<rparr>)
     else if n = ''cwmp_id'' then into d_string v (cmd_CWMPID y) (\<lambda>z. y\<lparr>cmd_CWMPID := z\<rparr>)
     else if n = ''type'' then into d_string v (cmd_Type y) (\<lambda>z. y\<lparr>cmd_Type := z\<rparr>)
     else into (dec_CommandPayload fl) v (cmd_Payload y) (\<lambda>z. y\<lparr>cmd_Payload := z\<rparr>))"

definition zero_Command :: Command where
  "zero_Command = \<lparr>cmd_ID = [], cmd_DeviceID = [], cmd_CWMPID = [], cmd_Type = [],
     cmd_Payload = \<lparr>pl_Writes = [], pl_Verify = [], pl_RollbackOnFail = False, pl_ReadPaths = []\<rparr>\<rparr>"

definition dec_PollData :: "(string \<Rightarrow> string option) \<Rightarrow> PollData dec" where
  "dec_PollData fl = d_struct [''server_time'', ''commands''] (\<lambda>n v y.
     if n = ''server_time'' then into d_string v (pd_ServerTime y) (\<lambda>z. y\<lparr>pd_ServerTime := z\<rparr>)
     else into (d_list (dec_Command fl) zero_Command) v (pd_Commands y) (\<lambda>z. y\<lparr>pd_Commands := z\<rparr>))"

definition dec_AckResult :: "(string \<Rightarrow> string option) \<Rightarrow> AckResult dec" where
  "dec_AckResult fl = d_struct [''readback'', ''mismatch'', ''task_id'', ''detail''] (\<lambda>n v y.
     if n = ''readback'' then into (d_map fl) v (ar_Readback y) (\<lambda>z. y\<lparr>ar_Readback := z\<rparr>)
     else if n = ''mismatch'' then into (d_list (d_map fl) []) v (ar_Mismatch y) (\<lambda>z. y\<lparr>ar_Mismatch := z\<rparr>)
     else if n = ''task_id'' then into d_string v (ar_TaskID y) (\<lambda>z. y\<lparr>ar_TaskID := z\<rparr>)
     else into d_string v (ar_Detail y) (\<lambda>z. y\<lparr>ar_Detail := z\<rparr>))"

text \<open>\<^verbatim>\<open>json.Unmarshal\<close> of a text into a struct: a text that does not parse changes nothing.\<close>

definition Unmarshal :: "'a dec \<Rightarrow> bytes \<Rightarrow> 'a \<Rightarrow> 'a \<times> bool" where
  "Unmarshal d s x = (case json_unmarshal s of None \<Rightarrow> (x, False) | Some v \<Rightarrow> d v x)"

subsection \<open>Structs read back\<close>

lemma obj_Some: "(\<forall>f\<in>set fs. snd f \<noteq> None) \<Longrightarrow> obj fs = Some (JObj (map (\<lambda>f. (fst f, the (snd f))) fs))"
  using those_map [of fs "\<lambda>(k, v). map_option (Pair k) v" "\<lambda>f. (fst f, the (snd f))"] by (fastforce simp: obj_def)

lemma arr_Some: "(\<forall>x\<in>set xs. f x = Some (g x)) \<Longrightarrow> arr (map f xs) = Some (JArr (map g xs))"
  using those_map [of xs f g] by (simp add: arr_def)

lemma set_omitempty: "f \<in> set (omitempty e k v) \<longleftrightarrow> \<not> e \<and> f = (k, v)"
  by (simp add: omitempty_def)

text \<open>How a struct is filled, member by member.\<close>

definition fill :: "string list \<Rightarrow> (string \<Rightarrow> 'a dec) \<Rightarrow> string \<times> json \<Rightarrow> 'a \<times> bool \<Rightarrow> 'a \<times> bool" where
  "fill ns f m r = (case resolve ns (fst m) of
     None \<Rightarrow> r
   | Some n \<Rightarrow> (case f n (snd m) (fst r) of (z, ok') \<Rightarrow> (z, snd r \<and> ok')))"

lemma d_struct_fill: "d_struct ns f (JObj ms) x = fold (fill ns f) ms (x, True)"
proof -
  have "(\<lambda>(k, w) (y, ok). case resolve ns k of None \<Rightarrow> (y, ok) | Some n \<Rightarrow> (case f n w y of (z, ok') \<Rightarrow> (z, ok \<and> ok'))) = fill ns f"
    by (auto simp: fun_eq_iff fill_def split: option.split)
  then show ?thesis by (simp add: d_struct_def)
qed

lemma fold_omitempty:
  "fold g (map h (omitempty e k v)) r = (if e then r else g (h (k, v)) r)"
  by (simp add: omitempty_def)

lemma d_list_fresh:
  "(\<forall>v\<in>set xs. d (f v) zero = (g v, True)) \<Longrightarrow> d_list d zero (JArr (map f xs)) [] = (map g xs, True)"
proof -
  assume a: "\<forall>v\<in>set xs. d (f v) zero = (g v, True)"
  have "map2 d (map f xs) (replicate (length xs) zero) = map (\<lambda>v. d (f v) zero) xs"
    by (induction xs) simp_all
  also have "\<dots> = map (\<lambda>v. (g v, True)) xs" using a by simp
  finally show ?thesis by (simp add: d_list_def Let_def comp_def list_all_iff)
qed

text \<open>The map a field is filled with, from what is printed for a map.\<close>

definition map_norm :: "any_map \<Rightarrow> any_map" where
  "map_norm m = sort_key fst (map (map_prod id any_norm) m)"

definition map_ok :: "(string \<Rightarrow> string option) \<Rightarrow> nat \<Rightarrow> any_map \<Rightarrow> bool" where
  "map_ok fl d m \<longleftrightarrow> any_ok fl (VMap m) d"

lemma d_any_fresh: "d_any fl v VNil = any_of fl v"
  by (cases v) (auto simp: d_any_def split: option.split)

lemma d_map_any_of: "d_map fl (JObj ms) [] = (case any_of fl (JObj ms) of (VMap m, ok) \<Rightarrow> (m, ok) | (_, ok) \<Rightarrow> ([], ok))"
  by (simp add: d_map_def d_any_fresh Let_def fold_map comp_def case_prod_unfold list.pred_map)

lemma map_round_trip:
  assumes "map_ok fl d m"
  shows "\<exists>j. json_map m = Some j \<and> json_ok j d \<and> d_map fl j [] = (map_norm m, True)"
proof -
  let ?j = "json_ok_any (VMap m)"
  have r: "json_map m = Some ?j" "json_ok ?j d" "any_of fl ?j = (any_norm (VMap m), True)"
    using any_round_trip [OF assms [unfolded map_ok_def]] by (simp_all only: json_map_def)
  obtain ms where "?j = JObj ms" using r(1) by (metis json_map_def json_of_any.simps(6) map_option_eq_Some)
  then have "d_map fl ?j [] = (map_norm m, True)" using r(3) d_map_any_of [of fl ms] by (simp add: map_norm_def)
  with r show ?thesis by blast
qed

lemma json_map_norm: "json_map (map_norm m) = json_map m"
  using json_of_norm [of "VMap m"] by (simp only: json_map_def map_norm_def any_norm.simps)

lemma map_norm_Nil [simp]: "map_norm [] = []" "map_norm m = [] \<longleftrightarrow> m = []"
  by (simp add: map_norm_def) (metis length_0_conv length_map length_sort map_norm_def)

lemma json_ok_mono: "json_ok j d \<Longrightarrow> d \<le> e \<Longrightarrow> json_ok j e"
proof (induction j arbitrary: d e)
  case (JArr vs)
  from JArr.prems(2) have "d - 1 \<le> e - 1" by simp
  with JArr show ?case unfolding json_ok_composite by fastforce
next
  case (JObj ms)
  from JObj.prems(2) have "d - 1 \<le> e - 1" by simp
  then have "json_ok (snd m) (e - 1)" if "m \<in> set ms" for m
    using JObj.IH [of m "snd m" "d - 1" "e - 1"] JObj.prems(1) that unfolding json_ok_composite by (cases m) auto
  with JObj.prems show ?case unfolding json_ok_composite by simp
qed simp_all

definition result_norm :: "AckResult \<Rightarrow> AckResult" where
  "result_norm r = r\<lparr>ar_Readback := map_norm (ar_Readback r), ar_Mismatch := map map_norm (ar_Mismatch r)\<rparr>"

definition result_ok :: "(string \<Rightarrow> string option) \<Rightarrow> nat \<Rightarrow> AckResult \<Rightarrow> bool" where
  "result_ok fl d r \<longleftrightarrow> map_ok fl d (ar_Readback r) \<and> list_all (map_ok fl d) (ar_Mismatch r) \<and> valid_utf8 (ar_TaskID r) \<and> valid_utf8 (ar_Detail r)"

lemma valid_names [simp]: "list_all (\<lambda>c. code c < 128) k \<Longrightarrow> valid_utf8 k"
  by (simp add: valid_utf8_def runes_ascii)

lemma result_round_trip:
  assumes "result_ok fl d r"
  obtains j where "json_AckResult r = Some j" "json_ok j (d + 2)" "dec_AckResult fl j zero_AckResult = (result_norm r, True)"
proof -
  obtain b where b: "json_map (ar_Readback r) = Some b" "json_ok b d" "d_map fl b [] = (map_norm (ar_Readback r), True)"
    using assms map_round_trip [of fl d "ar_Readback r"] by (auto simp: result_ok_def)
  define g where "g m = the (json_map m)" for m
  have m: "json_map m = Some (g m) \<and> json_ok (g m) d \<and> d_map fl (g m) [] = (map_norm m, True)" if "m \<in> set (ar_Mismatch r)" for m
    using that assms map_round_trip [of fl d m] by (fastforce simp: result_ok_def list_all_iff g_def)
  then have a: "arr (map json_map (ar_Mismatch r)) = Some (JArr (map g (ar_Mismatch r)))" by (intro arr_Some) simp
  have l: "d_list (d_map fl) [] (JArr (map g (ar_Mismatch r))) [] = (map map_norm (ar_Mismatch r), True)"
    using m by (intro d_list_fresh) simp
  let ?j = "JObj (map (\<lambda>f. (fst f, the (snd f))) (omitempty (ar_Readback r = []) ''readback'' (Some b)
    @ omitempty (ar_Mismatch r = []) ''mismatch'' (Some (JArr (map g (ar_Mismatch r))))
    @ omitempty (ar_TaskID r = []) ''task_id'' (str (ar_TaskID r)) @ omitempty (ar_Detail r = []) ''detail'' (str (ar_Detail r))))"
  have "json_AckResult r = Some ?j" unfolding json_AckResult_def b(1) a by (rule obj_Some) (auto simp: set_omitempty)
  moreover have "json_ok ?j (d + 2)"
    using assms b(2) m unfolding json_ok_composite by (auto simp: set_omitempty json_ok_composite result_ok_def simp del: json_ok.simps(5,6) intro: json_ok_mono)
  moreover have "dec_AckResult fl ?j zero_AckResult = (result_norm r, True)"
    unfolding dec_AckResult_def d_struct_fill
    using b(3) l by (cases r) (simp add: fold_omitempty fill_def resolve_def into_def d_string_def zero_AckResult_def result_norm_def split: list.split)
  ultimately show thesis by (rule that)
qed

text \<open>A stored result is acknowledged again with the same text.\<close>

lemma ack_printed_again: "json_AckRequest \<lparr>ack_Status = s, ack_Result = result_norm r\<rparr> = json_AckRequest \<lparr>ack_Status = s, ack_Result = r\<rparr>"
proof -
  have "map json_map (map map_norm ms) = map json_map ms" for ms by (simp add: json_map_norm )
  then show ?thesis by (simp add: json_AckRequest_def json_AckResult_def result_norm_def json_map_norm del: map_map)
qed

text \<open>Integers are printed as literals and read with \<^verbatim>\<open>strconv.ParseInt\<close>.\<close>

definition d_int :: "int dec" where
  "d_int v x = (case v of
     JNum l \<Rightarrow> (case ParseInt l of Some i \<Rightarrow> (i, True) | None \<Rightarrow> (x, False))
   | JNull \<Rightarrow> (x, True)
   | _ \<Rightarrow> (x, False))"

lemma number_show_nat: "num_int (show_nat n) = Some (show_nat n, [])"
proof (cases "n = 0")
  case True
  have "show_nat 0 = ''0''" by code_simp
  then show ?thesis by (simp add: True num_int_def)
next
  case False
  obtain c cs where s: "show_nat n = c # cs" using show_nat_nonempty [of n] by (cases "show_nat n") auto
  have "c \<noteq> CHR ''0''" using show_nat_head [of n] False by (simp add: s)
  moreover have "takeWhile is_digit (c # cs) = c # cs" "dropWhile is_digit (c # cs) = []"
    using show_nat_value [of n] by (auto simp: s is_digit_def list_all_iff)
  ultimately show ?thesis by (auto simp: s num_int_def digits_def)
qed

lemma num_ok_show_int: "num_ok (show_int i)"
proof -
  have "\<not> prefix ''-'' (show_nat n)" for n
    using show_nat_value [of n] digit_not_sign show_nat_nonempty [of n] by (cases "show_nat n") auto
  then show ?thesis
    by (simp add: num_ok_def number_def show_int_def number_show_nat num_frac_def num_exp_def Let_def)
qed

subsection \<open>What is printed for garbled structs, and what can be printed at all\<close>

lemma obj_clean: "list_all (\<lambda>f. valid_utf8 (fst f)) fs \<Longrightarrow> obj (map (map_prod id (map_option clean)) fs) = map_option clean (obj fs)"
proof -
  assume k: "list_all (\<lambda>f. valid_utf8 (fst f)) fs"
  let ?g = "\<lambda>(k, v). map_option (Pair k) v"
  have "map ?g (map (map_prod id (map_option clean)) fs) = map (map_option (map_prod fix_utf8 clean)) (map ?g fs)"
    using k by (auto simp: list_all_iff option.map_comp comp_def)
  then have "those (map ?g (map (map_prod id (map_option clean)) fs)) = map_option (map (map_prod fix_utf8 clean)) (those (map ?g fs))"
    by (simp only: those_map_option)
  then show ?thesis unfolding obj_def by (cases "those (map ?g fs)") (simp_all add: clean_object del: clean.simps)
qed

lemma arr_clean: "arr (map (map_option clean) xs) = map_option clean (arr xs)"
  unfolding arr_def those_map_option by (cases "those xs") simp_all

lemma omitempty_clean: "map (map_prod id f) (omitempty e k v) = omitempty e k (f v)"
  by (simp add: omitempty_def)

lemma finite_map_printed: "finite_map m \<Longrightarrow> \<exists>j. json_map m = Some j"
  using finite_printed [of "VMap m"] by (simp add: json_map_def list_all_iff split_beta)

definition finite_result :: "AckResult \<Rightarrow> bool" where
  "finite_result r \<longleftrightarrow> finite_map (ar_Readback r) \<and> (\<forall>m\<in>set (ar_Mismatch r). finite_map m)"

lemma ack_printed:
  assumes "finite_result (ack_Result a)"
  shows "\<exists>b. Marshal json_AckRequest a = Some b"
proof -
  let ?r = "ack_Result a"
  obtain rb where "json_map (ar_Readback ?r) = Some rb" using assms finite_map_printed unfolding finite_result_def by blast
  moreover have "arr (map json_map (ar_Mismatch ?r)) \<noteq> None"
    using those_Some [of "map json_map (ar_Mismatch ?r)"] assms finite_map_printed by (fastforce simp: arr_def finite_result_def)
  ultimately have "json_AckResult ?r \<noteq> None"
    unfolding json_AckResult_def by (subst obj_Some) (auto simp: set_omitempty)
  then show ?thesis by (auto simp: Marshal_def json_AckRequest_def obj_def)
qed

lemma struct_inv:
  assumes "\<And>n v y. P y \<Longrightarrow> P (fst (f n v y))" "P x"
  shows "P (fst (d_struct ns f v x))"
proof -
  have "P (fst (fold (fill ns f) ms r))" if "P (fst r)" for ms r
    using that assms(1) by (induction ms arbitrary: r) (auto simp: fill_def split: option.split prod.split, metis fst_conv)
  then show ?thesis using assms(2) by (cases v) (simp_all add: d_struct_fill, simp_all add: d_struct_def)
qed

lemma finite_d_any: "finite_literals fl \<Longrightarrow> finite_any x \<Longrightarrow> finite_any (fst (d_any fl v x))"
  using finite_read [of fl v] by (auto simp: d_any_def finite_literals_def split: json.split option.split)

lemma finite_d_map:
  assumes "finite_literals fl" "finite_map m"
  shows "finite_map (fst (d_map fl v m))"
proof -
  have "finite_map (fold (\<lambda>(k, w). AList.update k (fst (d_any fl w VNil))) ms t)" if "finite_map t" for ms t
    using that
  proof (induction ms arbitrary: t)
    case (Cons q ms)
    obtain k w where q: "q = (k, w)" by force
    have "finite_map (AList.update k (fst (d_any fl w VNil)) t)" using finite_map_update [OF Cons.prems] finite_d_any [OF assms(1), of VNil w] by simp
    then show ?case using Cons.IH by (simp add: q)
  qed simp
  then show ?thesis using assms(2) by (auto simp: d_map_def split: json.split)
qed

lemma result_read:
  assumes "finite_literals fl" "finite_result r"
  shows "finite_result (fst (dec_AckResult fl v r))"
proof -
  have l: "\<forall>m\<in>set (fst (d_list (d_map fl) [] w ms)). finite_map m" if ms: "\<forall>m\<in>set ms. finite_map m" for w ms
  proof (cases w)
    case (JArr vs)
    have z: "\<forall>m\<in>set (ms @ replicate (length vs - length ms) []). finite_map m" using ms by auto
    have "finite_map (fst (d_map fl a b))" if "(a, b) \<in> set (zip vs (ms @ replicate (length vs - length ms) []))" for a b
      using finite_d_map [OF assms(1)] z set_zip_rightD [OF that] by blast
    then show ?thesis by (auto simp: JArr d_list_def Let_def)
  qed (use ms in \<open>simp_all add: d_list_def\<close>)
  have i: "fst (into d v x put) = put (fst (d v x))" for d :: "'c dec" and v x and put :: "'c \<Rightarrow> AckResult"
    by (simp add: into_def split: prod.split)
  show ?thesis
    unfolding dec_AckResult_def
  proof (rule struct_inv [of finite_result, OF _ assms(2)])
    fix n :: string and v and y :: AckResult
    assume y: "finite_result y"
    then have "finite_map (fst (d_map fl v (ar_Readback y)))" unfolding finite_result_def by (intro finite_d_map [OF assms(1)]) blast
    then have rb: "finite_result (y\<lparr>ar_Readback := fst (d_map fl v (ar_Readback y))\<rparr>)" using y by (simp add: finite_result_def)
    from y have "\<forall>m\<in>set (fst (d_list (d_map fl) [] v (ar_Mismatch y))). finite_map m" unfolding finite_result_def by (intro l) blast
    then have mm: "finite_result (y\<lparr>ar_Mismatch := fst (d_list (d_map fl) [] v (ar_Mismatch y))\<rparr>)" using y by (simp add: finite_result_def)
    have "finite_result (y\<lparr>ar_TaskID := s\<rparr>)" "finite_result (y\<lparr>ar_Detail := s\<rparr>)" for s using y by (simp_all add: finite_result_def)
    with rb mm show "finite_result (fst (if n = ''readback'' then into (d_map fl) v (ar_Readback y) (\<lambda>z. y\<lparr>ar_Readback := z\<rparr>)
        else if n = ''mismatch'' then into (d_list (d_map fl) []) v (ar_Mismatch y) (\<lambda>z. y\<lparr>ar_Mismatch := z\<rparr>)
        else if n = ''task_id'' then into d_string v (ar_TaskID y) (\<lambda>z. y\<lparr>ar_TaskID := z\<rparr>)
        else into d_string v (ar_Detail y) (\<lambda>z. y\<lparr>ar_Detail := z\<rparr>)))"
      by (simp only: i split: if_split) blast
  qed
qed

text \<open>Names in lower case are matched by the names that are the same but for the case.\<close>

definition name_char :: "char \<Rightarrow> bool" where
  "name_char c \<longleftrightarrow> between 97 122 c \<or> c = CHR ''_''"

lemma fold_name_plain: "list_all name_char s \<Longrightarrow> fold_name s = map upper_char s"
proof (induction s)
  case (Cons c s)
  then have "name_char c" by simp
  then have "c \<noteq> CHR 0xC5" "c \<noteq> CHR 0xE2" by (auto simp: name_char_def between_def)
  with Cons show ?case by (subst fold_name.simps) auto
qed (simp add: fold_name.simps)

lemma upper_char_inj: "inj_on upper_char {c. name_char c}"
proof (rule inj_onI)
  fix c d assume cd: "c \<in> {c. name_char c}" "d \<in> {c. name_char c}" "upper_char c = upper_char d"
  have u: "name_char e \<Longrightarrow> code (upper_char e) = (if between 97 122 e then code e - 32 else 95)" for e
    by (auto simp: name_char_def upper_char_def between_def)
  have eq: "(if between 97 122 c then code c - 32 else 95) = (if between 97 122 d then code d - 32 else 95)"
    using cd u [of c] u [of d] by simp
  consider "between 97 122 c" "between 97 122 d" | "between 97 122 c" "d = CHR ''_''" | "c = CHR ''_''" "between 97 122 d" | "c = d"
    using cd by (auto simp: name_char_def)
  then show "c = d"
  proof cases
    case 1
    then have "97 \<le> code c" "97 \<le> code d" "code c - 32 = code d - 32" using eq by (simp_all add: between_def)
    then have "code c = code d" by linarith
    then show ?thesis by simp
  qed (use eq in \<open>auto simp: between_def\<close>)
qed

lemma resolve_plain:
  assumes "list_all (list_all name_char) (k # ns)"
  shows "resolve ns k = (if k \<in> set ns then Some k else None)"
proof -
  have "fold_name n = fold_name k \<longleftrightarrow> n = k" if "n \<in> set ns" for n
  proof -
    have "list_all name_char n" "list_all name_char k" using assms that by (auto simp: list_all_iff)
    moreover from this have "inj_on upper_char (set n \<union> set k)"
      by (intro inj_on_subset [OF upper_char_inj]) (auto simp: list_all_iff)
    ultimately show ?thesis using inj_on_map_eq_map [of upper_char n k] by (simp add: fold_name_plain)
  qed
  then have "k \<notin> set ns \<Longrightarrow> find (\<lambda>n. fold_name n = fold_name k) ns = None" by (auto simp: find_None_iff)
  then show ?thesis by (simp add: resolve_def)
qed

end
