(* ===== verification/CloudClient.thy ===== *)
theory CloudClient
  imports JsonTypes
begin

text \<open>
  The cloud client (\<^verbatim>\<open>src/goagent/internal/cloud/client.go\<close>): addresses, the retry loop and
  the calls. The HTTP transport is an argument that threads the state \<open>'w\<close> of the network
  and the cloud; which waits the context cancels (\<open>cancelled\<close>, by attempt), whether the
  address can be made into a request (\<open>url_ok\<close>) and which float a literal denotes (\<open>fl\<close>) are
  arguments too. Percent-encoding of a path segment is written out.
\<close>

record Client =
  cl_base :: string
  cl_apiKey :: string

definition newClient :: "string \<Rightarrow> string \<Rightarrow> Client" where
  "newClient baseURL apiKey = \<lparr>cl_base = TrimRight baseURL (CHR ''/''), cl_apiKey = apiKey\<rparr>"

definition url :: "Client \<Rightarrow> string \<Rightarrow> string" where
  "url c path = (if HasSuffix (cl_base c) ''/v1'' \<and> HasPrefix path ''/v1/''
     then cl_base c @ TrimPrefix path ''/v1'' else cl_base c @ path)"

record http_request =
  hr_method :: string
  hr_url :: string
  hr_key :: string
  hr_body :: "bytes option"

datatype http_result = NetError string | Response nat bytes

type_synonym 'w transport = "'w \<Rightarrow> http_request \<Rightarrow> 'w \<times> http_result"

datatype client_error = BadRequest | Refused nat bytes | Unreachable "http_result option" | Cancelled | BadEnvelope | MarshalError

text \<open>The loop from a given attempt on; three attempts in all. A response below 500 ends it; the
  text of a refusal is the start of its body, trimmed. Giving up reports the last failure, of
  which \<^verbatim>\<open>last\<close> in the code keeps the text: a transport error, or the status of a response.\<close>

function attempts ::
    "'w transport \<Rightarrow> (nat \<Rightarrow> bool) \<Rightarrow> http_request \<Rightarrow> nat \<Rightarrow> http_result option \<Rightarrow> 'w \<Rightarrow> 'w \<times> (client_error + bytes)" where
  "attempts http cancelled req i last_failure w =
     (if i < 3 then
        (case http w req of
           (w', Response st b) \<Rightarrow>
             if st < 500 then (w', if st \<ge> 400 then Inl (Refused st (TrimSpace (take 4096 b))) else Inr b)
             else if cancelled i then (w', Inl Cancelled)
             else attempts http cancelled req (i + 1) (Some (Response st b)) w'
         | (w', NetError e) \<Rightarrow>
             if cancelled i then (w', Inl Cancelled)
             else attempts http cancelled req (i + 1) (Some (NetError e)) w')
      else (w, Inl (Unreachable last_failure)))"
  by pat_completeness auto
termination
  by (relation "measure (\<lambda>(http, cancelled, req, i, last_failure, w). 3 - i)") auto

declare attempts.simps [simp del]

definition doRaw ::
    "'w transport \<Rightarrow> (nat \<Rightarrow> bool) \<Rightarrow> (string \<Rightarrow> bool) \<Rightarrow> Client \<Rightarrow> string \<Rightarrow> string \<Rightarrow> bytes option \<Rightarrow> 'w \<Rightarrow>
       'w \<times> (client_error + bytes)" where
  "doRaw http cancelled url_ok c method path body w =
     (if \<not> url_ok (url c path) then (w, Inl BadRequest)
      else attempts http cancelled
        \<lparr>hr_method = method, hr_url = url c path, hr_key = cl_apiKey c, hr_body = body\<rparr> 0 None w)"

text \<open>Calls without a result discard the body.\<close>

definition call ::
    "'w transport \<Rightarrow> (nat \<Rightarrow> bool) \<Rightarrow> (string \<Rightarrow> bool) \<Rightarrow> Client \<Rightarrow> string \<Rightarrow> bytes \<Rightarrow> 'w \<Rightarrow> 'w \<times> client_error option" where
  "call http cancelled url_ok c path body w =
     (case doRaw http cancelled url_ok c ''POST'' path (Some body) w of
        (w', Inl e) \<Rightarrow> (w', Some e) | (w', Inr _) \<Rightarrow> (w', None))"

definition SendTelemetryRaw ::
    "'w transport \<Rightarrow> (nat \<Rightarrow> bool) \<Rightarrow> (string \<Rightarrow> bool) \<Rightarrow> Client \<Rightarrow> bytes \<Rightarrow> 'w \<Rightarrow> 'w \<times> client_error option" where
  "SendTelemetryRaw http cancelled url_ok c body w = call http cancelled url_ok c ''/v1/agent/telemetry'' body w"

text \<open>\<^verbatim>\<open>url.PathEscape\<close>: letters, digits and the marks below stay, every other byte becomes a
  percent sign and two capital hex digits.\<close>

definition path_char :: "char \<Rightarrow> bool" where
  "path_char c = (let n = of_char c :: nat in
     (65 \<le> n \<and> n \<le> 90) \<or> (97 \<le> n \<and> n \<le> 122) \<or> (48 \<le> n \<and> n \<le> 57) \<or> c \<in> set ''-_.~$&+=:@'')"

definition hex_digit :: "nat \<Rightarrow> char" where
  "hex_digit d = (if d < 10 then char_of (48 + d) else char_of (55 + d))"

definition escape_byte :: "char \<Rightarrow> string" where
  "escape_byte c = (if path_char c then [c]
     else let n = of_char c :: nat in [CHR ''%'', hex_digit (n div 16), hex_digit (n mod 16)])"

definition PathEscape :: "string \<Rightarrow> string" where
  "PathEscape s = concat (map escape_byte s)"

definition snapshot_path :: "string \<Rightarrow> string" where
  "snapshot_path cwmpID = ''/v1/agent/devices/'' @ PathEscape cwmpID @ ''/config-snapshot''"

definition ack_path :: "string \<Rightarrow> string" where
  "ack_path commandID = ''/v1/agent/commands/'' @ PathEscape commandID @ ''/ack''"

definition SendSnapshot ::
    "'w transport \<Rightarrow> (nat \<Rightarrow> bool) \<Rightarrow> (string \<Rightarrow> bool) \<Rightarrow> Client \<Rightarrow>
       string \<Rightarrow> SnapshotRequest \<Rightarrow> 'w \<Rightarrow> 'w \<times> client_error option" where
  "SendSnapshot http cancelled url_ok c cwmpID req w =
     (case Marshal json_SnapshotRequest req of None \<Rightarrow> (w, Some MarshalError)
      | Some body \<Rightarrow> call http cancelled url_ok c (snapshot_path cwmpID) body w)"

definition Ack ::
    "'w transport \<Rightarrow> (nat \<Rightarrow> bool) \<Rightarrow> (string \<Rightarrow> bool) \<Rightarrow> Client \<Rightarrow>
       string \<Rightarrow> AckRequest \<Rightarrow> 'w \<Rightarrow> 'w \<times> client_error option" where
  "Ack http cancelled url_ok c commandID req w =
     (case Marshal json_AckRequest req of None \<Rightarrow> (w, Some MarshalError)
      | Some body \<Rightarrow> call http cancelled url_ok c (ack_path commandID) body w)"

definition Heartbeat ::
    "'w transport \<Rightarrow> (nat \<Rightarrow> bool) \<Rightarrow> (string \<Rightarrow> bool) \<Rightarrow> Client \<Rightarrow>
       HeartbeatRequest \<Rightarrow> 'w \<Rightarrow> 'w \<times> client_error option" where
  "Heartbeat http cancelled url_ok c req w =
     (case Marshal json_HeartbeatRequest req of None \<Rightarrow> (w, Some MarshalError)
      | Some body \<Rightarrow> call http cancelled url_ok c ''/v1/agent/heartbeat'' body w)"

definition Register ::
    "'w transport \<Rightarrow> (nat \<Rightarrow> bool) \<Rightarrow> (string \<Rightarrow> bool) \<Rightarrow> Client \<Rightarrow>
       RegisterRequest \<Rightarrow> 'w \<Rightarrow> 'w \<times> client_error option" where
  "Register http cancelled url_ok c req w =
     (case Marshal json_RegisterRequest req of None \<Rightarrow> (w, Some MarshalError)
      | Some body \<Rightarrow> call http cancelled url_ok c ''/v1/agent/register'' body w)"

text \<open>The typed call for telemetry, next to the one for stored bodies.\<close>

definition SendTelemetry ::
    "'w transport \<Rightarrow> (nat \<Rightarrow> bool) \<Rightarrow> (string \<Rightarrow> bool) \<Rightarrow> Client \<Rightarrow>
       TelemetryRequest \<Rightarrow> 'w \<Rightarrow> 'w \<times> client_error option" where
  "SendTelemetry http cancelled url_ok c req w =
     (case Marshal json_TelemetryRequest req of None \<Rightarrow> (w, Some MarshalError)
      | Some body \<Rightarrow> call http cancelled url_ok c ''/v1/agent/telemetry'' body w)"

text \<open>The response envelope: its three members, the data left undecoded, as its tree. Missing or null
  data leaves the caller's value as it was; the success flag is not looked at.\<close>

record response_envelope =
  re_Success :: bool
  re_Message :: string
  re_Data :: "json option"

definition dec_envelope :: "response_envelope dec" where
  "dec_envelope = d_struct [''success'', ''message'', ''data''] (\<lambda>n v y.
     if n = ''success'' then into d_bool v (re_Success y) (\<lambda>z. y\<lparr>re_Success := z\<rparr>)
     else if n = ''message'' then into d_string v (re_Message y) (\<lambda>z. y\<lparr>re_Message := z\<rparr>)
     else (y\<lparr>re_Data := Some v\<rparr>, True))"

definition decodeEnvelope :: "'a dec \<Rightarrow> 'a \<Rightarrow> bytes \<Rightarrow> 'a option" where
  "decodeEnvelope unmarshal out body =
     (case json_decode body of
        None \<Rightarrow> None
      | Some v \<Rightarrow>
          (case dec_envelope v \<lparr>re_Success = False, re_Message = [], re_Data = None\<rparr> of (env, ok) \<Rightarrow>
             if \<not> ok then None
             else case re_Data env of
               None \<Rightarrow> Some out
             | Some d \<Rightarrow> if d = JNull then Some out
                 else (case unmarshal d out of (res, ok') \<Rightarrow> if ok' then Some res else None)))"

definition poll_envelope :: "(string \<Rightarrow> string option) \<Rightarrow> bytes \<Rightarrow> Command list option" where
  "poll_envelope fl body =
     map_option pd_Commands (decodeEnvelope (dec_PollData fl) \<lparr>pd_ServerTime = '''', pd_Commands = []\<rparr> body)"

definition Poll ::
    "(string \<Rightarrow> string option) \<Rightarrow> 'w transport \<Rightarrow> (nat \<Rightarrow> bool) \<Rightarrow> (string \<Rightarrow> bool) \<Rightarrow> Client \<Rightarrow> 'w \<Rightarrow>
       'w \<times> (client_error + Command list)" where
  "Poll fl http cancelled url_ok c w =
     (case doRaw http cancelled url_ok c ''GET'' ''/v1/agent/poll'' None w of
        (w', Inl e) \<Rightarrow> (w', Inl e)
      | (w', Inr b) \<Rightarrow> (w', case poll_envelope fl b of None \<Rightarrow> Inl BadEnvelope | Some cmds \<Rightarrow> Inr cmds))"

subsection \<open>Retries\<close>

text \<open>A transport that answers from a script, and the state it leaves.\<close>

fun scripted :: "http_result list transport" where
  "scripted [] req = ([], NetError ''down'')"
| "scripted (r # rs) req = (rs, r)"

fun transient :: "http_result \<Rightarrow> bool" where
  "transient (NetError e) = True"
| "transient (Response st b) = (500 \<le> st)"

lemma attempts_transient:
  "http w req = (w', r) \<Longrightarrow> transient r \<Longrightarrow> i < 3 \<Longrightarrow>
     attempts http cancelled req i l w =
       (if cancelled i then (w', Inl Cancelled) else attempts http cancelled req (i + 1) (Some r) w')"
  by (cases r) (simp_all add: attempts.simps [of http cancelled req i l w])

lemma attempts_final:
  "http w req = (w', Response st b) \<Longrightarrow> st < 500 \<Longrightarrow> i < 3 \<Longrightarrow>
     attempts http cancelled req i l w = (w', if st \<ge> 400 then Inl (Refused st (TrimSpace (take 4096 b))) else Inr b)"
  by (simp add: attempts.simps [of http cancelled req i l w])

lemma attempts_out: "\<not> i < 3 \<Longrightarrow> attempts http cancelled req i l w = (w, Inl (Unreachable l))"
  by (simp add: attempts.simps [of http cancelled req i l w])

text \<open>Each transient answer of a script costs one attempt, as long as there are attempts left.\<close>

lemma attempts_scripted:
  assumes "\<forall>j<length pre. transient (pre ! j) \<and> \<not> cancelled (i + j)" and "i + length pre \<le> 3"
  shows "attempts scripted cancelled req i l (pre @ rest)
       = attempts scripted cancelled req (i + length pre) (if pre = [] then l else Some (last pre)) rest"
  using assms
proof (induction pre arbitrary: i l)
  case (Cons r pre)
  have "transient r \<and> \<not> cancelled i" using Cons.prems(1) by (metis add_0_right length_greater_0_conv list.distinct(1) nth_Cons_0)
  moreover have "\<forall>j<length pre. transient (pre ! j) \<and> \<not> cancelled (i + 1 + j)"
    using Cons.prems(1) by (metis Suc_eq_plus1 add.assoc add.commute length_Cons not_less_eq nth_Cons_Suc plus_1_eq_Suc)
  ultimately show ?case
    using Cons.IH [of "i + 1" "Some r"] Cons.prems(2) attempts_transient [of scripted "(r # pre) @ rest" req _ r i cancelled l]
    by simp
qed simp

text \<open>C27. What a call makes of the transport's answers, on every path. It asks again exactly
  while the cloud cannot be reached or answers 500 or more, at most three times in all. (1) After
  at most two such failures the first answer below 500 decides and is the last one asked for:
  400 and above is a refusal, reported at once and never repeated, anything else the result.
  (2) After three failures, and no sooner, the call gives up and reports the third; no fourth
  request is made. (3) When the context ends in the wait after a failure, the call ends there.\<close>

theorem doRaw_retries_transient_only:
  assumes "url_ok (url c path)" and "\<forall>j<length pre. transient (pre ! j) \<and> \<not> cancelled j"
  shows "(length pre \<le> 2 \<and> st < 500 \<longrightarrow>
       doRaw scripted cancelled url_ok c method path body (pre @ Response st b # rest)
         = (rest, if st \<ge> 400 then Inl (Refused st (TrimSpace (take 4096 b))) else Inr b))
    \<and> (length pre = 3 \<longrightarrow>
       doRaw scripted cancelled url_ok c method path body (pre @ rest) = (rest, Inl (Unreachable (Some (last pre)))))
    \<and> (length pre \<le> 2 \<and> transient r \<and> cancelled (length pre) \<longrightarrow>
       doRaw scripted cancelled url_ok c method path body (pre @ r # rest) = (rest, Inl Cancelled))"
proof -
  note run = attempts_scripted [of pre cancelled 0, simplified, OF assms(2)]
  show ?thesis
    using assms(1) by (auto simp: doRaw_def run attempts_final attempts_out attempts_transient [of scripted])
qed

theorem doRaw_retries_transient_only_witness:
  "doRaw scripted (\<lambda>_. False) (\<lambda>_. True) (newClient ''https://c/'' ''k'') ''POST'' ''/v1/agent/telemetry'' None
     [Response 503 '''', NetError ''x'', Response 200 ''ok'', Response 200 ''again''] = ([Response 200 ''again''], Inr ''ok'')
   \<and> doRaw scripted (\<lambda>_. False) (\<lambda>_. True) (newClient ''https://c/'' ''k'') ''POST'' ''/v1/agent/telemetry'' None
     [Response 503 '''', NetError ''x'', Response 500 '''', Response 200 ''late'']
       = ([Response 200 ''late''], Inl (Unreachable (Some (Response 500 ''''))))
   \<and> doRaw scripted (\<lambda>j. j = 1) (\<lambda>_. True) (newClient ''https://c/'' ''k'') ''POST'' ''/v1/agent/telemetry'' None
     [Response 503 '''', NetError ''x'', Response 200 ''ok''] = ([Response 200 ''ok''], Inl Cancelled)"
proof -
  let ?c = "newClient ''https://c/'' ''k''" and ?p = "''/v1/agent/telemetry''" and ?two = "[Response 503 '''', NetError ''x'']"
  have u: "(\<lambda>_. True) (url ?c ?p)" by simp
  note retry = doRaw_retries_transient_only [of "\<lambda>_. True" ?c ?p, OF u]
  show ?thesis
    using retry [of ?two "\<lambda>_. False" 200 "''POST''" None "''ok''" "[Response 200 ''again'']"]
      retry [of "?two @ [Response 500 '''']" "\<lambda>_. False" _ "''POST''" None _ "[Response 200 ''late'']"]
      retry [of "[Response 503 '''']" "\<lambda>j. j = 1" _ "''POST''" None _ "[Response 200 ''ok'']" "NetError ''x''"]
    by (simp add: less_Suc_eq numeral_2_eq_2 numeral_3_eq_3)
qed

subsection \<open>Addresses\<close>

lemma url_no_double_version:
  "HasSuffix base ''/v1'' \<Longrightarrow> url \<lparr>cl_base = base, cl_apiKey = k\<rparr> (''/v1/'' @ p) = base @ ''/'' @ p"
  using TrimPrefix_append [of "''/v1''" "''/'' @ p"] by (simp add: url_def)

text \<open>Decoding a segment as the server does: a percent sign and two hex digits are a byte.\<close>

definition hex_val :: "char \<Rightarrow> nat" where
  "hex_val c = (let n = of_char c :: nat in if n < 58 then n - 48 else n - 55)"

fun PathUnescape :: "string \<Rightarrow> string" where
  "PathUnescape [] = []"
| "PathUnescape (c # s) =
     (if c = CHR ''%'' then
        (case s of a # b # t \<Rightarrow> char_of (16 * hex_val a + hex_val b) # PathUnescape t | _ \<Rightarrow> c # s)
      else c # PathUnescape s)"

lemma hex_digit_cases:
  "d < 16 \<Longrightarrow> hex_val (hex_digit d) = d \<and> hex_digit d \<noteq> CHR ''/'' \<and> hex_digit d \<noteq> CHR 0x3F"
proof -
  assume d: "d < 16"
  then have "d = 0 \<or> d = 1 \<or> d = 2 \<or> d = 3 \<or> d = 4 \<or> d = 5 \<or> d = 6 \<or> d = 7 \<or> d = 8 \<or> d = 9
      \<or> d = 10 \<or> d = 11 \<or> d = 12 \<or> d = 13 \<or> d = 14 \<or> d = 15" by arith
  then show ?thesis
    by (elim disjE) (simp_all add: hex_val_def hex_digit_def, simp_all add: char_of_def)
qed

lemmas hex_val_digit = hex_digit_cases [THEN conjunct1]
lemmas hex_digit_plain = hex_digit_cases [THEN conjunct2]

lemma escape_byte_round_trip: "PathUnescape (escape_byte c @ t) = c # PathUnescape t"
proof (cases "path_char c")
  case True
  then have "c \<noteq> CHR ''%''" by (auto simp: path_char_def)
  with True show ?thesis by (simp add: escape_byte_def)
next
  case False
  have "(of_char c :: nat) < 256" by simp
  then have "(of_char c :: nat) div 16 < 16" "(of_char c :: nat) mod 16 < 16" by (linarith, simp)
  then have "16 * hex_val (hex_digit (of_char c div 16)) + hex_val (hex_digit (of_char c mod 16)) = of_char c"
    using hex_val_digit [of "of_char c div 16"] hex_val_digit [of "of_char c mod 16"] by simp
  with False show ?thesis by (simp add: escape_byte_def Let_def)
qed

lemma escape_byte_plain: "x \<in> set (escape_byte c) \<Longrightarrow> x \<noteq> CHR ''/'' \<and> x \<noteq> CHR 0x3F"
proof (cases "path_char c")
  case False
  assume x: "x \<in> set (escape_byte c)"
  have "(of_char c :: nat) < 256" by simp
  then have "(of_char c :: nat) div 16 < 16" "(of_char c :: nat) mod 16 < 16" by (linarith, simp)
  with False x hex_digit_plain show ?thesis by (auto simp: escape_byte_def Let_def)
qed (auto simp: escape_byte_def path_char_def)

text \<open>A device id survives the way to the cloud: escaped into one path segment it carries no
  slash and no question mark, and decoding the segment once gives back exactly the id, also
  when the id itself contains percent signs.\<close>

lemma PathEscape_round_trip: "PathUnescape (PathEscape s @ t) = s @ PathUnescape t"
  by (induction s) (simp_all add: PathEscape_def escape_byte_round_trip)

lemma PathEscape_plain: "CHR ''/'' \<notin> set (PathEscape s)" "CHR 0x3F \<notin> set (PathEscape s)"
  using escape_byte_plain by (fastforce simp: PathEscape_def)+

lemma PathUnescape_plain: "CHR ''%'' \<notin> set a \<Longrightarrow> PathUnescape (a @ s) = a @ PathUnescape s"
  by (induction a) auto

text \<open>The paths the server sees behind the two requests that carry an id.\<close>

lemma snapshot_path_seen: "PathUnescape (snapshot_path i) = ''/v1/agent/devices/'' @ i @ ''/config-snapshot''"
  using PathUnescape_plain [of "''/v1/agent/devices/''"] PathEscape_round_trip [of i "''/config-snapshot''"]
    PathUnescape_plain [of "''/config-snapshot''" "[]"]
  by (simp add: snapshot_path_def)

lemma ack_path_seen: "PathUnescape (ack_path i) = ''/v1/agent/commands/'' @ i @ ''/ack''"
  using PathUnescape_plain [of "''/v1/agent/commands/''"] PathEscape_round_trip [of i "''/ack''"]
    PathUnescape_plain [of "''/ack''" "[]"]
  by (simp add: ack_path_def)

end
