(* ===== verification/Worker.thy ===== *)
theory Worker
  imports Collector Metrics Await CloudClient
begin

text \<open>
  The worker (\<^verbatim>\<open>src/goagent/internal/worker/worker.go\<close>): telemetry batches and their split
  into outbox bodies, the outbox flush, snapshots, and the commands of the cloud. The
  hash and the time format are arguments; the failures of the buffer are arguments per call. A
  batch that cannot be encoded is the empty list of bytes; a driver that refuses to store it is
  a failing insert. What a command waits for is a schedule of the waiting loop.
\<close>

subsection \<open>Splitting a batch\<close>

record telemetryPart =
  tp_body :: bytes
  tp_start :: nat
  tp_end :: nat

definition partsPerCap :: int where
  "partsPerCap = 8"

text \<open>Integer division of Go, which truncates towards zero.\<close>

definition go_div :: "int \<Rightarrow> int \<Rightarrow> int" where
  "go_div a b = sgn a * sgn b * (abs a div abs b)"

function split_parts ::
    "(TelemetryRequest \<Rightarrow> bytes) \<Rightarrow> int \<Rightarrow> TelemetryRequest \<Rightarrow> nat \<Rightarrow> telemetryPart list" where
  "split_parts marshal cap r start =
     (let body = marshal r; n = length (tq_Events r) in
      if cap \<le> 0 \<or> int (length body) \<le> cap \<or> n \<le> 1
      then [\<lparr>tp_body = body, tp_start = start, tp_end = start + n\<rparr>]
      else let mid = n div 2 in
        split_parts marshal cap (r\<lparr>tq_Events := take mid (tq_Events r)\<rparr>) start
        @ split_parts marshal cap \<lparr>tq_Metrics = [], tq_Events = drop mid (tq_Events r), tq_Alarms = []\<rparr> (start + mid))"
  by pat_completeness auto
termination
  by (relation "measure (\<lambda>(marshal, cap, r, start). length (tq_Events r))") auto

declare split_parts.simps [simp del]

definition splitTelemetry :: "(TelemetryRequest \<Rightarrow> bytes) \<Rightarrow> TelemetryRequest \<Rightarrow> int \<Rightarrow> telemetryPart list" where
  "splitTelemetry marshal req cap = split_parts marshal cap req 0"

subsection \<open>Queueing a batch\<close>

record enqueue_faults =
  ef_enqueue :: "nat \<Rightarrow> faults"
  ef_mark :: "nat \<Rightarrow> nat \<Rightarrow> faults"

fun enqueue_parts ::
    "enqueue_faults \<Rightarrow> int \<Rightarrow> FTPBatch \<Rightarrow> nat \<Rightarrow> nat \<Rightarrow> telemetryPart list \<Rightarrow> bool \<Rightarrow> Buffer \<Rightarrow> Collector \<Rightarrow>
       bool \<times> Buffer \<times> Collector" where
  "enqueue_parts ef now ftp nev i [] queued b c = (queued, b, c)"
| "enqueue_parts ef now ftp nev i (p # ps) queued b c =
     (let marks = MarksIn ftp (tp_start p) (tp_end p) in
      case EnqueueWithMarks (ef_enqueue ef i) ''telemetry'' (tp_body p) marks now b of
        (None, b1) \<Rightarrow> enqueue_parts ef now ftp nev (Suc i) ps True b1 c
      | (Some (ErrPayloadTooLarge n m), b1) \<Rightarrow>
          if marks = [] then enqueue_parts ef now ftp nev (Suc i) ps queued b1 c
          else (case MarkFTPIngested (ef_mark ef i) marks now (buf_db b1) of
              (None, d2) \<Rightarrow> enqueue_parts ef now ftp nev (Suc i) ps queued (b1\<lparr>buf_db := d2\<rparr>) c
            | (Some e, d2) \<Rightarrow> enqueue_parts ef now ftp nev (Suc i) ps queued (b1\<lparr>buf_db := d2\<rparr>) (Requeue marks c))
      | (Some (SqlError e), b1) \<Rightarrow> (queued, b1, Requeue (MarksIn ftp (tp_start p) nev) c))"

definition enqueueTelemetry ::
    "enqueue_faults \<Rightarrow> (TelemetryRequest \<Rightarrow> bytes) \<Rightarrow> int \<Rightarrow> TelemetryRequest \<Rightarrow> FTPBatch \<Rightarrow> Buffer \<Rightarrow> Collector \<Rightarrow>
       bool \<times> Buffer \<times> Collector" where
  "enqueueTelemetry ef marshal now req ftp b c =
     enqueue_parts ef now ftp (length (tq_Events req)) 0
       (splitTelemetry marshal req (go_div (MaxBytes b) partsPerCap)) False b c"

definition eventDedupKey :: "(string \<Rightarrow> string) \<Rightarrow> string \<Rightarrow> string \<Rightarrow> string \<Rightarrow> string \<Rightarrow> string" where
  "eventDedupKey sha256 deviceID eventType message ts =
     sha256 (deviceID @ ''|'' @ eventType @ ''|'' @ message @ ''|'' @ ts)"

definition cwmp_event_item :: "(string \<Rightarrow> string) \<Rightarrow> (int \<Rightarrow> string) \<Rightarrow> StoredEvent \<Rightarrow> EventItem" where
  "cwmp_event_item sha256 rfc3339 e = (let ts = rfc3339 (se_TS e) in
     \<lparr>ev_CWMPID = se_DeviceID e, ev_Timestamp = ts, ev_Module = se_Module e, ev_EventType = se_EventType e,
      ev_Severity = se_Severity e, ev_Message = se_Message e, ev_Attrs = [],
      ev_DedupKey = eventDedupKey sha256 (se_DeviceID e) (se_EventType e) (se_Message e) ts\<rparr>)"

definition drainCWMPEvents ::
    "faults \<Rightarrow> (string \<Rightarrow> string) \<Rightarrow> (int \<Rightarrow> string) \<Rightarrow> db \<Rightarrow> EventItem list \<times> db" where
  "drainCWMPEvents flt sha256 rfc3339 d =
     (let (stored, d1) = DrainEvents flt d in (map (cwmp_event_item sha256 rfc3339) stored, d1))"

subsection \<open>Flushing and pushing\<close>

text \<open>The cloud and the network are the state \<open>'w\<close>; \<open>send\<close> is \<open>SendTelemetryRaw\<close> on it.\<close>

definition flush_send ::
    "('w \<Rightarrow> bytes \<Rightarrow> 'w \<times> client_error option) \<Rightarrow> 'w \<Rightarrow> string \<Rightarrow> bytes \<Rightarrow> 'w \<times> client_error option" where
  "flush_send send w kind body = (if kind \<noteq> ''telemetry'' then (w, None) else send w body)"

definition flushOutbox ::
    "faults \<Rightarrow> ('w \<Rightarrow> bytes \<Rightarrow> 'w \<times> client_error option) \<Rightarrow> 'w \<Rightarrow> Buffer \<Rightarrow> 'w \<times> Buffer" where
  "flushOutbox flt send w b =
     (let (e, w1, d1) = Drain flt (flush_send send) w (buf_db b) in (w1, b\<lparr>buf_db := d1\<rparr>))"

text \<open>The body of a batch; an error of the encoder is dropped and leaves no bytes.\<close>

definition marshalTelemetry :: "TelemetryRequest \<Rightarrow> bytes" where
  "marshalTelemetry r = (case Marshal json_TelemetryRequest r of None \<Rightarrow> [] | Some body \<Rightarrow> body)"

record ('f, 'w) push_env =
  pe_float :: "'f float_ops"
  pe_read :: read_faults
  pe_rfc3339 :: "int \<Rightarrow> string"
  pe_now :: int
  pe_sha256 :: "string \<Rightarrow> string"
  pe_drain_events :: faults
  pe_enqueue :: enqueue_faults
  pe_flush :: faults
  pe_send :: "'w \<Rightarrow> bytes \<Rightarrow> 'w \<times> client_error option"

definition pushTier ::
    "('f, 'w) push_env \<Rightarrow> int \<Rightarrow> Server \<Rightarrow> Buffer \<Rightarrow> Collector \<Rightarrow> 'w \<Rightarrow> Server \<times> Buffer \<times> Collector \<times> 'w" where
  "pushTier pe tier srv b c w =
     (let (metrics, alarms, srv1) = CollectTier (pe_float pe) (pe_read pe) (pe_rfc3339 pe) (pe_now pe) tier (buf_db b) srv;
          (ftp, c1) = DrainFTP c;
          (cwmp_events, d1) = drainCWMPEvents (pe_drain_events pe) (pe_sha256 pe) (pe_rfc3339 pe) (buf_db b);
          b1 = b\<lparr>buf_db := d1\<rparr>;
          req = \<lparr>tq_Metrics = metrics, tq_Events = fb_Events ftp @ cwmp_events, tq_Alarms = alarms\<rparr>
      in if tq_Metrics req = [] \<and> tq_Events req = [] \<and> tq_Alarms req = [] then (srv1, b1, c1, w)
         else let (queued, b2, c2) = enqueueTelemetry (pe_enqueue pe) marshalTelemetry (pe_now pe) req ftp b1 c1
              in if \<not> queued then (srv1, b2, c2, w)
                 else let (w1, b3) = flushOutbox (pe_flush pe) (pe_send pe) w b2 in (srv1, b3, c2, w1))"

subsection \<open>A batch is split into consecutive runs that fit\<close>

fun chain :: "nat \<Rightarrow> telemetryPart list \<Rightarrow> nat \<Rightarrow> bool" where
  "chain a [] b \<longleftrightarrow> a = b"
| "chain a (p # ps) b \<longleftrightarrow> tp_start p = a \<and> a \<le> tp_end p \<and> chain (tp_end p) ps b"

lemma chain_append: "chain a ps m \<Longrightarrow> chain m qs b \<Longrightarrow> chain a (ps @ qs) b"
  by (induction a ps m rule: chain.induct) auto

lemma chain_le: "chain a ps b \<Longrightarrow> a \<le> b"
  by (induction a ps b rule: chain.induct) auto

lemma chain_bounds: "chain a ps b \<Longrightarrow> p \<in> set ps \<Longrightarrow> a \<le> tp_start p \<and> tp_start p \<le> tp_end p \<and> tp_end p \<le> b"
  by (induction a ps b rule: chain.induct) (auto dest: chain_le)

text \<open>The events a part covers, and a part of the right size.\<close>

definition slice :: "'a list \<Rightarrow> nat \<Rightarrow> nat \<Rightarrow> 'a list" where
  "slice xs a b = take (b - a) (drop a xs)"

definition small_part :: "int \<Rightarrow> telemetryPart \<Rightarrow> bool" where
  "small_part cap p \<longleftrightarrow> cap \<le> 0 \<or> int (length (tp_body p)) \<le> cap \<or> tp_end p \<le> tp_start p + 1"

lemma slice_take: "b \<le> m \<Longrightarrow> slice (take m xs) a b = slice xs a b"
  by (simp add: slice_def drop_take min_def)

lemma slice_drop: "slice (drop m xs) a b = slice xs (m + a) (m + b)"
  by (simp add: slice_def add.commute)

text \<open>Unfolding and induction for the halving recursion.\<close>

definition whole :: "(TelemetryRequest \<Rightarrow> bytes) \<Rightarrow> int \<Rightarrow> TelemetryRequest \<Rightarrow> bool" where
  "whole marshal cap r \<longleftrightarrow> cap \<le> 0 \<or> int (length (marshal r)) \<le> cap \<or> length (tq_Events r) \<le> 1"

abbreviation half :: "TelemetryRequest \<Rightarrow> nat" where
  "half r \<equiv> length (tq_Events r) div 2"

abbreviation left_half :: "TelemetryRequest \<Rightarrow> TelemetryRequest" where
  "left_half r \<equiv> r\<lparr>tq_Events := take (half r) (tq_Events r)\<rparr>"

abbreviation right_half :: "TelemetryRequest \<Rightarrow> TelemetryRequest" where
  "right_half r \<equiv> \<lparr>tq_Metrics = [], tq_Events = drop (half r) (tq_Events r), tq_Alarms = []\<rparr>"

lemma split_whole:
  "whole marshal cap r \<Longrightarrow> split_parts marshal cap r start =
     [\<lparr>tp_body = marshal r, tp_start = start, tp_end = start + length (tq_Events r)\<rparr>]"
  unfolding split_parts.simps [of marshal cap r start] whole_def by (simp only: Let_def if_True)

lemma split_node:
  "\<not> whole marshal cap r \<Longrightarrow> split_parts marshal cap r start =
     split_parts marshal cap (left_half r) start @ split_parts marshal cap (right_half r) (start + half r)"
  unfolding split_parts.simps [of marshal cap r start] whole_def by (simp only: Let_def if_False)

lemma split_induct [case_names whole node]:
  assumes "\<And>r start. whole marshal cap r \<Longrightarrow> P r start"
    and "\<And>r start. \<not> whole marshal cap r \<Longrightarrow> half r \<le> length (tq_Events r) \<Longrightarrow> P (left_half r) start \<Longrightarrow>
           P (right_half r) (start + half r) \<Longrightarrow> P r start"
  shows "P r start"
proof (induction "length (tq_Events r)" arbitrary: r start rule: less_induct)
  case less
  show ?case
  proof (cases "whole marshal cap r")
    case False
    then have n: "1 < length (tq_Events r)" by (simp add: whole_def)
    then have l: "length (tq_Events (left_half r)) < length (tq_Events r)"
      and r: "length (tq_Events (right_half r)) < length (tq_Events r)" by simp_all
    show ?thesis by (rule assms(2) [OF False _ less [OF l] less [OF r]]) simp
  qed (rule assms(1))
qed

lemma split_parts_chain: "chain start (split_parts marshal cap r start) (start + length (tq_Events r))"
proof (induction r start rule: split_induct [of marshal cap])
  case (node r start)
  then show ?case
    using chain_append [OF node(3)] by (simp add: split_node min_absorb2)
qed (simp add: split_whole)

lemma split_parts_small: "p \<in> set (split_parts marshal cap r start) \<Longrightarrow> small_part cap p"
proof (induction r start rule: split_induct [of marshal cap])
  case (whole r start)
  then show ?case by (auto simp: split_whole small_part_def whole_def)
next
  case (node r start)
  then show ?case by (auto simp: split_node)
qed

text \<open>The first part carries the metrics and alarms with its events, every later one events only.\<close>

lemma split_parts_bodies:
  "\<exists>p0 rest. split_parts marshal cap r start = p0 # rest
     \<and> tp_body p0 = marshal (r\<lparr>tq_Events := slice (tq_Events r) 0 (tp_end p0 - start)\<rparr>)
     \<and> (\<forall>p\<in>set rest. tp_body p = marshal \<lparr>tq_Metrics = [],
          tq_Events = slice (tq_Events r) (tp_start p - start) (tp_end p - start), tq_Alarms = []\<rparr>)"
proof (induction r start rule: split_induct [of marshal cap])
  case (whole r start)
  then show ?case by (simp add: split_whole slice_def)
next
  case (node r start)
  obtain p0 rest where L: "split_parts marshal cap (left_half r) start = p0 # rest"
    "tp_body p0 = marshal ((left_half r)\<lparr>tq_Events := slice (take (half r) (tq_Events r)) 0 (tp_end p0 - start)\<rparr>)"
    "\<forall>p\<in>set rest. tp_body p = marshal \<lparr>tq_Metrics = [],
        tq_Events = slice (take (half r) (tq_Events r)) (tp_start p - start) (tp_end p - start), tq_Alarms = []\<rparr>"
    using node(3) by auto
  obtain q0 rest' where R: "split_parts marshal cap (right_half r) (start + half r) = q0 # rest'"
    "tp_body q0 = marshal ((right_half r)\<lparr>tq_Events := slice (drop (half r) (tq_Events r)) 0 (tp_end q0 - (start + half r))\<rparr>)"
    "\<forall>p\<in>set rest'. tp_body p = marshal \<lparr>tq_Metrics = [],
        tq_Events = slice (drop (half r) (tq_Events r)) (tp_start p - (start + half r)) (tp_end p - (start + half r)), tq_Alarms = []\<rparr>"
    using node(4) by auto
  have cl: "chain start (p0 # rest) (start + half r)"
    using split_parts_chain [of start marshal cap "left_half r"] node(2) by (simp add: L(1) min_absorb2)
  have cr: "chain (start + half r) (q0 # rest') (start + half r + (length (tq_Events r) - half r))"
    using split_parts_chain [of "start + half r" marshal cap "right_half r"] by (simp add: R(1))
  have bl: "tp_end p \<le> start + half r" if "p \<in> set (p0 # rest)" for p using chain_bounds [OF cl that] by simp
  have br: "start + half r \<le> tp_start p \<and> tp_start p \<le> tp_end p" if "p \<in> set (q0 # rest')" for p using chain_bounds [OF cr that] by simp
  have "tp_body p = marshal \<lparr>tq_Metrics = [],
      tq_Events = slice (tq_Events r) (tp_start p - start) (tp_end p - start), tq_Alarms = []\<rparr>"
    if p: "p \<in> set (rest @ q0 # rest')" for p
  proof (cases "p \<in> set rest")
    case True
    then show ?thesis using L(3) bl [of p] slice_take [of "tp_end p - start" "half r" "tq_Events r"] by simp
  next
    case False
    with p have q: "p = q0 \<or> p \<in> set rest'" by simp
    have "half r + (tp_start p - (start + half r)) = tp_start p - start" "half r + (tp_end p - (start + half r)) = tp_end p - start"
      using br [of p] q by auto
    with R q cr show ?thesis by (auto simp: slice_drop)
  qed
  moreover have "tp_body p0 = marshal (r\<lparr>tq_Events := slice (tq_Events r) 0 (tp_end p0 - start)\<rparr>)"
    using L(2) bl [of p0] slice_take [of "tp_end p0 - start" "half r" "tq_Events r"] by simp
  ultimately show ?case using node(1) by (auto simp: split_node L(1) R(1))
qed

text \<open>C22. Splitting loses and repeats nothing: the parts are consecutive runs of the events from
  the first to the last, each part's body is the encoding of exactly its run (the first one
  together with all metrics and alarms), and every part that could be cut further fits the
  bound.\<close>

theorem splitTelemetry_partition:
  "\<exists>p0 rest. splitTelemetry marshal req cap = p0 # rest
     \<and> chain 0 (p0 # rest) (length (tq_Events req))
     \<and> list_all (small_part cap) (p0 # rest)
     \<and> tp_body p0 = marshal (req\<lparr>tq_Events := slice (tq_Events req) 0 (tp_end p0)\<rparr>)
     \<and> list_all (\<lambda>p. tp_body p = marshal \<lparr>tq_Metrics = [],
          tq_Events = slice (tq_Events req) (tp_start p) (tp_end p), tq_Alarms = []\<rparr>) rest"
proof -
  obtain p0 rest where "splitTelemetry marshal req cap = p0 # rest"
    "tp_body p0 = marshal (req\<lparr>tq_Events := slice (tq_Events req) 0 (tp_end p0 - 0)\<rparr>)"
    "\<forall>p\<in>set rest. tp_body p = marshal \<lparr>tq_Metrics = [],
        tq_Events = slice (tq_Events req) (tp_start p - 0) (tp_end p - 0), tq_Alarms = []\<rparr>"
    using split_parts_bodies [of marshal cap req 0] unfolding splitTelemetry_def by blast
  moreover have "chain 0 (splitTelemetry marshal req cap) (length (tq_Events req))"
    using split_parts_chain [of 0 marshal cap req] by (simp add: splitTelemetry_def)
  moreover have "list_all (small_part cap) (splitTelemetry marshal req cap)"
    using split_parts_small unfolding splitTelemetry_def list_all_iff by blast
  ultimately show ?thesis by (intro exI [of _ p0] exI [of _ rest]) (simp add: list_all_iff)
qed

end
