(* ===== verification/Delivery.thy ===== *)
theory Delivery
  imports Worker
begin

text \<open>
  What becomes of a telemetry batch (\<open>enqueueTelemetry\<close> in
  \<^verbatim>\<open>src/goagent/internal/worker/worker.go\<close>): the account of its parts and of the ingest marks
  of its FTP events, under any pattern of buffer failures.
\<close>

definition fits :: "int \<Rightarrow> telemetryPart \<Rightarrow> bool" where
  "fits cap p \<longleftrightarrow> cap \<le> 0 \<or> int (length (tp_body p)) \<le> cap"

abbreviation part_marks :: "FTPBatch \<Rightarrow> telemetryPart \<Rightarrow> FTPMark set" where
  "part_marks ftp p \<equiv> set (MarksIn ftp (tp_start p) (tp_end p))"

subsection \<open>One enqueue as a drop from the front and an append\<close>

lemma MarksIn_split: "a \<le> m \<Longrightarrow> m \<le> n \<Longrightarrow> set (MarksIn ftp a n) = set (MarksIn ftp a m) \<union> set (MarksIn ftp m n)"
  unfolding MarksIn_def set_map set_filter image_Un [symmetric] by (rule arg_cong [where f = "image em_mark"]) auto

lemma MarksIn_empty [simp]: "MarksIn ftp a a = []"
  by (auto simp: MarksIn_def filter_empty_conv)

lemma enqueue_shift:
  assumes "db_ok (buf_db b)" "EnqueueWithMarks flt kind body marks now b = (None, b')"
  shows "\<exists>n. outbox_bodies b' = drop n (outbox_bodies b @ [body]) \<and> n \<le> length (outbox_bodies b)
     \<and> (maxBytes b \<le> 0 \<longrightarrow> n = 0) \<and> (0 < maxBytes b \<longrightarrow> int (length body) \<le> maxBytes b)
     \<and> ftp_ingested (buf_db b') = ftp_ingested (mark_all marks now (buf_db b))"
  by (rule enqueue_ok [OF assms]) (auto simp: drop_map mark_all_def intro!: exI)

lemma enqueue_too_large:
  "EnqueueWithMarks flt kind body marks now b = (Some (ErrPayloadTooLarge n m), b') \<Longrightarrow>
     0 < maxBytes b \<and> maxBytes b < int (length body)"
  by (auto simp: EnqueueWithMarks_def Let_def split: if_splits sum.splits prod.splits)

text \<open>The account of a run of \<open>enqueue_parts\<close>: \<open>sent\<close> were handled one by one, \<open>rest\<close> was not
  reached, \<open>PM\<close> are the marks persisted, \<open>R\<close> those handed back, \<open>k\<close> the bodies evicted.\<close>

definition account ::
    "int \<Rightarrow> FTPBatch \<Rightarrow> nat \<Rightarrow> nat \<Rightarrow> Buffer \<Rightarrow> Collector \<Rightarrow> Buffer \<Rightarrow> Collector \<Rightarrow>
       telemetryPart list \<Rightarrow> telemetryPart list \<Rightarrow> FTPMark list \<Rightarrow> FTPMark list \<Rightarrow> nat \<Rightarrow> bool" where
  "account now ftp a nev b c b' c' sent rest PM R k \<longleftrightarrow>
     outbox_bodies b' = drop k (outbox_bodies b @ map tp_body (filter (fits (maxBytes b)) sent))
     \<and> (maxBytes b \<le> 0 \<longrightarrow> k = 0)
     \<and> c' = c\<lparr>col_requeued := col_requeued c @ R\<rparr>
     \<and> ftp_ingested (buf_db b') = ftp_ingested (mark_all PM now (buf_db b))
     \<and> set PM \<subseteq> (\<Union>p\<in>set sent. part_marks ftp p)
     \<and> (\<forall>p\<in>set sent. fits (maxBytes b) p \<longrightarrow> part_marks ftp p \<subseteq> set PM)
     \<and> set (MarksIn ftp a nev) \<subseteq> set PM \<union> set R"

lemma account_Cons:
  assumes first: "outbox_bodies b1 = drop n (outbox_bodies b @ map tp_body (filter (fits (maxBytes b)) [p]))"
      "n \<le> length (outbox_bodies b)" "maxBytes b \<le> 0 \<longrightarrow> n = 0" "maxBytes b1 = maxBytes b"
      "ftp_ingested (buf_db b1) = ftp_ingested (mark_all P1 now (buf_db b))"
      "c1 = c\<lparr>col_requeued := col_requeued c @ R1\<rparr>"
      "set P1 \<subseteq> part_marks ftp p" "fits (maxBytes b) p \<longrightarrow> part_marks ftp p \<subseteq> set P1"
      "part_marks ftp p \<subseteq> set P1 \<union> set R1"
    and span: "tp_start p = a" "a \<le> tp_end p" "tp_end p \<le> nev"
    and more: "account now ftp (tp_end p) nev b1 c1 b' c' sent rest PM R k"
  shows "account now ftp a nev b c b' c' (p # sent) rest (P1 @ PM) (R1 @ R) (n + k)"
proof -
  have ms: "set (MarksIn ftp a nev) = part_marks ftp p \<union> set (MarksIn ftp (tp_end p) nev)"
    using MarksIn_split [OF span(2,3)] span(1) by simp
  have drop2: "drop k (drop n X @ Y) = drop (n + k) (X @ Y)" if "n \<le> length X" for X Y :: "bytes list"
    using that by (simp add: add.commute)
  have m1: "ftp_ingested (buf_db b') = ftp_ingested (mark_all (P1 @ PM) now (buf_db b))"
    using more first(5) by (simp add: account_def mark_all_def)
  let ?mine = "map tp_body (filter (fits (maxBytes b)) [p])" and ?later = "map tp_body (filter (fits (maxBytes b)) sent)"
  have "outbox_bodies b' = drop k (outbox_bodies b1 @ ?later)" using more first(4) by (simp add: account_def)
  also have "\<dots> = drop (n + k) ((outbox_bodies b @ ?mine) @ ?later)"
    unfolding first(1) by (rule drop2) (use first(2) in simp)
  also have "(outbox_bodies b @ ?mine) @ ?later = outbox_bodies b @ map tp_body (filter (fits (maxBytes b)) (p # sent))"
    by simp
  finally have o: "outbox_bodies b' = drop (n + k) (outbox_bodies b @ map tp_body (filter (fits (maxBytes b)) (p # sent)))" .
  show ?thesis
    using more first(3,4,6-9) unfolding account_def ms m1 o by auto
qed

lemma enqueue_parts_account:
  assumes "db_ok (buf_db b)" and "chain a ps nev"
    and "enqueue_parts ef now ftp nev i ps queued b c = (q', b', c')"
  shows "\<exists>sent rest PM R k. ps = sent @ rest \<and> account now ftp a nev b c b' c' sent rest PM R k
     \<and> maxBytes b' = maxBytes b \<and> db_ok (buf_db b')"
  using assms
proof (induction ps arbitrary: a i queued b c)
  case Nil
  then have "account now ftp a nev b c b' c' [] [] [] [] 0" by (auto simp: account_def)
  with Nil show ?case by auto
next
  case (Cons p ps)
  let ?marks = "MarksIn ftp (tp_start p) (tp_end p)"
  obtain r b1 where enq: "EnqueueWithMarks (ef_enqueue ef i) ''telemetry'' (tp_body p) ?marks now b = (r, b1)"
    by (metis surj_pair)
  note ok1 = db_ok_enqueue [OF Cons.prems(1) enq]
  have span: "tp_start p = a" "a \<le> tp_end p" "chain (tp_end p) ps nev" using Cons.prems(2) by auto
  note le = chain_le [OF span(3)]
  show ?case
  proof (cases r)
    case None
    obtain n where n: "outbox_bodies b1 = drop n (outbox_bodies b @ [tp_body p])" "n \<le> length (outbox_bodies b)"
      "maxBytes b \<le> 0 \<longrightarrow> n = 0" "0 < maxBytes b \<longrightarrow> int (length (tp_body p)) \<le> maxBytes b"
      "ftp_ingested (buf_db b1) = ftp_ingested (mark_all ?marks now (buf_db b))"
      using enqueue_shift [OF Cons.prems(1) enq [unfolded None]] by blast
    have fit: "fits (maxBytes b) p" using n(4) by (auto simp: fits_def)
    have "enqueue_parts ef now ftp nev (Suc i) ps True b1 c = (q', b', c')"
      using Cons.prems(3) enq None by simp
    from Cons.IH [OF conjunct1 [OF ok1] span(3) this] obtain sent rest PM R k where
      IH: "ps = sent @ rest" "account now ftp (tp_end p) nev b1 c b' c' sent rest PM R k" "maxBytes b' = maxBytes b1" "db_ok (buf_db b')"
      by blast
    have "account now ftp a nev b c b' c' (p # sent) rest (?marks @ PM) ([] @ R) (n + k)"
      by (rule account_Cons [OF _ n(2,3) _ n(5) _ _ _ _ span(1,2) le IH(2)]) (use n(1) fit ok1 in simp_all)
    with IH ok1 show ?thesis by (metis append_Cons)
  next
    case (Some e)
    then have b1: "b1 = b" using enqueue_error enq by blast
    show ?thesis
    proof (cases e)
      case (SqlError s)
      have "account now ftp a nev b c b (Requeue (MarksIn ftp (tp_start p) nev) c) [] (p # ps) [] (MarksIn ftp a nev) 0"
        using span(1) by (simp add: account_def Requeue_def)
      moreover have "b' = b" "c' = Requeue (MarksIn ftp (tp_start p) nev) c"
        using Cons.prems(3) enq Some SqlError b1 by simp_all
      ultimately show ?thesis using Cons.prems(1) by (metis append_Nil)
    next
      case (ErrPayloadTooLarge x y)
      with enq Some have big: "\<not> fits (maxBytes b) p" using enqueue_too_large by (force simp: fits_def)
      obtain r2 d2 where mk: "MarkFTPIngested (ef_mark ef i) ?marks now (buf_db b) = (r2, d2)" by (metis surj_pair)
      define R1 where "R1 = (if r2 = None then [] else ?marks)"
      obtain j where d2: "d2 = mark_all (take j ?marks) now (buf_db b)" "r2 = None \<longrightarrow> d2 = mark_all ?marks now (buf_db b)"
        using MarkFTPIngested_prefix [OF mk] MarkFTPIngested_ok mk by blast
      define P1 where "P1 = (if r2 = None then ?marks else take j ?marks)"
      have P1: "d2 = mark_all P1 now (buf_db b)" "set P1 \<subseteq> set ?marks" using d2 by (auto simp: P1_def dest: in_set_takeD)
      have same: "b\<lparr>buf_db := buf_db b\<rparr> = b" by simp
      have "\<exists>q. enqueue_parts ef now ftp nev (Suc i) ps q (b\<lparr>buf_db := d2\<rparr>) (c\<lparr>col_requeued := col_requeued c @ R1\<rparr>) = (q', b', c')"
      proof (cases "?marks = []")
        case True
        with d2 have "d2 = buf_db b" "R1 = []" by (auto simp: R1_def)
        with Cons.prems(3) enq Some ErrPayloadTooLarge b1 True show ?thesis by auto
      next
        case False
        with Cons.prems(3) enq Some ErrPayloadTooLarge b1 mk show ?thesis
          by (cases r2) (auto simp: R1_def Requeue_def)
      qed
      then obtain q where go: "enqueue_parts ef now ftp nev (Suc i) ps q (b\<lparr>buf_db := d2\<rparr>) (c\<lparr>col_requeued := col_requeued c @ R1\<rparr>) = (q', b', c')"
        by blast
      have "db_ok (buf_db (b\<lparr>buf_db := d2\<rparr>))" using Cons.prems(1) P1(1) by simp
      from Cons.IH [OF this span(3) go] obtain sent rest PM R k where
        IH: "ps = sent @ rest" "account now ftp (tp_end p) nev (b\<lparr>buf_db := d2\<rparr>) (c\<lparr>col_requeued := col_requeued c @ R1\<rparr>) b' c' sent rest PM R k"
          "maxBytes b' = maxBytes b" "db_ok (buf_db b')"
        by auto
      have "account now ftp a nev b c b' c' (p # sent) rest (P1 @ PM) (R1 @ R) (0 + k)"
        by (rule account_Cons [OF _ _ _ _ _ _ _ _ _ span(1,2) le IH(2)]) (use P1 big in \<open>auto simp: P1_def R1_def\<close>)
      with IH show ?thesis by (metis append_Cons)
    qed
  qed
qed

text \<open>C8. The account of a batch, whatever fails in the buffer: some first parts were handled
  and the rest not reached; the outbox holds its old bodies followed by the bodies of the
  handled parts that fit the cap, in order, less bodies evicted from the front (none without
  a cap); a mark is persisted only with its part handled, always when the part was queued;
  and every mark of the batch is persisted or handed back to the collector.\<close>

theorem enqueueTelemetry_accounts:
  assumes "db_ok (buf_db b)"
    and "enqueueTelemetry ef marshal now req ftp b c = (queued, b', c')"
  shows "\<exists>sent rest PM R k. splitTelemetry marshal req (go_div (maxBytes b) 8) = sent @ rest
     \<and> outbox_bodies b' = drop k (outbox_bodies b @ map tp_body (filter (fits (maxBytes b)) sent))
     \<and> (maxBytes b \<le> 0 \<longrightarrow> k = 0)
     \<and> c' = c\<lparr>col_requeued := col_requeued c @ R\<rparr>
     \<and> ftp_ingested (buf_db b') = ftp_ingested (mark_all PM now (buf_db b))
     \<and> set PM \<subseteq> (\<Union>p\<in>set sent. part_marks ftp p)
     \<and> (\<forall>p\<in>set sent. fits (maxBytes b) p \<longrightarrow> part_marks ftp p \<subseteq> set PM)
     \<and> set (MarksIn ftp 0 (length (tq_Events req))) \<subseteq> set PM \<union> set R"
proof -
  let ?ps = "splitTelemetry marshal req (go_div (maxBytes b) 8)"
  have ch: "chain 0 ?ps (length (tq_Events req))"
    using split_parts_chain [of 0 marshal _ req] by (simp add: splitTelemetry_def)
  have run: "enqueue_parts ef now ftp (length (tq_Events req)) 0 ?ps False b c = (queued, b', c')"
    using assms(2) by (simp add: enqueueTelemetry_def MaxBytes_def partsPerCap_def)
  from enqueue_parts_account [OF assms(1) ch run] obtain sent rest PM R k where *: "?ps = sent @ rest"
    "account now ftp 0 (length (tq_Events req)) b c b' c' sent rest PM R k"
    by auto
  show ?thesis
    by (rule exI [of _ sent], rule exI [of _ rest], rule exI [of _ PM], rule exI [of _ R], rule exI [of _ k])
      (rule conjI [OF *(1) *(2) [unfolded account_def]])
qed

text \<open>A batch of two events from two uploads, cut into two parts; the second insert fails.\<close>

definition demo_event :: EventItem where
  "demo_event = \<lparr>ev_CWMPID = ''8C1F64-P-22'', ev_Timestamp = '''', ev_Module = ''OAM'', ev_EventType = ''log'',
     ev_Severity = ''info'', ev_Message = ''m'', ev_Attrs = [], ev_DedupKey = ''k''\<rparr>"

definition demo_batch :: FTPBatch where
  "demo_batch = \<lparr>fb_Events = [demo_event, demo_event],
     fb_marks = [\<lparr>em_mark = demo_mark, em_end = 1\<rparr>, \<lparr>em_mark = demo_mark\<lparr>fm_Path := ''/ftp/b''\<rparr>, em_end = 2\<rparr>]\<rparr>"

definition demo_req :: TelemetryRequest where
  "demo_req = \<lparr>tq_Metrics = [], tq_Events = fb_Events demo_batch, tq_Alarms = []\<rparr>"

definition demo_marshal :: "TelemetryRequest \<Rightarrow> bytes" where
  "demo_marshal r = concat (map (\<lambda>_. ''123456789'') (tq_Events r))"

definition demo_ef :: enqueue_faults where
  "demo_ef = \<lparr>ef_enqueue = (\<lambda>i st. i = 1 \<and> st = InsertRow), ef_mark = (\<lambda>_ _ _. False)\<rparr>"

definition capped_buffer :: Buffer where
  "capped_buffer = \<lparr>buf_db = init_db, buf_path = '':memory:'', maxBytes = 80\<rparr>"

lemma demo_split:
  "splitTelemetry demo_marshal demo_req 10 =
     [\<lparr>tp_body = ''123456789'', tp_start = 0, tp_end = 1\<rparr>, \<lparr>tp_body = ''123456789'', tp_start = 1, tp_end = 2\<rparr>]"
  by (simp add: splitTelemetry_def split_parts.simps demo_marshal_def demo_req_def demo_batch_def)

theorem enqueueTelemetry_accounts_witness:
  "\<exists>b' c'. enqueueTelemetry demo_ef demo_marshal 5 demo_req demo_batch capped_buffer demo_collector = (True, b', c')
     \<and> outbox_bodies b' = [''123456789''] \<and> ledger_stamp (buf_db b') (fm_Path demo_mark) = Some (fm_Stamp demo_mark)
     \<and> col_requeued c' = [demo_mark\<lparr>fm_Path := ''/ftp/b''\<rparr>]
     \<and> (\<exists>PM R. set (MarksIn demo_batch 0 2) \<subseteq> set PM \<union> set R
          \<and> ftp_ingested (buf_db b') = ftp_ingested (mark_all PM 5 init_db)
          \<and> c' = demo_collector\<lparr>col_requeued := R\<rparr>)"
proof -
  have gd: "go_div 80 8 = 10" by (simp add: go_div_def)
  have len: "length (tq_Events demo_req) = 2" by (simp add: demo_req_def demo_batch_def)
  obtain b' c' where run: "enqueueTelemetry demo_ef demo_marshal 5 demo_req demo_batch capped_buffer demo_collector = (True, b', c')"
    and facts: "outbox_bodies b' = [''123456789'']" "ledger_stamp (buf_db b') (fm_Path demo_mark) = Some (fm_Stamp demo_mark)"
      "col_requeued c' = [demo_mark\<lparr>fm_Path := ''/ftp/b''\<rparr>]"
    by (simp add: enqueueTelemetry_def MaxBytes_def capped_buffer_def partsPerCap_def gd len demo_split EnqueueWithMarks_def
        evictOldest_def init_db_def insert_row_def MarksIn_def demo_batch_def demo_ef_def upsertMarks_def mark_row_def
        ledger_stamp_def Requeue_def demo_collector_def New_def demo_mark_def Let_def)
  have "db_ok (buf_db capped_buffer)" by (simp add: capped_buffer_def)
  from enqueueTelemetry_accounts [OF this run] obtain PM R where
    "set (MarksIn demo_batch 0 2) \<subseteq> set PM \<union> set R" "ftp_ingested (buf_db b') = ftp_ingested (mark_all PM 5 (buf_db capped_buffer))"
    "c' = demo_collector\<lparr>col_requeued := col_requeued demo_collector @ R\<rparr>"
    unfolding len by blast
  moreover have "buf_db capped_buffer = init_db" "col_requeued demo_collector = []"
    by (simp_all add: capped_buffer_def demo_collector_def New_def)
  ultimately show ?thesis using facts run
    by (intro exI [of _ b'] exI [of _ c'] conjI exI [of _ PM] exI [of _ R]) simp_all
qed

end
