(* ===== verification/Manifests.thy ===== *)
theory Manifests
  imports JsonTypes
begin

text \<open>
  The parameter manifest, the embedded catalogue of the device's parameters, in the agent
  (\<^verbatim>\<open>src/goagent/internal/cwmp/manifest.go\<close>) and in the emulator, which has a copy of the code and of
  the asset (\<^verbatim>\<open>src/testsuite/manifest.go\<close>). Both start from the bytes of the asset. Shown here: the
  type the agent sends with a value is the type the emulator has for that parameter.
\<close>

subsection \<open>The agent\<close>

record ParamMeta =
  pm_Path :: string
  pm_Value :: string
  pm_Type :: string
  pm_Writable :: bool

record Manifest =
  mf_CanonicalID :: string
  mf_Count :: int
  mf_Params :: "ParamMeta list"
  mf_byPath :: "(string, ParamMeta) tbl"

definition zero_ParamMeta :: ParamMeta where
  "zero_ParamMeta = \<lparr>pm_Path = [], pm_Value = [], pm_Type = [], pm_Writable = False\<rparr>"

definition dec_ParamMeta :: "ParamMeta dec" where
  "dec_ParamMeta = d_struct [''p'', ''v'', ''t'', ''w''] (\<lambda>n v y.
     if n = ''p'' then into d_string v (pm_Path y) (\<lambda>z. y\<lparr>pm_Path := z\<rparr>)
     else if n = ''v'' then into d_string v (pm_Value y) (\<lambda>z. y\<lparr>pm_Value := z\<rparr>)
     else if n = ''t'' then into d_string v (pm_Type y) (\<lambda>z. y\<lparr>pm_Type := z\<rparr>)
     else into d_bool v (pm_Writable y) (\<lambda>z. y\<lparr>pm_Writable := z\<rparr>))"

definition zero_Manifest :: Manifest where
  "zero_Manifest = \<lparr>mf_CanonicalID = [], mf_Count = 0, mf_Params = [], mf_byPath = []\<rparr>"

definition dec_Manifest :: "Manifest dec" where
  "dec_Manifest = d_struct [''cwmp_id_canonical'', ''param_count'', ''params''] (\<lambda>n v y.
     if n = ''cwmp_id_canonical'' then into d_string v (mf_CanonicalID y) (\<lambda>z. y\<lparr>mf_CanonicalID := z\<rparr>)
     else if n = ''param_count'' then into d_int v (mf_Count y) (\<lambda>z. y\<lparr>mf_Count := z\<rparr>)
     else into (d_list dec_ParamMeta zero_ParamMeta) v (mf_Params y) (\<lambda>z. y\<lparr>mf_Params := z\<rparr>))"

definition LoadManifest :: "bytes \<Rightarrow> Manifest option" where
  "LoadManifest asset = (case Unmarshal dec_Manifest asset zero_Manifest of (m, ok) \<Rightarrow>
     if \<not> ok then None
     else Some (m\<lparr>mf_byPath := fold (\<lambda>p. AList.update (pm_Path p) p) (mf_Params m) []\<rparr>))"

definition xsdFor :: "string \<Rightarrow> string" where
  "xsdFor t = (if t = ''unsignedInt'' then ''xsd:unsignedInt'' else if t = ''int'' then ''xsd:int''
     else if t = ''boolean'' then ''xsd:boolean'' else if t = ''unsignedLong'' then ''xsd:unsignedLong''
     else if t = ''dateTime'' then ''xsd:dateTime'' else if t = ''hexBinary'' then ''xsd:hexBinary''
     else ''xsd:string'')"

definition XSD :: "Manifest \<Rightarrow> string \<Rightarrow> string" where
  "XSD m path = (case map_of (mf_byPath m) path of Some p \<Rightarrow> xsdFor (pm_Type p) | None \<Rightarrow> ''xsd:string'')"

definition Subtree :: "Manifest \<Rightarrow> string \<Rightarrow> string list" where
  "Subtree m p = map pm_Path (filter (\<lambda>x. HasPrefix (pm_Path x) p) (mf_Params m))"

subsection \<open>The copy of the emulator\<close>

record manifestParam =
  mp_Path :: string
  mp_Value :: string
  mp_Type :: string
  mp_Writable :: bool

record manifest =
  mn_Params :: "manifestParam list"
  mn_byPath :: "(string, manifestParam) tbl"

definition zero_manifestParam :: manifestParam where
  "zero_manifestParam = \<lparr>mp_Path = [], mp_Value = [], mp_Type = [], mp_Writable = False\<rparr>"

definition dec_manifestParam :: "manifestParam dec" where
  "dec_manifestParam = d_struct [''p'', ''v'', ''t'', ''w''] (\<lambda>n v y.
     if n = ''p'' then into d_string v (mp_Path y) (\<lambda>z. y\<lparr>mp_Path := z\<rparr>)
     else if n = ''v'' then into d_string v (mp_Value y) (\<lambda>z. y\<lparr>mp_Value := z\<rparr>)
     else if n = ''t'' then into d_string v (mp_Type y) (\<lambda>z. y\<lparr>mp_Type := z\<rparr>)
     else into d_bool v (mp_Writable y) (\<lambda>z. y\<lparr>mp_Writable := z\<rparr>))"

definition dec_manifest :: "manifest dec" where
  "dec_manifest = d_struct [''params''] (\<lambda>n v y.
     into (d_list dec_manifestParam zero_manifestParam) v (mn_Params y) (\<lambda>z. y\<lparr>mn_Params := z\<rparr>))"

definition loadManifest :: "bytes \<Rightarrow> manifest option" where
  "loadManifest asset = (case Unmarshal dec_manifest asset \<lparr>mn_Params = [], mn_byPath = []\<rparr> of (m, ok) \<Rightarrow>
     if \<not> ok then None
     else Some (m\<lparr>mn_byPath := fold (\<lambda>p. AList.update (mp_Path p) p) (mn_Params m) []\<rparr>))"

definition seedParams :: "manifest \<Rightarrow> (string, string) tbl" where
  "seedParams m = fold (\<lambda>p. AList.update (mp_Path p) (mp_Value p)) (mn_Params m) []"

definition xsdFor_copy :: "string \<Rightarrow> string" where
  "xsdFor_copy t = (if t = ''unsignedInt'' then ''xsd:unsignedInt'' else if t = ''int'' then ''xsd:int''
     else if t = ''boolean'' then ''xsd:boolean'' else if t = ''unsignedLong'' then ''xsd:unsignedLong''
     else if t = ''dateTime'' then ''xsd:dateTime'' else if t = ''hexBinary'' then ''xsd:hexBinary''
     else ''xsd:string'')"

definition xsdType :: "manifest \<Rightarrow> string \<Rightarrow> string" where
  "xsdType m path = (case map_of (mn_byPath m) path of Some p \<Rightarrow> xsdFor_copy (mp_Type p) | None \<Rightarrow> ''xsd:string'')"

subsection \<open>An index by path\<close>

lemma map_of_index:
  "map_of (fold (\<lambda>p. AList.update (f p) p) ps t) path =
     (case find (\<lambda>p. f p = path) (rev ps) of Some p \<Rightarrow> Some p | None \<Rightarrow> map_of t path)"
  by (induction ps arbitrary: t rule: rev_induct) auto

lemma XSD_LoadManifest:
  "LoadManifest asset = Some m \<Longrightarrow>
     XSD m path = (case find (\<lambda>p. pm_Path p = path) (rev (mf_Params m)) of
        Some p \<Rightarrow> xsdFor (pm_Type p) | None \<Rightarrow> ''xsd:string'')"
  by (auto simp: LoadManifest_def XSD_def map_of_index split: option.split prod.splits if_splits)

lemma xsdType_loadManifest:
  "loadManifest asset = Some m \<Longrightarrow>
     xsdType m path = (case find (\<lambda>p. mp_Path p = path) (rev (mn_Params m)) of
        Some p \<Rightarrow> xsdFor_copy (mp_Type p) | None \<Rightarrow> ''xsd:string'')"
  by (auto simp: loadManifest_def xsdType_def map_of_index split: option.split prod.splits if_splits)

lemma xsdFor_range:
  "xsdFor t \<in> {''xsd:unsignedInt'', ''xsd:int'', ''xsd:boolean'', ''xsd:unsignedLong'', ''xsd:dateTime'',
     ''xsd:hexBinary'', ''xsd:string''}"
  by (simp add: xsdFor_def)

lemma empty_asset: "LoadManifest ''{}'' = Some zero_Manifest" "loadManifest ''{}'' = Some \<lparr>mn_Params = [], mn_byPath = []\<rparr>"
proof -
  have "json_unmarshal (json_print (JObj [])) = Some (JObj [])" by (rule json_round_trip(1)) (simp add: maxNestingDepth_def)
  then have "json_unmarshal ''{}'' = Some (JObj [])" by simp
  then show "LoadManifest ''{}'' = Some zero_Manifest" "loadManifest ''{}'' = Some \<lparr>mn_Params = [], mn_byPath = []\<rparr>"
    by (simp_all add: LoadManifest_def loadManifest_def Unmarshal_def dec_Manifest_def dec_manifest_def d_struct_fill zero_Manifest_def)
qed

subsection \<open>The two agree\<close>

definition copy_of :: "ParamMeta \<Rightarrow> manifestParam" where
  "copy_of p = \<lparr>mp_Path = pm_Path p, mp_Value = pm_Value p, mp_Type = pm_Type p, mp_Writable = pm_Writable p\<rparr>"

text \<open>Decoders that do the same up to a change of the type of what they fill.\<close>

definition same_dec :: "('a \<Rightarrow> 'b) \<Rightarrow> 'a dec \<Rightarrow> 'b dec \<Rightarrow> bool" where
  "same_dec h d d' \<longleftrightarrow> (\<forall>v x. d' v (h x) = map_prod h id (d v x))"

lemma same_list:
  assumes "same_dec h d d'"
  shows "same_dec (map h) (d_list d z) (d_list d' (h z))"
proof -
  have "map2 d' vs (map h xs) = map (map_prod h id) (map2 d vs xs)" for vs xs
    using assms by (auto simp: same_dec_def map2_map_map zip_map2 intro!: nth_equalityI)
  then have "map2 d' vs (map h xs @ replicate n (h z)) = map (map_prod h id) (map2 d vs (xs @ replicate n z))" for vs xs n
    by (metis map_append map_replicate)
  then show ?thesis
    unfolding same_dec_def d_list_def by (auto simp: Let_def list_all_iff comp_def split: json.split)
qed

lemma resolve_in: "resolve ns k = Some n \<Longrightarrow> n \<in> set ns"
  by (auto simp: resolve_def find_Some_iff split: if_splits)

lemma fill_same:
  assumes "\<And>n v x. n \<in> set ns \<Longrightarrow> f' n v (h x) = map_prod h id (f n v x)"
  shows "same_dec h (d_struct ns f) (d_struct ns f')"
proof -
  have "fold (fill ns f') ms (map_prod h id r) = map_prod h id (fold (fill ns f) ms r)" for ms r
  proof (induction ms arbitrary: r)
    case (Cons m ms)
    have "fill ns f' m (map_prod h id r) = map_prod h id (fill ns f m r)"
      using assms resolve_in [of ns "fst m"] by (auto simp: fill_def split: option.split prod.split)
    then show ?case using Cons.IH by (simp only: fold_simps)
  qed simp
  from this [of _ "(_, True)"] show ?thesis
    by (auto simp: same_dec_def d_struct_fill d_struct_def [of ns f] d_struct_def [of ns f'] simp flip: d_struct_fill split: json.split)
qed

lemma same_param: "same_dec copy_of dec_ParamMeta dec_manifestParam"
  unfolding dec_ParamMeta_def dec_manifestParam_def
  by (rule fill_same) (auto simp: copy_of_def into_def d_string_def d_bool_def split: json.split)

lemma params_member: "resolve [''params''] k = (if resolve [''cwmp_id_canonical'', ''param_count'', ''params''] k = Some ''params'' then Some ''params'' else None)"
proof -
  have "list_all name_char ''cwmp_id_canonical''" "list_all name_char ''param_count''" "list_all name_char ''params''"
    by (simp_all add: name_char_def between_def)
  then have "length (fold_name ''cwmp_id_canonical'') = 17" "length (fold_name ''param_count'') = 11" "length (fold_name ''params'') = 6"
    by (simp_all add: fold_name_plain)
  then have "fold_name ''cwmp_id_canonical'' \<noteq> fold_name ''params''" "fold_name ''param_count'' \<noteq> fold_name ''params''" by auto
  then show ?thesis by (auto simp: resolve_def)
qed

definition same_params :: "Manifest \<times> bool \<Rightarrow> manifest \<times> bool \<Rightarrow> bool" where
  "same_params r r' \<longleftrightarrow> mn_Params (fst r') = map copy_of (mf_Params (fst r)) \<and> (snd r \<longrightarrow> snd r')"

lemma same_manifest: "same_params (m, True) (m', True) \<Longrightarrow> same_params (dec_Manifest v m) (dec_manifest v m')"
proof -
  let ?ns = "[''cwmp_id_canonical'', ''param_count'', ''params'']"
  let ?f = "\<lambda>n v y. if n = ''cwmp_id_canonical'' then into d_string v (mf_CanonicalID y) (\<lambda>z. y\<lparr>mf_CanonicalID := z\<rparr>)
     else if n = ''param_count'' then into d_int v (mf_Count y) (\<lambda>z. y\<lparr>mf_Count := z\<rparr>)
     else into (d_list dec_ParamMeta zero_ParamMeta) v (mf_Params y) (\<lambda>z. y\<lparr>mf_Params := z\<rparr>)"
  let ?f' = "\<lambda>n v y. into (d_list dec_manifestParam zero_manifestParam) v (mn_Params y) (\<lambda>z. y\<lparr>mn_Params := z\<rparr>)"
  have z: "zero_manifestParam = copy_of zero_ParamMeta" by (simp add: zero_manifestParam_def copy_of_def zero_ParamMeta_def)
  have l: "d_list dec_manifestParam zero_manifestParam w (map copy_of xs) = map_prod (map copy_of) id (d_list dec_ParamMeta zero_ParamMeta w xs)" for w xs
    using same_list [OF same_param] unfolding z same_dec_def by blast
  have step: "same_params (fill ?ns ?f k r) (fill [''params''] ?f' k r')" if "same_params r r'" for k r r'
    using that resolve_in [of ?ns "fst k"] unfolding fill_def params_member [of "fst k"]
    by (auto simp: same_params_def into_def l split: option.split prod.split if_splits)
  have "same_params (fold (fill ?ns ?f) ms r) (fold (fill [''params''] ?f') ms r')" if "same_params r r'" for ms r r'
    using that step by (induction ms arbitrary: r r') auto
  then show "same_params (m, True) (m', True) \<Longrightarrow> ?thesis"
    unfolding dec_Manifest_def dec_manifest_def
    by (cases v) (auto simp: d_struct_fill, auto simp: d_struct_def same_params_def)
qed

text \<open>C40. One catalogue: an asset the agent starts with is one the emulator starts with, with the same
  parameters in the same order; whatever the path, the type the agent sends for it is the type
  the emulator reports, and every parameter of the catalogue has a first value in the device.\<close>

theorem catalogues_agree:
  assumes "LoadManifest asset = Some m"
  shows "\<exists>m'. loadManifest asset = Some m' \<and> map mp_Path (mn_Params m') = map pm_Path (mf_Params m)
     \<and> (\<forall>path. xsdType m' path = XSD m path) \<and> fst ` set (seedParams m') = pm_Path ` set (mf_Params m)"
proof -
  obtain r where u: "Unmarshal dec_Manifest asset zero_Manifest = (r, True)" "mf_Params m = mf_Params r"
    using assms by (auto simp: LoadManifest_def split: prod.splits if_splits)
  then obtain v where v: "json_unmarshal asset = Some v" "dec_Manifest v zero_Manifest = (r, True)"
    by (auto simp: Unmarshal_def split: option.splits)
  have "same_params (dec_Manifest v zero_Manifest) (dec_manifest v \<lparr>mn_Params = [], mn_byPath = []\<rparr>)"
    by (rule same_manifest) (simp add: same_params_def zero_Manifest_def)
  then obtain r' where r': "dec_manifest v \<lparr>mn_Params = [], mn_byPath = []\<rparr> = (r', True)" "mn_Params r' = map copy_of (mf_Params m)"
    unfolding v(2) u(2) by (cases "dec_manifest v \<lparr>mn_Params = [], mn_byPath = []\<rparr>") (simp add: same_params_def)
  then obtain m' where m': "loadManifest asset = Some m'" "mn_Params m' = map copy_of (mf_Params m)"
    by (simp add: loadManifest_def Unmarshal_def v(1))
  have f: "find (\<lambda>p. mp_Path p = path) (map copy_of ps) = map_option copy_of (find (\<lambda>p. pm_Path p = path) ps)" for path ps
    by (induction ps) (simp_all add: copy_of_def)
  have "xsdType m' path = XSD m path" for path
    unfolding xsdType_loadManifest [OF m'(1)] XSD_LoadManifest [OF assms] m'(2) rev_map f
    by (simp add: copy_of_def xsdFor_copy_def xsdFor_def split: option.split)
  moreover have keys: "fst ` set (fold (\<lambda>p. AList.update (mp_Path p) (mp_Value p)) ps t) = fst ` set t \<union> mp_Path ` set ps" for ps t
    by (induction ps arbitrary: t) (auto simp: dom_update)
  have "fst ` set (seedParams m') = mp_Path ` copy_of ` set (mf_Params m)" unfolding seedParams_def m'(2) keys by simp
  then have "fst ` set (seedParams m') = pm_Path ` set (mf_Params m)" by (simp add: image_image copy_of_def)
  ultimately show ?thesis using m' by (auto simp: copy_of_def)
qed

definition demo_asset :: bytes where
  "demo_asset = json_print (JObj [(''params'', JArr [JObj [(''p'', JStr ''A''), (''t'', JStr ''int'')]])])"

theorem catalogues_agree_witness:
  "\<exists>m m'. LoadManifest demo_asset = Some m \<and> loadManifest demo_asset = Some m' \<and> XSD m ''A'' = ''xsd:int'' \<and> xsdType m' ''A'' = ''xsd:int''"
proof -
  let ?e = "JObj [(''p'', JStr ''A''), (''t'', JStr ''int'')]" and ?p = "zero_ParamMeta\<lparr>pm_Path := ''A'', pm_Type := ''int''\<rparr>"
  have "list_all valid_utf8 [''params'', ''p'', ''t'', ''A'', ''int'']" by simp
  then have "json_ok (JObj [(''params'', JArr [?e])]) maxNestingDepth" by (simp add: maxNestingDepth_def)
  then have u: "json_unmarshal demo_asset = Some (JObj [(''params'', JArr [?e])])" unfolding demo_asset_def by (rule json_round_trip(1))
  have "dec_ParamMeta ?e zero_ParamMeta = (?p, True)"
    by (simp add: dec_ParamMeta_def d_struct_fill fill_def resolve_def into_def d_string_def)
  then have "LoadManifest demo_asset = Some (zero_Manifest\<lparr>mf_Params := [?p], mf_byPath := [(''A'', ?p)]\<rparr>)" (is "_ = Some ?m")
    by (simp add: LoadManifest_def Unmarshal_def u dec_Manifest_def d_struct_fill fill_def resolve_def into_def d_list_def zero_Manifest_def)
  moreover have "XSD ?m ''A'' = ''xsd:int''" by (simp add: XSD_def xsdFor_def)
  moreover from catalogues_agree [OF calculation(1)] obtain m' where "loadManifest demo_asset = Some m'" "xsdType m' ''A'' = XSD ?m ''A''" by auto
  ultimately show ?thesis by auto
qed

end
