(* ===== verification/Commands.thy ===== *)
theory Commands
  imports Delivery Manifests
begin

text \<open>
  The worker's dealings with the cloud (\<^verbatim>\<open>src/goagent/internal/worker/worker.go\<close>, with
  \<open>Snapshot\<close> of \<^verbatim>\<open>collector.go\<close>): applying a polled command to its device and verifying it by
  read-back, the dedupe of commands, registration, heartbeat, snapshots and the dispatch of
  the main loop. What a device answers is a schedule of the waiting loop; the floats, the
  transport and the failures of the buffer are arguments. Go leaves the iteration order of a
  map open; here it is the order of the table.
\<close>

record 'w worker_env =
  we_manifest :: "Manifest option"
  we_verifyTimeout :: string
  we_http :: "'w transport"
  we_cancelled :: "'w \<Rightarrow> nat \<Rightarrow> bool"
  we_url_ok :: "string \<Rightarrow> bool"
  we_client :: Client
  we_register :: RegisterRequest
  we_fl :: "string \<Rightarrow> string option"

text \<open>What the outside does during one command.\<close>

record command_env =
  ce_ip :: bool
  ce_addr :: bool
  ce_first :: schedule
  ce_delay :: env_step
  ce_ctxErr :: "string option"
  ce_second :: schedule
  ce_lookup :: faults
  ce_mark :: faults
  ce_now :: int

subsection \<open>Values on the wire and in comparison\<close>

fun formatValue :: "any \<Rightarrow> string" where
  "formatValue (VFloat f) = f"
| "formatValue v = sprint v"

definition normalizeValue :: "string \<Rightarrow> string" where
  "normalizeValue s =
     (let l = ToLower (TrimSpace s) in
      if l = ''true'' then ''1'' else if l = ''false'' then ''0'' else s)"

definition valuesMatch :: "any \<Rightarrow> any \<Rightarrow> bool" where
  "valuesMatch want got \<longleftrightarrow> normalizeValue (formatValue want) = normalizeValue (formatValue got)"

definition verifyExpected :: "any_map \<Rightarrow> any_map \<Rightarrow> any_map list" where
  "verifyExpected expected readback =
     concat (map (\<lambda>(path, want). case map_of readback path of
         None \<Rightarrow> [[(''path'', VString path), (''expected'', want), (''actual'', VNil), (''missing'', VBool True)]]
       | Some got \<Rightarrow> if valuesMatch want got then []
           else [[(''path'', VString path), (''expected'', want), (''actual'', got), (''missing'', VBool False)]]) expected)"

definition expectedValues :: "CommandPayload \<Rightarrow> any_map" where
  "expectedValues p =
     (if pl_Verify p \<noteq> [] then pl_Verify p
      else fold (\<lambda>w. AList.update (wr_Path w) (wr_Value w)) (pl_Writes p) [])"

definition keysOf :: "any_map \<Rightarrow> string list" where
  "keysOf m = map fst m"

definition write_xsd :: "Manifest option \<Rightarrow> Write \<Rightarrow> string" where
  "write_xsd manifest wr =
     (let xsd = (if wr_XSDType wr = '''' then (case manifest of Some m \<Rightarrow> XSD m (wr_Path wr) | None \<Rightarrow> '''')
                 else wr_XSDType wr)
      in if xsd = '''' then ''xsd:string'' else xsd)"

definition toWrites :: "Write list \<Rightarrow> Manifest option \<Rightarrow> ParameterValueStruct list" where
  "toWrites writes manifest =
     map (\<lambda>wr. \<lparr>pv_Name = wr_Path wr,
                pv_Value = \<lparr>vn_Type = write_xsd manifest wr, vn_Text = formatValue (wr_Value wr)\<rparr>\<rparr>) writes"

definition failed :: "string \<Rightarrow> AckRequest" where
  "failed err = \<lparr>ack_Status = ''failed'', ack_Result = zero_AckResult\<lparr>ar_Detail := err\<rparr>\<rparr>"

subsection \<open>Applying a command\<close>

definition write_types :: "string list" where
  "write_types = [''configure'', ''optimise'', ''heal'', ''rollback'']"

definition spv_task :: "Manifest option \<Rightarrow> Command \<Rightarrow> Task" where
  "spv_task manifest cmd = zero_Task\<lparr>t_Type := TaskSPV, t_Writes := toWrites (pl_Writes (cmd_Payload cmd)) manifest,
     t_CmdKey := cmd_ID cmd, t_CommandID := cmd_ID cmd\<rparr>"

definition readback_task :: "Command \<Rightarrow> Task" where
  "readback_task cmd = zero_Task\<lparr>t_Type := TaskGPV, t_Paths := keysOf (expectedValues (cmd_Payload cmd)),
     t_CommandID := cmd_ID cmd @ '':rb''\<rparr>"

definition verdict :: "string \<Rightarrow> Command \<Rightarrow> any_map \<Rightarrow> AckRequest" where
  "verdict verifyTimeout cmd readback =
     (let mismatch = verifyExpected (expectedValues (cmd_Payload cmd)) readback in
      if mismatch \<noteq> [] then
        \<lparr>ack_Status = ''failed'', ack_Result = \<lparr>ar_Readback = readback, ar_Mismatch = mismatch, ar_TaskID = cmd_ID cmd,
          ar_Detail = ''device read-back did not match the requested value within '' @ verifyTimeout\<rparr>\<rparr>
      else \<lparr>ack_Status = ''applied'', ack_Result = \<lparr>ar_Readback = readback, ar_Mismatch = [], ar_TaskID = cmd_ID cmd,
          ar_Detail = ''''\<rparr>\<rparr>)"

definition apply_writes ::
    "('w, 'z) worker_env_scheme \<Rightarrow> command_env \<Rightarrow> Command \<Rightarrow> Server \<Rightarrow> db \<Rightarrow> AckRequest \<times> Server \<times> db" where
  "apply_writes we ce cmd srv d =
     (case RequestAndAwait (ce_addr ce) (cmd_CWMPID cmd) (spv_task (we_manifest we) cmd) (ce_first ce) srv d of
        (None, srv1, d1) \<Rightarrow> (failed (''device session timeout applying '' @ cmd_ID cmd), srv1, d1)
      | (Some res, srv1, d1) \<Rightarrow>
          if tr_Err res \<noteq> '''' then (failed (''device rejected write: '' @ tr_Err res), srv1, d1)
          else if tr_Status res = 1 then
            (\<lparr>ack_Status = ''applied'', ack_Result = zero_AckResult\<lparr>ar_TaskID := cmd_ID cmd,
                ar_Detail := ''applied; takes effect after device reboot''\<rparr>\<rparr>, srv1, d1)
          else (case ce_delay ce (srv1, d1) of (srv2, d2) \<Rightarrow>
            case ce_ctxErr ce of
              Some e \<Rightarrow> (failed e, srv2, d2)
            | None \<Rightarrow>
                (case RequestAndAwait (ce_addr ce) (cmd_CWMPID cmd) (readback_task cmd) (ce_second ce) srv2 d2 of
                   (None, srv3, d3) \<Rightarrow> (failed (''read-back timeout for '' @ cmd_ID cmd), srv3, d3)
                 | (Some rb, srv3, d3) \<Rightarrow> (verdict (we_verifyTimeout we) cmd (ToAnyMap (tr_Params rb)), srv3, d3))))"

definition apply_query ::
    "command_env \<Rightarrow> Command \<Rightarrow> Server \<Rightarrow> db \<Rightarrow> AckRequest \<times> Server \<times> db" where
  "apply_query ce cmd srv d =
     (case RequestAndAwait (ce_addr ce) (cmd_CWMPID cmd)
        (zero_Task\<lparr>t_Type := TaskGPV, t_Paths := pl_ReadPaths (cmd_Payload cmd), t_CommandID := cmd_ID cmd\<rparr>) (ce_first ce) srv d of
        (None, srv1, d1) \<Rightarrow> (failed (''query timeout for '' @ cmd_ID cmd), srv1, d1)
      | (Some res, srv1, d1) \<Rightarrow>
          (\<lparr>ack_Status = ''applied'', ack_Result = zero_AckResult\<lparr>ar_Readback := ToAnyMap (tr_Params res)\<rparr>\<rparr>, srv1, d1))"

definition apply_reboot ::
    "command_env \<Rightarrow> Command \<Rightarrow> Server \<Rightarrow> db \<Rightarrow> AckRequest \<times> Server \<times> db" where
  "apply_reboot ce cmd srv d =
     (case RequestAndAwait (ce_addr ce) (cmd_CWMPID cmd)
        (zero_Task\<lparr>t_Type := TaskReboot, t_CmdKey := cmd_ID cmd, t_CommandID := cmd_ID cmd\<rparr>) (ce_first ce) srv d of
        (None, srv1, d1) \<Rightarrow> (failed (''no reboot ack for '' @ cmd_ID cmd), srv1, d1)
      | (Some res, srv1, d1) \<Rightarrow> (\<lparr>ack_Status = ''applied'', ack_Result = zero_AckResult\<rparr>, srv1, d1))"

definition apply_command ::
    "('w, 'z) worker_env_scheme \<Rightarrow> command_env \<Rightarrow> Command \<Rightarrow> Server \<Rightarrow> db \<Rightarrow> AckRequest \<times> Server \<times> db" where
  "apply_command we ce cmd srv d =
     (if DeviceIP (ce_ip ce) (cmd_CWMPID cmd) d = '''' then
        (failed (''no CWMP session for device '' @ cmd_CWMPID cmd), srv, d)
      else if cmd_Type cmd \<in> set write_types then apply_writes we ce cmd srv d
      else if cmd_Type cmd = ''query'' then apply_query ce cmd srv d
      else if cmd_Type cmd = ''reboot'' then apply_reboot ce cmd srv d
      else (failed (''unknown command type '' @ Quote (cmd_Type cmd)), srv, d))"

subsection \<open>The command loop\<close>

abbreviation send_ack :: "('w, 'z) worker_env_scheme \<Rightarrow> string \<Rightarrow> AckRequest \<Rightarrow> 'w \<Rightarrow> 'w" where
  "send_ack we cid ack w \<equiv>
     fst (Ack (we_http we) (we_cancelled we w) (we_url_ok we) (we_client we) cid ack w)"

abbreviation send_snapshot :: "('w, 'z) worker_env_scheme \<Rightarrow> string \<Rightarrow> SnapshotRequest \<Rightarrow> 'w \<Rightarrow> 'w" where
  "send_snapshot we dev req w \<equiv>
     fst (SendSnapshot (we_http we) (we_cancelled we w) (we_url_ok we) (we_client we) dev req w)"

definition postCommandSnapshot :: "('w, 'z) worker_env_scheme \<Rightarrow> string \<Rightarrow> any_map \<Rightarrow> 'w \<Rightarrow> 'w" where
  "postCommandSnapshot we dev readback w =
     (if readback = [] then w
      else send_snapshot we dev \<lparr>sn_Params = readback, sn_Source = ''command_readback''\<rparr> w)"

text \<open>The result of a command as the table of applied commands keeps it, and as it is read from there;
  errors of the encoder and the decoder are dropped.\<close>

definition stored_result :: "AckResult \<Rightarrow> bytes" where
  "stored_result r = (case Marshal json_AckResult r of None \<Rightarrow> [] | Some b \<Rightarrow> b)"

definition result_of :: "(string \<Rightarrow> string option) \<Rightarrow> bytes \<Rightarrow> AckResult" where
  "result_of fl b = fst (Unmarshal (dec_AckResult fl) b zero_AckResult)"

definition handle_one ::
    "('w, 'z) worker_env_scheme \<Rightarrow> command_env \<Rightarrow> Command \<Rightarrow> Server \<times> db \<times> 'w \<Rightarrow> Server \<times> db \<times> 'w" where
  "handle_one we ce cmd s = (case s of (srv, d, w) \<Rightarrow>
     case AlreadyApplied (ce_lookup ce) (cmd_ID cmd) d of
       Inr (Some (status, result)) \<Rightarrow>
         (srv, d, send_ack we (cmd_ID cmd) \<lparr>ack_Status = status, ack_Result = result_of (we_fl we) result\<rparr> w)
     | _ \<Rightarrow>
         (let (ack, srv1, d1) = apply_command we ce cmd srv d;
              d2 = snd (MarkApplied (ce_mark ce) (cmd_ID cmd) (ack_Status ack) (stored_result (ack_Result ack)) (ce_now ce) d1);
              w1 = send_ack we (cmd_ID cmd) ack w
          in (srv1, d2, if ack_Status ack = ''applied'' \<and> pl_Writes (cmd_Payload cmd) \<noteq> []
              then postCommandSnapshot we (cmd_CWMPID cmd) (ar_Readback (ack_Result ack)) w1 else w1)))"

fun handle_loop ::
    "('w, 'z) worker_env_scheme \<Rightarrow> (nat \<Rightarrow> command_env) \<Rightarrow> nat \<Rightarrow> Command list \<Rightarrow> Server \<times> db \<times> 'w \<Rightarrow> Server \<times> db \<times> 'w" where
  "handle_loop we ces i [] s = s"
| "handle_loop we ces i (cmd # cmds) s = handle_loop we ces (Suc i) cmds (handle_one we (ces i) cmd s)"

definition handleCommands ::
    "('w, 'z) worker_env_scheme \<Rightarrow> (nat \<Rightarrow> command_env) \<Rightarrow> Server \<times> db \<times> 'w \<Rightarrow> Server \<times> db \<times> 'w" where
  "handleCommands we ces s = (case s of (srv, d, w) \<Rightarrow>
     case Poll (we_fl we) (we_http we) (we_cancelled we w) (we_url_ok we) (we_client we) w of
       (w1, Inl e) \<Rightarrow> (srv, d, w1)
     | (w1, Inr cmds) \<Rightarrow> handle_loop we ces 0 cmds (srv, d, w1))"

subsection \<open>Read-back verification\<close>

lemma verifyExpected_Nil:
  "verifyExpected expected readback = [] \<longleftrightarrow>
     (\<forall>(p, want)\<in>set expected. \<exists>got. map_of readback p = Some got \<and> valuesMatch want got)"
  by (auto simp: verifyExpected_def split: option.splits if_splits)

lemma map_of_ToAnyMap: "map_of (ToAnyMap m) p = map_option VString (map_of m p)"
  by (simp add: ToAnyMap_def map_of_map)

lemma verifyExpected_params:
  "verifyExpected expected (ToAnyMap m) = [] \<longleftrightarrow>
     (\<forall>(p, want)\<in>set expected. \<exists>got. map_of m p = Some got \<and> valuesMatch want (VString got))"
proof -
  have "(\<exists>got. map_of (ToAnyMap m) p = Some got \<and> valuesMatch want got)
      \<longleftrightarrow> (\<exists>got. map_of m p = Some got \<and> valuesMatch want (VString got))" for p want
    by (cases "map_of m p") (simp_all add: map_of_ToAnyMap)
  then show ?thesis by (simp add: verifyExpected_Nil)
qed

lemma verdict_applied: "ack_Status (verdict t cmd rb) = ''applied'' \<longleftrightarrow> verifyExpected (expectedValues (cmd_Payload cmd)) rb = []"
  by (simp add: verdict_def Let_def)

lemma verdict_readback [simp]: "ar_Readback (ack_Result (verdict t cmd rb)) = rb"
  by (simp add: verdict_def Let_def)

lemma valuesMatch_text: "valuesMatch want (VString got) \<longleftrightarrow> normalizeValue got = normalizeValue (formatValue want)"
  by (auto simp: valuesMatch_def)

text \<open>The text last written to each path.\<close>

definition written :: "ParameterValueStruct list \<Rightarrow> string \<Rightarrow> string option" where
  "written ws = map_of (rev (map (\<lambda>w. (pv_Name w, vn_Text (pv_Value w))) ws))"

lemma map_of_updates: "map_of (fold (\<lambda>w. AList.update (f w) (g w)) ws t) p =
    (case map_of (rev (map (\<lambda>w. (f w, g w)) ws)) p of Some v \<Rightarrow> Some v | None \<Rightarrow> map_of t p)"
  by (induction ws arbitrary: t) (auto simp: update_conv' map_add_def split: option.splits)

lemma keyed_updates: "keyed t \<Longrightarrow> keyed (fold (\<lambda>w. AList.update (f w) (g w)) ws t)"
  by (induction ws arbitrary: t) (auto simp: distinct_update)

lemma written_expected:
  assumes "pl_Verify p = []"
  shows "written (toWrites (pl_Writes p) m) q = map_option formatValue (map_of (expectedValues p) q)"
proof -
  have "map_of (rev (map (\<lambda>w. (wr_Path w, formatValue (wr_Value w))) ws)) q
      = map_option formatValue (map_of (rev (map (\<lambda>w. (wr_Path w, wr_Value w)) ws)) q)" for ws :: "Write list"
    by (induction ws rule: rev_induct) auto
  with assms show ?thesis
    by (simp add: written_def toWrites_def comp_def expectedValues_def map_of_updates split: option.splits)
qed

text \<open>What decides about a write command without an explicit check list: it counts as
  applied exactly when the device reads back, for every path written, the text last sent for
  that path, up to the spelling of booleans.\<close>

theorem verdict_compares_written_text:
  assumes "pl_Verify (cmd_Payload cmd) = []"
  shows "ack_Status (verdict t cmd (ToAnyMap params)) = ''applied'' \<longleftrightarrow>
    (\<forall>path text. written (toWrites (pl_Writes (cmd_Payload cmd)) manifest) path = Some text \<longrightarrow>
       (\<exists>got. map_of params path = Some got \<and> normalizeValue got = normalizeValue text))"
proof -
  let ?e = "expectedValues (cmd_Payload cmd)"
  have "keyed ?e" using assms by (simp add: expectedValues_def keyed_updates)
  then have "ack_Status (verdict t cmd (ToAnyMap params)) = ''applied'' \<longleftrightarrow>
      (\<forall>p want. map_of ?e p = Some want \<longrightarrow> (\<exists>got. map_of params p = Some got \<and> normalizeValue got = normalizeValue (formatValue want)))"
    by (simp add: verdict_applied verifyExpected_params valuesMatch_text) fastforce
  also have "\<dots> \<longleftrightarrow> (\<forall>path text. written (toWrites (pl_Writes (cmd_Payload cmd)) manifest) path = Some text \<longrightarrow>
       (\<exists>got. map_of params path = Some got \<and> normalizeValue got = normalizeValue text))"
    by (auto simp: written_expected [OF assms])
  finally show ?thesis .
qed

subsection \<open>What an acknowledgement means\<close>

text \<open>C5. A write command is acknowledged as applied only after the device took the write
  without a fault, and then either announced that it takes effect at its next reboot or was
  read back with every expected value in place.\<close>

theorem apply_applied_verified:
  assumes "cmd_Type cmd \<in> set write_types"
    and "apply_command we ce cmd srv d = (ack, srv', d')" and "ack_Status ack = ''applied''"
  shows "\<exists>res srv1 d1. RequestAndAwait (ce_addr ce) (cmd_CWMPID cmd) (spv_task (we_manifest we) cmd) (ce_first ce) srv d
        = (Some res, srv1, d1) \<and> tr_Err res = ''''
     \<and> (tr_Status res = 1 \<and> ar_Readback (ack_Result ack) = []
        \<or> tr_Status res \<noteq> 1 \<and> (\<exists>srv2 d2 rb. ce_delay ce (srv1, d1) = (srv2, d2)
            \<and> RequestAndAwait (ce_addr ce) (cmd_CWMPID cmd) (readback_task cmd) (ce_second ce) srv2 d2 = (Some rb, srv', d')
            \<and> ar_Readback (ack_Result ack) = ToAnyMap (tr_Params rb)
            \<and> (\<forall>(p, want)\<in>set (expectedValues (cmd_Payload cmd)).
                 \<exists>got. map_of (tr_Params rb) p = Some got \<and> valuesMatch want (VString got))))"
proof -
  have "DeviceIP (ce_ip ce) (cmd_CWMPID cmd) d \<noteq> ''''"
    using assms by (auto simp: apply_command_def failed_def)
  with assms have run: "apply_writes we ce cmd srv d = (ack, srv', d')" by (simp add: apply_command_def)
  obtain r srv1 d1 where spv: "RequestAndAwait (ce_addr ce) (cmd_CWMPID cmd) (spv_task (we_manifest we) cmd) (ce_first ce) srv d
      = (r, srv1, d1)" by (metis surj_pair)
  obtain srv2 d2 where dl: "ce_delay ce (srv1, d1) = (srv2, d2)" by (metis surj_pair)
  obtain r2 srv3 d3 where rb: "RequestAndAwait (ce_addr ce) (cmd_CWMPID cmd) (readback_task cmd) (ce_second ce) srv2 d2
      = (r2, srv3, d3)" by (metis surj_pair)
  note run' = run [unfolded apply_writes_def spv prod.case dl rb]
  obtain res where r: "r = Some res" "tr_Err res = ''''"
    using run' assms(3) by (cases r) (auto simp: failed_def split: if_splits)
  show ?thesis
  proof (cases "tr_Status res = 1")
    case True
    with run' r have "ar_Readback (ack_Result ack) = []" by (auto simp: zero_AckResult_def)
    with True r spv show ?thesis by blast
  next
    case False
    with run' r assms(3) obtain x where x: "r2 = Some x" "ack = verdict (we_verifyTimeout we) cmd (ToAnyMap (tr_Params x))"
      "srv' = srv3" "d' = d3"
      by (cases "ce_ctxErr ce"; cases r2) (auto simp: failed_def)
    have "verifyExpected (expectedValues (cmd_Payload cmd)) (ToAnyMap (tr_Params x)) = []"
      using assms(3) x(2) by (simp add: verdict_applied)
    then have "\<forall>(p, want)\<in>set (expectedValues (cmd_Payload cmd)).
         \<exists>got. map_of (tr_Params x) p = Some got \<and> valuesMatch want (VString got)"
      by (simp add: verifyExpected_params)
    with False r spv dl rb x show ?thesis by auto
  qed
qed

text \<open>Every command is answered: the acknowledgement says applied or failed, a failure says
  why, and a command for a device that never onboarded or of an unknown type reaches no
  session and no table.\<close>

theorem apply_always_answers:
  assumes "apply_command we ce cmd srv d = (ack, srv', d')" and "ce_ctxErr ce \<noteq> Some ''''"
  shows "(ack_Status ack = ''applied'' \<or> ack_Status ack = ''failed'' \<and> ar_Detail (ack_Result ack) \<noteq> '''')
     \<and> (DeviceIP (ce_ip ce) (cmd_CWMPID cmd) d = '''' \<or> cmd_Type cmd \<notin> set (write_types @ [''query'', ''reboot''])
          \<longrightarrow> ack_Status ack = ''failed'' \<and> srv' = srv \<and> d' = d)"
proof -
  have v: "ack_Status (verdict t cmd rb) = ''applied'' \<or> ack_Status (verdict t cmd rb) = ''failed'' \<and> ar_Detail (ack_Result (verdict t cmd rb)) \<noteq> ''''"
    for t rb by (simp add: verdict_def Let_def)
  have w: "ack_Status a = ''applied'' \<or> ack_Status a = ''failed'' \<and> ar_Detail (ack_Result a) \<noteq> ''''"
    if "apply_writes we ce cmd srv d = (a, s1, d1)" for a s1 d1
    using that assms(2) v by (auto simp: apply_writes_def failed_def split: prod.splits option.splits if_splits)
  have q: "ack_Status a = ''applied'' \<or> ack_Status a = ''failed'' \<and> ar_Detail (ack_Result a) \<noteq> ''''"
    if "apply_query ce cmd srv d = (a, s1, d1)" for a s1 d1
    using that by (auto simp: apply_query_def failed_def split: prod.splits option.splits)
  have b: "ack_Status a = ''applied'' \<or> ack_Status a = ''failed'' \<and> ar_Detail (ack_Result a) \<noteq> ''''"
    if "apply_reboot ce cmd srv d = (a, s1, d1)" for a s1 d1
    using that by (auto simp: apply_reboot_def failed_def split: prod.splits option.splits)
  show ?thesis
    using assms(1) w q b by (auto simp: apply_command_def failed_def split: if_splits)
qed

text \<open>What is stored of a result is read back, its maps in the order of their keys.\<close>

lemma result_of_stored:
  assumes "result_ok fl n r" "n + 2 \<le> maxNestingDepth"
  shows "result_of fl (stored_result r) = result_norm r"
proof -
  obtain j where j: "json_AckResult r = Some j" "json_ok j (n + 2)" "dec_AckResult fl j zero_AckResult = (result_norm r, True)"
    using result_round_trip [OF assms(1)] .
  have "json_unmarshal (json_print j) = Some j" using json_round_trip(1) [OF json_ok_mono [OF j(2) assms(2)]] .
  then show ?thesis by (simp add: result_of_def stored_result_def Marshal_def Unmarshal_def j)
qed

text \<open>What handling a command does when the lookup in the table fails: the code goes on as if the
  command were new.\<close>

lemma handle_one_lookup_fails:
  assumes "ce_lookup ce PointQuery" and "apply_command we ce cmd srv d = (ack, srv1, d1)"
  shows "handle_one we ce cmd (srv, d, w) =
     (srv1, snd (MarkApplied (ce_mark ce) (cmd_ID cmd) (ack_Status ack) (stored_result (ack_Result ack)) (ce_now ce) d1),
      if ack_Status ack = ''applied'' \<and> pl_Writes (cmd_Payload cmd) \<noteq> []
      then postCommandSnapshot we (cmd_CWMPID cmd) (ar_Readback (ack_Result ack)) (send_ack we (cmd_ID cmd) ack w)
      else send_ack we (cmd_ID cmd) ack w)"
  using assms by (simp add: handle_one_def AlreadyApplied_def Let_def)

text \<open>C4. A command is carried out once, as far as the table of applied commands answers. Once
  a command's outcome has been written to the table, and is still there: if the lookup in the
  table succeeds, handling the command again leaves the server and the store alone and sends
  the very acknowledgement of the first time, byte for byte, however often the cloud repeats
  it; if the lookup fails, the code does not hold the command back, but carries it out on the
  device again, and when the new outcome can be written it takes the place of the first. The
  texts of the outcome are valid UTF-8 and its values not nested too deeply.\<close>

theorem command_applied_once:
  assumes "AlreadyApplied (ce_lookup ce) (cmd_ID cmd) d = Inr None"
    and "apply_command we ce cmd srv d = (ack, srv1, d0)"
    and "handle_one we ce cmd (srv, d, w) = (srv', d', w')"
    and "\<not> ce_mark ce (WriteStmt 0)"
    and "map_of (applied d2) (cmd_ID cmd) = map_of (applied d') (cmd_ID cmd)"
    and "result_ok (we_fl we) n (ack_Result ack)" and "n + 2 \<le> maxNestingDepth"
  shows "srv' = srv1
    \<and> (if ce_lookup ce' PointQuery
       then \<forall>ack2 srv3 d3. apply_command we ce' cmd srv2 d2 = (ack2, srv3, d3) \<longrightarrow>
          (\<exists>d4 w4. handle_one we ce' cmd (srv2, d2, w2) = (srv3, d4, w4)
             \<and> (\<not> ce_mark ce' (WriteStmt 0) \<longrightarrow> AlreadyApplied no_faults (cmd_ID cmd) d4
                  = Inr (Some (ack_Status ack2, stored_result (ack_Result ack2)))))
       else handle_one we ce' cmd (srv2, d2, w2) = (srv2, d2, send_ack we (cmd_ID cmd) ack w2))"
proof -
  let ?res = "stored_result (ack_Result ack)"
  have d': "srv' = srv1"
    "d' = snd (MarkApplied (ce_mark ce) (cmd_ID cmd) (ack_Status ack) ?res (ce_now ce) d0)"
    using assms(1-3) by (simp_all add: handle_one_def Let_def)
  show ?thesis
  proof (cases "ce_lookup ce' PointQuery")
    case True
    have "AlreadyApplied no_faults (cmd_ID cmd) (snd (MarkApplied flt (cmd_ID cmd) st r now d3)) = Inr (Some (st, r))"
      if "\<not> flt (WriteStmt 0)" for flt st r now d3
      using that by (intro AlreadyApplied_MarkApplied [THEN trans]) (auto simp: MarkApplied_def)
    with True d'(1) show ?thesis by (auto simp: handle_one_lookup_fails)
  next
    case False
    have "map_option (\<lambda>r. (ap_status r, ap_result r)) (map_of (applied d') (cmd_ID cmd)) = Some (ack_Status ack, ?res)"
      using assms(4) by (auto simp: d'(2) MarkApplied_def split: option.split)
    then have "AlreadyApplied (ce_lookup ce') (cmd_ID cmd) d2 = Inr (Some (ack_Status ack, ?res))"
      using False assms(5) by (auto simp: AlreadyApplied_def)
    moreover have "json_AckRequest \<lparr>ack_Status = ack_Status ack, ack_Result = result_norm (ack_Result ack)\<rparr> = json_AckRequest ack"
      using ack_printed_again [of "ack_Status ack" "ack_Result ack"] by (cases ack) simp
    then have "send_ack we (cmd_ID cmd) \<lparr>ack_Status = ack_Status ack, ack_Result = result_of (we_fl we) ?res\<rparr> w2 = send_ack we (cmd_ID cmd) ack w2"
      by (simp add: Ack_def Marshal_def result_of_stored [OF assms(6,7)])
    ultimately show ?thesis using d'(1) False by (simp only: handle_one_def prod.case sum.case option.case if_False simp_thms)
  qed
qed

text \<open>As the code has it, the fault a device answers to a query or a reboot is not looked
  at: whatever answer arrives, the command is acknowledged as applied, without a detail.\<close>

theorem device_fault_reported_as_applied:
  assumes "DeviceIP (ce_ip ce) (cmd_CWMPID cmd) d \<noteq> ''''" and "cmd_Type cmd = ''query'' \<or> cmd_Type cmd = ''reboot''"
    and "RequestAndAwait (ce_addr ce) (cmd_CWMPID cmd)
      (if cmd_Type cmd = ''query''
       then zero_Task\<lparr>t_Type := TaskGPV, t_Paths := pl_ReadPaths (cmd_Payload cmd), t_CommandID := cmd_ID cmd\<rparr>
       else zero_Task\<lparr>t_Type := TaskReboot, t_CmdKey := cmd_ID cmd, t_CommandID := cmd_ID cmd\<rparr>) (ce_first ce) srv d
      = (Some res, srv1, d1)"
    and "tr_Err res \<noteq> ''''"
  shows "\<exists>ack. apply_command we ce cmd srv d = (ack, srv1, d1) \<and> ack_Status ack = ''applied'' \<and> ar_Detail (ack_Result ack) = ''''"
  using assms by (auto simp: apply_command_def write_types_def apply_query_def apply_reboot_def zero_AckResult_def)

subsection \<open>Witnesses\<close>

definition demo_db :: db where
  "demo_db = init_db\<lparr>cwmp_devices := [(''A-B-1'', \<lparr>dr_ip = ''10.0.0.1'', dr_manufacturer = '''', dr_product_class = ''B'',
     dr_serial_number = ''1'', dr_sw_version = '''', dr_last_inform_at = 0, dr_writability_loaded = 0\<rparr>)]\<rparr>"

definition demo_answer :: "TaskResult \<Rightarrow> env_step" where
  "demo_answer r = (\<lambda>(srv, d). (snd (on_session ''A-B-1'' (\<lambda>s. ((), s\<lparr>s_results := [r]\<rparr>)) () srv), d))"

definition demo_cmd :: "string \<Rightarrow> Command" where
  "demo_cmd ty = \<lparr>cmd_ID = ''c1'', cmd_DeviceID = ''dev'', cmd_CWMPID = ''A-B-1'', cmd_Type = ty,
     cmd_Payload = \<lparr>pl_Writes = [\<lparr>wr_Path = ''P'', wr_Value = VBool True, wr_XSDType = ''xsd:boolean''\<rparr>], pl_Verify = [],
        pl_RollbackOnFail = False, pl_ReadPaths = [''P'']\<rparr>\<rparr>"

definition demo_ce :: "TaskResult \<Rightarrow> TaskResult \<Rightarrow> command_env" where
  "demo_ce r1 r2 = \<lparr>ce_ip = False, ce_addr = False, ce_first = [(demo_answer r1, FromResults)], ce_delay = (\<lambda>x. x),
     ce_ctxErr = None, ce_second = [(demo_answer r2, FromResults)], ce_lookup = no_faults, ce_mark = no_faults, ce_now = 7\<rparr>"

definition demo_we :: "nat worker_env" where
  "demo_we = \<lparr>we_manifest = None, we_verifyTimeout = ''15s'', we_http = (\<lambda>n req. (Suc n, Response 200 '''')),
     we_cancelled = (\<lambda>_ _. False), we_url_ok = (\<lambda>_. True), we_client = newClient ''http://c'' ''key'',
     we_register = \<lparr>rr_AgentVersion = '''', rr_Meta = []\<rparr>, we_fl = Some\<rparr>"

definition done_result :: TaskResult where
  "done_result = zero_TaskResult\<lparr>tr_CommandID := ''c1'', tr_Type := TaskSPV\<rparr>"

definition read_result :: TaskResult where
  "read_result = zero_TaskResult\<lparr>tr_CommandID := ''c1:rb'', tr_Params := [(''P'', ''1'')]\<rparr>"

definition fault_result :: TaskResult where
  "fault_result = zero_TaskResult\<lparr>tr_CommandID := ''c1'', tr_Err := ''9002 Internal error''\<rparr>"

lemmas command_demo_defs = demo_db_def demo_answer_def demo_cmd_def demo_ce_def demo_we_def done_result_def
  read_result_def fault_result_def zero_TaskResult_def

lemmas await_eval = RequestAndAwait_def Await_def await_begin_def waitFor_def enqueue_def chan_send_def chanCap_def
  newSession_def server_demo_defs

lemma demo_ip: "DeviceIP False ''A-B-1'' demo_db = ''10.0.0.1''"
  by (simp add: DeviceIP_def demo_db_def)

theorem verdict_compares_written_text_witness:
  "pl_Verify (cmd_Payload (demo_cmd ''configure'')) = []
     \<and> ack_Status (verdict ''15s'' (demo_cmd ''configure'') (ToAnyMap [(''P'', ''1'')])) = ''applied''
     \<and> ack_Status (verdict ''15s'' (demo_cmd ''configure'') (ToAnyMap [(''P'', ''0'')])) \<noteq> ''applied''"
proof -
  have v: "pl_Verify (cmd_Payload (demo_cmd ''configure'')) = []" by (simp add: demo_cmd_def)
  have n: "normalizeValue ''true'' = ''1''" "normalizeValue ''1'' = ''1''" "normalizeValue ''0'' = ''0''" by code_simp+
  have w: "written (toWrites (pl_Writes (cmd_Payload (demo_cmd ''configure''))) None) p = (if p = ''P'' then Some ''true'' else None)" for p
    by (simp add: written_def toWrites_def demo_cmd_def)
  show ?thesis
    using verdict_compares_written_text [OF v, of "''15s''" "[(''P'', ''1'')]" None]
      verdict_compares_written_text [OF v, of "''15s''" "[(''P'', ''0'')]" None] v
    by (auto simp: w n)
qed

theorem apply_applied_verified_witness:
  "\<exists>ack srv' d' res srv1 d1. apply_command demo_we (demo_ce done_result read_result) (demo_cmd ''configure'') fresh_server demo_db = (ack, srv', d')
     \<and> ack_Status ack = ''applied'' \<and> ar_Readback (ack_Result ack) = [(''P'', VString ''1'')]
     \<and> RequestAndAwait False ''A-B-1'' (spv_task None (demo_cmd ''configure'')) [(demo_answer done_result, FromResults)] fresh_server demo_db
         = (Some res, srv1, d1) \<and> tr_Err res = '''' \<and> tr_Status res \<noteq> 1"
proof -
  let ?ce = "demo_ce done_result read_result" and ?cmd = "demo_cmd ''configure''"
  obtain ack srv' d' where run: "apply_command demo_we ?ce ?cmd fresh_server demo_db = (ack, srv', d')" by (metis surj_pair)
  have wr: "apply_command demo_we ?ce ?cmd fresh_server demo_db = apply_writes demo_we ?ce ?cmd fresh_server demo_db"
    by (simp add: apply_command_def demo_ip write_types_def demo_ce_def demo_cmd_def)
  have n: "normalizeValue ''true'' = ''1''" "normalizeValue ''1'' = ''1''" by code_simp+
  have "ack = verdict ''15s'' ?cmd (ToAnyMap [(''P'', ''1'')])"
    using run unfolding wr
    by (simp add: apply_writes_def spv_task_def readback_task_def await_eval command_demo_defs on_session_def put_session_def
        release_def deviceSessionLocked_def srv_Enqueue_def)
  then have ok: "ack_Status ack = ''applied''" "ar_Readback (ack_Result ack) = [(''P'', VString ''1'')]"
    by (simp_all add: verdict_applied verifyExpected_params expectedValues_def valuesMatch_text n demo_cmd_def)
      (simp add: ToAnyMap_def)
  have ty: "cmd_Type ?cmd \<in> set write_types" by (simp add: demo_cmd_def write_types_def)
  from apply_applied_verified [OF ty run ok(1)] run ok show ?thesis
    by (auto simp: demo_we_def demo_ce_def demo_cmd_def)
qed

theorem apply_always_answers_witness:
  "\<exists>ack srv' d'. apply_command demo_we (demo_ce done_result read_result) (demo_cmd ''frob'') fresh_server demo_db = (ack, srv', d')
     \<and> ack_Status ack = ''failed'' \<and> srv' = fresh_server \<and> d' = demo_db"
proof -
  obtain ack srv' d' where run: "apply_command demo_we (demo_ce done_result read_result) (demo_cmd ''frob'') fresh_server demo_db = (ack, srv', d')"
    by (metis surj_pair)
  have "ce_ctxErr (demo_ce done_result read_result) \<noteq> Some ''''" by (simp add: demo_ce_def)
  from apply_always_answers [OF run this] run show ?thesis by (simp add: demo_cmd_def write_types_def)
qed

theorem command_applied_once_witness:
  "\<exists>ack srv' d' w' d4 w4. handle_one demo_we (demo_ce done_result read_result) (demo_cmd ''frob'') (fresh_server, demo_db, 0) = (srv', d', w')
     \<and> ack_Status ack = ''failed''
     \<and> handle_one demo_we (demo_ce done_result read_result) (demo_cmd ''frob'') (srv', d', w')
         = (srv', d', send_ack demo_we ''c1'' ack w')
     \<and> handle_one demo_we ((demo_ce done_result read_result)\<lparr>ce_lookup := \<lambda>_. True\<rparr>) (demo_cmd ''frob'') (srv', d', w')
         = (srv', d4, w4)"
proof -
  let ?ce = "demo_ce done_result read_result" and ?cmd = "demo_cmd ''frob''"
  let ?down = "?ce\<lparr>ce_lookup := \<lambda>_. True\<rparr>" and ?ack = "failed (''unknown command type '' @ Quote ''frob'')"
  have run: "apply_command demo_we ?ce ?cmd fresh_server demo_db = (?ack, fresh_server, demo_db)"
    by (simp add: apply_command_def demo_ip write_types_def demo_ce_def demo_cmd_def)
  obtain srv' d' w' where h: "handle_one demo_we ?ce ?cmd (fresh_server, demo_db, 0) = (srv', d', w')" by (metis surj_pair)
  have a: "AlreadyApplied (ce_lookup ?ce) (cmd_ID ?cmd) demo_db = Inr None"
    by (simp add: AlreadyApplied_def demo_ce_def demo_db_def init_db_def)
  have m: "\<not> ce_mark ?ce (WriteStmt 0)" and l: "\<not> ce_lookup ?ce PointQuery" by (simp_all add: demo_ce_def)
  have "valid_utf8 (''unknown command type '' @ Quote ''frob'')" by code_simp
  then have ok: "result_ok (we_fl demo_we) 1 (ack_Result ?ack)"
    by (simp add: result_ok_def map_ok_def failed_def zero_AckResult_def)
  have n: "1 + 2 \<le> maxNestingDepth" by (simp add: maxNestingDepth_def)
  note once = command_applied_once [OF a run h m refl ok n]
  from once [of ?ce srv' w', THEN conjunct2] l have again: "handle_one demo_we ?ce ?cmd (srv', d', w') = (srv', d', send_ack demo_we (cmd_ID ?cmd) ?ack w')"
    by (simp only: if_False)
  obtain ack2 srv3 d3 where run2: "apply_command demo_we ?down ?cmd srv' d' = (ack2, srv3, d3)" by (metis surj_pair)
  from once [of ?down srv' w'] run2 obtain d4 w4 where down: "handle_one demo_we ?down ?cmd (srv', d', w') = (srv3, d4, w4)"
    by auto
  have "srv3 = srv'"
    using run2 by (auto simp: apply_command_def write_types_def demo_cmd_def split: if_splits)
  moreover have "cmd_ID ?cmd = ''c1''" "ack_Status ?ack = ''failed''" by (simp_all add: demo_cmd_def failed_def)
  ultimately show ?thesis using h again down by metis
qed

theorem device_fault_reported_as_applied_witness:
  "\<exists>ack srv1 d1. apply_command demo_we (demo_ce fault_result read_result) (demo_cmd ''reboot'') fresh_server demo_db = (ack, srv1, d1)
     \<and> tr_Err fault_result \<noteq> '''' \<and> ack_Status ack = ''applied''"
proof -
  let ?ce = "demo_ce fault_result read_result" and ?cmd = "demo_cmd ''reboot''"
  have "fst (RequestAndAwait (ce_addr ?ce) (cmd_CWMPID ?cmd)
      (zero_Task\<lparr>t_Type := TaskReboot, t_CmdKey := cmd_ID ?cmd, t_CommandID := cmd_ID ?cmd\<rparr>) (ce_first ?ce) fresh_server demo_db)
      = Some fault_result"
    by (simp add: await_eval command_demo_defs on_session_def put_session_def release_def deviceSessionLocked_def srv_Enqueue_def)
  then obtain srv1 d1 where r: "RequestAndAwait (ce_addr ?ce) (cmd_CWMPID ?cmd)
      (zero_Task\<lparr>t_Type := TaskReboot, t_CmdKey := cmd_ID ?cmd, t_CommandID := cmd_ID ?cmd\<rparr>) (ce_first ?ce) fresh_server demo_db
      = (Some fault_result, srv1, d1)" by (metis prod.collapse)
  have e: "tr_Err fault_result \<noteq> ''''" by (simp add: fault_result_def)
  have t: "cmd_Type ?cmd = ''reboot''" by (simp add: demo_cmd_def)
  have i: "DeviceIP (ce_ip ?ce) (cmd_CWMPID ?cmd) demo_db \<noteq> ''''" using demo_ip by (simp add: demo_ce_def demo_cmd_def)
  from device_fault_reported_as_applied [OF i _ _ e, of fresh_server srv1 d1 demo_we] r t e show ?thesis by auto
qed

end
