(* ===== verification/ConnRequest.thy ===== *)
theory ConnRequest
  imports Server
begin

text \<open>
  The connection request (\<^verbatim>\<open>src/goagent/internal/cwmp/connrequest.go\<close>): the digest challenge
  of the device is parsed and answered. The HTTP client (\<open>get\<close>, and \<open>do_auth\<close> with an
  Authorization header), the request URI of a URL (\<open>request_uri\<close>, \<open>None\<close>: it does not
  parse) and the MD5 digest are arguments.
\<close>

definition Trim :: "string \<Rightarrow> char \<Rightarrow> string" where
  "Trim s c = TrimRight (dropWhile (\<lambda>x. x = c) s) c"

definition digest_step :: "string \<Rightarrow> (string, string) tbl \<Rightarrow> (string, string) tbl" where
  "digest_step kv m = (case SplitN 2 (TrimSpace kv) (CHR ''='') of
       [k, v] \<Rightarrow> AList.update k (Trim v (CHR 0x22)) m | _ \<Rightarrow> m)"

definition parseDigest :: "string \<Rightarrow> (string, string) tbl" where
  "parseDigest h = fold digest_step (Split (TrimPrefix h ''Digest '') (CHR '','')) []"

datatype cr_error = DialError | UnexpectedStatus nat | AuthFailed nat

definition digest_lookup :: "(string, string) tbl \<Rightarrow> string \<Rightarrow> string" where
  "digest_lookup m k = (case map_of m k of Some v \<Rightarrow> v | None \<Rightarrow> '''')"

definition digest_header ::
    "(string \<Rightarrow> string) \<Rightarrow> string \<Rightarrow> string \<Rightarrow> string \<Rightarrow> (string, string) tbl \<Rightarrow> string" where
  "digest_header md5hex user pass uri ch =
     (let realm = digest_lookup ch ''realm''; nonce = digest_lookup ch ''nonce'';
          ha1 = md5hex (user @ '':'' @ realm @ '':'' @ pass);
          ha2 = md5hex (''GET:'' @ uri);
          nc = ''00000001''; cnonce = ''cloudlynet'';
          resp = md5hex (Join [ha1, nonce, nc, cnonce, ''auth'', ha2] '':'')
      in ''Digest username='' @ Quote user @ '', realm='' @ Quote realm @ '', nonce='' @ Quote nonce
         @ '', uri='' @ Quote uri @ '', qop=auth, nc='' @ nc @ '', cnonce='' @ Quote cnonce
         @ '', response='' @ Quote resp)"

definition TriggerConnectionRequest ::
    "(string \<Rightarrow> string) \<Rightarrow> (string \<Rightarrow> string option) \<Rightarrow> (string \<Rightarrow> (nat \<times> string) option) \<Rightarrow>
     (string \<Rightarrow> string \<Rightarrow> nat option) \<Rightarrow> string \<Rightarrow> string \<Rightarrow> string \<Rightarrow> cr_error option" where
  "TriggerConnectionRequest md5hex request_uri get do_auth url user pass =
     (case get url of
        None \<Rightarrow> Some DialError
      | Some (status, challenge) \<Rightarrow>
          if status = 200 then None
          else if status \<noteq> 401 then Some (UnexpectedStatus status)
          else let uri = (case request_uri url of Some u \<Rightarrow> if u \<noteq> '''' then u else ''/'' | None \<Rightarrow> ''/'') in
            case do_auth url (digest_header md5hex user pass uri (parseDigest challenge)) of
              None \<Rightarrow> Some DialError
            | Some st \<Rightarrow> if st \<noteq> 200 then Some (AuthFailed st) else None)"

definition triggerCR ::
    "(string \<Rightarrow> string) \<Rightarrow> (string \<Rightarrow> string option) \<Rightarrow> (string \<Rightarrow> (nat \<times> string) option) \<Rightarrow>
     (string \<Rightarrow> string \<Rightarrow> nat option) \<Rightarrow> bool \<Rightarrow> bool \<Rightarrow> string \<Rightarrow> db \<Rightarrow> Server \<Rightarrow> cr_error option" where
  "triggerCR md5hex request_uri get do_auth gpf ipf deviceID d srv =
     (let url = crURL gpf ipf deviceID d srv in
      if url = '''' then None
      else TriggerConnectionRequest md5hex request_uri get do_auth url (cr_user (srv_cr srv)) (cr_pass (srv_cr srv)))"

subsection \<open>The challenge is read back\<close>

text \<open>A challenge as a device prints it, and the values that survive a parser that splits at
  every comma: those without commas and quotes.\<close>

definition challenge_field :: "string \<times> string \<Rightarrow> string" where
  "challenge_field kv = fst kv @ ''='' @ [CHR 0x22] @ snd kv @ [CHR 0x22]"

definition challenge :: "(string, string) tbl \<Rightarrow> string" where
  "challenge kvs = ''Digest '' @ Join (map challenge_field kvs) '', ''"

definition field_ok :: "string \<times> string \<Rightarrow> bool" where
  "field_ok kv \<longleftrightarrow> fst kv \<noteq> '''' \<and> (\<forall>c\<in>set (fst kv). \<not> is_space c \<and> c \<noteq> CHR '','' \<and> c \<noteq> CHR ''='')
     \<and> CHR '','' \<notin> set (snd kv) \<and> CHR 0x22 \<notin> set (snd kv)"

lemma Split_Join_comma:
  "\<forall>x\<in>set xs. CHR '','' \<notin> set x \<Longrightarrow> CHR '','' \<notin> set x \<Longrightarrow>
     Split (Join (x # xs) '', '') (CHR '','') = x # map (\<lambda>x. CHR '' '' # x) xs"
proof (induction xs arbitrary: x)
  case Nil
  then show ?case by (simp add: Split_absent)
next
  case (Cons y ys)
  have J: "CHR '' '' # Join (y # ys) '', '' = Join ((CHR '' '' # y) # ys) '', ''"
    by (cases ys) simp_all
  have "Split (Join (x # y # ys) '', '') (CHR '','') = x # Split (CHR '' '' # Join (y # ys) '', '') (CHR '','')"
    using Cons.prems by (simp add: Split_append)
  then show ?case using Cons.prems Cons.IH [of "CHR '' '' # y"] unfolding J by simp
qed

lemma Trim_quotes: "CHR 0x22 \<notin> set v \<Longrightarrow> Trim (CHR 0x22 # v @ [CHR 0x22]) (CHR 0x22) = v"
proof -
  assume v: "CHR 0x22 \<notin> set v"
  have d: "dropWhile (\<lambda>x. x = CHR 0x22) u = u" if "CHR 0x22 \<notin> set u" for u
    using that by (cases u) auto
  have "dropWhile (\<lambda>x. x = CHR 0x22) (v @ [CHR 0x22]) = (if v = [] then [] else v @ [CHR 0x22])"
    using v by (cases v) auto
  then show ?thesis using v d [of "rev v"] by (simp add: Trim_def TrimRight_def)
qed

lemma TrimSpace_field:
  assumes "field_ok kv" and "x = challenge_field kv \<or> x = CHR '' '' # challenge_field kv"
  shows "TrimSpace x = challenge_field kv"
proof -
  obtain c k where k: "fst kv = c # k" "\<not> is_space c" using assms(1) by (cases "fst kv") (auto simp: field_ok_def)
  have sp: "is_space (CHR '' '')" "\<not> is_space (CHR 0x22)" by (simp_all add: is_space_def)
  show ?thesis using assms(2) k sp by (auto simp: TrimSpace_def challenge_field_def)
qed

lemma SplitN_two: "sep \<notin> set b \<Longrightarrow> SplitN 2 (b @ sep # a) sep = [b, a]"
proof -
  assume "sep \<notin> set b"
  then have "SplitN (Suc (Suc 0)) (b @ sep # a) sep = [b, a]" by (simp add: Cut_append)
  then show ?thesis unfolding numeral_2_eq_2 .
qed

lemma SplitN_field: "field_ok kv \<Longrightarrow> SplitN 2 (challenge_field kv) (CHR ''='') = [fst kv, [CHR 0x22] @ snd kv @ [CHR 0x22]]"
  using SplitN_two [of "CHR ''=''" "fst kv" "[CHR 0x22] @ snd kv @ [CHR 0x22]"]
  by (auto simp: challenge_field_def field_ok_def)

lemma digest_step_field:
  assumes "field_ok kv" and "x = challenge_field kv \<or> x = CHR '' '' # challenge_field kv"
  shows "digest_step x m = AList.update (fst kv) (snd kv) m"
proof -
  have "CHR 0x22 \<notin> set (snd kv)" using assms(1) by (simp add: field_ok_def)
  then show ?thesis
    unfolding digest_step_def TrimSpace_field [OF assms] SplitN_field [OF assms(1)]
    using Trim_quotes [of "snd kv"] by simp
qed

lemma parse_fields:
  "list_all2 (\<lambda>x kv. field_ok kv \<and> (x = challenge_field kv \<or> x = CHR '' '' # challenge_field kv)) xs kvs \<Longrightarrow>
     fold digest_step xs m = fold (\<lambda>(k, v). AList.update k v) kvs m"
  by (induction xs kvs arbitrary: m rule: list_all2_induct) (auto simp: digest_step_field case_prod_beta)

text \<open>The digest challenge of a device is understood: a well-formed challenge whose values
  carry no comma and no quote is read back field by field.\<close>

theorem parseDigest_challenge:
  assumes "list_all field_ok kvs" and "kvs \<noteq> []"
  shows "parseDigest (challenge kvs) = fold (\<lambda>(k, v). AList.update k v) kvs []"
proof -
  obtain kv rest where kvs: "kvs = kv # rest" using assms(2) by (cases kvs) auto
  have comma: "CHR '','' \<notin> set (challenge_field x)" if "field_ok x" for x
    using that by (auto simp: challenge_field_def field_ok_def)
  have "Split (Join (map challenge_field kvs) '', '') (CHR '','')
      = challenge_field kv # map (\<lambda>x. CHR '' '' # challenge_field x) rest"
    using Split_Join_comma [of "map challenge_field rest" "challenge_field kv"] assms(1) comma
    by (simp add: kvs list_all_iff comp_def)
  moreover have "list_all2 (\<lambda>x kv. field_ok kv \<and> (x = challenge_field kv \<or> x = CHR '' '' # challenge_field kv))
      (challenge_field kv # map (\<lambda>x. CHR '' '' # challenge_field x) rest) kvs"
    using assms(1) by (simp add: kvs list_all2_map1 list_all2_same list_all_iff)
  ultimately show ?thesis
    unfolding parseDigest_def challenge_def TrimPrefix_append by (simp only: parse_fields)
qed

theorem parseDigest_challenge_witness:
  "parseDigest (challenge [(''realm'', ''cpe''), (''nonce'', ''a b'')]) = [(''realm'', ''cpe''), (''nonce'', ''a b'')]"
proof -
  have "list_all field_ok [(''realm'', ''cpe''), (''nonce'', ''a b'')]"
    by (simp add: field_ok_def is_space_def)
  from parseDigest_challenge [OF this] show ?thesis by simp
qed

end
