(* ===== verification/Agent.thy ===== *)
theory Agent
  imports Commands ConnRequest
begin

text \<open>
  The worker as a whole (\<^verbatim>\<open>src/goagent/internal/worker/worker.go\<close>, \<open>Snapshot\<close> and
  \<open>ManagedPaths\<close> of \<^verbatim>\<open>src/goagent/internal/collector\<close>): its state, registration, heartbeat,
  snapshots, and \<open>Run\<close> as the sequence of its start-up calls and of the ticks the tickers
  deliver, between which the other goroutines act.
\<close>

definition ManagedPaths :: "string list" where
  "ManagedPaths =
    [''Device.Services.FAPService.1.CellConfig.LTE.RAN.RF.PhyCellID'',
     ''Device.Services.FAPService.1.CellConfig.LTE.RAN.RF.EARFCNDL'',
     ''Device.Services.FAPService.1.CellConfig.LTE.RAN.RF.EARFCNUL'',
     ''Device.Services.FAPService.1.CellConfig.LTE.RAN.RF.FreqBandIndicator'',
     ''Device.Services.FAPService.1.CellConfig.LTE.RAN.RF.DLBandwidth'',
     ''Device.Services.FAPService.1.CellConfig.LTE.RAN.RF.ULBandwidth'',
     ''Device.Services.FAPService.1.CellConfig.LTE.RAN.RF.ReferenceSignalPower'',
     ''Device.Services.FAPService.1.Capabilities.MaxTxPower'',
     ''Device.Services.FAPService.1.CellConfig.LTE.RAN.PHY.PDSCH.Pa'',
     ''Device.Services.FAPService.1.CellConfig.LTE.RAN.PHY.PDSCH.Pb'',
     ''Device.Services.FAPService.1.CellConfig.LTE.RAN.MAC.DRX.DRXEnabled'',
     ''Device.Services.FAPService.1.CellConfig.LTE.RAN.MAC.DRX.OnDurationTimer'',
     ''Device.Services.FAPService.1.CellConfig.LTE.RAN.MAC.DRX.DRXInactivityTimer'',
     ''Device.Services.FAPService.1.CellConfig.LTE.RAN.MAC.DRX.LongDRXCycle'',
     ''Device.Services.FAPService.1.CellConfig.LTE.RAN.MAC.DRX.ShortDRXCycle'',
     ''Device.Services.FAPService.1.CellConfig.LTE.RAN.MAC.X_8C1F64_PCH.DefaultPagingCycle'',
     ''Device.Services.FAPService.1.CellConfig.LTE.RAN.Mobility.IdleMode.IntraFreq.QRxLevMinSIB1'',
     ''Device.Services.FAPService.1.CellConfig.LTE.RAN.Mobility.IdleMode.IntraFreq.SIntraSearch'',
     ''Device.Services.FAPService.1.CellConfig.LTE.RAN.Mobility.ConnMode.EUTRA.A2ThresholdRSRP'',
     ''Device.Services.FAPService.1.CellConfig.LTE.RAN.Mobility.ConnMode.EUTRA.A1ThresholdRSRP'',
     ''Device.Services.FAPService.1.CellConfig.LTE.RAN.Mobility.ConnMode.EUTRA.Hysteresis'',
     ''Device.Services.FAPService.1.CellConfig.LTE.RAN.Mobility.ConnMode.EUTRA.TimeToTrigger'',
     ''Device.ManagementServer.PeriodicInformInterval'',
     ''Device.X_8C1F64_DebugMgmt.Upload.AutonomousTransferCompletePolicy'']"

definition SnapshotPaths :: "string list" where
  "SnapshotPaths = ManagedPaths"

record 'w Worker =
  wk_acs :: Server
  wk_buf :: Buffer
  wk_col :: Collector
  wk_registered :: bool
  wk_net :: 'w

text \<open>What the outside does during the snapshot of one device.\<close>

record snapshot_env =
  sv_ip :: bool
  sv_addr :: bool
  sv_params :: bool
  sv_sched :: schedule

definition snapshot_task :: "string \<Rightarrow> Task" where
  "snapshot_task dev = zero_Task\<lparr>t_Type := TaskGPV, t_Paths := SnapshotPaths, t_CommandID := ''snapshot:'' @ dev\<rparr>"

definition Snapshot :: "snapshot_env \<Rightarrow> string \<Rightarrow> Server \<Rightarrow> db \<Rightarrow> any_map \<times> Server \<times> db" where
  "Snapshot sv dev srv d =
     (if DeviceIP (sv_ip sv) dev d = '''' then ([], srv, d)
      else case RequestAndAwait (sv_addr sv) dev (snapshot_task dev) (sv_sched sv) srv d of
        (r, srv1, d1) \<Rightarrow>
          (case r of
             Some res \<Rightarrow> if tr_Params res \<noteq> [] then (ToAnyMap (tr_Params res), srv1, d1)
                         else (ToAnyMap (GetParams (sv_params sv) dev SnapshotPaths d1), srv1, d1)
           | None \<Rightarrow> (ToAnyMap (GetParams (sv_params sv) dev SnapshotPaths d1), srv1, d1)))"

fun snapshot_loop ::
    "('w, 'z) worker_env_scheme \<Rightarrow> (string \<Rightarrow> snapshot_env) \<Rightarrow> InventoryItem list \<Rightarrow> Server \<times> db \<times> 'w \<Rightarrow> Server \<times> db \<times> 'w" where
  "snapshot_loop we svs [] s = s"
| "snapshot_loop we svs (dv # dvs) (srv, d, w) =
     (let dev = inv_CWMPID dv; (params, srv1, d1) = Snapshot (svs dev) dev srv d in
      if params = [] then snapshot_loop we svs dvs (srv1, d1, w)
      else snapshot_loop we svs dvs (srv1, d1, send_snapshot we dev \<lparr>sn_Params = params, sn_Source = ''agent''\<rparr> w))"

definition pushSnapshots ::
    "('w, 'z) worker_env_scheme \<Rightarrow> read_faults \<Rightarrow> (int \<Rightarrow> string) \<Rightarrow> (string \<Rightarrow> snapshot_env) \<Rightarrow>
       Server \<times> db \<times> 'w \<Rightarrow> Server \<times> db \<times> 'w" where
  "pushSnapshots we rf rfc3339 svs s = snapshot_loop we svs (Inventory rf rfc3339 (fst (snd s))) s"

definition register :: "('w, 'z) worker_env_scheme \<Rightarrow> 'w Worker \<Rightarrow> 'w Worker" where
  "register we wk =
     (case Register (we_http we) (we_cancelled we (wk_net wk)) (we_url_ok we) (we_client we) (we_register we) (wk_net wk) of
        (w1, Some e) \<Rightarrow> wk\<lparr>wk_net := w1\<rparr>
      | (w1, None) \<Rightarrow> wk\<lparr>wk_net := w1, wk_registered := True\<rparr>)"

definition heartbeat :: "('w, 'z) worker_env_scheme \<Rightarrow> read_faults \<Rightarrow> (int \<Rightarrow> string) \<Rightarrow> 'w Worker \<Rightarrow> 'w Worker" where
  "heartbeat we rf rfc3339 wk0 =
     (let wk = (if wk_registered wk0 then wk0 else register we wk0);
          devices = Inventory rf rfc3339 (buf_db (wk_buf wk))
      in wk\<lparr>wk_net := fst (Heartbeat (we_http we) (we_cancelled we (wk_net wk)) (we_url_ok we)
             (we_client we) \<lparr>hb_Devices = devices\<rparr> (wk_net wk))\<rparr>)"

subsection \<open>The main loop\<close>

text \<open>One round of \<^verbatim>\<open>select\<close>: which ticker fired, with what the outside does during the call.
  \<open>Others\<close> is a step of another goroutine between two calls.\<close>

datatype ('f, 'w) tick =
    PollTick "nat \<Rightarrow> command_env" faults
  | HeartbeatTick read_faults "int \<Rightarrow> string"
  | TierTick int "('f, 'w) push_env"
  | SnapshotTick read_faults "int \<Rightarrow> string" "string \<Rightarrow> snapshot_env"
  | Others "Server \<times> db \<times> Collector \<Rightarrow> Server \<times> db \<times> Collector"

abbreviation on_acs_store ::
    "(Server \<times> db \<times> 'w \<Rightarrow> Server \<times> db \<times> 'w) \<Rightarrow> 'w Worker \<Rightarrow> 'w Worker" where
  "on_acs_store f wk \<equiv>
     (case f (wk_acs wk, buf_db (wk_buf wk), wk_net wk) of (srv, d, w) \<Rightarrow>
        wk\<lparr>wk_acs := srv, wk_buf := (wk_buf wk)\<lparr>buf_db := d\<rparr>, wk_net := w\<rparr>)"

abbreviation worker_flush :: "('w, 'z) worker_env_scheme \<Rightarrow> faults \<Rightarrow> 'w Worker \<Rightarrow> 'w Worker" where
  "worker_flush we flt wk \<equiv>
     (case flushOutbox flt (\<lambda>w body. SendTelemetryRaw (we_http we) (we_cancelled we w) (we_url_ok we) (we_client we) body w)
         (wk_net wk) (wk_buf wk) of (w1, b1) \<Rightarrow> wk\<lparr>wk_net := w1, wk_buf := b1\<rparr>)"

abbreviation worker_push :: "('w, 'z) worker_env_scheme \<Rightarrow> int \<Rightarrow> ('f, 'w) push_env \<Rightarrow> 'w Worker \<Rightarrow> 'w Worker" where
  "worker_push we tier pe wk \<equiv>
     (case pushTier (pe\<lparr>pe_send := \<lambda>w body. SendTelemetryRaw (we_http we) (we_cancelled we w) (we_url_ok we) (we_client we) body w\<rparr>)
         tier (wk_acs wk) (wk_buf wk) (wk_col wk) (wk_net wk) of
        (srv, b, c, w) \<Rightarrow> wk\<lparr>wk_acs := srv, wk_buf := b, wk_col := c, wk_net := w\<rparr>)"

fun run_tick :: "('w, 'z) worker_env_scheme \<Rightarrow> ('f, 'w) tick \<Rightarrow> 'w Worker \<Rightarrow> 'w Worker" where
  "run_tick we (PollTick ces flt) wk = worker_flush we flt (on_acs_store (handleCommands we ces) wk)"
| "run_tick we (HeartbeatTick rf rfc3339) wk = heartbeat we rf rfc3339 wk"
| "run_tick we (TierTick tier pe) wk = worker_push we tier pe wk"
| "run_tick we (SnapshotTick rf rfc3339 svs) wk = on_acs_store (pushSnapshots we rf rfc3339 svs) wk"
| "run_tick we (Others f) wk =
     (case f (wk_acs wk, buf_db (wk_buf wk), wk_col wk) of (srv, d, c) \<Rightarrow>
        wk\<lparr>wk_acs := srv, wk_buf := (wk_buf wk)\<lparr>buf_db := d\<rparr>, wk_col := c\<rparr>)"

text \<open>\<open>Run\<close>: registration, heartbeat, a tier 1 push and the snapshots, then the ticks.\<close>

definition Run ::
    "('w, 'z) worker_env_scheme \<Rightarrow> read_faults \<Rightarrow> (int \<Rightarrow> string) \<Rightarrow> ('f, 'w) push_env \<Rightarrow> (string \<Rightarrow> snapshot_env) \<Rightarrow>
       ('f, 'w) tick list \<Rightarrow> 'w Worker \<Rightarrow> 'w Worker" where
  "Run we rf rfc3339 pe svs ticks wk =
     fold (run_tick we) ticks
       (run_tick we (SnapshotTick rf rfc3339 svs :: ('f, 'w) tick)
         (run_tick we (TierTick 1 pe)
           (run_tick we (HeartbeatTick rf rfc3339 :: ('f, 'w) tick) (register we wk))))"

subsection \<open>What everybody leaves alone\<close>

text \<open>The other goroutines keep the file well-formed and touch neither the outbox nor the applied
  commands. The worker itself keeps every command it has recorded, and its outcome as far as
  the lookups in the table answer (\<open>sure\<close>): a command whose lookup fails is carried out again
  and its new outcome takes the place of the old one.\<close>

definition quiet :: "db \<Rightarrow> db \<Rightarrow> bool" where
  "quiet d d' \<longleftrightarrow> (db_ok d \<longrightarrow> db_ok d' \<and> outbox d' = outbox d \<and> applied d' = applied d)"

definition keeps_outcomes :: "bool \<Rightarrow> db \<Rightarrow> db \<Rightarrow> bool" where
  "keeps_outcomes sure d d' \<longleftrightarrow> (\<forall>cid r. map_of (applied d) cid = Some r \<longrightarrow>
     (\<exists>r'. map_of (applied d') cid = Some r' \<and> (sure \<longrightarrow> r' = r)))"

lemma keeps_outcomes_refl [simp]: "applied d' = applied d \<Longrightarrow> keeps_outcomes sure d d'"
  by (simp add: keeps_outcomes_def)

lemma keeps_outcomes_trans: "keeps_outcomes sure a b \<Longrightarrow> keeps_outcomes sure b c \<Longrightarrow> keeps_outcomes sure a c"
  unfolding keeps_outcomes_def by metis

definition lawful :: "env_step \<Rightarrow> bool" where
  "lawful f \<longleftrightarrow> (\<forall>srv d. quiet d (snd (f (srv, d))))"

definition lawful_schedule :: "schedule \<Rightarrow> bool" where
  "lawful_schedule sched \<longleftrightarrow> list_all (\<lambda>(f, _). lawful f) sched"

definition lawful_command :: "command_env \<Rightarrow> bool" where
  "lawful_command ce \<longleftrightarrow> lawful_schedule (ce_first ce) \<and> lawful_schedule (ce_second ce) \<and> lawful (ce_delay ce)"

fun lawful_tick :: "('f, 'w) tick \<Rightarrow> bool" where
  "lawful_tick (PollTick ces flt) \<longleftrightarrow> (\<forall>i. lawful_command (ces i))"
| "lawful_tick (HeartbeatTick rf rfc3339) \<longleftrightarrow> True"
| "lawful_tick (TierTick tier pe) \<longleftrightarrow> True"
| "lawful_tick (SnapshotTick rf rfc3339 svs) \<longleftrightarrow> (\<forall>dev. lawful_schedule (sv_sched (svs dev)))"
| "lawful_tick (Others f) \<longleftrightarrow> (\<forall>srv d c srv' d' c'. f (srv, d, c) = (srv', d', c') \<longrightarrow> quiet d d' \<and> (col_inv c \<longrightarrow> col_inv c'))"

text \<open>A tick in which every lookup of a command in the table of applied commands answers.\<close>

fun lookups_answer :: "('f, 'w) tick \<Rightarrow> bool" where
  "lookups_answer (PollTick ces flt) \<longleftrightarrow> (\<forall>i. \<not> ce_lookup (ces i) PointQuery)"
| "lookups_answer _ \<longleftrightarrow> True"

lemma quiet_refl [simp]: "quiet d d" by (simp add: quiet_def)

lemma quiet_trans: "quiet a b \<Longrightarrow> quiet b c \<Longrightarrow> quiet a c" by (simp add: quiet_def)

lemma lawful_apply: "lawful f \<Longrightarrow> f (srv, d) = (srv', d') \<Longrightarrow> quiet d d'"
  unfolding lawful_def by (metis snd_conv)

text \<open>The CWMP server and the FTP scan are such goroutines.\<close>

lemma cache_list_quiet: "quiet d (cache_list sf i dev pvs now d)"
proof -
  have "outbox (cache_list sf i dev pvs now d) = outbox d \<and> applied (cache_list sf i dev pvs now d) = applied d"
    by (induction pvs arbitrary: i d) (auto simp: CacheParam_def)
  then show ?thesis by (simp add: quiet_def cache_list_ok)
qed

lemma writability_frame:
  "writability_loop flt i dev ns now d = Some d' \<Longrightarrow> outbox d' = outbox d \<and> applied d' = applied d"
  by (induction ns arbitrary: i d) (auto split: if_splits)

lemma SaveWritability_frame:
  "outbox (SaveWritability flt dev names now d) = outbox d \<and> applied (SaveWritability flt dev names now d) = applied d"
  by (auto simp: SaveWritability_def dest: writability_frame split: option.splits)

lemma EmitEvent_frame:
  "outbox (EmitEvent fails dev m t sev msg now d) = outbox d \<and> applied (EmitEvent fails dev m t sev msg now d) = applied d"
  by (simp add: EmitEvent_def)

lemma UpsertDevice_frame: "outbox (UpsertDevice fails r d) = outbox d \<and> applied (UpsertDevice fails r d) = applied d"
  by (simp add: UpsertDevice_def)

lemma onInform_quiet: "quiet d (snd (snd (onInform sf now ifm s d)))"
proof -
  have "quiet d (cache_list sf 0 dev pvs now (UpsertDevice f r d))" for dev pvs f r
    by (rule quiet_trans [OF _ cache_list_quiet]) (simp add: quiet_def UpsertDevice_frame)
  then show ?thesis by (simp add: onInform_def Let_def)
qed

lemma handle_reply_quiet: "quiet d (snd (snd (handle_reply sf now b s d)))"
proof -
  have "quiet d (SaveWritability flt dev names now d)" for flt dev names
    by (simp add: quiet_def SaveWritability_frame)
  then show ?thesis
    by (simp add: handle_reply_def onGPV_def onSPV_def onGPN_def onFault_def Let_def case_prod_beta cache_list_quiet
        split: option.split)
qed

lemma Handle_quiet: "quiet d (snd (snd (Handle sf now env s d)))"
proof -
  have "quiet d (snd (snd (onATC sf now atc s d)))" for atc s
    by (simp add: onATC_def Let_def quiet_def EmitEvent_frame)
  then show ?thesis
    by (simp add: Handle_def Let_def onInform_quiet handle_reply_quiet split: option.split)
qed

lemma ServeHTTP_quiet: "quiet d (snd (snd (ServeHTTP decode sf ipf now r srv d)))"
proof -
  have s: "quiet d (snd (snd (serve_session sf now host env s d)))" for host env s
    by (simp add: serve_session_def Let_def case_prod_beta Handle_quiet split: option.split)
  have "quiet d (snd (snd (serve_routed sf ipf now r env srv d)))" for env
    by (simp add: serve_routed_def Let_def case_prod_beta s split: option.split)
  then show ?thesis by (simp add: ServeHTTP_def split: option.split)
qed

lemma ServeHTTP_lawful: "lawful (\<lambda>(srv, d). snd (ServeHTTP decode sf ipf now r srv d))"
  by (simp add: lawful_def ServeHTTP_quiet)

lemma MarkFTPIngested_quiet: "quiet d (snd (MarkFTPIngested flts ms now d))"
  using MarkFTPIngested_prefix [of flts ms now d] by (cases "MarkFTPIngested flts ms now d") (auto simp: quiet_def)

lemma ForgetFTPIngested_quiet: "quiet d (snd (ForgetFTPIngested flts ps d))"
  using ForgetFTPIngested_prefix [of flts ps d] by (cases "ForgetFTPIngested flts ps d") (auto simp: quiet_def)

lemma persistScan_quiet: "quiet d (snd (persistScan lf unix present gone c d))"
proof -
  have m: "quiet a (snd (case MarkFTPIngested flts ms unix b of (Some err, d2) \<Rightarrow> (x, d2) | (None, d2) \<Rightarrow> (y, d2)))"
    if "quiet a b" for a b flts ms and x y :: Collector
    using quiet_trans [OF that MarkFTPIngested_quiet [of b flts ms unix]] by (auto split: prod.split option.split)
  show ?thesis
    by (cases "gone = []") (simp_all add: persistScan_def Let_def m ForgetFTPIngested_quiet del: split_paired_All)
qed

lemma scanFTP_quiet: "quiet d (snd (scanFTP env lf unix c d))"
  by (simp add: scanFTP_def Let_def persistScan_quiet split: option.split)

lemma scan_lawful: "lawful_tick (Others (\<lambda>(srv, d, c). case scanFTP env lf unix c d of (c', d') \<Rightarrow> (srv, d', c')))"
proof -
  have "quiet d d' \<and> (col_inv c \<longrightarrow> col_inv c')" if "scanFTP env lf unix c d = (c', d')" for c d c' d'
    using scanFTP_quiet [of d env lf unix c] books_scanFTP [of c env lf unix d] that by simp
  then show ?thesis by (simp split: prod.split)
qed

subsection \<open>The worker's own steps\<close>

lemma await_loop_quiet:
  "lawful_schedule sched \<Longrightarrow> await_loop dev turn sched srv d = (r, srv', d') \<Longrightarrow> quiet d d'"
proof (induction sched arbitrary: srv d)
  case (Cons fc sched)
  obtain f ch where fc: "fc = (f, ch)" by (cases fc)
  obtain srv1 d1 where f: "f (srv, d) = (srv1, d1)" by (metis surj_pair)
  have q: "quiet d d1" and law: "lawful_schedule sched"
    using Cons.prems(1) lawful_apply [where f = f, OF _ f] by (auto simp: lawful_schedule_def fc)
  obtain out srv2 where t: "on_session dev (turn ch) Waiting srv1 = (out, srv2)" by (metis surj_pair)
  show ?case
  proof (cases out)
    case Waiting
    with Cons.prems(2) f t have "await_loop dev turn sched srv2 d1 = (r, srv', d')" by (simp add: fc)
    from quiet_trans [OF q Cons.IH [OF law this]] show ?thesis .
  qed (use Cons.prems(2) f t q in \<open>simp_all add: fc\<close>)
qed simp

lemma RequestAndAwait_quiet:
  "lawful_schedule sched \<Longrightarrow> RequestAndAwait ipf dev t sched srv d = (r, srv', d') \<Longrightarrow> quiet d d'"
  by (auto simp: RequestAndAwait_def Await_def split: if_splits prod.splits dest: await_loop_quiet)

lemma apply_quiet:
  assumes "lawful_command ce" and "apply_command we ce cmd srv d = (ack, srv', d')"
  shows "quiet d d'"
proof -
  have law: "lawful_schedule (ce_first ce)" "lawful_schedule (ce_second ce)" "lawful (ce_delay ce)"
    using assms(1) by (auto simp: lawful_command_def)
  note q1 = RequestAndAwait_quiet [OF law(1)] and q2 = RequestAndAwait_quiet [OF law(2)] and dl = lawful_apply [OF law(3)]
  have "quiet d d1" if "apply_writes we ce cmd srv d = (a, s1, d1)" for a s1 d1
    using that by (auto simp: apply_writes_def split: prod.splits option.splits if_splits
        dest!: q1 q2 dl intro: quiet_trans)
  moreover have "quiet d d1" if "apply_query ce cmd srv d = (a, s1, d1)" for a s1 d1
    using that by (auto simp: apply_query_def split: prod.splits option.splits dest: q1)
  moreover have "quiet d d1" if "apply_reboot ce cmd srv d = (a, s1, d1)" for a s1 d1
    using that by (auto simp: apply_reboot_def split: prod.splits option.splits dest: q1)
  ultimately show ?thesis using assms(2) by (auto simp: apply_command_def split: if_splits)
qed

text \<open>A step of the worker on the store: the file stays well-formed, the outbox as it is, and
  the recorded commands are kept.\<close>

definition tidy :: "bool \<Rightarrow> db \<Rightarrow> db \<Rightarrow> bool" where
  "tidy sure d d' \<longleftrightarrow> (db_ok d \<longrightarrow> db_ok d' \<and> outbox d' = outbox d \<and> keeps_outcomes sure d d')"

lemma tidy_trans: "tidy sure a b \<Longrightarrow> tidy sure b c \<Longrightarrow> tidy sure a c"
  by (auto simp: tidy_def intro: keeps_outcomes_trans)

lemma quiet_tidy: "quiet d d' \<Longrightarrow> tidy sure d d'"
  by (simp add: quiet_def tidy_def)

lemma tidy_refl [simp]: "tidy sure d d" by (simp add: quiet_tidy)

lemma handle_one_tidy:
  assumes "lawful_command ce" and "handle_one we ce cmd (srv, d, w) = (srv', d', w')"
  shows "tidy (\<not> ce_lookup ce PointQuery) d d'"
proof (cases "\<not> ce_lookup ce PointQuery \<and> map_of (applied d) (cmd_ID cmd) \<noteq> None")
  case True
  with assms show ?thesis by (auto simp: handle_one_def AlreadyApplied_def)
next
  case False
  obtain ack srv1 d1 where ap: "apply_command we ce cmd srv d = (ack, srv1, d1)" by (metis surj_pair)
  define res where "res = stored_result (ack_Result ack)"
  obtain m where mk: "MarkApplied (ce_mark ce) (cmd_ID cmd) (ack_Status ack) res (ce_now ce) d1 = (m, d')"
    using assms False ap by (cases "MarkApplied (ce_mark ce) (cmd_ID cmd) (ack_Status ack) res (ce_now ce) d1")
      (cases "ce_lookup ce PointQuery"; auto simp: handle_one_def AlreadyApplied_def Let_def res_def)
  have q: "quiet d d1" by (rule apply_quiet [OF assms(1) ap])
  have "tidy (\<not> ce_lookup ce PointQuery) d1 d'"
    if "ce_lookup ce PointQuery \<or> map_of (applied d1) (cmd_ID cmd) = None"
    using db_ok_MarkApplied [OF _ mk] mk that
    by (auto simp: tidy_def MarkApplied_def keeps_outcomes_def split: if_splits)
  with q False show ?thesis by (auto simp: tidy_def quiet_def keeps_outcomes_def)
qed

lemma keeps_outcomes_weaken: "keeps_outcomes True d d' \<Longrightarrow> keeps_outcomes sure d d'"
  by (auto simp: keeps_outcomes_def)

lemma tidy_mono: "tidy sure d d' \<Longrightarrow> (sure' \<Longrightarrow> sure) \<Longrightarrow> tidy sure' d d'"
  unfolding tidy_def keeps_outcomes_def by blast

lemma handle_loop_tidy:
  "\<forall>i. lawful_command (ces i) \<Longrightarrow> handle_loop we ces i cmds (srv, d, w) = (srv', d', w') \<Longrightarrow>
     tidy (\<forall>i. \<not> ce_lookup (ces i) PointQuery) d d'"
proof (induction cmds arbitrary: i srv d w)
  case (Cons cmd cmds)
  obtain srv1 d1 w1 where h: "handle_one we (ces i) cmd (srv, d, w) = (srv1, d1, w1)" by (metis surj_pair)
  have "tidy (\<forall>i. \<not> ce_lookup (ces i) PointQuery) d1 d'"
    by (rule Cons.IH [OF Cons.prems(1)]) (use Cons.prems(2) h in simp)
  moreover have "tidy (\<forall>i. \<not> ce_lookup (ces i) PointQuery) d d1"
    by (rule tidy_mono [OF handle_one_tidy [OF _ h]]) (use Cons.prems(1) in auto)
  ultimately show ?case by (blast intro: tidy_trans)
qed simp

lemma handleCommands_tidy:
  "\<forall>i. lawful_command (ces i) \<Longrightarrow> handleCommands we ces (srv, d, w) = (srv', d', w') \<Longrightarrow>
     tidy (\<forall>i. \<not> ce_lookup (ces i) PointQuery) d d'"
  by (auto simp: handleCommands_def split: prod.splits sum.splits dest: handle_loop_tidy)

lemma Snapshot_quiet:
  "lawful_schedule (sv_sched sv) \<Longrightarrow> Snapshot sv dev srv d = (ps, srv', d') \<Longrightarrow> quiet d d'"
  by (auto simp: Snapshot_def split: if_splits prod.splits option.splits dest: RequestAndAwait_quiet)

lemma snapshot_loop_tidy:
  "\<forall>dev. lawful_schedule (sv_sched (svs dev)) \<Longrightarrow> snapshot_loop we svs dvs (srv, d, w) = (srv', d', w') \<Longrightarrow> tidy sure d d'"
proof (induction dvs arbitrary: srv d w)
  case (Cons dv dvs)
  let ?dev = "inv_CWMPID dv"
  obtain ps srv1 d1 where s: "Snapshot (svs ?dev) ?dev srv d = (ps, srv1, d1)" by (metis surj_pair)
  have "\<exists>w1. snapshot_loop we svs dvs (srv1, d1, w1) = (srv', d', w')"
    using Cons.prems(2) s by (auto simp: Let_def split: if_splits)
  then have "tidy sure d1 d'" using Cons.IH Cons.prems(1) by blast
  moreover have "quiet d d1" using Snapshot_quiet [OF _ s] Cons.prems(1) by blast
  ultimately show ?case by (blast intro: tidy_trans quiet_tidy)
qed simp

text \<open>The buffer's own steps: the file stays well-formed, the recorded commands are kept, and the
  outbox, if a cap is set, is at most as full as the cap or as it was before.\<close>

definition buf_step :: "bool \<Rightarrow> Buffer \<Rightarrow> Buffer \<Rightarrow> bool" where
  "buf_step sure b b' \<longleftrightarrow> (db_ok (buf_db b) \<longrightarrow> db_ok (buf_db b') \<and> maxBytes b' = maxBytes b
     \<and> (0 < maxBytes b \<longrightarrow> payload (outbox (buf_db b')) \<le> max (maxBytes b) (payload (outbox (buf_db b))))
     \<and> keeps_outcomes sure (buf_db b) (buf_db b'))"

lemma buf_step_refl [simp]: "buf_step sure b b" by (simp add: buf_step_def)

lemma buf_step_trans: "buf_step sure a b \<Longrightarrow> buf_step sure b c \<Longrightarrow> buf_step sure a c"
  by (force simp: buf_step_def intro: keeps_outcomes_trans)

lemma tidy_buf_step: "tidy sure (buf_db b) d' \<Longrightarrow> buf_step sure b (b\<lparr>buf_db := d'\<rparr>)"
  by (auto simp: buf_step_def tidy_def)

lemma enqueue_buf_step:
  assumes "EnqueueWithMarks flt kind body marks now b = (r, b')"
  shows "buf_step sure b b'"
proof (cases r)
  case (Some e)
  with assms have "b' = b" using enqueue_error by blast
  then show ?thesis by simp
next
  case None
  show ?thesis
    unfolding buf_step_def
  proof
    assume ok: "db_ok (buf_db b)"
    note enq = assms [unfolded None]
    obtain n where n: "b' = b\<lparr>buf_db := mark_all marks now
            (insert_row kind body now ((buf_db b)\<lparr>outbox := drop n (outbox (buf_db b))\<rparr>))\<rparr>"
      "0 < maxBytes b \<Longrightarrow> payload (drop n (outbox (buf_db b))) + int (length body) \<le> maxBytes b"
      by (rule enqueue_ok [OF ok enq]) blast
    then show "db_ok (buf_db b') \<and> maxBytes b' = maxBytes b
     \<and> (0 < maxBytes b \<longrightarrow> payload (outbox (buf_db b')) \<le> max (maxBytes b) (payload (outbox (buf_db b))))
     \<and> keeps_outcomes sure (buf_db b) (buf_db b')"
      using db_ok_enqueue [OF ok enq] by (auto simp: le_max_iff_disj)
  qed
qed

lemma mark_buf_step: "buf_step sure b (b\<lparr>buf_db := snd (MarkFTPIngested flts ms now (buf_db b))\<rparr>)"
  by (rule tidy_buf_step [OF quiet_tidy [OF MarkFTPIngested_quiet]])

lemma enqueue_parts_steps:
  "enqueue_parts ef now ftp nev i ps queued b c = (q', b', c') \<Longrightarrow>
     buf_step sure b b' \<and> (\<exists>R. c' = c\<lparr>col_requeued := R\<rparr>)"
proof (induction ps arbitrary: i queued b c)
  case Nil
  then show ?case by (auto intro: exI [of _ "col_requeued c"])
next
  case (Cons p ps)
  let ?marks = "MarksIn ftp (tp_start p) (tp_end p)"
  obtain r b1 where enq: "EnqueueWithMarks (ef_enqueue ef i) ''telemetry'' (tp_body p) ?marks now b = (r, b1)"
    by (metis surj_pair)
  have e: "buf_step sure b b1" by (rule enqueue_buf_step [OF enq])
  have req: "\<exists>R. Requeue ms c = c\<lparr>col_requeued := R\<rparr>" for ms
    by (auto simp: Requeue_def intro: exI [of _ "col_requeued c"])
  have more: ?case if go: "enqueue_parts ef now ftp nev (Suc i) ps q1 b2 c2 = (q', b', c')"
    and b: "buf_step sure b b2" and c: "\<exists>R. c2 = c\<lparr>col_requeued := R\<rparr>" for q1 b2 c2
    using Cons.IH [OF go] b c by (auto intro: buf_step_trans)
  have idc: "\<exists>R. c = c\<lparr>col_requeued := R\<rparr>" by (rule exI [of _ "col_requeued c"]) simp
  show ?case
  proof (cases r)
    case None
    then show ?thesis using Cons.prems enq by (intro more [OF _ e idc]) simp
  next
    case (Some x)
    show ?thesis
    proof (cases x)
      case (SqlError s)
      with Some Cons.prems enq have "b' = b1" "c' = Requeue (MarksIn ftp (tp_start p) nev) c" by simp_all
      with e req show ?thesis by simp
    next
      case (ErrPayloadTooLarge n m)
      obtain r2 d2 where mk: "MarkFTPIngested (ef_mark ef i) ?marks now (buf_db b1) = (r2, d2)" by (metis surj_pair)
      have b2: "buf_step sure b (b1\<lparr>buf_db := d2\<rparr>)"
        using buf_step_trans [OF e mark_buf_step [of sure b1 "ef_mark ef i" ?marks now]] mk by simp
      consider "enqueue_parts ef now ftp nev (Suc i) ps queued b1 c = (q', b', c')"
        | c2 where "enqueue_parts ef now ftp nev (Suc i) ps queued (b1\<lparr>buf_db := d2\<rparr>) c2 = (q', b', c')" "c2 = c \<or> c2 = Requeue ?marks c"
        using Cons.prems enq Some ErrPayloadTooLarge mk by (cases r2) (auto simp: Let_def split: if_splits)
      then show ?thesis
      proof cases
        case 1
        then show ?thesis by (rule more [OF _ e idc])
      next
        case 2
        then show ?thesis using idc req by (intro more [OF 2(1) b2]) blast
      qed
    qed
  qed
qed

lemma flush_buf_step:
  assumes "flushOutbox flt send w b = (w', b')"
  shows "buf_step sure b b'"
proof -
  obtain r d' where dr: "Drain flt (flush_send send) w (buf_db b) = (r, w', d')" and b': "b' = b\<lparr>buf_db := d'\<rparr>"
    using assms by (auto simp: flushOutbox_def split: prod.splits)
  show ?thesis
    unfolding buf_step_def b'
  proof (intro impI)
    assume ok: "db_ok (buf_db b)"
    from Drain_db [OF this dr] obtain n where "d' = (buf_db b)\<lparr>outbox := drop n (outbox (buf_db b))\<rparr>" ..
    with ok show "db_ok (buf_db (b\<lparr>buf_db := d'\<rparr>)) \<and> maxBytes (b\<lparr>buf_db := d'\<rparr>) = maxBytes b
     \<and> (0 < maxBytes b \<longrightarrow> payload (outbox (buf_db (b\<lparr>buf_db := d'\<rparr>))) \<le> max (maxBytes b) (payload (outbox (buf_db b))))
     \<and> keeps_outcomes sure (buf_db b) (buf_db (b\<lparr>buf_db := d'\<rparr>))"
      using payload_drop_mono [of 0 n "outbox (buf_db b)"] by (auto simp: db_ok_drop le_max_iff_disj)
  qed
qed

lemma DrainEvents_tidy: "DrainEvents flt d = (out, d') \<Longrightarrow> tidy sure d d'"
proof -
  assume dr: "DrainEvents flt d = (out, d')"
  have "applied (snd (drain_events_loop flt rs x)) = applied x" for rs x
    by (induction rs arbitrary: x) (auto simp: Let_def case_prod_beta)
  then have "applied d' = applied d" using dr by (auto simp: DrainEvents_def split: if_splits) (metis snd_conv)
  then show ?thesis using DrainEvents_spec [OF _ dr] by (auto simp: tidy_def)
qed

lemma pushTier_steps:
  assumes "pushTier pe tier srv b c w = (srv', b', c', w')"
  shows "buf_step sure b b' \<and> (col_inv c \<longrightarrow> col_inv c')"
proof -
  obtain ms al srv1 where ct: "CollectTier (pe_float pe) (pe_read pe) (pe_rfc3339 pe) (pe_now pe) tier (buf_db b) srv = (ms, al, srv1)"
    by (metis surj_pair)
  obtain evs d1 where de: "drainCWMPEvents (pe_drain_events pe) (pe_sha256 pe) (pe_rfc3339 pe) (buf_db b) = (evs, d1)"
    by (metis surj_pair)
  define c1 where "c1 = snd (DrainFTP c)"
  define ftp where "ftp = fst (DrainFTP c)"
  have dt: "DrainFTP c = (ftp, c1)" by (simp add: c1_def ftp_def)
  have c1: "col_inv c \<longrightarrow> col_inv c1" by (simp add: c1_def DrainFTP_def books_ok_def marks_ok_def)
  have cR: "col_inv c1 \<longrightarrow> col_inv (c1\<lparr>col_requeued := R\<rparr>)" for R by (simp add: books_ok_def)
  have "tidy sure (buf_db b) d1"
    using de by (auto simp: drainCWMPEvents_def split: prod.splits dest: DrainEvents_tidy)
  from tidy_buf_step [OF this] have b1: "buf_step sure b (b\<lparr>buf_db := d1\<rparr>)" .
  define req where "req = \<lparr>tq_Metrics = ms, tq_Events = fb_Events ftp @ evs, tq_Alarms = al\<rparr>"
  note run = assms [unfolded pushTier_def ct de dt prod.case Let_def, folded req_def]
  show ?thesis
  proof (cases "tq_Metrics req = [] \<and> tq_Events req = [] \<and> tq_Alarms req = []")
    case True
    with run b1 c1 show ?thesis by simp
  next
    case False
    obtain q b2 c2 where e: "enqueueTelemetry (pe_enqueue pe) marshalTelemetry (pe_now pe) req ftp (b\<lparr>buf_db := d1\<rparr>) c1 = (q, b2, c2)"
      by (metis surj_pair)
    then have s: "buf_step sure (b\<lparr>buf_db := d1\<rparr>) b2" "\<exists>R. c2 = c1\<lparr>col_requeued := R\<rparr>"
      using enqueue_parts_steps by (auto simp: enqueueTelemetry_def)
    obtain w1 b3 where f: "flushOutbox (pe_flush pe) (pe_send pe) w b2 = (w1, b3)" by (metis surj_pair)
    have "c' = c2" "b' = b2 \<or> b' = b3" using run False e f by (auto split: if_splits)
    with s b1 c1 cR flush_buf_step [OF f] show ?thesis by (auto intro: buf_step_trans)
  qed
qed

subsection \<open>The invariant of the running agent\<close>

definition agent_inv :: "'w Worker \<Rightarrow> bool" where
  "agent_inv wk \<longleftrightarrow> outbox_inv (wk_buf wk) \<and> col_inv (wk_col wk)"

definition agent_step :: "bool \<Rightarrow> 'w Worker \<Rightarrow> 'w Worker \<Rightarrow> bool" where
  "agent_step sure wk wk' \<longleftrightarrow> buf_step sure (wk_buf wk) (wk_buf wk') \<and> (col_inv (wk_col wk) \<longrightarrow> col_inv (wk_col wk'))"

lemma agent_step_refl [simp]: "agent_step sure wk wk" by (simp add: agent_step_def)

lemma agent_step_trans: "agent_step sure a b \<Longrightarrow> agent_step sure b c \<Longrightarrow> agent_step sure a c"
  by (auto simp: agent_step_def intro: buf_step_trans)

lemma store_step:
  assumes "\<And>srv' d' w'. f (wk_acs wk, buf_db (wk_buf wk), wk_net wk) = (srv', d', w') \<Longrightarrow> tidy sure (buf_db (wk_buf wk)) d'"
  shows "agent_step sure wk (on_acs_store f wk)"
  using assms by (auto simp: agent_step_def tidy_buf_step split: prod.split)

lemma flush_step: "agent_step sure wk (worker_flush we flt wk)"
  by (auto simp: agent_step_def split: prod.split dest: flush_buf_step)

lemma push_step: "agent_step sure wk (worker_push we tier pe wk)"
  by (auto simp: agent_step_def split: prod.split dest: pushTier_steps)

lemma register_step: "agent_step sure wk (register we wk)"
  by (simp add: agent_step_def register_def split: prod.split option.split)

lemma heartbeat_step: "agent_step sure wk (heartbeat we rf rfc3339 wk)"
  using register_step [of sure wk we] by (simp add: agent_step_def heartbeat_def Let_def)

lemma agent_step_mono: "agent_step sure a b \<Longrightarrow> (sure' \<Longrightarrow> sure) \<Longrightarrow> agent_step sure' a b"
  unfolding agent_step_def buf_step_def keeps_outcomes_def by blast

lemma tick_step: "lawful_tick t \<Longrightarrow> agent_step (lookups_answer t) wk (run_tick we t wk)"
proof (cases t)
  case (PollTick ces flt)
  assume "lawful_tick t"
  then have "agent_step (lookups_answer t) wk (on_acs_store (handleCommands we ces) wk)"
    by (intro store_step) (auto simp: PollTick intro: handleCommands_tidy)
  then show ?thesis unfolding PollTick run_tick.simps using flush_step by (rule agent_step_trans)
next
  case (SnapshotTick rf rfc3339 svs)
  assume "lawful_tick t"
  then show ?thesis unfolding SnapshotTick run_tick.simps
    by (intro store_step) (auto simp: pushSnapshots_def intro: snapshot_loop_tidy)
next
  case (Others f)
  assume "lawful_tick t"
  then have "quiet d d' \<and> (col_inv c \<longrightarrow> col_inv c')" if "f (srv, d, c) = (srv', d', c')" for srv d c srv' d' c'
    using that by (auto simp: Others)
  moreover obtain srv' d' c' where f: "f (wk_acs wk, buf_db (wk_buf wk), wk_col wk) = (srv', d', c')" by (metis surj_pair)
  ultimately have "quiet (buf_db (wk_buf wk)) d'" "col_inv (wk_col wk) \<longrightarrow> col_inv c'" by blast+
  then show ?thesis by (simp add: Others f agent_step_def tidy_buf_step quiet_tidy)
qed (simp_all only: run_tick.simps push_step heartbeat_step)

lemma ticks_step: "list_all lawful_tick ts \<Longrightarrow> agent_step (list_all lookups_answer ts) wk (fold (run_tick we) ts wk)"
proof (induction ts arbitrary: wk)
  case (Cons t ts)
  have "agent_step (list_all lookups_answer (t # ts)) wk (run_tick we t wk)"
    by (rule agent_step_mono [OF tick_step]) (use Cons.prems in simp_all)
  moreover have "agent_step (list_all lookups_answer (t # ts)) (run_tick we t wk) (fold (run_tick we) ts (run_tick we t wk))"
    by (rule agent_step_mono [OF Cons.IH]) (use Cons.prems in simp_all)
  ultimately show ?case by (auto intro: agent_step_trans)
qed simp

lemma Run_step:
  assumes "list_all lawful_tick ticks" and "\<forall>dev. lawful_schedule (sv_sched (svs dev))"
  shows "agent_step (list_all lookups_answer ticks) wk (Run we rf rfc3339 pe svs ticks wk)"
proof -
  have t: "agent_step sure a (run_tick we t a)" if "lawful_tick t" "lookups_answer t" for sure a t
    by (rule agent_step_mono [OF tick_step]) (use that in simp_all)
  show ?thesis
    unfolding Run_def
    by (rule agent_step_trans [OF agent_step_trans [OF agent_step_trans [OF agent_step_trans [OF register_step t] t] t] ticks_step])
      (use assms in simp_all)
qed

text \<open>The running agent: from a good state, through the start-up calls and any sequence of
  ticks, interleaved with whatever the CWMP server and the FTP scan do, the file stays
  well-formed, the outbox within its cap, the collector's books in order, and a recorded
  command stays recorded, with its outcome as long as the lookups answer.\<close>

lemma Run_keeps_invariant:
  assumes "agent_inv wk" and "list_all lawful_tick ticks" and "\<forall>dev. lawful_schedule (sv_sched (svs dev))"
  shows "agent_inv (Run we rf rfc3339 pe svs ticks wk)
     \<and> maxBytes (wk_buf (Run we rf rfc3339 pe svs ticks wk)) = maxBytes (wk_buf wk)
     \<and> keeps_outcomes (list_all lookups_answer ticks) (buf_db (wk_buf wk)) (buf_db (wk_buf (Run we rf rfc3339 pe svs ticks wk)))"
  using assms(1) Run_step [OF assms(2,3), of wk we rf rfc3339 pe]
  by (auto simp: agent_step_def agent_inv_def buf_step_def outbox_inv_def)

subsection \<open>Snapshots\<close>

lemma snapshot_loop_published:
  "snapshot_loop we svs dvs (srv, d, w) = (srv', d', w') \<Longrightarrow>
   \<exists>pubs. w' = fold (\<lambda>(dev, ps) x. send_snapshot we dev \<lparr>sn_Params = ps, sn_Source = ''agent''\<rparr> x) pubs w
     \<and> list_all (\<lambda>(dev, ps). ps \<noteq> []) pubs \<and> subseq (map fst pubs) (map inv_CWMPID dvs)"
proof (induction dvs arbitrary: srv d w)
  case Nil
  then show ?case by (intro exI [of _ "[]"]) simp
next
  case (Cons dv dvs)
  let ?dev = "inv_CWMPID dv"
  obtain ps srv1 d1 where s: "Snapshot (svs ?dev) ?dev srv d = (ps, srv1, d1)" by (metis surj_pair)
  show ?case
  proof (cases "ps = []")
    case True
    with Cons.prems s have "snapshot_loop we svs dvs (srv1, d1, w) = (srv', d', w')" by simp
    from Cons.IH [OF this] show ?thesis by auto
  next
    case False
    with Cons.prems s have "snapshot_loop we svs dvs (srv1, d1,
        send_snapshot we ?dev \<lparr>sn_Params = ps, sn_Source = ''agent''\<rparr> w) = (srv', d', w')" by simp
    from Cons.IH [OF this] obtain pubs where "w' = fold (\<lambda>(dev, ps) x. send_snapshot we dev \<lparr>sn_Params = ps, sn_Source = ''agent''\<rparr> x)
          pubs (send_snapshot we ?dev \<lparr>sn_Params = ps, sn_Source = ''agent''\<rparr> w)"
      "list_all (\<lambda>(dev, ps). ps \<noteq> []) pubs" "subseq (map fst pubs) (map inv_CWMPID dvs)" by blast
    with False show ?thesis by (intro exI [of _ "(?dev, ps) # pubs"]) simp
  qed
qed

text \<open>Snapshots never overwrite a good one with nothing: what a round publishes is a
  sub-sequence of the inventory in its order, at most one request per device, each with at
  least one parameter; the cloud sees nothing else of the round.\<close>

theorem pushSnapshots_never_empty:
  assumes "pushSnapshots we rf rfc3339 svs (srv, d, w) = (srv', d', w')"
  shows "\<exists>pubs. w' = fold (\<lambda>(dev, ps) x. send_snapshot we dev \<lparr>sn_Params = ps, sn_Source = ''agent''\<rparr> x) pubs w
     \<and> list_all (\<lambda>(dev, ps). ps \<noteq> []) pubs \<and> subseq (map fst pubs) (map inv_CWMPID (Inventory rf rfc3339 d))"
  using snapshot_loop_published assms by (auto simp: pushSnapshots_def)

subsection \<open>Witnesses\<close>

definition demo_rf :: read_faults where
  "demo_rf = \<lparr>rf_list = False, rf_params = (\<lambda>_. False), rf_addr = (\<lambda>_. False)\<rparr>"

definition demo_svs :: "string \<Rightarrow> snapshot_env" where
  "demo_svs dev = \<lparr>sv_ip = False, sv_addr = False, sv_params = False, sv_sched = []\<rparr>"

theorem pushSnapshots_never_empty_witness:
  "\<exists>srv' d' w'. pushSnapshots demo_we demo_rf (\<lambda>_. ''t'') demo_svs (fresh_server, demo_db, 0) = (srv', d', w')
     \<and> (\<exists>pubs. w' = fold (\<lambda>(dev, ps) x. send_snapshot demo_we dev \<lparr>sn_Params = ps, sn_Source = ''agent''\<rparr> x) pubs 0
          \<and> list_all (\<lambda>(dev, ps). ps \<noteq> []) pubs \<and> subseq (map fst pubs) [''A-B-1''])"
proof -
  obtain srv' d' w' where r: "pushSnapshots demo_we demo_rf (\<lambda>_. ''t'') demo_svs (fresh_server, demo_db, 0) = (srv', d', w')"
    by (metis surj_pair)
  have "map inv_CWMPID (Inventory demo_rf (\<lambda>_. ''t'') demo_db) = [''A-B-1'']"
    by (simp add: Inventory_def ListDevices_def demo_rf_def demo_db_def device_of_row_def inventory_item_def)
  with pushSnapshots_never_empty [OF r] r show ?thesis by auto
qed

definition demo_worker :: "nat Worker" where
  "demo_worker = \<lparr>wk_acs = fresh_server,
     wk_buf = capped_buffer\<lparr>buf_db := demo_db\<lparr>applied := [(''c0'', \<lparr>ap_status = ''applied'', ap_result = '''', ap_applied_at = 1\<rparr>)]\<rparr>\<rparr>,
     wk_col = demo_collector, wk_registered = False, wk_net = 0\<rparr>"

definition demo_pe :: "(unit, nat) push_env" where
  "demo_pe = \<lparr>pe_float = \<lparr>fo_parse = (\<lambda>_. None), fo_nonpos = (\<lambda>_. True), fo_nonneg = (\<lambda>_. True), fo_trunc = (\<lambda>_. 0),
       fo_percent = (\<lambda>_ _. '''')\<rparr>, pe_read = demo_rf, pe_rfc3339 = (\<lambda>_. ''t''), pe_now = 3, pe_sha256 = (\<lambda>s. s),
     pe_drain_events = no_faults, pe_enqueue = demo_ef, pe_flush = no_faults,
     pe_send = (\<lambda>w _. (w, None))\<rparr>"

definition demo_ticks :: "(unit, nat) tick list" where
  "demo_ticks =
     [Others (\<lambda>(srv, d, c). case scanFTP demo_env demo_lf 5 c d of (c', d') \<Rightarrow> (srv, d', c')), TierTick 3 demo_pe,
      PollTick (\<lambda>_. (demo_ce done_result read_result)\<lparr>ce_first := [], ce_second := []\<rparr>) no_faults,
      SnapshotTick demo_rf (\<lambda>_. ''t'') demo_svs]"

lemma demo_ticks_lawful:
  "list_all lawful_tick demo_ticks" "list_all lookups_answer demo_ticks" "\<forall>dev. lawful_schedule (sv_sched (demo_svs dev))"
  using scan_lawful [of demo_env demo_lf 5]
  by (simp_all add: demo_ticks_def lawful_command_def lawful_schedule_def lawful_def demo_svs_def demo_ce_def del: lawful_tick.simps(5))

lemma Run_keeps_invariant_witness:
  "agent_inv demo_worker
   \<and> agent_inv (Run demo_we demo_rf (\<lambda>_. ''t'') demo_pe demo_svs demo_ticks demo_worker)
   \<and> map_option ap_status (map_of (applied (buf_db (wk_buf (Run demo_we demo_rf (\<lambda>_. ''t'') demo_pe demo_svs demo_ticks demo_worker)))) ''c0'')
       = Some ''applied''"
proof -
  have inv: "agent_inv demo_worker"
    using demo_inv by (simp add: agent_inv_def demo_worker_def outbox_inv_def capped_buffer_def demo_db_def init_db_def db_ok_def)
  have ap: "map_of (applied (buf_db (wk_buf demo_worker))) ''c0'' = Some \<lparr>ap_status = ''applied'', ap_result = '''', ap_applied_at = 1\<rparr>"
    by (simp add: demo_worker_def)
  from Run_keeps_invariant [OF inv demo_ticks_lawful(1,3), of demo_we demo_rf "\<lambda>_. ''t''" demo_pe] inv ap demo_ticks_lawful(2)
  show ?thesis by (auto simp: keeps_outcomes_def)
qed

end
