(* ===== verification/Base64.thy ===== *)
theory Base64
  imports GoStrings
begin

text \<open>
  The URL-safe base64 encodings the enrollment token uses (\<^verbatim>\<open>base64.RawURLEncoding\<close> and
  \<^verbatim>\<open>base64.URLEncoding\<close> at \<^verbatim>\<open>src/goagent/internal/config/config.go\<close>): the encoder without
  padding, both decoders. As in Go, carriage returns and line feeds are skipped and the
  unused low bits of a last group are ignored.
\<close>

definition b64_alphabet :: string where
  "b64_alphabet = ''ABCDEFGHIJKLMNOPQRSTUVWXYZabcdefghijklmnopqrstuvwxyz0123456789-_''"

definition b64_char :: "nat \<Rightarrow> char" where
  "b64_char n = b64_alphabet ! n"

definition b64_val :: "char \<Rightarrow> nat option" where
  "b64_val c = (let n = length (takeWhile (\<lambda>x. x \<noteq> c) b64_alphabet) in if n < 64 then Some n else None)"

fun to6 :: "nat list \<Rightarrow> nat list" where
  "to6 (x # y # z # r) = [x div 4, (x mod 4) * 16 + y div 16, (y mod 16) * 4 + z div 64, z mod 64] @ to6 r"
| "to6 [x, y] = [x div 4, (x mod 4) * 16 + y div 16, (y mod 16) * 4]"
| "to6 [x] = [x div 4, (x mod 4) * 16]"
| "to6 [] = []"

fun from6 :: "nat list \<Rightarrow> nat list option" where
  "from6 (a # b # c # d # r) =
     map_option (\<lambda>t. [a * 4 + b div 16, (b mod 16) * 16 + c div 4, (c mod 4) * 64 + d] @ t) (from6 r)"
| "from6 [a, b, c] = Some [a * 4 + b div 16, (b mod 16) * 16 + c div 4]"
| "from6 [a, b] = Some [a * 4 + b div 16]"
| "from6 [a] = None"
| "from6 [] = Some []"

definition RawEncode :: "bytes \<Rightarrow> string" where
  "RawEncode b = map b64_char (to6 (map of_char b))"

definition strip_newlines :: "string \<Rightarrow> string" where
  "strip_newlines s = filter (\<lambda>c. c \<noteq> CHR 0x0D \<and> c \<noteq> CHR 0x0A) s"

definition decode_core :: "string \<Rightarrow> bytes option" where
  "decode_core s = map_option (map char_of) (Option.bind (those (map b64_val s)) from6)"

definition RawDecode :: "string \<Rightarrow> bytes option" where
  "RawDecode s = decode_core (strip_newlines s)"

definition PadDecode :: "string \<Rightarrow> bytes option" where
  "PadDecode s =
     (let t = strip_newlines s in
      if length t mod 4 \<noteq> 0 then None
      else if HasSuffix t ''=='' then decode_core (TrimSuffix t ''=='')
      else if HasSuffix t ''='' then decode_core (TrimSuffix t ''='')
      else decode_core t)"

subsection \<open>Round trip\<close>

lemma from6_to6: "\<forall>x\<in>set xs. x < 256 \<Longrightarrow> from6 (to6 xs) = Some xs"
proof (induction xs rule: to6.induct)
  case (1 x y z r)
  then have "((x mod 4) * 16 + y div 16) mod 16 = y div 16" "((y mod 16) * 4 + z div 64) div 4 = y mod 16"
    "((y mod 16) * 4 + z div 64) mod 4 = z div 64" "((x mod 4) * 16 + y div 16) div 16 = x mod 4"
    by (auto simp: less_mult_imp_div_less)
  with 1 show ?case by simp
next
  case (2 x y)
  then have "((x mod 4) * 16 + y div 16) mod 16 = y div 16" "((x mod 4) * 16 + y div 16) div 16 = x mod 4"
    by (auto simp: less_mult_imp_div_less)
  then show ?case by simp
qed auto

lemma b64_val_char: "n < 64 \<Longrightarrow> b64_val (b64_char n) = Some n"
proof -
  have "\<forall>n<64. b64_val (b64_char n) = Some n" by code_simp
  then show "n < 64 \<Longrightarrow> ?thesis" by blast
qed

lemma b64_char_plain: "n < 64 \<Longrightarrow> b64_char n \<noteq> CHR 0x0D \<and> b64_char n \<noteq> CHR 0x0A \<and> \<not> is_space (b64_char n)"
proof -
  have "\<forall>n<64. b64_char n \<noteq> CHR 0x0D \<and> b64_char n \<noteq> CHR 0x0A \<and> \<not> is_space (b64_char n)" by code_simp
  then show "n < 64 \<Longrightarrow> ?thesis" by blast
qed

lemma to6_small: "\<forall>x\<in>set xs. x < 256 \<Longrightarrow> \<forall>v\<in>set (to6 xs). v < 64"
proof (induction xs rule: to6.induct)
  case (1 x y z r)
  then show ?case by (auto simp: less_mult_imp_div_less)
qed (auto simp: less_mult_imp_div_less)

lemma those_map_Some: "\<forall>v\<in>set vs. f (g v) = Some v \<Longrightarrow> those (map f (map g vs)) = Some vs"
  by (induction vs) auto

theorem RawDecode_RawEncode: "RawDecode (RawEncode b) = Some b"
proof -
  let ?vs = "to6 (map of_char b)"
  have bytes: "\<forall>x\<in>set (map (of_char :: char \<Rightarrow> nat) b). x < 256" by (auto simp: of_char_def)
  note small = to6_small [OF bytes]
  have "strip_newlines (RawEncode b) = RawEncode b"
    using small b64_char_plain by (auto simp: strip_newlines_def RawEncode_def filter_id_conv)
  moreover have "those (map b64_val (RawEncode b)) = Some ?vs"
    unfolding RawEncode_def by (rule those_map_Some) (use small b64_val_char in auto)
  ultimately show ?thesis
    using from6_to6 [OF bytes] by (simp add: RawDecode_def decode_core_def comp_def)
qed

end
