(* ===== verification/Config.thy ===== *)
theory Config
  imports Base64 JsonTypes
begin

text \<open>
  The configuration (\<^verbatim>\<open>src/goagent/internal/config/config.go\<close>): defaults, the file, the
  environment, and the enrollment token. What is read from disk and the environment are
  arguments, as are the YAML decoder and the duration parser; durations are nanoseconds.
\<close>

record Enrollment =
  en_Version :: int
  en_TenantID :: string
  en_EdgeID :: string
  en_BaseURL :: string
  en_APIKey :: string

record CWMPConfig =
  cc_Listen :: string
  cc_CRUser :: string
  cc_CRPass :: string
  cc_CRURLOverride :: string
  cc_FullSnapshotOnFirstContact :: bool

record Config =
  cf_EnrollmentToken :: string
  cf_PollInterval :: int
  cf_HeartbeatInterval :: int
  cf_TelemetryT1Interval :: int
  cf_TelemetryT2Interval :: int
  cf_TelemetryT3Interval :: int
  cf_SnapshotInterval :: int
  cf_CommandVerifyDelay :: int
  cf_CommandVerifyTimeout :: int
  cf_CWMP :: CWMPConfig
  cf_FTPWatchDir :: string
  cf_RulesFile :: string
  cf_BufferDB :: string
  cf_BufferMaxBytes :: int
  cf_Enrollment :: Enrollment

record rawCWMP =
  rc_Listen :: string
  rc_CRUser :: string
  rc_CRPass :: string
  rc_CRURLOverride :: string
  rc_FullSnapshotOnFirstContact :: "bool option"

record rawConfig =
  rw_EnrollmentToken :: string
  rw_PollInterval :: string
  rw_HeartbeatInterval :: string
  rw_TelemetryT1Interval :: string
  rw_TelemetryT2Interval :: string
  rw_TelemetryT3Interval :: string
  rw_SnapshotInterval :: string
  rw_CommandVerifyDelay :: string
  rw_CommandVerifyTimeout :: string
  rw_CWMP :: rawCWMP
  rw_FTPWatchDir :: string
  rw_RulesFile :: string
  rw_BufferDB :: string
  rw_BufferMaxBytes :: int

definition seconds :: "int \<Rightarrow> int" where
  "seconds n = n * 1000000000"

definition zero_Enrollment :: Enrollment where
  "zero_Enrollment = \<lparr>en_Version = 0, en_TenantID = '''', en_EdgeID = '''', en_BaseURL = '''', en_APIKey = ''''\<rparr>"

definition defaultConfig :: Config where
  "defaultConfig = \<lparr>cf_EnrollmentToken = '''', cf_PollInterval = seconds 10, cf_HeartbeatInterval = seconds 30,
     cf_TelemetryT1Interval = seconds 30, cf_TelemetryT2Interval = seconds 60, cf_TelemetryT3Interval = seconds 300,
     cf_SnapshotInterval = seconds 300, cf_CommandVerifyDelay = seconds 2, cf_CommandVerifyTimeout = seconds 15,
     cf_CWMP = \<lparr>cc_Listen = ''0.0.0.0:7547'', cc_CRUser = '''', cc_CRPass = '''', cc_CRURLOverride = '''',
       cc_FullSnapshotOnFirstContact = True\<rparr>,
     cf_FTPWatchDir = ''/srv/nybsys-ftp/nybsysftp/uploads'', cf_RulesFile = ''/etc/cloudlynet-agent/rules.yaml'',
     cf_BufferDB = ''/var/lib/cloudlynet-agent/buffer.sqlite'', cf_BufferMaxBytes = 104857600,
     cf_Enrollment = zero_Enrollment\<rparr>"

text \<open>A text of the file replaces the value unless it is empty; so does a duration that parses.\<close>

definition set_text :: "string \<Rightarrow> string \<Rightarrow> string" where
  "set_text v old = (if v \<noteq> '''' then v else old)"

definition setDuration :: "(string \<Rightarrow> int option) \<Rightarrow> string \<Rightarrow> int \<Rightarrow> int" where
  "setDuration parse v old = (if v = '''' then old else case parse v of Some d \<Rightarrow> d | None \<Rightarrow> old)"

definition raw_cwmp :: "rawCWMP \<Rightarrow> CWMPConfig \<Rightarrow> CWMPConfig" where
  "raw_cwmp raw c = \<lparr>cc_Listen = set_text (rc_Listen raw) (cc_Listen c), cc_CRUser = set_text (rc_CRUser raw) (cc_CRUser c),
     cc_CRPass = set_text (rc_CRPass raw) (cc_CRPass c),
     cc_CRURLOverride = set_text (rc_CRURLOverride raw) (cc_CRURLOverride c),
     cc_FullSnapshotOnFirstContact =
       (case rc_FullSnapshotOnFirstContact raw of Some b \<Rightarrow> b | None \<Rightarrow> cc_FullSnapshotOnFirstContact c)\<rparr>"

definition applyRaw :: "(string \<Rightarrow> int option) \<Rightarrow> rawConfig \<Rightarrow> Config \<Rightarrow> Config" where
  "applyRaw parse raw cfg = cfg\<lparr>
     cf_EnrollmentToken := set_text (rw_EnrollmentToken raw) (cf_EnrollmentToken cfg),
     cf_CWMP := raw_cwmp (rw_CWMP raw) (cf_CWMP cfg),
     cf_FTPWatchDir := set_text (rw_FTPWatchDir raw) (cf_FTPWatchDir cfg),
     cf_RulesFile := set_text (rw_RulesFile raw) (cf_RulesFile cfg),
     cf_BufferDB := set_text (rw_BufferDB raw) (cf_BufferDB cfg),
     cf_BufferMaxBytes := (if rw_BufferMaxBytes raw > 0 then rw_BufferMaxBytes raw else cf_BufferMaxBytes cfg),
     cf_PollInterval := setDuration parse (rw_PollInterval raw) (cf_PollInterval cfg),
     cf_HeartbeatInterval := setDuration parse (rw_HeartbeatInterval raw) (cf_HeartbeatInterval cfg),
     cf_TelemetryT1Interval := setDuration parse (rw_TelemetryT1Interval raw) (cf_TelemetryT1Interval cfg),
     cf_TelemetryT2Interval := setDuration parse (rw_TelemetryT2Interval raw) (cf_TelemetryT2Interval cfg),
     cf_TelemetryT3Interval := setDuration parse (rw_TelemetryT3Interval raw) (cf_TelemetryT3Interval cfg),
     cf_SnapshotInterval := setDuration parse (rw_SnapshotInterval raw) (cf_SnapshotInterval cfg),
     cf_CommandVerifyDelay := setDuration parse (rw_CommandVerifyDelay raw) (cf_CommandVerifyDelay cfg),
     cf_CommandVerifyTimeout := setDuration parse (rw_CommandVerifyTimeout raw) (cf_CommandVerifyTimeout cfg)\<rparr>"

subsection \<open>The enrollment token\<close>

datatype config_error =
  ReadFailed | YamlFailed | TokenRequired | TokenUndecodable | TokenUnparsable | TokenIncomplete

definition json_Enrollment :: "Enrollment \<Rightarrow> json option" where
  "json_Enrollment e = obj [(''v'', Some (JNum (show_int (en_Version e)))), (''tenant_id'', str (en_TenantID e)),
     (''edge_id'', str (en_EdgeID e)), (''base_url'', str (en_BaseURL e)), (''api_key'', str (en_APIKey e))]"

definition dec_Enrollment :: "Enrollment dec" where
  "dec_Enrollment = d_struct [''v'', ''tenant_id'', ''edge_id'', ''base_url'', ''api_key''] (\<lambda>n v y.
     if n = ''v'' then into d_int v (en_Version y) (\<lambda>z. y\<lparr>en_Version := z\<rparr>)
     else if n = ''tenant_id'' then into d_string v (en_TenantID y) (\<lambda>z. y\<lparr>en_TenantID := z\<rparr>)
     else if n = ''edge_id'' then into d_string v (en_EdgeID y) (\<lambda>z. y\<lparr>en_EdgeID := z\<rparr>)
     else if n = ''base_url'' then into d_string v (en_BaseURL y) (\<lambda>z. y\<lparr>en_BaseURL := z\<rparr>)
     else into d_string v (en_APIKey y) (\<lambda>z. y\<lparr>en_APIKey := z\<rparr>))"

definition token_bytes :: "string \<Rightarrow> bytes option" where
  "token_bytes token = (case RawDecode token of Some b \<Rightarrow> Some b | None \<Rightarrow> PadDecode token)"

definition complete :: "Enrollment \<Rightarrow> bool" where
  "complete e \<longleftrightarrow> en_TenantID e \<noteq> '''' \<and> en_EdgeID e \<noteq> '''' \<and> en_BaseURL e \<noteq> '''' \<and> en_APIKey e \<noteq> ''''"

definition DecodeEnrollmentToken :: "string \<Rightarrow> config_error + Enrollment" where
  "DecodeEnrollmentToken token0 =
     (let token = TrimSpace token0 in
      if token = '''' then Inl TokenRequired
      else case token_bytes token of
        None \<Rightarrow> Inl TokenUndecodable
      | Some b \<Rightarrow> (case Unmarshal dec_Enrollment b zero_Enrollment of (e, ok) \<Rightarrow>
          if \<not> ok then Inl TokenUnparsable
          else if \<not> complete e then Inl TokenIncomplete
          else Inr (e\<lparr>en_BaseURL := TrimRight (en_BaseURL e) (CHR ''/'')\<rparr>)))"

definition print_enrollment :: "Enrollment \<Rightarrow> bytes" where
  "print_enrollment e = (case Marshal json_Enrollment e of None \<Rightarrow> [] | Some b \<Rightarrow> b)"

definition set_env :: "string \<Rightarrow> string \<Rightarrow> string" where
  "set_env v old = (if TrimSpace v \<noteq> '''' then TrimSpace v else old)"

definition override_base :: "string \<Rightarrow> string \<Rightarrow> string" where
  "override_base v token =
     (if TrimSpace v = '''' then token
      else case DecodeEnrollmentToken token of
        Inl e \<Rightarrow> token
      | Inr e \<Rightarrow> RawEncode (print_enrollment (e\<lparr>en_BaseURL := TrimRight (TrimSpace v) (CHR ''/'')\<rparr>)))"

definition applyEnv :: "(string \<Rightarrow> string) \<Rightarrow> Config \<Rightarrow> Config" where
  "applyEnv getenv cfg = cfg\<lparr>
     cf_EnrollmentToken := override_base (getenv ''CLOUDLYNET_BASE_URL'')
       (set_env (getenv ''CLOUDLYNET_ENROLLMENT_TOKEN'') (cf_EnrollmentToken cfg)),
     cf_CWMP := (cf_CWMP cfg)\<lparr>
       cc_Listen := set_env (getenv ''CWMP_LISTEN'') (cc_Listen (cf_CWMP cfg)),
       cc_CRUser := set_env (getenv ''CWMP_CR_USER'') (cc_CRUser (cf_CWMP cfg)),
       cc_CRPass := set_env (getenv ''CWMP_CR_PASS'') (cc_CRPass (cf_CWMP cfg)),
       cc_CRURLOverride := set_env (getenv ''CWMP_CR_URL_OVERRIDE'') (cc_CRURLOverride (cf_CWMP cfg))\<rparr>,
     cf_FTPWatchDir := set_env (getenv ''FTP_WATCH_DIR'') (cf_FTPWatchDir cfg),
     cf_BufferDB := set_env (getenv ''BUFFER_DB'') (cf_BufferDB cfg)\<rparr>"

datatype file_read = NotExist | Unreadable | Contents bytes

definition Load ::
    "(bytes \<Rightarrow> rawConfig option) \<Rightarrow> (string \<Rightarrow> int option) \<Rightarrow> (string \<Rightarrow> string) \<Rightarrow> file_read \<Rightarrow>
       config_error + Config" where
  "Load yaml parse getenv file =
     (case (case file of
              NotExist \<Rightarrow> Inr defaultConfig
            | Unreadable \<Rightarrow> Inl ReadFailed
            | Contents b \<Rightarrow> (case yaml b of None \<Rightarrow> Inl YamlFailed | Some raw \<Rightarrow> Inr (applyRaw parse raw defaultConfig))) of
        Inl e \<Rightarrow> Inl e
      | Inr cfg0 \<Rightarrow>
          (let cfg = applyEnv getenv cfg0 in
           case DecodeEnrollmentToken (cf_EnrollmentToken cfg) of
             Inl e \<Rightarrow> Inl e
           | Inr en \<Rightarrow> Inr (cfg\<lparr>cf_Enrollment := en\<rparr>)))"

subsection \<open>Properties\<close>

lemma TrimSpace_idem_plain: "\<forall>c\<in>set s. \<not> is_space c \<Longrightarrow> TrimSpace s = s"
proof -
  have id: "dropWhile P s = s" if "\<forall>c\<in>set s. \<not> P c" for P and s :: string using that by (cases s) auto
  assume "\<forall>c\<in>set s. \<not> is_space c"
  then show ?thesis by (simp add: TrimSpace_def id)
qed

lemma RawEncode_plain: "\<forall>c\<in>set (RawEncode b). \<not> is_space c"
proof -
  have bytes: "\<forall>x\<in>set (map (of_char :: char \<Rightarrow> nat) b). x < 256" by (auto simp: of_char_def)
  show ?thesis using to6_small [OF bytes] b64_char_plain by (auto simp: RawEncode_def)
qed

lemma RawEncode_Nil: "RawEncode b = [] \<longleftrightarrow> b = []"
  by (cases "map (of_char :: char \<Rightarrow> nat) b" rule: to6.cases) (auto simp: RawEncode_def)

lemma Decode_RawEncode:
  "b \<noteq> [] \<Longrightarrow> DecodeEnrollmentToken (RawEncode b) =
     (case Unmarshal dec_Enrollment b zero_Enrollment of (e, ok) \<Rightarrow>
        if \<not> ok then Inl TokenUnparsable else if \<not> complete e then Inl TokenIncomplete
        else Inr (e\<lparr>en_BaseURL := TrimRight (en_BaseURL e) (CHR ''/'')\<rparr>))"
  using RawEncode_Nil [of b] TrimSpace_idem_plain [OF RawEncode_plain, of b]
  by (simp add: DecodeEnrollmentToken_def token_bytes_def RawDecode_RawEncode)

text \<open>An enrollment that JSON can carry: a 64-bit version and valid texts.\<close>

definition enrollment_ok :: "Enrollment \<Rightarrow> bool" where
  "enrollment_ok e \<longleftrightarrow> - (2 ^ 63) \<le> en_Version e \<and> en_Version e < 2 ^ 63 \<and> valid_utf8 (en_TenantID e) \<and> valid_utf8 (en_EdgeID e)
     \<and> valid_utf8 (en_BaseURL e) \<and> valid_utf8 (en_APIKey e)"

lemma enrollment_round_trip:
  assumes "enrollment_ok e"
  shows "print_enrollment e \<noteq> [] \<and> Unmarshal dec_Enrollment (print_enrollment e) zero_Enrollment = (e, True)"
proof -
  let ?j = "JObj [(''v'', JNum (show_int (en_Version e))), (''tenant_id'', JStr (en_TenantID e)), (''edge_id'', JStr (en_EdgeID e)),
    (''base_url'', JStr (en_BaseURL e)), (''api_key'', JStr (en_APIKey e))]"
  have p: "print_enrollment e = json_print ?j"
    using obj_Some by (simp add: print_enrollment_def Marshal_def json_Enrollment_def obj_def)
  have "json_ok ?j maxNestingDepth" using assms by (simp add: enrollment_ok_def num_ok_show_int maxNestingDepth_def)
  then have "json_unmarshal (print_enrollment e) = Some ?j" unfolding p by (rule json_round_trip)
  moreover have "dec_Enrollment ?j zero_Enrollment = (e, True)"
    using assms unfolding dec_Enrollment_def d_struct_fill
    by (cases e) (simp add: fill_def resolve_def into_def d_string_def d_int_def zero_Enrollment_def enrollment_ok_def ParseInt_show_int)
  ultimately show ?thesis using p by (simp add: Unmarshal_def)
qed

lemma TrimRight_idem [simp]: "TrimRight (TrimRight s c) c = TrimRight s c"
proof -
  have "dropWhile P (dropWhile P xs) = dropWhile P xs" for P and xs :: string
    by (induction xs) auto
  then show ?thesis by (simp add: TrimRight_def)
qed

text \<open>The environment can point the agent at another cloud without a new token: with a
  token that decodes, a \<^verbatim>\<open>CLOUDLYNET_BASE_URL\<close> that is more than slashes becomes the base URL,
  without trailing slashes, and the other fields of the token stay.\<close>

theorem Load_base_url_override:
  assumes "Load yaml parse (getenv(''CLOUDLYNET_BASE_URL'' := '''')) file = Inr cfg"
    and "TrimRight (TrimSpace v) (CHR ''/'') \<noteq> ''''"
    and "x = (cf_Enrollment cfg)\<lparr>en_BaseURL := TrimRight (TrimSpace v) (CHR ''/'')\<rparr>"
    and "enrollment_ok x"
  shows "\<exists>cfg'. Load yaml parse (getenv(''CLOUDLYNET_BASE_URL'' := v)) file = Inr cfg'
     \<and> cf_Enrollment cfg' = x
     \<and> cfg'\<lparr>cf_Enrollment := cf_Enrollment cfg, cf_EnrollmentToken := cf_EnrollmentToken cfg\<rparr> = cfg"
proof -
  let ?url = "TrimRight (TrimSpace v) (CHR ''/'')"
  obtain cfg0 where c0: "(case file of NotExist \<Rightarrow> Inr defaultConfig | Unreadable \<Rightarrow> Inl ReadFailed
      | Contents b \<Rightarrow> (case yaml b of None \<Rightarrow> Inl YamlFailed | Some raw \<Rightarrow> Inr (applyRaw parse raw defaultConfig))) = Inr cfg0"
    using assms(1) by (auto simp: Load_def split: sum.splits)
  let ?tok = "set_env (getenv ''CLOUDLYNET_ENROLLMENT_TOKEN'') (cf_EnrollmentToken cfg0)"
  have old: "override_base '''' ?tok = ?tok" by (simp add: override_base_def TrimSpace_def)
  obtain e where e: "DecodeEnrollmentToken ?tok = Inr e" and cfg: "cf_Enrollment cfg = e"
    "cfg = (applyEnv (getenv(''CLOUDLYNET_BASE_URL'' := '''')) cfg0)\<lparr>cf_Enrollment := e\<rparr>"
    using assms(1) by (auto simp: Load_def c0 Let_def applyEnv_def old split: sum.splits)
  have comp: "complete (e\<lparr>en_BaseURL := ?url\<rparr>)"
    using e assms(2) by (auto simp: DecodeEnrollmentToken_def complete_def Let_def split: if_splits option.splits prod.splits)
  have nz: "TrimSpace v \<noteq> ''''" using assms(2) by (auto simp: TrimRight_def)
  have new: "override_base v ?tok = RawEncode (print_enrollment (e\<lparr>en_BaseURL := ?url\<rparr>))"
    using e nz by (simp add: override_base_def)
  have dec: "DecodeEnrollmentToken (override_base v ?tok) = Inr (e\<lparr>en_BaseURL := ?url\<rparr>)"
    unfolding new using enrollment_round_trip [OF assms(4)] comp by (simp add: Decode_RawEncode assms(3) cfg(1))
  show ?thesis
    by (intro exI [of _ "(applyEnv (getenv(''CLOUDLYNET_BASE_URL'' := v)) cfg0)\<lparr>cf_Enrollment := e\<lparr>en_BaseURL := ?url\<rparr>\<rparr>"])
      (simp add: Load_def c0 Let_def applyEnv_def dec cfg old assms(3))
qed

text \<open>The first text of a list that is set.\<close>

fun first_set :: "string list \<Rightarrow> string" where
  "first_set [] = ''''"
| "first_set (x # xs) = (if x \<noteq> '''' then x else first_set xs)"

lemma set_chain:
  "set_text w d = first_set [w, d]" "set_env v (first_set ws) = first_set (TrimSpace v # ws)"
  "first_set [u, w, ''''] = first_set [u, w]"
  by (auto simp: set_env_def set_text_def)

text \<open>Precedence: a value of the environment, if not blank, wins over one of the file, and
  that, if set, over the default; a duration of the file counts only if it parses; and the
  cap of the outbox is positive whatever the file says.\<close>

theorem Load_precedence:
  assumes "Load yaml parse getenv (Contents b) = Inr cfg" and "yaml b = Some raw"
  shows "cc_Listen (cf_CWMP cfg) = first_set [TrimSpace (getenv ''CWMP_LISTEN''), rc_Listen (rw_CWMP raw), ''0.0.0.0:7547'']
     \<and> cc_CRUser (cf_CWMP cfg) = first_set [TrimSpace (getenv ''CWMP_CR_USER''), rc_CRUser (rw_CWMP raw)]
     \<and> cc_CRPass (cf_CWMP cfg) = first_set [TrimSpace (getenv ''CWMP_CR_PASS''), rc_CRPass (rw_CWMP raw)]
     \<and> cc_CRURLOverride (cf_CWMP cfg) = first_set [TrimSpace (getenv ''CWMP_CR_URL_OVERRIDE''), rc_CRURLOverride (rw_CWMP raw)]
     \<and> cf_FTPWatchDir cfg = first_set [TrimSpace (getenv ''FTP_WATCH_DIR''), rw_FTPWatchDir raw, ''/srv/nybsys-ftp/nybsysftp/uploads'']
     \<and> cf_BufferDB cfg = first_set [TrimSpace (getenv ''BUFFER_DB''), rw_BufferDB raw, ''/var/lib/cloudlynet-agent/buffer.sqlite'']
     \<and> cf_RulesFile cfg = first_set [rw_RulesFile raw, ''/etc/cloudlynet-agent/rules.yaml'']
     \<and> cf_CommandVerifyTimeout cfg = (if rw_CommandVerifyTimeout raw = '''' then 15000000000
          else case parse (rw_CommandVerifyTimeout raw) of Some dur \<Rightarrow> dur | None \<Rightarrow> 15000000000)
     \<and> 0 < cf_BufferMaxBytes cfg"
proof -
  obtain e where "cfg = (applyEnv getenv (applyRaw parse raw defaultConfig))\<lparr>cf_Enrollment := e\<rparr>"
    using assms by (auto simp: Load_def Let_def split: sum.splits)
  then have cfg: "cfg = (applyEnv getenv (applyRaw parse raw defaultConfig))\<lparr>cf_Enrollment := e\<rparr>" .
  note fields = cfg applyEnv_def applyRaw_def raw_cwmp_def defaultConfig_def
  show ?thesis
  proof (intro conjI)
    show "cf_CommandVerifyTimeout cfg = (if rw_CommandVerifyTimeout raw = '''' then 15000000000
          else case parse (rw_CommandVerifyTimeout raw) of Some dur \<Rightarrow> dur | None \<Rightarrow> 15000000000)"
      by (simp add: fields setDuration_def seconds_def)
    show "0 < cf_BufferMaxBytes cfg" by (simp add: fields)
  qed (simp_all add: fields set_chain del: first_set.simps)
qed

subsection \<open>Witnesses\<close>

definition demo_enrollment :: Enrollment where
  "demo_enrollment = \<lparr>en_Version = 1, en_TenantID = ''t'', en_EdgeID = ''e'', en_BaseURL = ''http://a'', en_APIKey = ''k''\<rparr>"

definition demo_raw :: rawConfig where
  "demo_raw = \<lparr>rw_EnrollmentToken = RawEncode (print_enrollment demo_enrollment), rw_PollInterval = '''', rw_HeartbeatInterval = '''',
     rw_TelemetryT1Interval = '''', rw_TelemetryT2Interval = '''', rw_TelemetryT3Interval = '''', rw_SnapshotInterval = '''',
     rw_CommandVerifyDelay = '''', rw_CommandVerifyTimeout = ''bogus'',
     rw_CWMP = \<lparr>rc_Listen = '':7000'', rc_CRUser = ''u'', rc_CRPass = '''', rc_CRURLOverride = '''', rc_FullSnapshotOnFirstContact = None\<rparr>,
     rw_FTPWatchDir = ''/ftp'', rw_RulesFile = '''', rw_BufferDB = '''', rw_BufferMaxBytes = -5\<rparr>"

definition demo_getenv :: "string \<Rightarrow> string" where
  "demo_getenv k = (if k = ''CWMP_LISTEN'' then '' :7547 '' else '''')"

lemma demo_enrollment_ok: "enrollment_ok demo_enrollment"
  by code_simp

lemma demo_load:
  "\<exists>cfg. Load (\<lambda>_. Some demo_raw) (\<lambda>_. None) demo_getenv (Contents ''x'') = Inr cfg \<and> cf_Enrollment cfg = demo_enrollment"
proof -
  have env: "set_env (demo_getenv ''CLOUDLYNET_ENROLLMENT_TOKEN'') s = s" "override_base (demo_getenv ''CLOUDLYNET_BASE_URL'') s = s" for s
    by (simp_all add: demo_getenv_def set_env_def override_base_def TrimSpace_def)
  have b: "print_enrollment demo_enrollment \<noteq> []" using enrollment_round_trip [OF demo_enrollment_ok] by blast
  have c: "complete demo_enrollment" "demo_enrollment\<lparr>en_BaseURL := TrimRight (en_BaseURL demo_enrollment) (CHR ''/'')\<rparr> = demo_enrollment"
    by code_simp+
  have t: "RawEncode (print_enrollment demo_enrollment) \<noteq> []" using b RawEncode_Nil by blast
  have tok: "cf_EnrollmentToken (applyEnv demo_getenv (applyRaw (\<lambda>_. None) demo_raw defaultConfig)) = RawEncode (print_enrollment demo_enrollment)"
    using t by (simp add: applyEnv_def env applyRaw_def demo_raw_def set_text_def)
  have "DecodeEnrollmentToken (RawEncode (print_enrollment demo_enrollment)) = Inr demo_enrollment"
    using c enrollment_round_trip [OF demo_enrollment_ok] by (simp add: Decode_RawEncode [OF b])
  then show ?thesis by (simp add: Load_def Let_def tok)
qed

theorem Load_precedence_witness:
  "\<exists>cfg. Load (\<lambda>_. Some demo_raw) (\<lambda>_. None) demo_getenv (Contents ''x'') = Inr cfg
     \<and> cc_Listen (cf_CWMP cfg) = '':7547'' \<and> cf_FTPWatchDir cfg = ''/ftp'' \<and> cf_CommandVerifyTimeout cfg = 15000000000"
proof -
  obtain cfg where l: "Load (\<lambda>_. Some demo_raw) (\<lambda>_. None) demo_getenv (Contents ''x'') = Inr cfg" using demo_load by blast
  have "TrimSpace '' :7547 '' = '':7547''" "TrimSpace '''' = ''''" by code_simp+
  with Load_precedence [OF l refl] l show ?thesis by (auto simp: demo_getenv_def demo_raw_def)
qed

theorem Load_base_url_override_witness:
  "\<exists>cfg'. Load (\<lambda>_. Some demo_raw) (\<lambda>_. None) (demo_getenv(''CLOUDLYNET_BASE_URL'' := ''https://b//'')) (Contents ''x'') = Inr cfg'
     \<and> cf_Enrollment cfg' = demo_enrollment\<lparr>en_BaseURL := ''https://b''\<rparr>"
proof -
  obtain cfg where l: "Load (\<lambda>_. Some demo_raw) (\<lambda>_. None) demo_getenv (Contents ''x'') = Inr cfg" "cf_Enrollment cfg = demo_enrollment"
    using demo_load by blast
  have same: "demo_getenv(''CLOUDLYNET_BASE_URL'' := '''') = demo_getenv" by (auto simp: demo_getenv_def)
  have u: "TrimRight (TrimSpace ''https://b//'') (CHR ''/'') = ''https://b''" by code_simp
  let ?x = "demo_enrollment\<lparr>en_BaseURL := ''https://b''\<rparr>"
  have j: "enrollment_ok ?x" by code_simp
  have "TrimRight (TrimSpace ''https://b//'') (CHR ''/'') \<noteq> ''''" unfolding u by simp
  from Load_base_url_override [of "\<lambda>_. Some demo_raw" "\<lambda>_. None" demo_getenv "Contents ''x''" cfg, OF _ this _ j] l u
  show ?thesis by (auto simp: same)
qed

end
