(* ===== verification/Boot.thy ===== *)
theory Boot
  imports Agent Config
begin

text \<open>
  Start-up (\<^verbatim>\<open>src/goagent/cmd/agent/main.go\<close>): \<open>main\<close> loads the configuration, opens the buffer,
  loads the rules (or falls back to the built-in ones) and the manifest, and wires server,
  collector, cloud client and worker together. What is on disk and in the environment is the
  record \<open>boot_env\<close>; the listener and the goroutine that scans are ticks of \<open>Run\<close>, and a signal
  is where they stop.
\<close>

record boot_env =
  be_config :: file_read
  be_yaml :: "bytes \<Rightarrow> rawConfig option"
  be_duration :: "string \<Rightarrow> int option"
  be_getenv :: "string \<Rightarrow> string"
  be_open :: "open_error \<Rightarrow> bool"
  be_db :: "string \<Rightarrow> db option"
  be_rules :: "string \<Rightarrow> bytes option"
  be_rules_yaml :: "bytes \<Rightarrow> (int \<times> Rule list) option"
  be_regexp :: "string \<Rightarrow> matcher option"
  be_manifest :: bytes
  be_ledger :: faults
  be_show :: "int \<Rightarrow> string"

datatype fatal = ConfigLoadFailed config_error | BufferOpenFailed open_error | ManifestLoadFailed | NoRules

text \<open>The rule engine: the configured file, or the built-in rules when it cannot be used. The
  built-in patterns compile; were one of them not to, the program would hold a nil engine
  and panic at the first upload, which is \<open>None\<close> here.\<close>

definition boot_rules :: "boot_env \<Rightarrow> Config \<Rightarrow> Engine option" where
  "boot_rules be cfg =
     (case Rules.Load (be_regexp be) (be_rules_yaml be) (be_rules be (cf_RulesFile cfg)) of
        Inr e \<Rightarrow> Some e
      | Inl err \<Rightarrow> DefaultEngine (be_regexp be))"

definition boot_server :: "Config \<Rightarrow> Server" where
  "boot_server cfg =
     (let srv = UseConnRequest (cc_CRUser (cf_CWMP cfg)) (cc_CRPass (cf_CWMP cfg)) (cc_CRURLOverride (cf_CWMP cfg)) NewServer
      in if cc_FullSnapshotOnFirstContact (cf_CWMP cfg) then UseFirstContactSnapshot SnapshotPaths srv else srv)"

definition boot_collector :: "boot_env \<Rightarrow> Engine \<Rightarrow> Config \<Rightarrow> Buffer \<Rightarrow> Collector" where
  "boot_collector be e cfg b = snd (UseIngestLedger (be_ledger be) (buf_db b) (New e (cf_FTPWatchDir cfg)))"

text \<open>What the agent tells the cloud about itself when it registers.\<close>

definition AgentVersion :: string where
  "AgentVersion = ''0.1.0''"

definition register_request :: "Config \<Rightarrow> RegisterRequest" where
  "register_request cfg = \<lparr>rr_AgentVersion = AgentVersion, rr_Meta =
     [(''edge_id'', VString (en_EdgeID (cf_Enrollment cfg))), (''tenant_id'', VString (en_TenantID (cf_Enrollment cfg))),
      (''cwmp_listen'', VString (cc_Listen (cf_CWMP cfg))), (''ftp_watch_dir'', VString (cf_FTPWatchDir cfg)),
      (''buffer_db'', VString (cf_BufferDB cfg)), (''agent_runtime'', VString ''docker-or-systemd'')]\<rparr>"

text \<open>\<open>main\<close> up to \<open>w.Run\<close>: the settings the worker runs with and its first state.\<close>

definition boot :: "boot_env \<Rightarrow> 'w worker_env \<Rightarrow> 'w \<Rightarrow> fatal + 'w worker_env \<times> 'w Worker" where
  "boot be we w =
     (case Config.Load (be_yaml be) (be_duration be) (be_getenv be) (be_config be) of
        Inl e \<Rightarrow> Inl (ConfigLoadFailed e)
      | Inr cfg \<Rightarrow>
     (case Open (be_open be) (be_db be (cf_BufferDB cfg)) (cf_BufferDB cfg) (cf_BufferMaxBytes cfg) of
        Inl e \<Rightarrow> Inl (BufferOpenFailed e)
      | Inr b \<Rightarrow>
     (case boot_rules be cfg of
        None \<Rightarrow> Inl NoRules
      | Some e \<Rightarrow>
     (case LoadManifest (be_manifest be) of
        None \<Rightarrow> Inl ManifestLoadFailed
      | Some m \<Rightarrow>
          Inr (we\<lparr>we_manifest := Some m, we_verifyTimeout := be_show be (cf_CommandVerifyTimeout cfg),
                  we_register := register_request cfg,
                  we_client := newClient (en_BaseURL (cf_Enrollment cfg)) (en_APIKey (cf_Enrollment cfg))\<rparr>,
               \<lparr>wk_acs = boot_server cfg, wk_buf = b, wk_col = boot_collector be e cfg b,
                wk_registered = False, wk_net = w\<rparr>)))))"

subsection \<open>The whole program\<close>

text \<open>The worker starts a ticker per interval once its start-up calls are done; Go's \<^verbatim>\<open>NewTicker\<close> panics
  on an interval that is not positive. A run that is not interrupted so ends with a signal, after
  the ticks that have come until then.\<close>

definition intervals :: "Config \<Rightarrow> int list" where
  "intervals cfg = [cf_PollInterval cfg, cf_HeartbeatInterval cfg, cf_TelemetryT1Interval cfg, cf_TelemetryT2Interval cfg,
     cf_TelemetryT3Interval cfg, cf_SnapshotInterval cfg]"

datatype 'w outcome = Died fatal | Panicked "'w Worker" | Stopped "'w Worker"

definition agent_main ::
    "boot_env \<Rightarrow> 'w worker_env \<Rightarrow> read_faults \<Rightarrow> (int \<Rightarrow> string) \<Rightarrow> ('f, 'w) push_env \<Rightarrow> (string \<Rightarrow> snapshot_env) \<Rightarrow>
       ('f, 'w) tick list \<Rightarrow> 'w \<Rightarrow> 'w outcome" where
  "agent_main be we rf rfc3339 pe svs ticks w =
     (case boot be we w of
        Inl e \<Rightarrow> Died e
      | Inr (we', wk) \<Rightarrow>
          (case Config.Load (be_yaml be) (be_duration be) (be_getenv be) (be_config be) of
             Inl e \<Rightarrow> Died (ConfigLoadFailed e)
           | Inr cfg \<Rightarrow> if list_all (\<lambda>d. 0 < d) (intervals cfg) then Stopped (Run we' rf rfc3339 pe svs ticks wk)
               else Panicked (Run we' rf rfc3339 pe svs [] wk)))"

fun left_behind :: "'w outcome \<Rightarrow> 'w Worker option" where
  "left_behind (Died e) = None"
| "left_behind (Panicked wk) = Some wk"
| "left_behind (Stopped wk) = Some wk"

subsection \<open>Start-up establishes the invariant\<close>

lemma boot_parts:
  assumes "boot be we w = Inr (we', wk)"
  obtains cfg e m where "Config.Load (be_yaml be) (be_duration be) (be_getenv be) (be_config be) = Inr cfg"
    "Open (be_open be) (be_db be (cf_BufferDB cfg)) (cf_BufferDB cfg) (cf_BufferMaxBytes cfg) = Inr (wk_buf wk)"
    "boot_rules be cfg = Some e" "LoadManifest (be_manifest be) = Some m"
    "wk_col wk = boot_collector be e cfg (wk_buf wk)" "wk_acs wk = boot_server cfg" "wk_registered wk = False"
  using assms by (auto simp: boot_def split: sum.splits option.splits)

lemma Load_cap_positive:
  assumes "Config.Load yaml parse getenv file = Inr cfg"
  shows "0 < cf_BufferMaxBytes cfg"
  using assms
  by (auto simp: Config.Load_def applyEnv_def applyRaw_def defaultConfig_def Let_def
      split: sum.splits file_read.splits option.splits if_splits)

lemma Open_cap: "Open fails file path cap = Inr b \<Longrightarrow> maxBytes b = cap"
  by (auto simp: Open_def Let_def split: if_splits)

lemma UseIngestLedger_inv:
  assumes "keyed (ftp_ingested d)"
  shows "col_inv (snd (UseIngestLedger flt d (New e dir)))"
proof -
  have "keyed (map (\<lambda>(p, r). (p, lr_stamp r)) (ftp_ingested d))"
    using assms by (simp add: case_prod_beta comp_def)
  then show ?thesis
    by (auto simp: UseIngestLedger_def LoadFTPIngested_def New_def books_ok_def marks_ok_def tick_of_def maxParseRetries_def)
qed

lemma boot_inv:
  assumes "boot be we w = Inr (we', wk)" and files: "\<And>path d. be_db be path = Some d \<Longrightarrow> db_ok d"
  shows "db_ok (buf_db (wk_buf wk))" "col_inv (wk_col wk)" "0 < maxBytes (wk_buf wk)"
proof -
  from assms(1) obtain cfg e where c: "Config.Load (be_yaml be) (be_duration be) (be_getenv be) (be_config be) = Inr cfg"
    and o: "Open (be_open be) (be_db be (cf_BufferDB cfg)) (cf_BufferDB cfg) (cf_BufferMaxBytes cfg) = Inr (wk_buf wk)"
    and col: "wk_col wk = boot_collector be e cfg (wk_buf wk)"
    by (rule boot_parts)
  show ok: "db_ok (buf_db (wk_buf wk))" using Open_ok [OF _ o] files by blast
  then show "col_inv (wk_col wk)" unfolding col boot_collector_def by (intro UseIngestLedger_inv) (simp add: db_ok_def)
  show "0 < maxBytes (wk_buf wk)" using Load_cap_positive [OF c] Open_cap [OF o] by simp
qed

text \<open>What a run from start-up on leaves, over the store it started from.\<close>

definition sound_after :: "bool \<Rightarrow> 'w Worker \<Rightarrow> 'w Worker \<Rightarrow> bool" where
  "sound_after sure wk wk' \<longleftrightarrow> db_ok (buf_db (wk_buf wk')) \<and> col_inv (wk_col wk')
     \<and> maxBytes (wk_buf wk') = maxBytes (wk_buf wk)
     \<and> payload (outbox (buf_db (wk_buf wk'))) \<le> max (maxBytes (wk_buf wk)) (payload (outbox (buf_db (wk_buf wk))))
     \<and> keeps_outcomes sure (buf_db (wk_buf wk)) (buf_db (wk_buf wk'))"

lemma run_sound:
  assumes "boot be we w = Inr (we', wk)" and "\<forall>path d. be_db be path = Some d \<longrightarrow> db_ok d"
    and "list_all lawful_tick ticks" and "\<forall>dev. lawful_schedule (sv_sched (svs dev))"
  shows "sound_after (list_all lookups_answer ticks) wk (Run we' rf rfc3339 pe svs ticks wk)"
proof -
  have b: "db_ok (buf_db (wk_buf wk))" "col_inv (wk_col wk)" "0 < maxBytes (wk_buf wk)"
    using boot_inv [OF assms(1)] assms(2) by blast+
  from Run_step [OF assms(3,4), of wk we' rf rfc3339 pe] b show ?thesis
    by (simp add: sound_after_def agent_step_def buf_step_def)
qed

text \<open>However the program ends, what it leaves is sound.\<close>

lemma main_leaves_sound:
  assumes "left_behind (agent_main be we rf rfc3339 pe svs ticks w) = Some wk'" and "\<forall>path d. be_db be path = Some d \<longrightarrow> db_ok d"
    and "list_all lawful_tick ticks" and "\<forall>dev. lawful_schedule (sv_sched (svs dev))"
  shows "\<exists>we' wk. boot be we w = Inr (we', wk) \<and> sound_after (list_all lookups_answer ticks) wk wk'"
proof -
  obtain we' wk ts where b: "boot be we w = Inr (we', wk)" "wk' = Run we' rf rfc3339 pe svs ts wk" "ts = ticks \<or> ts = []"
    using assms(1) by (auto simp: agent_main_def split: sum.splits if_splits)
  have "list_all lawful_tick ts" using b(3) assms(3) by auto
  from run_sound [OF b(1) assms(2) this assms(4)] have "sound_after (list_all lookups_answer ts) wk wk'" by (simp add: b(2))
  then have "sound_after (list_all lookups_answer ticks) wk wk'"
    using b(3) by (auto simp: sound_after_def intro: keeps_outcomes_weaken)
  with b(1) show ?thesis by blast
qed

text \<open>As the code has it, the file may set an interval to nothing or less: the configuration loads, and the
  program dies with its first ticker, after it has registered and sent its first telemetry.\<close>

lemma zero_interval_panics:
  assumes "be_config be = Contents b" "be_yaml be b = Some raw" "rw_PollInterval raw \<noteq> ''''"
    and "be_duration be (rw_PollInterval raw) = Some d" "d \<le> 0" "boot be we w = Inr (we', wk)"
  shows "agent_main be we rf rfc3339 pe svs ticks w = Panicked (Run we' rf rfc3339 pe svs [] wk)"
proof -
  obtain cfg where l: "Config.Load (be_yaml be) (be_duration be) (be_getenv be) (be_config be) = Inr cfg"
    using assms(6) by (rule boot_parts)
  then have "cf_PollInterval cfg = d"
    using assms(1-4) by (auto simp: Config.Load_def applyEnv_def applyRaw_def setDuration_def Let_def split: sum.splits)
  then show ?thesis using assms(5,6) l by (simp add: agent_main_def intervals_def)
qed

text \<open>C12. From start-up on: an agent started on a well-formed file keeps it well-formed through
  any run, whatever statements fail, in which the other goroutines do what the CWMP server and
  the FTP scan do (\<open>ServeHTTP_lawful\<close>, \<open>scan_lawful\<close>). The cap is positive whatever the
  configuration says. An outbox that fits it at start-up never outgrows it, and one that does
  not (the cap was lowered) never grows beyond what it was. Every recorded command stays
  recorded; its recorded outcome stays the same in a run whose lookups in the table of applied
  commands answer, while a lookup that fails lets the command be carried out again and the
  outcome be replaced.\<close>

theorem booted_agent_sound:
  assumes "boot be we w = Inr (we', wk)" and "\<forall>path d. be_db be path = Some d \<longrightarrow> db_ok d"
    and "list_all lawful_tick ticks" and "\<forall>dev. lawful_schedule (sv_sched (svs dev))"
    and "wk' = Run we' rf rfc3339 pe svs ticks wk"
  shows "db_ok (buf_db (wk_buf wk')) \<and> col_inv (wk_col wk')
     \<and> 0 < maxBytes (wk_buf wk) \<and> maxBytes (wk_buf wk') = maxBytes (wk_buf wk)
     \<and> payload (outbox (buf_db (wk_buf wk'))) \<le> max (maxBytes (wk_buf wk)) (payload (outbox (buf_db (wk_buf wk))))
     \<and> (\<forall>cid r. map_of (applied (buf_db (wk_buf wk))) cid = Some r \<longrightarrow>
          (\<exists>r'. map_of (applied (buf_db (wk_buf wk'))) cid = Some r' \<and> (list_all lookups_answer ticks \<longrightarrow> r' = r)))"
proof -
  have "0 < maxBytes (wk_buf wk)" using boot_inv(3) [OF assms(1)] assms(2) by blast
  with run_sound [OF assms(1-4), of rf rfc3339 pe] show ?thesis
    unfolding assms(5) sound_after_def keeps_outcomes_def by blast
qed

subsection \<open>A restart resumes\<close>

text \<open>An upload the ledger is up to date about: recorded, and with the stamp the directory shows
  (or with one that cannot be read).\<close>

definition up_to_date :: "db \<Rightarrow> string \<Rightarrow> dir_entry \<Rightarrow> bool" where
  "up_to_date d dir e \<longleftrightarrow>
     (case ledger_stamp d (path_join dir (de_name e)) of
        None \<Rightarrow> False
      | Some st \<Rightarrow> (case de_checkStamp e of None \<Rightarrow> True | Some cur \<Rightarrow> cur = st))"

text \<open>What a fresh look at an upload yields: its events, when the device is known, the file can
  be stamped and its content parses.\<close>

definition upload_events :: "scan_env \<Rightarrow> Engine \<Rightarrow> string \<Rightarrow> dir_entry \<Rightarrow> EventItem list" where
  "upload_events env rs dir e =
     (let path = path_join dir (de_name e) in
      case resolveDeviceID (se_devices env path) path of
        None \<Rightarrow> []
      | Some dev \<Rightarrow> if de_stamp e = None then []
          else (case parseUpload env rs path dev of None \<Rightarrow> [] | Some events \<Rightarrow> events))"

lemma try_ingest_events:
  assumes "tick_of (col_deferred c) (path_join dir (de_name e)) = 0"
  shows "col_events (try_ingest env (path_join dir (de_name e)) e c) = col_events c @ upload_events env (col_rules c) dir e"
  using assms
  by (auto simp: try_ingest_def upload_events_def slow_poll_def maxDeferTicks_def markSeen_def Let_def split: option.split)

lemma scan_entry_events:
  assumes "tick_of (col_deferred c) (path_join (col_ftpDir c) (de_name e)) = 0"
    and "map_of (col_seenPaths c) (path_join (col_ftpDir c) (de_name e)) = ledger_stamp d (path_join (col_ftpDir c) (de_name e))"
  shows "col_events (scan_entry env True e c) = col_events c @
     (if upload_entry e \<and> \<not> up_to_date d (col_ftpDir c) e then upload_events env (col_rules c) (col_ftpDir c) e else [])"
  using assms try_ingest_events [of c "col_ftpDir c" e env]
    try_ingest_events [of "c\<lparr>col_seenPaths := AList.delete (path_join (col_ftpDir c) (de_name e)) (col_seenPaths c)\<rparr>" "col_ftpDir c" e env]
  by (auto simp: scan_entry_def up_to_date_def Let_def split: option.splits)

lemma fold_scan_events:
  assumes "distinct (present_paths (col_ftpDir c) es)"
    and "\<And>e. e \<in> set es \<Longrightarrow> upload_entry e \<Longrightarrow> tick_of (col_deferred c) (path_join (col_ftpDir c) (de_name e)) = 0
       \<and> map_of (col_seenPaths c) (path_join (col_ftpDir c) (de_name e)) = ledger_stamp d (path_join (col_ftpDir c) (de_name e))"
  shows "col_events (fold (scan_entry env True) es c) = col_events c @
     concat (map (upload_events env (col_rules c) (col_ftpDir c)) (filter (\<lambda>e. upload_entry e \<and> \<not> up_to_date d (col_ftpDir c) e) es))"
  using assms
proof (induction es arbitrary: c)
  case (Cons e es)
  let ?c = "scan_entry env True e c"
  have same: "col_ftpDir ?c = col_ftpDir c" "col_rules ?c = col_rules c"
    using same_at_scan_entry [of e c "path_join (col_ftpDir c) (de_name e) @ ''x''"] by (auto simp: same_at_def)
  have "col_events (fold (scan_entry env True) es ?c) = col_events ?c @
     concat (map (upload_events env (col_rules ?c) (col_ftpDir ?c)) (filter (\<lambda>e. upload_entry e \<and> \<not> up_to_date d (col_ftpDir ?c) e) es))"
  proof (rule Cons.IH)
    show "distinct (present_paths (col_ftpDir ?c) es)" using Cons.prems(1) by (auto simp: same present_paths_def split: if_splits)
  next
    fix x assume x: "x \<in> set es" "upload_entry x"
    have "upload_entry e \<Longrightarrow> path_join (col_ftpDir c) (de_name e) \<noteq> path_join (col_ftpDir c) (de_name x)"
      using Cons.prems(1) x present_paths_mem [OF x(1,2)] by (auto simp: present_paths_def)
    then have "same_at (path_join (col_ftpDir c) (de_name x)) c ?c" by (rule same_at_scan_entry)
    then show "tick_of (col_deferred ?c) (path_join (col_ftpDir ?c) (de_name x)) = 0
       \<and> map_of (col_seenPaths ?c) (path_join (col_ftpDir ?c) (de_name x)) = ledger_stamp d (path_join (col_ftpDir ?c) (de_name x))"
      using Cons.prems(2) [of x] x by (simp add: same_at_def)
  qed
  moreover have "col_events ?c = col_events c @
     (if upload_entry e \<and> \<not> up_to_date d (col_ftpDir c) e then upload_events env (col_rules c) (col_ftpDir c) e else [])"
  proof (cases "upload_entry e")
    case True
    with Cons.prems(2) [of e] show ?thesis by (intro scan_entry_events) auto
  qed (auto simp: scan_entry_def)
  ultimately show ?case by (simp add: same)
qed simp

text \<open>C13. A restart resumes where the agent stopped. When the ledger could be read, the first
  scan after start-up yields, in the order of the directory, exactly the events of those uploads
  the ledger is not up to date about: the ones it has no record of, and those that were rewritten
  since they were recorded. Of each it yields every event the file parses to, provided its device
  is known and it can be read. A listing names each file once. An upload that is recorded with its current stamp yields nothing.\<close>

theorem restart_resumes:
  assumes "boot be we w = Inr (we', wk)" and "\<not> be_ledger be SelectRows"
    and "se_entries env = Some es" and "distinct (present_paths (col_ftpDir (wk_col wk)) es)"
  shows "col_events (fst (scanFTP env lf unix (wk_col wk) (buf_db (wk_buf wk)))) =
     concat (map (upload_events env (col_rules (wk_col wk)) (col_ftpDir (wk_col wk)))
       (filter (\<lambda>e. upload_entry e \<and> \<not> up_to_date (buf_db (wk_buf wk)) (col_ftpDir (wk_col wk)) e) es))"
proof -
  let ?d = "buf_db (wk_buf wk)" and ?c = "wk_col wk"
  from assms(1) obtain cfg e where "?c = boot_collector be e cfg (wk_buf wk)" by (rule boot_parts)
  then have col: "?c = (New e (cf_FTPWatchDir cfg))\<lparr>col_ledger := True, col_seenPaths := map (\<lambda>(p, r). (p, lr_stamp r)) (ftp_ingested ?d)\<rparr>"
    using assms(2) by (simp add: boot_collector_def UseIngestLedger_def LoadFTPIngested_def)
  have seen: "map_of (col_seenPaths ?c) p = ledger_stamp ?d p" for p
    by (simp add: col ledger_stamp_def map_of_map)
  have start: "takeRequeued ?c = ?c" "col_scans ?c = 0" "col_events ?c = []" "tick_of (col_deferred ?c) p = 0" for p
    by (simp_all add: col takeRequeued_def New_def tick_of_def)
  have "col_events (fst (scanFTP env lf unix ?c ?d)) = col_events (fold (scan_entry env True) es (?c\<lparr>col_scans := 1\<rparr>))"
    using assms(3) start(1,2) by (simp add: scanFTP_def Let_def persistScan_keeps rewriteCheckTicks_def)
  also have "\<dots> = col_events (?c\<lparr>col_scans := 1\<rparr>) @
     concat (map (upload_events env (col_rules ?c) (col_ftpDir ?c)) (filter (\<lambda>e. upload_entry e \<and> \<not> up_to_date ?d (col_ftpDir ?c) e) es))"
    using fold_scan_events [of "?c\<lparr>col_scans := 1\<rparr>" es ?d env] assms(4) start(4) seen by simp
  finally show ?thesis using start(3) by simp
qed

subsection \<open>Witnesses\<close>

text \<open>Two uploads of the device are recorded, of which one has changed since; a third is new.\<close>

definition rewritten_name :: string where
  "rewritten_name = ''Log_20260102.0000+0000_8C1F64.22.gz''"

definition new_name :: string where
  "new_name = ''Log_20260103.0000+0000_8C1F64.22.gz''"

definition three_uploads :: scan_env where
  "three_uploads = demo_env\<lparr>se_entries :=
     Some [demo_entry, demo_entry\<lparr>de_name := rewritten_name\<rparr>, demo_entry\<lparr>de_name := new_name\<rparr>]\<rparr>"

definition recorded_db :: db where
  "recorded_db = init_db\<lparr>ftp_ingested := [(''/ftp/'' @ demo_name, \<lparr>lr_stamp = \<lparr>st_Size = 3, st_ModTime = 9\<rparr>, lr_ingested_at = 1\<rparr>),
       (''/ftp/'' @ rewritten_name, \<lparr>lr_stamp = \<lparr>st_Size = 1, st_ModTime = 4\<rparr>, lr_ingested_at = 1\<rparr>)],
     applied := [(''c0'', \<lparr>ap_status = ''applied'', ap_result = '''', ap_applied_at = 1\<rparr>)]\<rparr>"

definition demo_be :: boot_env where
  "demo_be = \<lparr>be_config = Contents ''x'', be_yaml = (\<lambda>_. Some demo_raw), be_duration = (\<lambda>_. None),
     be_getenv = demo_getenv, be_open = (\<lambda>_. False), be_db = (\<lambda>_. Some recorded_db), be_rules = (\<lambda>_. None),
     be_rules_yaml = (\<lambda>_. None), be_regexp = (\<lambda>_. Some (\<lambda>_. False)),
     be_manifest = ''{}'',
     be_ledger = (\<lambda>_. False), be_show = (\<lambda>_. ''15s'')\<rparr>"

lemma demo_boot:
  "\<exists>we' wk. boot demo_be demo_we 0 = Inr (we', wk) \<and> col_ftpDir (wk_col wk) = ''/ftp'' \<and> eng_rules (col_rules (wk_col wk)) = map (\<lambda>r. r\<lparr>r_re := \<lambda>_. False\<rparr>) default_rules
     \<and> buf_db (wk_buf wk) = recorded_db \<and> maxBytes (wk_buf wk) = 104857600"
proof -
  obtain cfg where l: "Config.Load (\<lambda>_. Some demo_raw) (\<lambda>_. None) demo_getenv (Contents ''x'') = Inr cfg"
    using demo_load by blast
  then have f: "cf_FTPWatchDir cfg = ''/ftp''" "cf_BufferDB cfg = ''/var/lib/cloudlynet-agent/buffer.sqlite''"
      "cf_BufferMaxBytes cfg = 104857600"
    by (auto simp: Config.Load_def applyEnv_def applyRaw_def demo_raw_def defaultConfig_def Let_def set_text_def set_env_def
        demo_getenv_def TrimSpace_def split: sum.splits)
  show ?thesis
    by (simp add: boot_def demo_be_def l Open_def f boot_rules_def Rules.Load_def DefaultEngine_def compile_def
        default_rules_def empty_asset boot_collector_def UseIngestLedger_def LoadFTPIngested_def New_def)
qed

theorem booted_agent_sound_witness:
  "\<exists>we' wk wk'. boot demo_be demo_we 0 = Inr (we', wk) \<and> wk' = Run we' demo_rf (\<lambda>_. ''t'') demo_pe demo_svs demo_ticks wk
     \<and> payload (outbox (buf_db (wk_buf wk'))) \<le> 104857600
     \<and> map_option ap_status (map_of (applied (buf_db (wk_buf wk'))) ''c0'') = Some ''applied''"
proof -
  obtain we' wk where b: "boot demo_be demo_we 0 = Inr (we', wk)" "buf_db (wk_buf wk) = recorded_db" "maxBytes (wk_buf wk) = 104857600"
    using demo_boot by blast
  have ok: "\<forall>path d. be_db demo_be path = Some d \<longrightarrow> db_ok d"
    by (simp add: demo_be_def recorded_db_def db_ok_def init_db_def rewritten_name_def demo_name_def)
  have p: "payload (outbox recorded_db) = 0" by (simp add: recorded_db_def init_db_def)
  have ap: "map_of (applied recorded_db) ''c0'' = Some \<lparr>ap_status = ''applied'', ap_result = '''', ap_applied_at = 1\<rparr>"
    by (simp add: recorded_db_def)
  let ?wk' = "Run we' demo_rf (\<lambda>_. ''t'') demo_pe demo_svs demo_ticks wk"
  from booted_agent_sound [OF b(1) ok demo_ticks_lawful(1,3) refl, of demo_rf "\<lambda>_. ''t''" demo_pe] demo_ticks_lawful(2) ap
  have "payload (outbox (buf_db (wk_buf ?wk'))) \<le> 104857600" "map_option ap_status (map_of (applied (buf_db (wk_buf ?wk'))) ''c0'') = Some ''applied''"
    by (auto simp: b p)
  with b(1) show ?thesis by blast
qed

theorem restart_resumes_witness:
  "\<exists>we' wk. boot demo_be demo_we 0 = Inr (we', wk)
     \<and> length (col_events (fst (scanFTP three_uploads demo_lf 5 (wk_col wk) (buf_db (wk_buf wk))))) = 2"
proof -
  obtain we' wk where b: "boot demo_be demo_we 0 = Inr (we', wk)" "buf_db (wk_buf wk) = recorded_db"
      "col_ftpDir (wk_col wk) = ''/ftp''" "eng_rules (col_rules (wk_col wk)) = map (\<lambda>r. r\<lparr>r_re := \<lambda>_. False\<rparr>) default_rules"
    using demo_boot by blast
  have led: "\<not> be_ledger demo_be SelectRows" by (simp add: demo_be_def)
  let ?es = "[demo_entry, demo_entry\<lparr>de_name := rewritten_name\<rparr>, demo_entry\<lparr>de_name := new_name\<rparr>]"
  have es: "se_entries three_uploads = Some ?es" by (simp add: three_uploads_def)
  have path: "path_join ''/ftp'' rewritten_name = ''/ftp/'' @ rewritten_name" "path_join ''/ftp'' new_name = ''/ftp/'' @ new_name"
    by code_simp+
  have up: "isLogUpload rewritten_name" "isLogUpload new_name" by code_simp+
  have ne: "demo_name \<noteq> rewritten_name" "demo_name \<noteq> new_name" "rewritten_name \<noteq> new_name"
    by (simp_all add: demo_name_def rewritten_name_def new_name_def)
  have d: "distinct (present_paths (col_ftpDir (wk_col wk)) ?es)"
    using ne by (auto simp: present_paths_def b path demo_path demo_entry_def)
  have st: "ledger_stamp recorded_db (''/ftp/'' @ demo_name) = Some \<lparr>st_Size = 3, st_ModTime = 9\<rparr>"
    "ledger_stamp recorded_db (''/ftp/'' @ rewritten_name) = Some \<lparr>st_Size = 1, st_ModTime = 4\<rparr>"
    "ledger_stamp recorded_db (''/ftp/'' @ new_name) = None"
    using ne by (auto simp: ledger_stamp_def recorded_db_def)
  have keep: "filter (\<lambda>e. upload_entry e \<and> \<not> up_to_date recorded_db ''/ftp'' e) ?es =
      [demo_entry\<lparr>de_name := rewritten_name\<rparr>, demo_entry\<lparr>de_name := new_name\<rparr>]"
    using up demo_upload st by (simp add: up_to_date_def demo_entry_def path demo_path del: append.simps)
  have res: "resolveDeviceID [demo_device] (''/ftp/'' @ rewritten_name) = Some ''8C1F64-P-22''"
    "resolveDeviceID [demo_device] (''/ftp/'' @ new_name) = Some ''8C1F64-P-22''"
    by code_simp+
  have line: "Split ''5 [FM] fault'' (CHR 0x0A) = [''5 [FM] fault'']" "TrimSpace ''5 [FM] fault'' = ''5 [FM] fault''"
    "alarmy ''5 [FM] fault''" by code_simp+
  have "length (Apply h (col_rules (wk_col wk)) now [''5 [FM] fault''] dev day) = 1" for h now dev day
  proof -
    have "find (\<lambda>r. EqualFold (r_Module r) m \<and> r_re r l) (eng_rules (col_rules (wk_col wk))) = None" for m l
      by (auto simp: b(4) find_None_iff)
    then show ?thesis by (simp add: Apply_eq classify_def Let_def line(2,3))
  qed
  then have "length (upload_events three_uploads (col_rules (wk_col wk)) ''/ftp'' (demo_entry\<lparr>de_name := n\<rparr>)) = 1"
    if "n = rewritten_name \<or> n = new_name" for n
    using that res by (auto simp: upload_events_def path three_uploads_def demo_env_def demo_entry_def parseUpload_def
        eventsFromGzipLog_def maxLogBytes_def line(1) Let_def)
  with restart_resumes [OF b(1) led es d, of demo_lf 5, unfolded b(2,3) keep]
  have "length (col_events (fst (scanFTP three_uploads demo_lf 5 (wk_col wk) recorded_db))) = 2" by simp
  with b(1,2) show ?thesis by metis
qed

end
