(* ===== verification/Fleet.thy ===== *)
theory Fleet
  imports Config DeviceId Soap Manifests
begin

text \<open>
  The configuration of the device emulator (\<^verbatim>\<open>src/testsuite/config.go\<close>): one device, or a fleet of devices each
  with an identity, a connection-request port and parameters of its own. The YAML decoder,
  which writes over the defaults, and the duration parser are arguments. Shown here: a
  fleet that loads has pairwise different serials, canonical ids and ports, and the error
  cases are exactly a missing and a repeated serial.
\<close>

record identity =
  id_OUI :: string
  id_ProductClass :: string
  id_Serial :: string

record ftp_conf =
  fc_Host :: string
  fc_User :: string
  fc_Pass :: string
  fc_UploadInterval :: int
  fc_Retention :: int

record deviceConfig =
  dc_Serial :: string
  dc_OUI :: string
  dc_ProductClass :: string
  dc_Params :: "(string, string) tbl"

record nanolinkConfig =
  nc_Identity :: identity
  nc_FTP :: ftp_conf
  nc_Scenario :: string
  nc_Devices :: "deviceConfig list"

definition defaultFTPRetention :: int where
  "defaultFTPRetention = 6 * 3600 * 1000000000"

definition defaultNanolinkConfig :: nanolinkConfig where
  "defaultNanolinkConfig =
     \<lparr>nc_Identity = \<lparr>id_OUI = ''8C1F64'', id_ProductClass = ''ENB-N03002-B3'', id_Serial = ''2205609999''\<rparr>,
      nc_FTP = \<lparr>fc_Host = ''ftp'', fc_User = ''nybsys'', fc_Pass = '''', fc_UploadInterval = seconds 60,
        fc_Retention = defaultFTPRetention\<rparr>,
      nc_Scenario = ''happy'', nc_Devices = []\<rparr>"

definition loadNanolinkConfig ::
    "(bytes \<Rightarrow> nanolinkConfig \<Rightarrow> nanolinkConfig option) \<Rightarrow> file_read \<Rightarrow> nanolinkConfig option" where
  "loadNanolinkConfig yaml file =
     (case file of
        NotExist \<Rightarrow> Some defaultNanolinkConfig
      | Unreadable \<Rightarrow> None
      | Contents b \<Rightarrow> yaml b defaultNanolinkConfig)"

definition withEnvOverrides :: "(string \<Rightarrow> int option) \<Rightarrow> (string \<Rightarrow> string) \<Rightarrow> nanolinkConfig \<Rightarrow> nanolinkConfig" where
  "withEnvOverrides parse getenv c =
     (let v = TrimSpace (getenv ''NANOLINK_FTP_RETENTION'') in
      c\<lparr>nc_Identity := \<lparr>id_OUI = set_text (getenv ''NANOLINK_OUI'') (id_OUI (nc_Identity c)),
          id_ProductClass = set_text (getenv ''NANOLINK_PRODUCT_CLASS'') (id_ProductClass (nc_Identity c)),
          id_Serial = set_text (getenv ''NANOLINK_SERIAL'') (id_Serial (nc_Identity c))\<rparr>,
        nc_FTP := (nc_FTP c)\<lparr>fc_Host := set_text (getenv ''FTP_HOST'') (fc_Host (nc_FTP c)),
          fc_User := set_text (getenv ''FTP_USER'') (fc_User (nc_FTP c)),
          fc_Pass := set_text (getenv ''FTP_PASS'') (fc_Pass (nc_FTP c)),
          fc_Retention := setDuration parse v (fc_Retention (nc_FTP c))\<rparr>,
        nc_Scenario := set_text (getenv ''NANOLINK_SCENARIO'') (nc_Scenario c)\<rparr>)"

definition canonicalID :: "string \<Rightarrow> string \<Rightarrow> string \<Rightarrow> string" where
  "canonicalID oui productClass serial =
     (let enc = (\<lambda>s. ReplaceAll1 s (CHR ''-'') ''%2D'')
      in enc oui @ ''-'' @ enc productClass @ ''-'' @ enc serial)"

definition crPortBase :: int where "crPortBase = 30005"

definition crPortFor :: "int \<Rightarrow> int" where
  "crPortFor index = crPortBase + index"

definition startStagger :: int where "startStagger = 700 * 1000000"

definition startDelay :: "int \<Rightarrow> int" where
  "startDelay index = index * startStagger"

record deviceSpec =
  sp_Index :: int
  sp_OUI :: string
  sp_ProductClass :: string
  sp_Serial :: string
  sp_CWMPID :: string
  sp_CRPort :: int
  sp_CRURL :: string
  sp_Params :: "(string, string) tbl"

datatype spec_error = SerialRequired int | DuplicateSerial int string

definition spec_of :: "identity \<Rightarrow> int \<Rightarrow> deviceConfig \<Rightarrow> deviceSpec" where
  "spec_of idn i d =
     (let serial = TrimSpace (dc_Serial d);
          oui = set_text (dc_OUI d) (id_OUI idn);
          productClass = set_text (dc_ProductClass d) (id_ProductClass idn)
      in \<lparr>sp_Index = i, sp_OUI = oui, sp_ProductClass = productClass, sp_Serial = serial,
          sp_CWMPID = canonicalID oui productClass serial, sp_CRPort = crPortFor i, sp_CRURL = '''', sp_Params = dc_Params d\<rparr>)"

fun specs_loop :: "identity \<Rightarrow> string list \<Rightarrow> int \<Rightarrow> deviceConfig list \<Rightarrow> spec_error + deviceSpec list" where
  "specs_loop idn seen i [] = Inr []"
| "specs_loop idn seen i (d # ds) =
     (let serial = TrimSpace (dc_Serial d) in
      if serial = '''' then Inl (SerialRequired i)
      else if serial \<in> set seen then Inl (DuplicateSerial i serial)
      else case specs_loop idn (serial # seen) (i + 1) ds of
        Inl e \<Rightarrow> Inl e
      | Inr specs \<Rightarrow> Inr (spec_of idn i d # specs))"

definition deviceSpecs :: "nanolinkConfig \<Rightarrow> spec_error + deviceSpec list" where
  "deviceSpecs c =
     (let idn = nc_Identity c in
      if nc_Devices c = [] then
        Inr [\<lparr>sp_Index = 0, sp_OUI = id_OUI idn, sp_ProductClass = id_ProductClass idn, sp_Serial = id_Serial idn,
              sp_CWMPID = canonicalID (id_OUI idn) (id_ProductClass idn) (id_Serial idn), sp_CRPort = crPortFor 0,
              sp_CRURL = '''', sp_Params = []\<rparr>]
      else specs_loop idn [] 0 (nc_Devices c))"

subsection \<open>Properties\<close>

lemma canonicalID_agent: "canonicalID = CanonicalID"
  by (intro ext) (simp add: canonicalID_def CanonicalID_def enc_hyphen_def)

lemma set_text_same: "set_text v old = (if v = '''' then old else v)"
  by (simp add: set_text_def)

lemma specs_loop_ok:
  "specs_loop idn seen i ds = Inr specs \<longleftrightarrow>
     specs = map (\<lambda>(j, d). spec_of idn (i + int j) d) (enumerate 0 ds)
     \<and> (\<forall>d\<in>set ds. TrimSpace (dc_Serial d) \<notin> insert '''' (set seen)) \<and> distinct (map (\<lambda>d. TrimSpace (dc_Serial d)) ds)"
proof (induction ds arbitrary: seen i specs)
  case (Cons d ds)
  have sh: "map (\<lambda>(j, d). spec_of idn (i + int j) d) (enumerate (Suc 0) ds) =
      map (\<lambda>(j, d). spec_of idn (i + 1 + int j) d) (enumerate 0 ds)"
    by (rule nth_equalityI) (simp_all add: nth_enumerate_eq algebra_simps)
  show ?case
    using Cons.IH [of "TrimSpace (dc_Serial d) # seen" "i + 1"]
    by (auto simp: Let_def sh split: sum.splits) (metis image_eqI)
qed auto

lemma specs_loop_error:
  "specs_loop idn seen i ds = Inl e \<Longrightarrow> \<exists>j<length ds.
     (e = SerialRequired (i + int j) \<and> TrimSpace (dc_Serial (ds ! j)) = ''''
      \<or> e = DuplicateSerial (i + int j) (TrimSpace (dc_Serial (ds ! j)))
         \<and> TrimSpace (dc_Serial (ds ! j)) \<in> set seen \<union> (\<lambda>d. TrimSpace (dc_Serial d)) ` set (take j ds))"
proof (induction ds arbitrary: seen i)
  case (Cons d ds)
  let ?s = "TrimSpace (dc_Serial d)"
  show ?case
  proof (cases "?s = '''' \<or> ?s \<in> set seen")
    case True
    with Cons.prems show ?thesis by (intro exI [of _ 0]) (auto simp: Let_def split: if_splits)
  next
    case False
    with Cons.prems have "specs_loop idn (?s # seen) (i + 1) ds = Inl e" by (auto simp: Let_def split: sum.splits)
    from Cons.IH [OF this] obtain j where j: "j < length ds"
      "e = SerialRequired (i + 1 + int j) \<and> TrimSpace (dc_Serial (ds ! j)) = ''''
       \<or> e = DuplicateSerial (i + 1 + int j) (TrimSpace (dc_Serial (ds ! j)))
         \<and> TrimSpace (dc_Serial (ds ! j)) \<in> set (?s # seen) \<union> (\<lambda>d. TrimSpace (dc_Serial d)) ` set (take j ds)"
      by blast
    then show ?thesis by (intro exI [of _ "Suc j"]) (auto simp: algebra_simps)
  qed
qed simp

lemma canonicalID_serial:
  assumes "canonicalID o1 p1 s1 = canonicalID o2 p2 s2" "\<not> Contains s1 ''%2D''" "\<not> Contains s2 ''%2D''"
  shows "s1 = s2"
  using arg_cong [OF assms(1) [unfolded canonicalID_agent], of "\<lambda>x. Split x (CHR ''-'')"] assms(2,3) dec_enc_hyphen
  by (metis CanonicalID_split list.inject)

text \<open>Two serials that give the same canonical id, whatever the rest of the identity, differ at
  most in writing a hyphen as \<^verbatim>\<open>%2D\<close>.\<close>

lemma canonicalID_collision: "canonicalID o1 p1 s1 = canonicalID o2 p2 s2 \<Longrightarrow> enc_hyphen s1 = enc_hyphen s2"
  unfolding canonicalID_agent by (metis CanonicalID_split list.inject)

text \<open>What an accepted list of entries becomes.\<close>

lemma deviceSpecs_accepted:
  assumes "nc_Devices c \<noteq> []" and "deviceSpecs c = Inr specs"
  shows "map sp_Serial specs = map (\<lambda>d. TrimSpace (dc_Serial d)) (nc_Devices c)"
    "map sp_Index specs = map int [0..<length (nc_Devices c)]" "map sp_CRPort specs = map crPortFor (map sp_Index specs)"
    "distinct (map sp_Serial specs)"
    "\<forall>s\<in>set specs. sp_Serial s \<noteq> '''' \<and> sp_CWMPID s = CanonicalID (sp_OUI s) (sp_ProductClass s) (sp_Serial s)"
proof -
  let ?ds = "nc_Devices c" and ?ser = "\<lambda>d. TrimSpace (dc_Serial d)"
  have "specs_loop (nc_Identity c) [] 0 ?ds = Inr specs" using assms by (simp add: deviceSpecs_def Let_def)
  then have sp: "specs = map (\<lambda>(j, d). spec_of (nc_Identity c) (int j) d) (enumerate 0 ?ds)"
    and ne: "\<forall>d\<in>set ?ds. ?ser d \<noteq> ''''" and dist: "distinct (map ?ser ?ds)"
    by (auto simp: specs_loop_ok)
  show ser: "map sp_Serial specs = map ?ser ?ds"
    by (rule nth_equalityI) (simp_all add: sp spec_of_def Let_def nth_enumerate_eq)
  show "map sp_Index specs = map int [0..<length ?ds]"
    by (rule nth_equalityI) (simp_all add: sp spec_of_def Let_def nth_enumerate_eq)
  show "map sp_CRPort specs = map crPortFor (map sp_Index specs)"
    by (simp add: sp spec_of_def Let_def case_prod_beta)
  show "distinct (map sp_Serial specs)" using dist by (simp add: ser)
  have "sp_CWMPID s = canonicalID (sp_OUI s) (sp_ProductClass s) (sp_Serial s) \<and> sp_Serial s \<in> ?ser ` set ?ds" if "s \<in> set specs" for s
    using that by (auto simp: sp spec_of_def Let_def in_set_enumerate_eq)
  then show "\<forall>s\<in>set specs. sp_Serial s \<noteq> '''' \<and> sp_CWMPID s = CanonicalID (sp_OUI s) (sp_ProductClass s) (sp_Serial s)"
    using ne by (force simp: canonicalID_agent)
qed

text \<open>Which entries of an accepted list can share an id.\<close>

lemma deviceSpecs_collision:
  assumes "nc_Devices c \<noteq> []" "deviceSpecs c = Inr specs" "s \<in> set specs" "t \<in> set specs" "sp_CWMPID s = sp_CWMPID t"
  shows "s = t \<or> enc_hyphen (sp_Serial s) = enc_hyphen (sp_Serial t)
     \<and> (Contains (sp_Serial s) ''%2D'' \<or> Contains (sp_Serial t) ''%2D'')"
proof -
  note S = deviceSpecs_accepted [OF assms(1,2)]
  have "canonicalID (sp_OUI s) (sp_ProductClass s) (sp_Serial s) = canonicalID (sp_OUI t) (sp_ProductClass t) (sp_Serial t)"
    using assms(3-5) S(5) by (simp add: canonicalID_agent)
  from canonicalID_collision [OF this] canonicalID_serial [OF this] show ?thesis
    using S(4) assms(3,4) by (auto simp: distinct_map dest: inj_onD)
qed

lemma deviceSpecs_Inr:
  assumes "nc_Devices c \<noteq> []" and "\<forall>d\<in>set (nc_Devices c). \<not> Contains (TrimSpace (dc_Serial d)) ''%2D''"
    and "deviceSpecs c = Inr specs"
  shows "map sp_Serial specs = map (\<lambda>d. TrimSpace (dc_Serial d)) (nc_Devices c)"
    "map sp_Index specs = map int [0..<length (nc_Devices c)]" "map sp_CRPort specs = map crPortFor (map sp_Index specs)"
    "distinct (map sp_Serial specs)" "distinct (map sp_CWMPID specs)"
    "\<forall>s\<in>set specs. sp_Serial s \<noteq> '''' \<and> sp_CWMPID s = CanonicalID (sp_OUI s) (sp_ProductClass s) (sp_Serial s)"
proof -
  note S = deviceSpecs_accepted [OF assms(1,3)]
  show "map sp_Serial specs = map (\<lambda>d. TrimSpace (dc_Serial d)) (nc_Devices c)"
    "map sp_Index specs = map int [0..<length (nc_Devices c)]" "map sp_CRPort specs = map crPortFor (map sp_Index specs)"
    "distinct (map sp_Serial specs)"
    "\<forall>s\<in>set specs. sp_Serial s \<noteq> '''' \<and> sp_CWMPID s = CanonicalID (sp_OUI s) (sp_ProductClass s) (sp_Serial s)"
    by (fact S)+
  have sub: "sp_Serial ` set specs = (\<lambda>d. TrimSpace (dc_Serial d)) ` set (nc_Devices c)"
    using arg_cong [OF S(1), of set] by simp
  have "\<not> Contains (sp_Serial s) ''%2D''" if "s \<in> set specs" for s
  proof -
    from that have "sp_Serial s \<in> (\<lambda>d. TrimSpace (dc_Serial d)) ` set (nc_Devices c)" unfolding sub [symmetric] by (rule imageI)
    then obtain d where "d \<in> set (nc_Devices c)" "sp_Serial s = TrimSpace (dc_Serial d)" by (rule imageE)
    note d = this
    from bspec [OF assms(2) d(1)] show ?thesis unfolding d(2) .
  qed
  note free = this
  have "inj_on sp_CWMPID (set specs)"
  proof (rule inj_onI)
    fix s t assume st: "s \<in> set specs" "t \<in> set specs" "sp_CWMPID s = sp_CWMPID t"
    from deviceSpecs_collision [OF assms(1,3) st] free [OF st(1)] free [OF st(2)] show "s = t" by iprover
  qed
  with S(4) show "distinct (map sp_CWMPID specs)" by (simp only: distinct_map simp_thms)
qed

text \<open>C36. A fleet that is accepted keeps its devices apart. From a list with at least one entry
  comes one device per entry, in order, with pairwise different serials and connection-request
  ports, each under the id the agent computes from its identity. Two devices of it share a
  canonical id only when their serials are the same but for a hyphen in one that the other
  spells \<^verbatim>\<open>%2D\<close>, as \<^verbatim>\<open>A-1\<close> and \<^verbatim>\<open>A%2D1\<close> do, which the code does accept; so all ids
  differ when no serial contains that text. A fleet is refused only for a blank or a repeated
  serial, at the entry named.\<close>

theorem deviceSpecs_keep_apart:
  assumes "nc_Devices c \<noteq> []"
  shows "case deviceSpecs c of
      Inr specs \<Rightarrow> map sp_Serial specs = map (\<lambda>d. TrimSpace (dc_Serial d)) (nc_Devices c)
        \<and> map sp_Index specs = map int [0..<length (nc_Devices c)]
        \<and> distinct (map sp_Serial specs) \<and> distinct (map sp_CRPort specs)
        \<and> (\<forall>s\<in>set specs. sp_Serial s \<noteq> '''' \<and> sp_CWMPID s = CanonicalID (sp_OUI s) (sp_ProductClass s) (sp_Serial s))
        \<and> (\<forall>s\<in>set specs. \<forall>t\<in>set specs. sp_CWMPID s = sp_CWMPID t \<longrightarrow> s = t
             \<or> enc_hyphen (sp_Serial s) = enc_hyphen (sp_Serial t)
               \<and> (Contains (sp_Serial s) ''%2D'' \<or> Contains (sp_Serial t) ''%2D''))
        \<and> ((\<forall>d\<in>set (nc_Devices c). \<not> Contains (TrimSpace (dc_Serial d)) ''%2D'') \<longrightarrow> distinct (map sp_CWMPID specs))
    | Inl (SerialRequired i) \<Rightarrow> 0 \<le> i \<and> nat i < length (nc_Devices c) \<and> TrimSpace (dc_Serial (nc_Devices c ! nat i)) = ''''
    | Inl (DuplicateSerial i s) \<Rightarrow> 0 \<le> i \<and> nat i < length (nc_Devices c) \<and> s = TrimSpace (dc_Serial (nc_Devices c ! nat i))
        \<and> s \<in> (\<lambda>d. TrimSpace (dc_Serial d)) ` set (take (nat i) (nc_Devices c))"
proof (cases "deviceSpecs c")
  case (Inl e)
  then have "specs_loop (nc_Identity c) [] 0 (nc_Devices c) = Inl e" using assms by (simp add: deviceSpecs_def Let_def)
  from specs_loop_error [OF this] Inl show ?thesis by (auto split: spec_error.split)
next
  case (Inr specs)
  note sp = deviceSpecs_accepted [OF assms Inr]
  have "distinct (map sp_CRPort specs)" unfolding sp(3) sp(2) by (auto simp: distinct_map inj_on_def crPortFor_def)
  moreover have "\<forall>s\<in>set specs. \<forall>t\<in>set specs. sp_CWMPID s = sp_CWMPID t \<longrightarrow> s = t
             \<or> enc_hyphen (sp_Serial s) = enc_hyphen (sp_Serial t)
               \<and> (Contains (sp_Serial s) ''%2D'' \<or> Contains (sp_Serial t) ''%2D'')"
    using deviceSpecs_collision [OF assms Inr] by blast
  moreover have "(\<forall>d\<in>set (nc_Devices c). \<not> Contains (TrimSpace (dc_Serial d)) ''%2D'') \<longrightarrow> distinct (map sp_CWMPID specs)"
    using deviceSpecs_Inr(5) [OF assms _ Inr] by blast
  ultimately show ?thesis unfolding Inr sum.case using sp(1,2,4,5) by blast
qed

definition demo_fleet :: nanolinkConfig where
  "demo_fleet = defaultNanolinkConfig\<lparr>nc_Devices :=
     [\<lparr>dc_Serial = '' A1 '', dc_OUI = '''', dc_ProductClass = '''', dc_Params = []\<rparr>,
      \<lparr>dc_Serial = ''A2'', dc_OUI = ''00AA11'', dc_ProductClass = ''P'', dc_Params = []\<rparr>]\<rparr>"

text \<open>Two entries the code accepts under one id.\<close>

definition clashing_fleet :: nanolinkConfig where
  "clashing_fleet = defaultNanolinkConfig\<lparr>nc_Devices :=
     [\<lparr>dc_Serial = ''A-1'', dc_OUI = '''', dc_ProductClass = '''', dc_Params = []\<rparr>,
      \<lparr>dc_Serial = ''A%2D1'', dc_OUI = '''', dc_ProductClass = '''', dc_Params = []\<rparr>]\<rparr>"

theorem deviceSpecs_keep_apart_witness:
  "\<exists>specs clash. deviceSpecs demo_fleet = Inr specs \<and> map sp_Serial specs = [''A1'', ''A2''] \<and> distinct (map sp_CWMPID specs)
     \<and> deviceSpecs clashing_fleet = Inr clash \<and> distinct (map sp_CRPort clash) \<and> \<not> distinct (map sp_CWMPID clash)"
proof -
  have t: "TrimSpace '' A1 '' = ''A1''" "TrimSpace ''A2'' = ''A2''" "TrimSpace ''A-1'' = ''A-1''" "TrimSpace ''A%2D1'' = ''A%2D1''"
    by code_simp+
  have ne: "nc_Devices demo_fleet \<noteq> []" "nc_Devices clashing_fleet \<noteq> []" by (simp_all add: demo_fleet_def clashing_fleet_def)
  have plain: "\<forall>d\<in>set (nc_Devices demo_fleet). \<not> Contains (TrimSpace (dc_Serial d)) ''%2D''" by (simp add: demo_fleet_def t)
  obtain specs where sp: "deviceSpecs demo_fleet = Inr specs"
    by (simp add: deviceSpecs_def demo_fleet_def t Let_def)
  have ser: "map (\<lambda>d. TrimSpace (dc_Serial d)) (nc_Devices demo_fleet) = [''A1'', ''A2'']" by (simp add: demo_fleet_def t)
  note apart = deviceSpecs_keep_apart [OF ne(1), unfolded sp sum.case ser] deviceSpecs_keep_apart [OF ne(2)]
  obtain clash where cl: "deviceSpecs clashing_fleet = Inr clash" "map sp_CWMPID clash =
      [canonicalID (id_OUI (nc_Identity clashing_fleet)) (id_ProductClass (nc_Identity clashing_fleet)) ''A-1'',
       canonicalID (id_OUI (nc_Identity clashing_fleet)) (id_ProductClass (nc_Identity clashing_fleet)) ''A%2D1'']"
    by (simp add: deviceSpecs_def clashing_fleet_def t Let_def spec_of_def set_text_same)
  have "canonicalID o' p ''A-1'' = canonicalID o' p ''A%2D1''" for o' p
    by (simp add: canonicalID_agent CanonicalID_def)
  then have "\<not> distinct (map sp_CWMPID clash)" by (simp only: cl(2) distinct.simps list.set insert_iff simp_thms)
  moreover have "map sp_Serial specs = [''A1'', ''A2'']" "distinct (map sp_CWMPID specs)"
    using apart(1) plain by (elim conjE; simp only: simp_thms)+
  moreover have "distinct (map sp_CRPort clash)" using apart(2) [unfolded cl(1) sum.case] by (elim conjE)
  ultimately show ?thesis using sp cl(1) by (intro exI [of _ specs] exI [of _ clash] conjI)
qed

end
