(* ===== verification/Device.thy ===== *)
theory Device
  imports Fleet CwmpStore
begin

text \<open>
  The emulated device (\<^verbatim>\<open>src/testsuite/device.go\<close>) and the envelopes it sends
  (\<^verbatim>\<open>src/testsuite/soap.go\<close>): its parameter store, the CWMP session it runs against the agent,
  the fault-injection handler. A request of the device is the function \<open>post\<close>: the body goes
  to the agent, the text of the answer comes back, or nothing when the agent cannot be
  reached. The clock and the order in which Go walks a map are arguments, and so is the decoder
  of the agent's messages, for which \<open>Wire\<close> puts the code's. Shown here: a session answers the tasks it is handed in the answers to its empty posts in order, each from the
  store its predecessors left; it makes a bounded number of requests whatever the
  agent answers; a written value is what is read back.
\<close>

definition connectionRequestURLPath_dev :: string where
  "connectionRequestURLPath_dev = ''Device.ManagementServer.ConnectionRequestURL''"

definition phyCellIDConfigPath :: string where
  "phyCellIDConfigPath = ''Device.Services.FAPService.1.CellConfig.LTE.RAN.RF.PhyCellID''"
definition phyCellIDInUsePath :: string where
  "phyCellIDInUsePath = ''Device.Services.FAPService.1.CellConfig.LTE.RAN.RF.X_8C1F64_PhyCellIDInUse''"
definition earfcnDLConfigPath :: string where
  "earfcnDLConfigPath = ''Device.Services.FAPService.1.CellConfig.LTE.RAN.RF.EARFCNDL''"
definition earfcnDLInUsePath :: string where
  "earfcnDLInUsePath = ''Device.Services.FAPService.1.CellConfig.LTE.RAN.RF.X_8C1F64_EARFCNDLInUse''"

record xfer =
  xf_name :: string
  xf_size :: nat

record device =
  dv_params :: "(string, string) tbl"
  dv_informsSent :: int
  dv_pendingXfer :: int
  dv_lastXfer :: "xfer option"
  dv_oui :: string
  dv_productClass :: string
  dv_serial :: string
  dv_cwmpID :: string
  dv_index :: int
  dv_crPort :: int
  dv_crURL :: string

definition sample_value :: "string \<Rightarrow> string" where
  "sample_value n = ''Device.PeriodicStatistics.SampleSet.1.Parameter.'' @ n @ ''.X_8C1F64_CurrentValue''"

text \<open>The values pinned over the manifest's, and the in-use values that follow a configured one.\<close>

definition pinned_params :: "(string, string) tbl" where
  "pinned_params =
    [(''Device.Services.FAPService.1.FAPControl.LTE.AdminState'', ''1''),
     (sample_value ''316'', ''42.0''), (sample_value ''315'', ''18.0''), (sample_value ''412'', ''12.5''),
     (sample_value ''10'', ''6''), (sample_value ''118'', ''35.2''), (sample_value ''119'', ''9.8''),
     (sample_value ''168'', ''120''), (sample_value ''170'', ''118''),
     (''Device.DeviceInfo.UpTime'', ''86400''), (''Device.DeviceInfo.MemoryStatus.Free'', ''180000''),
     (''Device.DeviceInfo.MemoryStatus.Total'', ''256000''), (''Device.DeviceInfo.ProcessStatus.CPUUsage'', ''17'')]"

definition in_use_paths :: "(string, string) tbl" where
  "in_use_paths = [(phyCellIDConfigPath, phyCellIDInUsePath), (earfcnDLConfigPath, earfcnDLInUsePath)]"

definition put_all :: "(string, string) tbl \<Rightarrow> (string, string) tbl \<Rightarrow> (string, string) tbl" where
  "put_all kvs t = fold (\<lambda>(k, v). AList.update k v) kvs t"

definition mirror_in_use :: "(string, string) tbl \<Rightarrow> (string, string) tbl \<Rightarrow> (string, string) tbl" where
  "mirror_in_use overlay t =
     fold (\<lambda>(cfgPath, inUsePath) t'.
        case map_of overlay cfgPath of
          None \<Rightarrow> t'
        | Some v \<Rightarrow> if map_of overlay inUsePath = None then AList.update inUsePath v t' else t') in_use_paths t"

definition newDeviceFromSpec :: "manifest \<Rightarrow> deviceSpec \<Rightarrow> device" where
  "newDeviceFromSpec m spec =
     (let p0 = seedParams m;
          p1 = put_all [(''Device.LAN.IPAddress'', ''192.168.8.248''), (''Device.WAN.IPAddress'', ''10.0.0.10''),
                 (''Device.DeviceInfo.SerialNumber'', sp_Serial spec), (''Device.DeviceInfo.ProductClass'', sp_ProductClass spec)] p0;
          p2 = put_all pinned_params p1;
          p3 = (if sp_CRURL spec \<noteq> '''' then AList.update connectionRequestURLPath_dev (sp_CRURL spec) p2 else p2);
          p4 = put_all (sp_Params spec) p3;
          p5 = mirror_in_use (sp_Params spec) p4
      in \<lparr>dv_params = p5, dv_informsSent = 0, dv_pendingXfer = 0, dv_lastXfer = None, dv_oui = sp_OUI spec,
          dv_productClass = sp_ProductClass spec, dv_serial = sp_Serial spec, dv_cwmpID = sp_CWMPID spec,
          dv_index = sp_Index spec, dv_crPort = sp_CRPort spec, dv_crURL = sp_CRURL spec\<rparr>)"

definition newDevice :: "manifest \<Rightarrow> device option" where
  "newDevice m = (case deviceSpecs defaultNanolinkConfig of Inr (s # _) \<Rightarrow> Some (newDeviceFromSpec m s) | _ \<Rightarrow> None)"

definition dev_get :: "device \<Rightarrow> string list \<Rightarrow> (string \<times> string) list" where
  "dev_get d paths = List.map_filter (\<lambda>p. map_option (\<lambda>v. (p, v)) (map_of (dv_params d) p)) paths"

definition dev_set :: "(string \<times> string) list \<Rightarrow> device \<Rightarrow> device" where
  "dev_set writes d = d\<lparr>dv_params := put_all writes (dv_params d)\<rparr>"

definition incInform :: "device \<Rightarrow> device" where
  "incInform d = d\<lparr>dv_informsSent := dv_informsSent d + 1\<rparr>"

definition informs :: "device \<Rightarrow> int" where
  "informs d = dv_informsSent d"

definition markTransfer :: "string \<Rightarrow> nat \<Rightarrow> device \<Rightarrow> device" where
  "markTransfer name sz d =
     d\<lparr>dv_lastXfer := Some \<lparr>xf_name = name, xf_size = sz\<rparr>, dv_pendingXfer := dv_pendingXfer d + 1\<rparr>"

definition zero_xfer :: xfer where
  "zero_xfer = \<lparr>xf_name = '''', xf_size = 0\<rparr>"

definition takeTransfer :: "device \<Rightarrow> xfer option \<times> device" where
  "takeTransfer d =
     (if dv_pendingXfer d \<le> 0 then (None, d)
      else (Some (case dv_lastXfer d of Some x \<Rightarrow> x | None \<Rightarrow> zero_xfer), d\<lparr>dv_pendingXfer := dv_pendingXfer d - 1\<rparr>))"

subsection \<open>Fault injection\<close>

datatype params_request = PostParams "(string, string) tbl option" | GetParamsQuery "string list" | OtherMethod

datatype params_reply =
    BadBody | Written nat | PathRequired | ParamValues "(string, string) tbl" | MethodNotAllowed
  | SelectorRequired "string list" | UnknownDevice string

definition deviceParamsHandler :: "params_request \<Rightarrow> device \<Rightarrow> params_reply \<times> device" where
  "deviceParamsHandler r d =
     (case r of
        PostParams None \<Rightarrow> (BadBody, d)
      | PostParams (Some kv) \<Rightarrow> (Written (length kv), dev_set kv d)
      | GetParamsQuery paths \<Rightarrow>
          (if paths = [] then (PathRequired, d) else (ParamValues (put_all (dev_get d paths) []), d))
      | OtherMethod \<Rightarrow> (MethodNotAllowed, d))"

fun dispatch_device :: "string \<Rightarrow> params_request \<Rightarrow> device list \<Rightarrow> params_reply \<times> device list" where
  "dispatch_device sel r [] = (UnknownDevice sel, [])"
| "dispatch_device sel r (d # ds) =
     (if dv_serial d = sel \<or> dv_cwmpID d = sel
      then (case deviceParamsHandler r d of (reply, d') \<Rightarrow> (reply, d' # ds))
      else (case dispatch_device sel r ds of (reply, ds') \<Rightarrow> (reply, d # ds')))"

definition deviceParamsMux :: "string \<Rightarrow> params_request \<Rightarrow> device list \<Rightarrow> params_reply \<times> device list" where
  "deviceParamsMux sel r devices =
     (case devices of
        [d] \<Rightarrow> (case deviceParamsHandler r d of (reply, d') \<Rightarrow> (reply, [d']))
      | _ \<Rightarrow> if sel = '''' then (SelectorRequired (map dv_serial devices), devices)
             else dispatch_device sel r devices)"

subsection \<open>Envelopes\<close>

text \<open>The header constants of the two programs are the same text.\<close>

definition wrap :: "string \<Rightarrow> string \<Rightarrow> string" where
  "wrap msgID inner = soapOpen msgID @ inner @ soapClose"

definition value_struct :: "string \<Rightarrow> string \<Rightarrow> string \<Rightarrow> string" where
  "value_struct name typ text =
     ''<ParameterValueStruct><Name>'' @ name @ ''</Name><Value xsi:type='' @ dquote typ @ ''>'' @ text @ ''</Value></ParameterValueStruct>''"

definition param_list :: "string \<Rightarrow> nat \<Rightarrow> string \<Rightarrow> string" where
  "param_list el n inner =
     ''<ParameterList soap:arrayType='' @ dquote (''cwmp:'' @ el @ ''['' @ show_nat n @ '']'') @ ''>'' @ inner @ ''</ParameterList>''"

definition informParams :: "device \<Rightarrow> string list" where
  "informParams d =
     [''Device.DeviceInfo.SoftwareVersion'', ''Device.LAN.IPAddress'', ''Device.WAN.IPAddress'',
      ''Device.Services.FAPService.1.FAPControl.LTE.RFTxStatus'', ''Device.Services.FAPService.1.FAPControl.LTE.OpState'']
     @ (if dv_crURL d \<noteq> '''' then [connectionRequestURLPath_dev] else [])"

definition informEnvelope :: "string \<Rightarrow> string \<Rightarrow> device \<Rightarrow> string" where
  "informEnvelope now msgID d =
     (let pairs = dev_get d (informParams d);
          pl = concat (map (\<lambda>(p, v). value_struct p ''xsd:string'' v) pairs)
      in wrap msgID (''<cwmp:Inform>''
         @ ''<DeviceID><Manufacturer>NybSys</Manufacturer><OUI>'' @ dv_oui d @ ''</OUI><ProductClass>'' @ dv_productClass d
         @ ''</ProductClass><SerialNumber>'' @ dv_serial d @ ''</SerialNumber></DeviceID>''
         @ ''<Event soap:arrayType='' @ dquote ''cwmp:EventStruct[1]'' @ ''><EventStruct><EventCode>2 PERIODIC</EventCode><CommandKey></CommandKey></EventStruct></Event>''
         @ ''<MaxEnvelopes>1</MaxEnvelopes><CurrentTime>'' @ now @ ''</CurrentTime><RetryCount>0</RetryCount>''
         @ param_list ''ParameterValueStruct'' (length pairs) pl @ ''</cwmp:Inform>''))"

definition getRPCMethodsEnvelope :: "string \<Rightarrow> string" where
  "getRPCMethodsEnvelope msgID = wrap msgID ''<cwmp:GetRPCMethods></cwmp:GetRPCMethods>''"

definition transfer_tail :: "string \<Rightarrow> string" where
  "transfer_tail now = ''<FaultStruct><FaultCode>0</FaultCode><FaultString></FaultString></FaultStruct>''
     @ ''<StartTime>'' @ now @ ''</StartTime>'' @ ''<CompleteTime>'' @ now @ ''</CompleteTime>''"

definition transferCompleteEnvelope :: "string \<Rightarrow> string \<Rightarrow> string" where
  "transferCompleteEnvelope now msgID =
     wrap msgID (''<cwmp:TransferComplete>'' @ ''<CommandKey></CommandKey>'' @ transfer_tail now @ ''</cwmp:TransferComplete>'')"

definition atcEnvelope :: "string \<Rightarrow> string \<Rightarrow> string \<Rightarrow> nat \<Rightarrow> string" where
  "atcEnvelope now msgID targetFile sz =
     wrap msgID (''<cwmp:AutonomousTransferComplete>''
       @ ''<AnnounceURL></AnnounceURL><TransferURL>ftp://192.168.8.100/</TransferURL>''
       @ ''<IsDownload>0</IsDownload><FileType>4 Vendor Log File</FileType><FileSize>'' @ show_nat sz @ ''</FileSize>''
       @ ''<TargetFileName>'' @ targetFile @ ''</TargetFileName>'' @ transfer_tail now @ ''</cwmp:AutonomousTransferComplete>'')"

definition gpvResponseEnvelope :: "string \<Rightarrow> (string \<times> string) list \<Rightarrow> manifest \<Rightarrow> string" where
  "gpvResponseEnvelope msgID pairs m =
     wrap msgID (''<cwmp:GetParameterValuesResponse>''
       @ param_list ''ParameterValueStruct'' (length pairs)
           (concat (map (\<lambda>(p, v). value_struct p (xsdType m p) (EscapeText v)) pairs))
       @ ''</cwmp:GetParameterValuesResponse>'')"

definition spvResponseEnvelope :: "string \<Rightarrow> string" where
  "spvResponseEnvelope msgID =
     wrap msgID ''<cwmp:SetParameterValuesResponse><Status>0</Status></cwmp:SetParameterValuesResponse>''"

definition refSignalPowerPath :: string where
  "refSignalPowerPath = ''Device.Services.FAPService.1.CellConfig.LTE.RAN.RF.ReferenceSignalPower''"

definition gpn_writable :: "string \<Rightarrow> bool" where
  "gpn_writable p \<longleftrightarrow> p = refSignalPowerPath \<or> p = ''Device.ManagementServer.PeriodicInformInterval'' \<or> Contains p ''.CellConfig.''"

definition gpnResponseEnvelope :: "(string list \<Rightarrow> string list) \<Rightarrow> string \<Rightarrow> device \<Rightarrow> string \<Rightarrow> string" where
  "gpnResponseEnvelope ord msgID d pre =
     (let names = filter (\<lambda>p. \<not> (pre \<noteq> '''' \<and> \<not> HasPrefix p pre)) (ord (map fst (dv_params d)));
          pl = concat (map (\<lambda>p. ''<ParameterInfoStruct><Name>'' @ p @ ''</Name><Writable>''
                 @ (if gpn_writable p then ''1'' else ''0'') @ ''</Writable></ParameterInfoStruct>'') names)
      in wrap msgID (''<cwmp:GetParameterNamesResponse>'' @ param_list ''ParameterInfoStruct'' (length names) pl
           @ ''</cwmp:GetParameterNamesResponse>''))"

definition rebootResponseEnvelope :: "string \<Rightarrow> string" where
  "rebootResponseEnvelope msgID = wrap msgID ''<cwmp:RebootResponse></cwmp:RebootResponse>''"

subsection \<open>The session\<close>

record acs_body =
  ab_GPV :: "string list option"
  ab_SPV :: "(string \<times> string) list option"
  ab_GPN :: "string option"
  ab_Reboot :: bool

record acsRequest =
  aq_kind :: string
  aq_paths :: "string list"
  aq_writes :: "(string \<times> string) list"

definition no_request :: acsRequest where
  "no_request = \<lparr>aq_kind = '''', aq_paths = [], aq_writes = []\<rparr>"

definition parseACSRequest :: "(string \<Rightarrow> acs_body option) \<Rightarrow> string \<Rightarrow> acsRequest" where
  "parseACSRequest decode body =
     (case decode body of
        None \<Rightarrow> no_request
      | Some b \<Rightarrow>
          (case ab_GPV b of Some names \<Rightarrow> no_request\<lparr>aq_kind := ''gpv'', aq_paths := names\<rparr>
           | None \<Rightarrow>
          (case ab_SPV b of Some ws \<Rightarrow> no_request\<lparr>aq_kind := ''spv'', aq_writes := ws\<rparr>
           | None \<Rightarrow>
          (case ab_GPN b of Some p \<Rightarrow> no_request\<lparr>aq_kind := ''gpn'', aq_paths := [p]\<rparr>
           | None \<Rightarrow> if ab_Reboot b then no_request\<lparr>aq_kind := ''reboot''\<rparr> else no_request))))"

record 'w peer =
  pe_post :: "'w \<Rightarrow> string \<Rightarrow> 'w \<times> string option"
  pe_decode :: "string \<Rightarrow> acs_body option"
  pe_clock :: "nat \<Rightarrow> string"
  pe_order :: "string list \<Rightarrow> string list"
  pe_params :: manifest

definition maxSessionTasks :: nat where "maxSessionTasks = 64"

text \<open>The answer to one task: the store afterwards and the envelope to post; \<open>None\<close> for a
  message the device does not know, which ends the session.\<close>

definition answer_task :: "('w, 'z) peer_scheme \<Rightarrow> string \<Rightarrow> acsRequest \<Rightarrow> device \<Rightarrow> (device \<times> string) option" where
  "answer_task pr msgID req d =
     (if aq_kind req = ''gpv'' then Some (d, gpvResponseEnvelope msgID (dev_get d (aq_paths req)) (pe_params pr))
      else if aq_kind req = ''spv'' then Some (dev_set (aq_writes req) d, spvResponseEnvelope msgID)
      else if aq_kind req = ''gpn'' then
        Some (d, gpnResponseEnvelope (pe_order pr) msgID d (if aq_paths req = [] then '''' else hd (aq_paths req)))
      else if aq_kind req = ''reboot'' then Some (d, rebootResponseEnvelope msgID)
      else None)"

fun drain_tasks :: "('w, 'z) peer_scheme \<Rightarrow> string \<Rightarrow> nat \<Rightarrow> device \<Rightarrow> 'w \<Rightarrow> device \<times> 'w" where
  "drain_tasks pr msgID 0 d w = (d, w)"
| "drain_tasks pr msgID (Suc n) d w =
     (case pe_post pr w '''' of
        (w1, None) \<Rightarrow> (d, w1)
      | (w1, Some body) \<Rightarrow>
          if TrimSpace body = '''' then (d, w1)
          else case answer_task pr msgID (parseACSRequest (pe_decode pr) body) d of
            None \<Rightarrow> (d, w1)
          | Some (d1, reply) \<Rightarrow> drain_tasks pr msgID n d1 (fst (pe_post pr w1 reply)))"

definition nextMsgID :: "nat \<Rightarrow> string \<times> nat" where
  "nextMsgID counter = (show_nat (counter + 1), counter + 1)"

definition runSession :: "('w, 'z) peer_scheme \<Rightarrow> device \<Rightarrow> nat \<Rightarrow> 'w \<Rightarrow> device \<times> nat \<times> 'w" where
  "runSession pr d counter w =
     (let (msgID, counter1) = nextMsgID counter in
      case pe_post pr w (informEnvelope (pe_clock pr 0) msgID d) of
        (w1, None) \<Rightarrow> (d, counter1, w1)
      | (w1, Some _) \<Rightarrow>
          (let d1 = incInform d;
               w2 = fst (pe_post pr w1 (getRPCMethodsEnvelope msgID));
               w3 = fst (pe_post pr w2 (transferCompleteEnvelope (pe_clock pr 1) msgID));
               (x, d2) = takeTransfer d1;
               w4 = (case x of None \<Rightarrow> w3
                     | Some f \<Rightarrow> fst (pe_post pr w3 (atcEnvelope (pe_clock pr 2) msgID (xf_name f) (xf_size f))));
               (d3, w5) = drain_tasks pr msgID maxSessionTasks d2 w4
           in (d3, counter1, w5)))"

text \<open>The connection-request listener pokes the channel \<open>dialNow\<close> (capacity one) without waiting
  and answers 200. The device loop runs a session, then waits for the ticker or for a poke;
  what the other goroutines do to the device meanwhile, how many connection requests arrive
  and what wakes the loop is one \<open>device_wait\<close>.\<close>

record device_wait =
  dw_others :: "device \<Rightarrow> device"
  dw_requests :: nat
  dw_ticked :: bool

definition runConnRequestListener :: "unit list \<Rightarrow> int \<times> unit list" where
  "runConnRequestListener dialNow = (200, chan_send 1 () dialNow)"

definition await_dial :: "device_wait \<Rightarrow> unit list \<Rightarrow> unit list" where
  "await_dial dw dialNow =
     (let pokes = ((\<lambda>ch. snd (runConnRequestListener ch)) ^^ dw_requests dw) dialNow
      in if dw_ticked dw then pokes else tl pokes)"

fun runDeviceLoop ::
    "('w, 'z) peer_scheme \<Rightarrow> device_wait list \<Rightarrow> device \<Rightarrow> unit list \<Rightarrow> nat \<Rightarrow> 'w \<Rightarrow> device \<times> unit list \<times> nat \<times> 'w" where
  "runDeviceLoop pr [] d dialNow counter w =
     (case runSession pr d counter w of (d1, counter1, w1) \<Rightarrow> (d1, dialNow, counter1, w1))"
| "runDeviceLoop pr (dw # dws) d dialNow counter w =
     (case runSession pr d counter w of (d1, counter1, w1) \<Rightarrow>
        runDeviceLoop pr dws (dw_others dw d1) (await_dial dw dialNow) counter1 w1)"

subsection \<open>A store of parameters\<close>

text \<open>What the emulator and the agent promise of a store: a list of writes is read back, the
  last write to a path counts, and other paths stay.\<close>

lemma map_of_rev_keyed:
  assumes "keyed t"
  shows "map_of (rev t) = map_of t"
proof
  fix k
  have r: "keyed (rev t)" using assms by (simp add: rev_map [symmetric])
  have "map_of (rev t) k = Some v \<longleftrightarrow> map_of t k = Some v" for v
    by (simp add: map_of_eq_Some_iff [OF assms] map_of_eq_Some_iff [OF r])
  then show "map_of (rev t) k = map_of t k" by (metis option.exhaust)
qed

locale param_store =
  fixes value_of :: "'s \<Rightarrow> string \<Rightarrow> string option"
    and write_all :: "(string \<times> string) list \<Rightarrow> 's \<Rightarrow> 's"
  assumes value_write: "value_of (write_all ws s) p =
      (case map_of (rev ws) p of Some v \<Rightarrow> Some v | None \<Rightarrow> value_of s p)"
begin

lemma value_keyed: "keyed ws \<Longrightarrow> (p, v) \<in> set ws \<Longrightarrow> value_of (write_all ws s) p = Some v"
  by (simp add: value_write map_of_rev_keyed)

lemma value_other: "p \<notin> fst ` set ws \<Longrightarrow> value_of (write_all ws s) p = value_of s p"
  by (simp add: value_write map_of_eq_None_iff [THEN iffD2])

lemma copy_agrees:
  assumes "\<forall>(p, v) \<in> set ws. f p = Some v" and "p \<in> fst ` set ws"
  shows "value_of (write_all ws s) p = f p"
proof -
  obtain v where v: "map_of (rev ws) p = Some v"
    using assms(2) by (metis domD dom_map_of_conv_image_fst set_rev)
  then have "(p, v) \<in> set ws" by (auto dest: map_of_SomeD)
  then show ?thesis using assms(1) v by (auto simp: value_write)
qed

end

definition dev_value :: "device \<Rightarrow> string \<Rightarrow> string option" where
  "dev_value d p = map_of (dv_params d) p"

lemma map_of_put_all: "map_of (put_all kvs t) p = (case map_of (rev kvs) p of Some v \<Rightarrow> Some v | None \<Rightarrow> map_of t p)"
proof (induction kvs arbitrary: t rule: rev_induct)
  case (snoc kv kvs)
  then show ?case by (cases kv) (simp add: put_all_def)
qed (simp add: put_all_def)

interpretation dev_store: param_store dev_value dev_set
  by unfold_locales (simp add: dev_value_def dev_set_def map_of_put_all split: option.split)

interpretation agent_cache: param_store "\<lambda>d p. param_value d dev p" "\<lambda>ws d. fold (\<lambda>(p, v). CacheParam False dev p v now) ws d" for dev now
proof unfold_locales
  fix ws d p
  show "param_value (fold (\<lambda>(p, v). CacheParam False dev p v now) ws d) dev p =
      (case map_of (rev ws) p of Some v \<Rightarrow> Some v | None \<Rightarrow> param_value d dev p)"
  proof (induction ws arbitrary: d rule: rev_induct)
    case (snoc w ws)
    then show ?case by (cases w) (simp add: param_value_CacheParam)
  qed simp
qed

subsection \<open>Sessions\<close>

lemma drain_tasks_bounded:
  fixes n :: "'w \<Rightarrow> nat"
  assumes "\<And>w b. n (fst (pe_post pr w b)) = n w + 1"
  shows "n (snd (drain_tasks pr msgID k d w)) \<le> n w + 2 * k"
proof (induction k arbitrary: d w)
  case (Suc k)
  obtain w1 r where p: "pe_post pr w '''' = (w1, r)" by (metis surj_pair)
  have w1: "n w1 = n w + 1" using assms [of w "''''"] p by simp
  show ?case
  proof (cases r)
    case None
    then show ?thesis using p w1 by simp
  next
    case (Some body)
    have "n (fst (pe_post pr w1 reply)) = n w + 2" for reply using assms [of w1 reply] w1 by simp
    then show ?thesis
      using p w1 Some Suc.IH [of _ "fst (pe_post pr w1 _)"] by (simp split: option.split)
  qed
qed simp

text \<open>C33. A session is bounded whatever the agent answers: at most four requests for the
  announcements and two for each of at most 64 tasks.\<close>

theorem session_bounded:
  fixes n :: "'w \<Rightarrow> nat"
  assumes "\<forall>w b. n (fst (pe_post pr w b)) = n w + 1"
  shows "n (snd (snd (runSession pr d counter w))) \<le> n w + (4 + 2 * maxSessionTasks)"
proof -
  have one: "n (fst (pe_post pr w b)) = n w + 1" for w b using assms by blast
  obtain id c where id: "nextMsgID counter = (id, c)" by (metis surj_pair)
  obtain w1 r where p: "pe_post pr w (informEnvelope (pe_clock pr 0) id d) = (w1, r)" by (metis surj_pair)
  have w1: "n w1 = n w + 1" using one [of w "informEnvelope (pe_clock pr 0) id d"] p by simp
  show ?thesis
  proof (cases r)
    case None
    then show ?thesis using id p w1 by (simp add: runSession_def)
  next
    case (Some body)
    obtain x d2 where x: "takeTransfer (incInform d) = (x, d2)" by (metis surj_pair)
    let ?w3 = "fst (pe_post pr (fst (pe_post pr w1 (getRPCMethodsEnvelope id))) (transferCompleteEnvelope (pe_clock pr 1) id))"
    let ?w4 = "case x of None \<Rightarrow> ?w3 | Some f \<Rightarrow> fst (pe_post pr ?w3 (atcEnvelope (pe_clock pr 2) id (xf_name f) (xf_size f)))"
    have "n ?w4 \<le> n w + 4" using one w1 by (simp split: option.split)
    moreover have "snd (snd (runSession pr d counter w)) = snd (drain_tasks pr id maxSessionTasks d2 ?w4)"
      using id p Some x by (simp add: runSession_def split: prod.split option.split)
    ultimately show ?thesis
      using drain_tasks_bounded [of n pr id maxSessionTasks d2 ?w4, OF one] by simp
  qed
qed

text \<open>The reference: what a task of the ACS does to the device and what the device replies.\<close>

fun task_body :: "acs_msg \<Rightarrow> acs_body" where
  "task_body (GetParameterValues ns) = \<lparr>ab_GPV = Some ns, ab_SPV = None, ab_GPN = None, ab_Reboot = False\<rparr>"
| "task_body (SetParameterValues ws k) = \<lparr>ab_GPV = None,
     ab_SPV = Some (map (\<lambda>pv. (pv_Name pv, vn_Text (pv_Value pv))) ws), ab_GPN = None, ab_Reboot = False\<rparr>"
| "task_body (GetParameterNames p nl) = \<lparr>ab_GPV = None, ab_SPV = None, ab_GPN = Some p, ab_Reboot = False\<rparr>"
| "task_body (Reboot k) = \<lparr>ab_GPV = None, ab_SPV = None, ab_GPN = None, ab_Reboot = True\<rparr>"
| "task_body _ = \<lparr>ab_GPV = None, ab_SPV = None, ab_GPN = None, ab_Reboot = False\<rparr>"

fun task_effect :: "acs_msg \<Rightarrow> device \<Rightarrow> device" where
  "task_effect (SetParameterValues ws k) d = dev_set (map (\<lambda>pv. (pv_Name pv, vn_Text (pv_Value pv))) ws) d"
| "task_effect _ d = d"

fun task_reply :: "('w, 'z) peer_scheme \<Rightarrow> string \<Rightarrow> acs_msg \<Rightarrow> device \<Rightarrow> string" where
  "task_reply pr mid (GetParameterValues ns) d = gpvResponseEnvelope mid (dev_get d ns) (pe_params pr)"
| "task_reply pr mid (SetParameterValues ws k) d = spvResponseEnvelope mid"
| "task_reply pr mid (GetParameterNames p nl) d = gpnResponseEnvelope (pe_order pr) mid d p"
| "task_reply pr mid _ d = rebootResponseEnvelope mid"

fun is_task :: "acs_msg \<Rightarrow> bool" where
  "is_task (GetParameterValues ns) = True"
| "is_task (SetParameterValues ws k) = True"
| "is_task (GetParameterNames p nl) = True"
| "is_task (Reboot k) = True"
| "is_task _ = False"

fun session_replies :: "('w, 'z) peer_scheme \<Rightarrow> string \<Rightarrow> acs_msg list \<Rightarrow> device \<Rightarrow> string list" where
  "session_replies pr mid [] d = ['''']"
| "session_replies pr mid (m # ms) d = '''' # task_reply pr mid m d # session_replies pr mid ms (task_effect m d)"

text \<open>An agent that gives a fixed sequence of answers, and keeps what was posted to it.\<close>

definition scripted_agent :: "string list \<times> string option list \<Rightarrow> string \<Rightarrow> (string list \<times> string option list) \<times> string option" where
  "scripted_agent s b = ((fst s @ [b], tl (snd s)), case snd s of [] \<Rightarrow> None | r # _ \<Rightarrow> r)"

fun task_script :: "(string \<times> string option) list \<Rightarrow> string option list" where
  "task_script [] = [Some '''']"
| "task_script ((b, y) # bs) = Some b # y # task_script bs"

lemma answer_task_eq:
  "is_task m \<Longrightarrow> decode b = Some (task_body m) \<Longrightarrow>
     answer_task pr mid (parseACSRequest decode b) d = Some (task_effect m d, task_reply pr mid m d)"
  by (cases m) (simp_all add: parseACSRequest_def answer_task_def no_request_def)

lemma TrimSpace_nonblank: "\<not> is_space (hd b) \<Longrightarrow> b \<noteq> [] \<Longrightarrow> TrimSpace b \<noteq> []"
  by (cases b) (auto simp: TrimSpace_def)

lemma EncodeResponse_nonblank: "EncodeResponse i m = Some b \<Longrightarrow> TrimSpace b \<noteq> []"
  by (rule TrimSpace_nonblank) (auto simp: EncodeResponse_def Let_def soapOpen_def is_space_def split: if_splits)

lemma drain_tasks_script:
  assumes "pe_post pr = scripted_agent"
    and "list_all2 (\<lambda>(b, y) m. is_task m \<and> pe_decode pr b = Some (task_body m) \<and> TrimSpace b \<noteq> []) bs ms" and "length ms < n"
  shows "drain_tasks pr mid n d (log, task_script bs) = (fold task_effect ms d, (log @ session_replies pr mid ms d, []))"
  using assms(2,3)
proof (induction ms arbitrary: bs n d log rule: list.induct)
  case Nil
  have t: "TrimSpace '''' = ''''" by (simp add: TrimSpace_def)
  from Nil obtain k where "n = Suc k" by (cases n) auto
  moreover have "bs = []" using Nil.prems(1) by simp
  ultimately show ?case by (simp add: assms(1) scripted_agent_def t)
next
  case (Cons m ms)
  from Cons.prems(1) obtain b y bs' where bs: "bs = (b, y) # bs'" "is_task m" "pe_decode pr b = Some (task_body m)" "TrimSpace b \<noteq> []"
    and tl: "list_all2 (\<lambda>(b, y) m. is_task m \<and> pe_decode pr b = Some (task_body m) \<and> TrimSpace b \<noteq> []) bs' ms"
    by (auto simp: list_all2_Cons2)
  from Cons.prems(2) obtain k where k: "n = Suc k" "length ms < k" by (cases n) auto
  from Cons.IH [OF tl k(2), of "task_effect m d" "log @ ['''', task_reply pr mid m d]"] show ?case
    using bs by (simp add: k assms(1) scripted_agent_def answer_task_eq)
qed

text \<open>The device by itself: against a peer that takes the announcements and then hands out fewer
  than 64 tasks, each on an empty post only, the device posts its announcements (the file of a
  completed upload among them, if one is due) and one reply per task, computed from the store
  the earlier tasks left; it ends with the writes of the tasks applied and one upload announced.
  The agent itself also hands tasks out in the answers to replies, and those the device drops:
  see \<open>session_serves_every_second\<close> in \<open>ClosedLoop\<close>.\<close>

lemma session_answers_in_order:
  assumes "pe_post pr = scripted_agent" and "length ms < 64"
    and "list_all2 (\<lambda>(b, y) m. is_task m \<and> pe_decode pr b = Some (task_body m) \<and> (\<exists>i. EncodeResponse i m = Some b)) bs ms"
    and "takeTransfer (incInform d) = (x, d0)"
    and "script = [Some a1, a2, a3] @ (if x = None then [] else [a4]) @ task_script bs"
  shows "runSession pr d counter ([], script) =
     (fold task_effect ms d0, counter + 1,
      (let mid = show_nat (counter + 1) in
       [informEnvelope (pe_clock pr 0) mid d, getRPCMethodsEnvelope mid, transferCompleteEnvelope (pe_clock pr 1) mid]
       @ (case x of None \<Rightarrow> [] | Some f \<Rightarrow> [atcEnvelope (pe_clock pr 2) mid (xf_name f) (xf_size f)])
       @ session_replies pr mid ms d0, []))"
proof -
  have l2: "list_all2 (\<lambda>(b, y) m. is_task m \<and> pe_decode pr b = Some (task_body m) \<and> TrimSpace b \<noteq> []) bs ms"
    using assms(3) by (rule list_all2_mono) (auto dest: EncodeResponse_nonblank)
  have "length ms < maxSessionTasks" using assms(2) by (simp add: maxSessionTasks_def)
  note dr = drain_tasks_script [OF assms(1) l2 this]
  show ?thesis
    by (cases x) (simp_all add: runSession_def nextMsgID_def assms(1,4,5) scripted_agent_def Let_def dr)
qed

subsection \<open>The store of a new device\<close>

lemma map_of_seedParams: "map_of (seedParams m) p = map_option mp_Value (find (\<lambda>x. mp_Path x = p) (rev (mn_Params m)))"
proof -
  have "map_of (fold (\<lambda>x. AList.update (mp_Path x) (mp_Value x)) ps t) p =
      (case find (\<lambda>x. mp_Path x = p) (rev ps) of Some x \<Rightarrow> Some (mp_Value x) | None \<Rightarrow> map_of t p)" for ps t
    by (induction ps arbitrary: t) (auto simp: find_append split: option.splits)
  then have "map_of (seedParams m) p = (case find (\<lambda>x. mp_Path x = p) (rev (mn_Params m)) of Some x \<Rightarrow> Some (mp_Value x) | None \<Rightarrow> None)"
    unfolding seedParams_def by (metis map_of.simps(1))
  then show ?thesis by (simp split: option.split)
qed

text \<open>Where the value of a path comes from, first match first: the overlay of the device; for
  an in-use path the overlay's configured value; the advertised connection-request URL; the
  pinned values; identity and addresses; the manifest.\<close>

definition first_value :: "manifest \<Rightarrow> deviceSpec \<Rightarrow> string \<Rightarrow> string option" where
  "first_value m spec p =
     (case map_of (sp_Params spec) p of Some v \<Rightarrow> Some v
      | None \<Rightarrow>
     (if p = phyCellIDInUsePath \<and> map_of (sp_Params spec) phyCellIDConfigPath \<noteq> None
      then map_of (sp_Params spec) phyCellIDConfigPath
      else if p = earfcnDLInUsePath \<and> map_of (sp_Params spec) earfcnDLConfigPath \<noteq> None
      then map_of (sp_Params spec) earfcnDLConfigPath
      else if p = connectionRequestURLPath_dev \<and> sp_CRURL spec \<noteq> '''' then Some (sp_CRURL spec)
      else case map_of pinned_params p of Some v \<Rightarrow> Some v
      | None \<Rightarrow>
     (if p = ''Device.LAN.IPAddress'' then Some ''192.168.8.248''
      else if p = ''Device.WAN.IPAddress'' then Some ''10.0.0.10''
      else if p = ''Device.DeviceInfo.SerialNumber'' then Some (sp_Serial spec)
      else if p = ''Device.DeviceInfo.ProductClass'' then Some (sp_ProductClass spec)
      else map_option mp_Value (find (\<lambda>x. mp_Path x = p) (rev (mn_Params m))))))"

lemma keyed_pinned: "keyed pinned_params"
  by (simp add: pinned_params_def sample_value_def)

lemma map_of_mirror:
  "map_of (mirror_in_use overlay t) p =
     (if p = earfcnDLInUsePath \<and> map_of overlay p = None \<and> map_of overlay earfcnDLConfigPath \<noteq> None
      then map_of overlay earfcnDLConfigPath
      else if p = phyCellIDInUsePath \<and> map_of overlay p = None \<and> map_of overlay phyCellIDConfigPath \<noteq> None
      then map_of overlay phyCellIDConfigPath
      else map_of t p)"
  by (auto simp: mirror_in_use_def in_use_paths_def split: option.splits)

text \<open>The store of a new device: every path has the value of the most specific source
  that sets it, so each device of a fleet radiates its own configured cell id and channel
  and reports them as in use, unless its overlay says otherwise.\<close>

theorem newDevice_values:
  assumes "keyed (sp_Params spec)"
  shows "dev_value (newDeviceFromSpec m spec) p = first_value m spec p"
proof -
  have ne: "phyCellIDInUsePath \<noteq> earfcnDLInUsePath" by (simp add: phyCellIDInUsePath_def earfcnDLInUsePath_def)
  define base where "base = [(''Device.LAN.IPAddress'', ''192.168.8.248''), (''Device.WAN.IPAddress'', ''10.0.0.10''),
      (''Device.DeviceInfo.SerialNumber'', sp_Serial spec), (''Device.DeviceInfo.ProductClass'', sp_ProductClass spec)]"
  have kb: "keyed base" by (simp add: base_def)
  define t where "t = put_all pinned_params (put_all base (seedParams m))"
  have t: "map_of t p = (case map_of pinned_params p of Some v \<Rightarrow> Some v | None \<Rightarrow>
      case map_of base p of Some v \<Rightarrow> Some v | None \<Rightarrow> map_option mp_Value (find (\<lambda>x. mp_Path x = p) (rev (mn_Params m))))"
    by (simp add: t_def map_of_put_all map_of_rev_keyed [OF keyed_pinned] map_of_rev_keyed [OF kb] map_of_seedParams split: option.split)
  define u where "u = (if sp_CRURL spec \<noteq> '''' then AList.update connectionRequestURLPath_dev (sp_CRURL spec) t else t)"
  have u: "map_of u p = (if p = connectionRequestURLPath_dev \<and> sp_CRURL spec \<noteq> '''' then Some (sp_CRURL spec) else map_of t p)"
    by (simp add: u_def)
  have val: "dev_value (newDeviceFromSpec m spec) p = map_of (mirror_in_use (sp_Params spec) (put_all (sp_Params spec) u)) p"
    by (simp add: dev_value_def newDeviceFromSpec_def Let_def u_def t_def base_def)
  define rest where "rest = (case map_of pinned_params p of Some v \<Rightarrow> Some v
      | None \<Rightarrow>
     (if p = ''Device.LAN.IPAddress'' then Some ''192.168.8.248''
      else if p = ''Device.WAN.IPAddress'' then Some ''10.0.0.10''
      else if p = ''Device.DeviceInfo.SerialNumber'' then Some (sp_Serial spec)
      else if p = ''Device.DeviceInfo.ProductClass'' then Some (sp_ProductClass spec)
      else map_option mp_Value (find (\<lambda>x. mp_Path x = p) (rev (mn_Params m)))))"
  have b: "(case map_of base p of Some v \<Rightarrow> Some v | None \<Rightarrow> z) = (if p = ''Device.LAN.IPAddress'' then Some ''192.168.8.248''
      else if p = ''Device.WAN.IPAddress'' then Some ''10.0.0.10''
      else if p = ''Device.DeviceInfo.SerialNumber'' then Some (sp_Serial spec)
      else if p = ''Device.DeviceInfo.ProductClass'' then Some (sp_ProductClass spec) else z)" for z
    by (simp add: base_def)
  have t': "map_of t p = rest" unfolding t rest_def b ..
  note fv = first_value_def [of m spec p, folded rest_def]
  show ?thesis
  proof (cases "map_of (sp_Params spec) p")
    case (Some v)
    then show ?thesis by (simp add: val map_of_mirror map_of_put_all map_of_rev_keyed [OF assms] fv)
  next
    case None
    let ?o = "map_of (sp_Params spec)"
    have l: "dev_value (newDeviceFromSpec m spec) p =
        (if p = earfcnDLInUsePath \<and> ?o earfcnDLConfigPath \<noteq> None then ?o earfcnDLConfigPath
         else if p = phyCellIDInUsePath \<and> ?o phyCellIDConfigPath \<noteq> None then ?o phyCellIDConfigPath else map_of u p)"
      using None by (simp only: val map_of_mirror map_of_put_all map_of_rev_keyed [OF assms] option.case simp_thms)
    have r: "first_value m spec p =
        (if p = phyCellIDInUsePath \<and> ?o phyCellIDConfigPath \<noteq> None then ?o phyCellIDConfigPath
         else if p = earfcnDLInUsePath \<and> ?o earfcnDLConfigPath \<noteq> None then ?o earfcnDLConfigPath else map_of u p)"
      using None by (simp only: fv u t' option.case)
    show ?thesis unfolding l r using ne by (simp only: if_splits(1) split: if_split) blast
  qed
qed

subsection \<open>Fault injection, transfers and the agent's cache\<close>

lemma dispatch_device_spec:
  assumes "distinct (map dv_serial ds)" and "i < length ds" and "dv_serial (ds ! i) = sel"
    and "\<forall>d\<in>set ds. dv_cwmpID d \<noteq> sel"
  shows "dispatch_device sel r ds = (fst (deviceParamsHandler r (ds ! i)), ds[i := snd (deviceParamsHandler r (ds ! i))])"
  using assms
proof (induction ds arbitrary: i)
  case (Cons d ds)
  show ?case
  proof (cases i)
    case 0
    with Cons.prems show ?thesis by (simp split: prod.split)
  next
    case (Suc k)
    then have "dv_serial d \<noteq> sel" using Cons.prems by auto
    with Cons.IH [of k] Cons.prems Suc show ?thesis by simp
  qed
qed simp

text \<open>A session changes the store and the counters of a device, never who it is; any number of
  connection requests that arrive while the loop is busy are one more session.\<close>

definition who :: "device \<Rightarrow> string \<times> string \<times> string \<times> string \<times> int \<times> int \<times> string" where
  "who d = (dv_oui d, dv_productClass d, dv_serial d, dv_cwmpID d, dv_index d, dv_crPort d, dv_crURL d)"

lemma who_drain_tasks: "who (fst (drain_tasks pr msgID n d w)) = who d"
proof (induction n arbitrary: d w)
  case (Suc n)
  have "who d1 = who d" if "answer_task pr msgID req d = Some (d1, reply)" for req d1 reply
    using that by (auto simp: answer_task_def who_def dev_set_def split: if_splits)
  with Suc.IH show ?case by (simp split: prod.split option.split)
qed simp

lemma who_runSession: "who (fst (runSession pr d counter w)) = who d"
proof -
  have "who (snd (takeTransfer (incInform d))) = who d" by (simp add: takeTransfer_def incInform_def who_def)
  then show ?thesis
    using who_drain_tasks [of pr _ maxSessionTasks "snd (takeTransfer (incInform d))"]
    by (auto simp: runSession_def Let_def split: prod.split option.split) (metis fst_conv snd_conv)+
qed

lemma runDeviceLoop_keeps_identity:
  assumes "\<And>dw x. dw \<in> set dws \<Longrightarrow> who (dw_others dw x) = who x"
  shows "who (fst (runDeviceLoop pr dws d dialNow counter w)) = who d"
  using assms
proof (induction dws arbitrary: d dialNow counter w)
  case Nil
  show ?case using who_runSession [of pr d counter w] by (auto split: prod.split)
next
  case (Cons dw dws)
  then show ?case using who_runSession [of pr d counter w] by (auto split: prod.split)
qed

lemma burst_is_one_poke:
  assumes "0 < dw_requests dw" and "length dialNow \<le> 1"
  shows "await_dial dw dialNow = (if dw_ticked dw then [()] else [])"
proof -
  have "((\<lambda>ch. snd (runConnRequestListener ch)) ^^ Suc n) dialNow = [()]" for n
    by (induction n) (use assms(2) in \<open>auto simp: runConnRequestListener_def chan_send_def length_Suc_conv le_Suc_eq\<close>)
  then show ?thesis using assms(1) by (cases "dw_requests dw") (auto simp: await_dial_def Let_def)
qed

text \<open>Fault injection reaches the device it names and no other: in a fleet with different
  serials, a write selected by serial changes that device only, and a read selected the same
  way returns the written value.\<close>

theorem inject_reaches_one_device:
  assumes "2 \<le> length ds" "distinct (map dv_serial ds)" "i < length ds" "dv_serial (ds ! i) = sel" "sel \<noteq> ''''"
    and "\<forall>d\<in>set ds. dv_cwmpID d \<noteq> sel" and "keyed kv" "(p, v) \<in> set kv"
    and "deviceParamsMux sel (PostParams (Some kv)) ds = (reply, ds')"
  shows "reply = Written (length kv)
     \<and> (\<forall>j<length ds. j \<noteq> i \<longrightarrow> ds' ! j = ds ! j) \<and> length ds' = length ds
     \<and> deviceParamsMux sel (GetParamsQuery [p]) ds' = (ParamValues [(p, v)], ds')"
proof -
  obtain a b rest where fleet: "ds = a # b # rest" using assms(1) by (metis Suc_le_length_iff numeral_2_eq_2)
  have mux: "deviceParamsMux sel r xs = dispatch_device sel r xs" if "length xs = length ds" for r xs
    using that fleet assms(5) by (auto simp: deviceParamsMux_def length_Suc_conv)
  let ?d = "dev_set kv (ds ! i)"
  have post: "reply = Written (length kv)" "ds' = ds[i := ?d]"
    using assms(9) dispatch_device_spec [OF assms(2-4,6)] by (simp_all add: mux deviceParamsHandler_def)
  have ser: "map dv_serial ds' = map dv_serial ds" "map dv_cwmpID ds' = map dv_cwmpID ds"
    using assms(3) by (auto intro!: nth_equalityI simp: post nth_list_update dev_set_def)
  have nth: "ds' ! i = ?d" using assms(3) by (simp add: post)
  have cw: "\<forall>d\<in>set ds'. dv_cwmpID d \<noteq> sel" using assms(6) ser(2) by (metis image_iff list.set_map)
  have "dev_value ?d p = Some v" by (rule dev_store.value_keyed [OF assms(7,8)])
  then have "dev_get ?d [p] = [(p, v)]" by (simp add: dev_get_def dev_value_def List.map_filter_def)
  then have h: "deviceParamsHandler (GetParamsQuery [p]) ?d = (ParamValues [(p, v)], ?d)"
    by (simp add: deviceParamsHandler_def put_all_def)
  have "dispatch_device sel (GetParamsQuery [p]) ds' = (ParamValues [(p, v)], ds'[i := ?d])"
  proof -
    have "distinct (map dv_serial ds')" "i < length ds'" using ser(1) assms(2,3) by (simp_all add: post)
    moreover have "dv_serial (ds' ! i) = sel" using nth assms(4) by (simp add: dev_set_def)
    ultimately show ?thesis using dispatch_device_spec [OF _ _ _ cw, of i "GetParamsQuery [p]"] nth h by simp
  qed
  then show ?thesis using post nth assms(3) mux [of ds'] by auto
qed

text \<open>Each completed upload is announced once, but by the name of the latest one: two uploads
  between sessions are both announced as the second.\<close>

lemma latest_upload_announced:
  assumes "0 \<le> dv_pendingXfer d"
  shows "fst (takeTransfer (markTransfer n2 s2 (markTransfer n1 s1 d))) = Some \<lparr>xf_name = n2, xf_size = s2\<rparr>"
    "fst (takeTransfer (snd (takeTransfer (markTransfer n2 s2 (markTransfer n1 s1 d))))) = Some \<lparr>xf_name = n2, xf_size = s2\<rparr>"
  using assms by (simp_all add: takeTransfer_def markTransfer_def)

lemma announcements_match_uploads:
  assumes "0 \<le> dv_pendingXfer d" and "takeTransfer (markTransfer n s d) = (x, d')"
  shows "x \<noteq> None \<and> dv_pendingXfer d' = dv_pendingXfer d"
  using assms by (auto simp: takeTransfer_def markTransfer_def split: if_splits)

text \<open>What the agent caches of an answer is what the device holds: after caching the values
  a device gives for a list of paths, the cache of that device agrees with the device's store
  on every path of the list the device has.\<close>

theorem cache_mirrors_device:
  assumes "p \<in> set paths" and "dev_value d p = Some v"
  shows "param_value (fold (\<lambda>(p, v). CacheParam False dev p v now) (dev_get d paths) db0) dev p = Some v"
proof -
  have all: "\<forall>(p, v) \<in> set (dev_get d paths). dev_value d p = Some v"
    by (auto simp: dev_get_def List.map_filter_def dev_value_def split: option.splits)
  have "(p, v) \<in> set (dev_get d paths)"
    using assms by (force simp: dev_get_def List.map_filter_def dev_value_def)
  then have "p \<in> fst ` set (dev_get d paths)" by force
  from agent_cache.copy_agrees [OF all this] assms(2) show ?thesis by simp
qed

subsection \<open>Witnesses\<close>

definition demo_manifest :: manifest where
  "demo_manifest = \<lparr>mn_Params = [\<lparr>mp_Path = ''Device.A'', mp_Value = ''1'', mp_Type = ''int'', mp_Writable = True\<rparr>], mn_byPath = []\<rparr>"

definition demo_spec :: deviceSpec where
  "demo_spec = \<lparr>sp_Index = 0, sp_OUI = ''O'', sp_ProductClass = ''P'', sp_Serial = ''S'', sp_CWMPID = ''O-P-S'', sp_CRPort = 30005,
     sp_CRURL = '''', sp_Params = [(phyCellIDConfigPath, ''449'')]\<rparr>"

definition demo_dev :: "string \<Rightarrow> device" where
  "demo_dev serial = \<lparr>dv_params = [(''A'', ''1'')], dv_informsSent = 0, dv_pendingXfer = 1, dv_lastXfer = None, dv_oui = ''O'',
     dv_productClass = ''P'', dv_serial = serial, dv_cwmpID = ''O-P-'' @ serial, dv_index = 0, dv_crPort = 30005, dv_crURL = ''''\<rparr>"

text \<open>An agent that hands out a write and a read of what was written.\<close>

definition demo_write :: acs_msg where
  "demo_write = SetParameterValues [\<lparr>pv_Name = ''A'', pv_Value = \<lparr>vn_Type = ''xsd:int'', vn_Text = ''2''\<rparr>\<rparr>] ''k''"

definition demo_peer :: "(string list \<times> string option list) peer" where
  "demo_peer = \<lparr>pe_post = scripted_agent,
     pe_decode = (\<lambda>b. if EncodeResponse ''7'' demo_write = Some b then Some (task_body demo_write)
                     else if EncodeResponse ''8'' (GetParameterValues [''A'']) = Some b then Some (task_body (GetParameterValues [''A''])) else None),
     pe_clock = (\<lambda>_. ''t''), pe_order = (\<lambda>xs. xs), pe_params = demo_manifest\<rparr>"

lemma session_answers_in_order_demo:
  "\<exists>b1 b2 log. EncodeResponse ''7'' demo_write = Some b1 \<and> EncodeResponse ''8'' (GetParameterValues [''A'']) = Some b2
     \<and> (case runSession demo_peer (demo_dev ''S'') 0 ([], [Some ''x'', None, None, None] @ task_script [(b1, None), (b2, Some '''')]) of
          (d, n, w) \<Rightarrow> n = 1 \<and> w = (log, []) \<and> dev_value d ''A'' = Some ''2'' \<and> dv_pendingXfer d = 0
            \<and> gpvResponseEnvelope (show_nat 1) [(''A'', ''2'')] demo_manifest \<in> set log)"
proof -
  obtain b1 b2 where b: "EncodeResponse ''7'' demo_write = Some b1" "EncodeResponse ''8'' (GetParameterValues [''A'']) = Some b2"
    by (simp add: EncodeResponse_def cwmpElement_ok(2))
  let ?ms = "[demo_write, GetParameterValues [''A'']]" and ?bs = "[(b1, None), (b2, Some '''')]"
  have differ: "b1 \<noteq> b2"
    using b by (auto simp: EncodeResponse_def cwmpElement_ok(2) soapOpen_def Let_def)
  have l2: "list_all2 (\<lambda>(b, y) m. is_task m \<and> pe_decode demo_peer b = Some (task_body m) \<and> (\<exists>i. EncodeResponse i m = Some b)) ?bs ?ms"
    using b differ by (auto simp: demo_peer_def demo_write_def)
  have tt: "takeTransfer (incInform (demo_dev ''S'')) = (Some zero_xfer, (demo_dev ''S'')\<lparr>dv_informsSent := 1, dv_pendingXfer := 0\<rparr>)"
    by (simp add: takeTransfer_def incInform_def demo_dev_def)
  have pp: "pe_post demo_peer = scripted_agent" by (simp add: demo_peer_def)
  have len: "length ?ms < 64" by simp
  from session_answers_in_order [OF pp len l2 tt, of "[Some ''x'', None, None, None] @ task_script ?bs" "''x''" None None None 0] b
  show ?thesis
    by (simp add: demo_write_def dev_set_def put_all_def dev_value_def demo_dev_def dev_get_def List.map_filter_def demo_peer_def Let_def)
qed

theorem session_bounded_witness:
  "length (fst (snd (snd (runSession demo_peer (demo_dev ''S'') 0 ([], replicate 500 (Some ''x'')))))) \<le> 132"
proof -
  have "\<forall>w b. length (fst (fst (pe_post demo_peer w b))) = length (fst w) + 1" by (simp add: demo_peer_def scripted_agent_def)
  from session_bounded [where n = "\<lambda>w. length (fst w)", OF this, of "demo_dev ''S''" 0 "([], replicate 500 (Some ''x''))"]
  show ?thesis by (simp add: maxSessionTasks_def)
qed

theorem newDevice_values_witness:
  "dev_value (newDeviceFromSpec demo_manifest demo_spec) phyCellIDInUsePath = Some ''449''"
proof -
  have k: "keyed (sp_Params demo_spec)" by (simp add: demo_spec_def)
  have "map_of (sp_Params demo_spec) phyCellIDInUsePath = None" "map_of (sp_Params demo_spec) phyCellIDConfigPath = Some ''449''"
    by (simp_all add: demo_spec_def phyCellIDInUsePath_def phyCellIDConfigPath_def)
  then have "first_value demo_manifest demo_spec phyCellIDInUsePath = Some ''449''" by (simp add: first_value_def)
  with newDevice_values [OF k, of demo_manifest phyCellIDInUsePath] show ?thesis by simp
qed

theorem inject_reaches_one_device_witness:
  "\<exists>ds'. deviceParamsMux ''S2'' (PostParams (Some [(''A'', ''9'')])) [demo_dev ''S1'', demo_dev ''S2''] = (Written 1, ds')
     \<and> ds' ! 0 = demo_dev ''S1'' \<and> deviceParamsMux ''S2'' (GetParamsQuery [''A'']) ds' = (ParamValues [(''A'', ''9'')], ds')"
proof -
  let ?ds = "[demo_dev ''S1'', demo_dev ''S2'']"
  obtain reply ds' where r: "deviceParamsMux ''S2'' (PostParams (Some [(''A'', ''9'')])) ?ds = (reply, ds')" by (metis surj_pair)
  have "2 \<le> length ?ds" "distinct (map dv_serial ?ds)" "1 < length ?ds" "dv_serial (?ds ! 1) = ''S2''" "''S2'' \<noteq> ''''"
    "\<forall>d\<in>set ?ds. dv_cwmpID d \<noteq> ''S2''" "keyed [(''A'', ''9'')]" "(''A'', ''9'') \<in> set [(''A'', ''9'')]"
    by (simp_all add: demo_dev_def)
  from inject_reaches_one_device [OF this r] r show ?thesis by auto
qed

theorem cache_mirrors_device_witness:
  "param_value (fold (\<lambda>(p, v). CacheParam False ''O-P-S'' p v 5) (dev_get (demo_dev ''S'') [''A'', ''B'']) init_db) ''O-P-S'' ''A'' = Some ''1''"
proof -
  have "''A'' \<in> set [''A'', ''B'']" "dev_value (demo_dev ''S'') ''A'' = Some ''1''" by (simp_all add: dev_value_def demo_dev_def)
  from cache_mirrors_device [OF this] show ?thesis .
qed

end
