(* ===== verification/XmlDecode.thy ===== *)
theory XmlDecode
  imports Numbers
begin

text \<open>
  What the program uses of Go's \<^verbatim>\<open>encoding/xml\<close>: the decoder with \<^verbatim>\<open>Strict = false\<close>, as
  \<^verbatim>\<open>DecodeEnvelope\<close> (\<^verbatim>\<open>src/goagent/internal/cwmp/soap.go\<close>) and \<^verbatim>\<open>parseACSRequest\<close>
  (\<^verbatim>\<open>src/testsuite/device.go\<close>) run it. The tokenizer works on bytes: tags, attributes with or
  without quotes, character data with entities, CDATA sections, comments, processing
  instructions and directives. \<open>build\<close> is the decoder's element stack, in which an end tag
  closes what is open inside its element. A failure of any kind, the end of the input before
  the root is closed included, is \<open>None\<close>; what follows the root is not read. Which characters
  beyond ASCII may start or continue a name is the argument \<open>uni\<close>.

  Shown here: every document that is put together from tags, escaped text and plain text
  decodes to the tree it was put together from.
\<close>

subsection \<open>Names\<close>

type_synonym uni = "bool \<Rightarrow> nat \<Rightarrow> bool"

definition isNameByte :: "char \<Rightarrow> bool" where
  "isNameByte c \<longleftrightarrow> between 65 90 c \<or> between 97 122 c \<or> between 48 57 c \<or> c = CHR ''_'' \<or> c = CHR '':'' \<or> c = CHR ''.'' \<or> c = CHR ''-''"

definition name_first :: "uni \<Rightarrow> nat \<Rightarrow> bool" where
  "name_first uni r \<longleftrightarrow> (65 \<le> r \<and> r \<le> 90) \<or> (97 \<le> r \<and> r \<le> 122) \<or> r = 95 \<or> r = 58 \<or> (128 \<le> r \<and> uni True r)"

definition name_second :: "uni \<Rightarrow> nat \<Rightarrow> bool" where
  "name_second uni r \<longleftrightarrow> (48 \<le> r \<and> r \<le> 57) \<or> r = 45 \<or> r = 46 \<or> (128 \<le> r \<and> uni False r)"

definition isName :: "uni \<Rightarrow> string \<Rightarrow> bool" where
  "isName uni s \<longleftrightarrow> (case runes s of
     Some (r # rs) \<Rightarrow> name_first uni r \<and> list_all (\<lambda>x. name_first uni x \<or> name_second uni x) rs
   | _ \<Rightarrow> False)"

text \<open>\<open>None\<close> is the end of the input; an empty name is Go's false without an error.\<close>

definition name_byte :: "char \<Rightarrow> bool" where
  "name_byte c \<longleftrightarrow> 128 \<le> code c \<or> isNameByte c"

definition readName :: "string \<Rightarrow> (string \<times> string) option" where
  "readName s = (let rest = dropWhile name_byte s in if rest = [] then None else Some (takeWhile name_byte s, rest))"

definition xml_name :: "uni \<Rightarrow> string \<Rightarrow> (string \<times> string) option" where
  "xml_name uni s = (case readName s of None \<Rightarrow> None | Some (n, r) \<Rightarrow> if isName uni n then Some (n, r) else None)"

type_synonym qname = "string \<times> string"

definition split_name :: "string \<Rightarrow> qname option" where
  "split_name s =
     (if count_list s (CHR '':'') > 1 then None
      else case Cut s (CHR '':'') of (sp, loc, ok) \<Rightarrow> if \<not> ok \<or> sp = '''' \<or> loc = '''' then Some ('''', s) else Some (sp, loc))"

definition nsname :: "uni \<Rightarrow> string \<Rightarrow> (qname \<times> string) option" where
  "nsname uni s = (case xml_name uni s of None \<Rightarrow> None
     | Some (n, r) \<Rightarrow> map_option (\<lambda>q. (q, r)) (split_name n))"

definition xml_space :: "string \<Rightarrow> string" where
  "xml_space s = dropWhile (\<lambda>c. c = CHR '' '' \<or> c = CHR 0x0D \<or> c = CHR 0x0A \<or> c = CHR 0x09) s"

subsection \<open>Character data\<close>

definition entity_of :: "string \<Rightarrow> string option" where
  "entity_of n = map_of [(''lt'', ''<''), (''gt'', ''>''), (''amp'', ''&''), (''apos'', [CHR 0x27]), (''quot'', [CHR 0x22])] n"

text \<open>The rest of an entity behind \<^verbatim>\<open>&\<close>: what it stands for, or its own text when it is not
  known, and the bytes behind it.\<close>

definition char_ref :: "string \<Rightarrow> nat \<Rightarrow> string \<Rightarrow> (string \<times> string) option" where
  "char_ref lead base s =
     (let isd = (\<lambda>c. digit_val base c \<noteq> None); ds = takeWhile isd s in
      case dropWhile isd s of
        [] \<Rightarrow> None
      | b # r \<Rightarrow>
          if b \<noteq> CHR '';'' then Some (lead @ ds, b # r)
          else if ds \<noteq> [] \<and> digits_value base ds \<le> 0x10FFFF then Some (encode_rune (digits_value base ds), r)
          else Some (lead @ ds @ '';'', r))"

definition entity :: "uni \<Rightarrow> string \<Rightarrow> (string \<times> string) option" where
  "entity uni s =
     (case s of
        [] \<Rightarrow> None
      | b # r \<Rightarrow>
          if b = CHR ''#'' then
            (case r of [] \<Rightarrow> None
             | c # r1 \<Rightarrow> if c = CHR ''x'' then char_ref ''&#x'' 16 r1 else char_ref ''&#'' 10 r)
          else case readName s of
            None \<Rightarrow> None
          | Some (n, r1) \<Rightarrow>
              (case r1 of [] \<Rightarrow> None
               | c # r2 \<Rightarrow>
                   if c \<noteq> CHR '';'' then Some (''&'' @ n, r1)
                   else case (if isName uni n then entity_of n else None) of
                     Some t \<Rightarrow> Some (t, r2)
                   | None \<Rightarrow> Some (''&'' @ n @ '';'', r2)))"

lemma char_ref_shorter: "char_ref lead base s = Some (t, r) \<Longrightarrow> length r \<le> length s"
  using length_dropWhile_le [of "\<lambda>c. digit_val base c \<noteq> None" s]
  unfolding char_ref_def Let_def
  by (cases "dropWhile (\<lambda>c. digit_val base c \<noteq> None) s") (auto simp: length_dropWhile_le simp del: not_None_eq split: if_splits)

lemma readName_shorter: "readName s = Some (n, r) \<Longrightarrow> length r \<le> length s"
  by (auto simp: readName_def Let_def length_dropWhile_le split: if_splits)

lemma entity_shorter: "entity uni s = Some (t, r) \<Longrightarrow> length r \<le> length s"
  by (auto simp: entity_def dest!: char_ref_shorter readName_shorter split: list.splits if_splits option.splits)

text \<open>\<open>quote\<close> is the quote that ends an attribute value, \<open>p0\<close> and \<open>p1\<close> the two bytes before the
  next one (a zero byte where Go keeps none), \<open>acc\<close> the data so far.\<close>

function text_loop :: "uni \<Rightarrow> char option \<Rightarrow> bool \<Rightarrow> char \<Rightarrow> char \<Rightarrow> string \<Rightarrow> string \<Rightarrow> (string \<times> string) option" where
  "text_loop uni quote cdata p0 p1 acc s =
     (case s of
        [] \<Rightarrow> if cdata then None else Some (acc, [])
      | b # r \<Rightarrow>
          if quote = None \<and> p0 = CHR '']'' \<and> p1 = CHR '']'' \<and> b = CHR ''>'' then
            (if cdata then Some (take (length acc - 2) acc, r) else None)
          else if b = CHR ''<'' \<and> \<not> cdata then (if quote = None then Some (acc, s) else None)
          else if quote = Some b then Some (acc, r)
          else if b = CHR ''&'' \<and> \<not> cdata then
            (case entity uni r of None \<Rightarrow> None
             | Some (t, r1) \<Rightarrow> text_loop uni quote cdata (CHR 0x00) (CHR 0x00) (acc @ t) r1)
          else if b = CHR 0x0D then text_loop uni quote cdata p1 b (acc @ [CHR 0x0A]) r
          else if p1 = CHR 0x0D \<and> b = CHR 0x0A then text_loop uni quote cdata p1 b acc r
          else text_loop uni quote cdata p1 b (acc @ [b]) r)"
  by pat_completeness auto
termination
  by (relation "measure (\<lambda>(_, _, _, _, _, _, s). length s)") (auto dest: entity_shorter)

declare text_loop.simps [simp del]

definition xml_text :: "uni \<Rightarrow> char option \<Rightarrow> bool \<Rightarrow> string \<Rightarrow> (string \<times> string) option" where
  "xml_text uni quote cdata s =
     (case text_loop uni quote cdata (CHR 0x00) (CHR 0x00) [] s of
        None \<Rightarrow> None
      | Some (d, r) \<Rightarrow> if legal_text d then Some (d, r) else None)"

subsection \<open>Tags\<close>

definition unquoted :: "char \<Rightarrow> bool" where
  "unquoted c \<longleftrightarrow> between 97 122 c \<or> between 65 90 c \<or> between 48 57 c \<or> c = CHR ''_'' \<or> c = CHR '':'' \<or> c = CHR ''-''"

definition attrval :: "uni \<Rightarrow> string \<Rightarrow> (string \<times> string) option" where
  "attrval uni s =
     (case s of
        [] \<Rightarrow> None
      | b # r \<Rightarrow>
          if b = CHR 0x22 \<or> b = CHR 0x27 then xml_text uni (Some b) False r
          else let rest = dropWhile unquoted s in if rest = [] then None else Some (takeWhile unquoted s, rest))"

lemma text_loop_shorter: "text_loop uni quote cdata p0 p1 acc s = Some (d, r) \<Longrightarrow> length r \<le> length s"
proof (induction "length s" arbitrary: cdata p0 p1 acc s rule: less_induct)
  case less
  show ?case
  proof (cases s)
    case Nil
    with less.prems show ?thesis by (subst (asm) text_loop.simps) (simp split: if_splits)
  next
    case (Cons b r0)
    have le: "length r \<le> Suc (length r0)" if "text_loop uni quote cd p p' acc' s' = Some (d, r)" "length s' \<le> length r0" for cd p p' acc' s'
      using less.hyps [of s', OF _ that(1)] that(2) by (simp add: Cons)
    from less.prems show ?thesis unfolding Cons
      by (subst (asm) text_loop.simps)
        (simp split: if_split_asm option.split_asm prod.split_asm; auto elim!: le dest: entity_shorter)
  qed
qed

lemma xml_text_shorter: "xml_text uni quote cdata s = Some (d, r) \<Longrightarrow> length r \<le> length s"
  by (auto simp: xml_text_def dest!: text_loop_shorter split: option.splits if_splits)

lemma attrval_shorter: "attrval uni s = Some (d, r) \<Longrightarrow> length r \<le> length s"
proof (cases s)
  case (Cons b s')
  assume "attrval uni s = Some (d, r)"
  then show ?thesis using xml_text_shorter [of uni "Some b" False s'] length_dropWhile_le [of unquoted s]
    by (auto simp: attrval_def Cons Let_def split: if_splits)
qed (simp add: attrval_def)

lemma nsname_shorter: "nsname uni s = Some (q, r) \<Longrightarrow> length r < length s"
proof -
  assume "nsname uni s = Some (q, r)"
  then obtain n where n: "readName s = Some (n, r)" "isName uni n"
    by (auto simp: nsname_def xml_name_def split: option.splits if_splits)
  then have "n \<noteq> []" by (auto simp: isName_def runes.simps [of "[]"])
  moreover have "s = n @ r" using n(1) by (auto simp: readName_def Let_def split: if_splits)
  ultimately show ?thesis by simp
qed

lemma xml_space_shorter: "length (xml_space s) \<le> length s"
  by (simp add: xml_space_def length_dropWhile_le)

lemma attr_rest:
  assumes "xml_space s = b # r" "nsname uni (b # r) = Some (n, r1)" "xml_space r1 = c # r2"
  shows "Suc (length r2) < length s" "length r3 \<le> length r2 \<Longrightarrow> length r3 < length s"
proof -
  have "length (b # r) \<le> length s" "length r1 < length (b # r)" "length (c # r2) \<le> length r1"
    using xml_space_shorter [of s] nsname_shorter [OF assms(2)] xml_space_shorter [of r1] assms(1,3) by simp_all
  then show "Suc (length r2) < length s" "length r3 \<le> length r2 \<Longrightarrow> length r3 < length s" by simp_all
qed

lemma attrval_rest: "attrval uni (xml_space s) = Some (v, r) \<Longrightarrow> length r \<le> length s"
  using attrval_shorter [of uni "xml_space s" v r] xml_space_shorter [of s] by simp

text \<open>The attributes of a start tag: their names and values, whether the tag ends in \<^verbatim>\<open>/>\<close>, and
  the bytes behind it.\<close>

function attributes :: "uni \<Rightarrow> string \<Rightarrow> ((qname \<times> string) list \<times> bool \<times> string) option" where
  "attributes uni s =
     (case xml_space s of
        [] \<Rightarrow> None
      | b # r \<Rightarrow>
          if b = CHR ''/'' then (case r of c # r1 \<Rightarrow> if c = CHR ''>'' then Some ([], True, r1) else None | [] \<Rightarrow> None)
          else if b = CHR ''>'' then Some ([], False, r)
          else case nsname uni (b # r) of
            None \<Rightarrow> None
          | Some (n, r1) \<Rightarrow>
              (case xml_space r1 of
                 [] \<Rightarrow> None
               | c # r2 \<Rightarrow>
                   if c \<noteq> CHR ''='' then
                     (case attributes uni (c # r2) of None \<Rightarrow> None | Some (as, e, r3) \<Rightarrow> Some ((n, snd n) # as, e, r3))
                   else case attrval uni (xml_space r2) of
                     None \<Rightarrow> None
                   | Some (v, r3) \<Rightarrow>
                       (case attributes uni r3 of None \<Rightarrow> None | Some (as, e, r4) \<Rightarrow> Some ((n, v) # as, e, r4))))"
  by pat_completeness auto
termination
  by (relation "measure (\<lambda>(_, s). length s)") (auto dest: attr_rest dest!: attrval_rest)

declare attributes.simps [simp del]

text \<open>The text before and behind the first occurrence of a pattern.\<close>

fun cut_at :: "string \<Rightarrow> string \<Rightarrow> (string \<times> string) option" where
  "cut_at p [] = None"
| "cut_at p (c # s) =
     (if prefix p (c # s) then Some ([], drop (length p) (c # s)) else map_option (\<lambda>(a, r). (c # a, r)) (cut_at p s))"

lemma cut_at_shorter: "cut_at p s = Some (a, r) \<Longrightarrow> length r \<le> length s"
  by (induction s arbitrary: a) (fastforce split: if_splits)+

text \<open>\<^verbatim>\<open>procInst\<close>: the value of a pseudo-attribute; the search goes on behind a parameter name
  that no quote follows.\<close>

function procInst :: "string \<Rightarrow> string \<Rightarrow> string" where
  "procInst param s =
     (case cut_at (param @ ''='') s of
        None \<Rightarrow> ''''
      | Some (_, r) \<Rightarrow>
          (case r of [] \<Rightarrow> ''''
           | c # r1 \<Rightarrow>
               if c = CHR 0x22 \<or> c = CHR 0x27 then (case Cut r1 c of (v, _, ok) \<Rightarrow> if ok then v else '''')
               else procInst param r1))"
  by pat_completeness auto
termination
  by (relation "measure (\<lambda>(_, s). length s)") (auto dest: cut_at_shorter)

declare procInst.simps [simp del]

definition xml_decl_ok :: "string \<Rightarrow> bool" where
  "xml_decl_ok content \<longleftrightarrow>
     (let ver = procInst ''version'' content; enc = procInst ''encoding'' content
      in (ver = '''' \<or> ver = ''1.0'') \<and> (enc = '''' \<or> EqualFold enc ''utf-8''))"

text \<open>A directive: quoted brackets do not count, nested ones do, comments are skipped. \<open>chk\<close> says
  whether the next byte may end it.\<close>

definition dashes :: "string \<Rightarrow> nat" where
  "dashes s = (if prefix ''!-'' s then 2 else if prefix ''!'' s then 1 else 0)"

function directive :: "bool \<Rightarrow> char option \<Rightarrow> int \<Rightarrow> string \<Rightarrow> string option" where
  "directive chk q n s =
     (case s of
        [] \<Rightarrow> None
      | b # r \<Rightarrow>
          if chk \<and> q = None \<and> b = CHR ''>'' \<and> n = 0 then Some r
          else if q = Some b then directive True None n r
          else if q \<noteq> None then directive True q n r
          else if b = CHR 0x22 \<or> b = CHR 0x27 then directive True (Some b) n r
          else if b = CHR ''>'' then directive True None (n - 1) r
          else if b = CHR ''<'' then
            (if prefix ''!--'' r then (case cut_at ''-->'' (drop 3 r) of None \<Rightarrow> None | Some (_, r1) \<Rightarrow> directive True None n r1)
             else directive False None (n + 1) (drop (dashes r) r))
          else directive True None n r)"
  by pat_completeness auto
termination
  by (relation "measure (\<lambda>(_, _, _, s). length s)") (auto dest!: cut_at_shorter)

declare directive.simps [simp del]

subsection \<open>Tokens\<close>

datatype token = StartElement qname "(qname \<times> string) list" bool | EndElement qname | Chars string | Ignored

text \<open>A comment: two dashes inside it must be its end.\<close>

definition comment :: "string \<Rightarrow> (token \<times> string) option" where
  "comment s = (case cut_at ''--'' s of Some (_, c # r) \<Rightarrow> if c = CHR ''>'' then Some (Ignored, r) else None | _ \<Rightarrow> None)"

definition markup :: "uni \<Rightarrow> string \<Rightarrow> (token \<times> string) option" where
  "markup uni s =
     (case s of
        [] \<Rightarrow> None
      | b # r \<Rightarrow>
          if b = CHR ''/'' then
            (case nsname uni r of None \<Rightarrow> None
             | Some (n, r1) \<Rightarrow> (case xml_space r1 of c # r2 \<Rightarrow> if c = CHR ''>'' then Some (EndElement n, r2) else None | [] \<Rightarrow> None))
          else if b = CHR ''?'' then
            (case xml_name uni r of None \<Rightarrow> None
             | Some (target, r1) \<Rightarrow>
                 (case cut_at ''?>'' (xml_space r1) of None \<Rightarrow> None
                  | Some (content, r2) \<Rightarrow> if target = ''xml'' \<and> \<not> xml_decl_ok content then None else Some (Ignored, r2)))
          else if b = CHR ''!'' then
            (case r of [] \<Rightarrow> None
             | c # r1 \<Rightarrow>
                 if c = CHR ''-'' then (case r1 of d # r2 \<Rightarrow> if d = CHR ''-'' then comment r2 else None | [] \<Rightarrow> None)
                 else if c = CHR ''['' then
                   (if prefix ''CDATA['' r1
                    then map_option (\<lambda>(d, r2). (Chars d, r2)) (xml_text uni None True (drop 6 r1)) else None)
                 else map_option (\<lambda>r2. (Ignored, r2)) (directive True None 0 r1))
          else case nsname uni s of
            None \<Rightarrow> None
          | Some (n, r1) \<Rightarrow> map_option (\<lambda>(as, e, r2). (StartElement n as e, r2)) (attributes uni r1))"

definition rawToken :: "uni \<Rightarrow> string \<Rightarrow> (token \<times> string) option" where
  "rawToken uni s =
     (case s of
        [] \<Rightarrow> None
      | b # r \<Rightarrow> if b = CHR ''<'' then markup uni r else map_option (\<lambda>(d, r1). (Chars d, r1)) (xml_text uni None False s))"

lemma attributes_shorter: "attributes uni s = Some (as, e, r) \<Longrightarrow> length r < length s"
proof (induction "length s" arbitrary: s as rule: less_induct)
  case less
  obtain b t where b: "xml_space s = b # t" using less.prems by (subst (asm) attributes.simps) (auto split: list.splits)
  have t: "Suc (length t) \<le> length s" using xml_space_shorter [of s] b by simp
  show ?case
  proof (cases "b = CHR ''/'' \<or> b = CHR ''>''")
    case True
    with less.prems t show ?thesis by (subst (asm) attributes.simps) (auto simp: b split: list.splits if_splits)
  next
    case False
    obtain n r1 where n: "nsname uni (b # t) = Some (n, r1)"
      using less.prems False by (subst (asm) attributes.simps) (auto simp: b split: option.splits)
    obtain c r2 where c: "xml_space r1 = c # r2"
      using less.prems False by (subst (asm) attributes.simps) (auto simp: b n split: list.splits)
    note rest = attr_rest [OF b n c]
    have IH: "length r < length s'" if "attributes uni s' = Some (as', e, r)" "length s' < length s" for s' as'
      using less.hyps [OF that(2,1)] .
    from less.prems False rest show ?thesis
      by (subst (asm) attributes.simps)
        (force simp: b n c split: if_split_asm option.split_asm prod.split_asm dest: IH attrval_rest)
  qed
qed

lemma directive_shorter: "directive chk q n s = Some r \<Longrightarrow> length r < length s"
proof (induction "length s" arbitrary: chk q n s rule: less_induct)
  case less
  then obtain b t where s: "s = b # t" by (subst (asm) (2) directive.simps) (auto split: list.splits)
  have le: "length r < Suc (length t)" if "directive chk' q' n' s' = Some r" "length s' \<le> length t" for chk' q' n' s'
    using less.hyps [of s', OF _ that(1)] that(2) by (simp add: s)
  from less.prems show ?case unfolding s
    by (subst (asm) directive.simps)
      (simp split: if_split_asm option.split_asm prod.split_asm; auto elim!: le dest!: cut_at_shorter)
qed

lemma markup_shorter: "markup uni s = Some (t, r) \<Longrightarrow> length r \<le> length s"
proof (cases s)
  case (Cons b r0)
  assume m: "markup uni s = Some (t, r)"
  have sp: "xml_space r1 = c # r2 \<Longrightarrow> Suc (length r2) \<le> length r1" for r1 c r2 using xml_space_shorter [of r1] by simp
  have cut: "cut_at p (xml_space r1) = Some (a, r2) \<Longrightarrow> length r2 \<le> length r1" for p r1 a r2
    using cut_at_shorter [of p "xml_space r1" a r2] xml_space_shorter [of r1] by simp
  have nm: "xml_name uni x = Some (n, r1) \<Longrightarrow> length r1 \<le> length x" for x n r1
    by (auto simp: xml_name_def dest!: readName_shorter split: option.splits if_splits)
  have com: "comment x = Some (t, r) \<Longrightarrow> length r \<le> length x" for x
    by (auto simp: comment_def dest!: cut_at_shorter split: option.splits list.splits if_splits)
  from m show ?thesis unfolding Cons markup_def
    by (auto split: if_split_asm option.split_asm list.split_asm
        dest!: nsname_shorter sp cut nm com directive_shorter xml_text_shorter attributes_shorter)
qed (simp add: markup_def)

lemma rawToken_shorter: "rawToken uni s = Some (t, r) \<Longrightarrow> length r < length s"
proof (cases s)
  case (Cons b r0)
  assume t: "rawToken uni s = Some (t, r)"
  show ?thesis
  proof (cases "b = CHR ''<''")
    case True
    with t Cons show ?thesis by (auto simp: rawToken_def dest!: markup_shorter)
  next
    case False
    with t Cons obtain d where "text_loop uni None False (CHR 0x00) (CHR 0x00) [] (b # r0) = Some (d, r)"
      by (auto simp: rawToken_def xml_text_def split: option.splits if_splits)
    with False show ?thesis unfolding Cons
      by (subst (asm) text_loop.simps)
        (auto split: if_split_asm option.split_asm prod.split_asm dest!: text_loop_shorter entity_shorter)
  qed
qed (simp add: rawToken_def)

subsection \<open>The tree of the root element\<close>

text \<open>No struct of the program reads an attribute that it uses later, so that the tree has none.\<close>

datatype xnode = XText string | XElem string "xnode list"

type_synonym frame = "qname \<times> xnode list"

definition add_node :: "xnode \<Rightarrow> frame list \<Rightarrow> frame list" where
  "add_node x stk = (case stk of [] \<Rightarrow> [] | (n, ks) # fs \<Rightarrow> (n, ks @ [x]) # fs)"

lemma length_add_node [simp]: "length (add_node x stk) = length stk"
  by (auto simp: add_node_def split: list.split)

text \<open>An end tag closes the elements that are open inside its own, too; a tag with the right
  local name and another prefix is an error.\<close>

function close_element :: "qname \<Rightarrow> frame list \<Rightarrow> (xnode + frame list) option" where
  "close_element n stk =
     (case stk of
        [] \<Rightarrow> None
      | (m, ks) # fs \<Rightarrow>
          (let x = XElem (snd m) ks in
           if snd m \<noteq> snd n then (if fs = [] then Some (Inl x) else close_element n (add_node x fs))
           else if fst m \<noteq> fst n then None
           else if fs = [] then Some (Inl x) else Some (Inr (add_node x fs))))"
  by pat_completeness auto
termination
  by (relation "measure (\<lambda>(_, stk). length stk)") auto

declare close_element.simps [simp del]

function build :: "uni \<Rightarrow> frame list \<Rightarrow> string \<Rightarrow> xnode option" where
  "build uni stk s =
     (case rawToken uni s of
        None \<Rightarrow> None
      | Some (t, r) \<Rightarrow>
          (case t of
             StartElement n as e \<Rightarrow>
               if \<not> e then build uni ((n, []) # stk) r
               else if stk = [] then Some (XElem (snd n) [])
               else build uni (add_node (XElem (snd n) []) stk) r
           | EndElement n \<Rightarrow>
               (case close_element n stk of None \<Rightarrow> None | Some (Inl x) \<Rightarrow> Some x | Some (Inr fs) \<Rightarrow> build uni fs r)
           | Chars d \<Rightarrow> build uni (add_node (XText d) stk) r
           | Ignored \<Rightarrow> build uni stk r))"
  by pat_completeness auto
termination
  by (relation "measure (\<lambda>(_, _, s). length s)") (auto dest: rawToken_shorter)

declare build.simps [simp del]

definition parse_xml :: "uni \<Rightarrow> string \<Rightarrow> xnode option" where
  "parse_xml uni s = build uni [] s"

subsection \<open>Plain text and names\<close>

text \<open>Text that stands for itself, in a document and in quotes, and names of ASCII letters.\<close>

definition plain_char :: "char \<Rightarrow> bool" where
  "plain_char c \<longleftrightarrow> (c = CHR 0x0A \<or> between 32 126 c) \<and> c \<noteq> CHR ''<'' \<and> c \<noteq> CHR ''>'' \<and> c \<noteq> CHR ''&'' \<and> c \<noteq> CHR 0x22"

abbreviation plain :: "string \<Rightarrow> bool" where
  "plain \<equiv> list_all plain_char"

lemma plain_legal: "plain s \<Longrightarrow> legal_text s"
proof -
  have one: "plain_char c \<Longrightarrow> code c < 128 \<and> isInCharacterRange (code c)" for c
    unfolding plain_char_def between_def isInCharacterRange_def by (elim conjE disjE) simp_all
  assume "plain s"
  then show ?thesis unfolding legal_text_def using one by (subst runes_ascii) (auto simp: list_all_iff)
qed

definition tag_name :: "string \<Rightarrow> bool" where
  "tag_name n \<longleftrightarrow> (case n of [] \<Rightarrow> False
     | c # cs \<Rightarrow> (between 65 90 c \<or> between 97 122 c) \<and> list_all isNameByte cs \<and> count_list n (CHR '':'') \<le> 1)"

definition local_name :: "string \<Rightarrow> string" where
  "local_name n = (case split_name n of Some q \<Rightarrow> snd q | None \<Rightarrow> '''')"

lemma tag_name_ascii: "tag_name n \<Longrightarrow> list_all isNameByte n \<and> list_all (\<lambda>c. code c < 128) n \<and> n \<noteq> []"
  by (cases n) (auto simp: tag_name_def isNameByte_def between_def list_all_iff)

lemma tag_head:
  assumes "tag_name n"
  obtains c cs where "n = c # cs" "c \<noteq> CHR '' ''" "c \<noteq> CHR 0x0D" "c \<noteq> CHR 0x0A" "c \<noteq> CHR 0x09" "c \<noteq> CHR ''/''"
    "c \<noteq> CHR ''>''" "c \<noteq> CHR ''?''" "c \<noteq> CHR ''!''"
proof -
  obtain c cs where n: "n = c # cs" "65 \<le> code c \<and> code c \<noteq> 63" using assms by (cases n) (auto simp: tag_name_def between_def)
  show thesis by (rule that [OF n(1)]) (use n(2) in auto)
qed

lemma nsname_tag:
  assumes "tag_name n" and "\<not> name_byte c"
  shows "nsname uni (n @ c # r) = Some (the (split_name n), c # r)"
proof -
  note a = tag_name_ascii [OF assms(1)]
  then have "\<forall>x\<in>set n. name_byte x" by (simp add: name_byte_def list_all_iff)
  then have rd: "readName (n @ c # r) = Some (n, c # r)" using assms(2) by (simp add: readName_def Let_def dropWhile_append3 takeWhile_append2)
  have snd: "isNameByte x \<Longrightarrow> name_first uni (code x) \<or> name_second uni (code x)" for x
    by (auto simp: isNameByte_def between_def name_first_def name_second_def)
  have nm: "isName uni n"
    using assms(1) a snd by (cases n) (auto simp: isName_def runes_ascii list_all_iff tag_name_def name_first_def between_def)
  have "count_list n (CHR '':'') \<le> 1" using assms(1) by (cases n) (auto simp: tag_name_def)
  then have "split_name n \<noteq> None" by (simp add: split_name_def split: prod.split)
  then show ?thesis by (auto simp: nsname_def xml_name_def rd nm)
qed

subsection \<open>Reading back what was put together\<close>

text \<open>\<open>raw\<close> is a way to write the text \<open>v\<close>: scanning it, outside tags or in double quotes,
  collects \<open>v\<close>.\<close>

definition reads :: "string \<Rightarrow> string \<Rightarrow> bool" where
  "reads raw v \<longleftrightarrow> legal_text v \<and> (raw = [] \<longrightarrow> v = []) \<and> CHR ''<'' \<notin> set raw
     \<and> (\<forall>uni quote p0 p1 acc. p1 \<noteq> CHR 0x0D \<and> (quote = None \<or> quote = Some (CHR 0x22)) \<longrightarrow>
          (\<exists>q0 q1. q1 \<noteq> CHR 0x0D \<and> (\<forall>r. text_loop uni quote False p0 p1 acc (raw @ r) = text_loop uni quote False q0 q1 (acc @ v) r)))"

lemma text_loop_step:
  assumes "plain_char c" "p1 \<noteq> CHR 0x0D" "quote = None \<or> quote = Some (CHR 0x22)"
  shows "text_loop uni quote False p0 p1 acc (c # s) = text_loop uni quote False p1 c (acc @ [c]) s"
proof -
  have "c \<noteq> CHR 0x0D" using assms(1) by (auto simp: plain_char_def between_def)
  moreover have "quote \<noteq> Some c" using assms(1,3) by (auto simp: plain_char_def)
  ultimately show ?thesis using assms(1,2) by (subst text_loop.simps) (simp add: plain_char_def)
qed

lemma text_loop_plain:
  assumes "plain s" "p1 \<noteq> CHR 0x0D" "quote = None \<or> quote = Some (CHR 0x22)"
  shows "\<exists>q0 q1. q1 \<noteq> CHR 0x0D \<and> (\<forall>r. text_loop uni quote False p0 p1 acc (s @ r) = text_loop uni quote False q0 q1 (acc @ s) r)"
  using assms
proof (induction s arbitrary: p0 p1 acc)
  case (Cons c s)
  have "c \<noteq> CHR 0x0D" using Cons.prems(1) by (auto simp: plain_char_def between_def)
  with Cons.IH [of c p1 "acc @ [c]"] Cons.prems show ?case by (simp add: text_loop_step)
qed auto

lemma reads_plain: "plain s \<Longrightarrow> reads s s"
  using text_loop_plain [of s] by (auto simp: reads_def plain_legal list_all_iff plain_char_def)

lemma reads_text:
  assumes "reads raw v"
  shows "xml_text uni None False (raw @ CHR ''<'' # r) = Some (v, CHR ''<'' # r)"
    "xml_text uni (Some (CHR 0x22)) False (raw @ CHR 0x22 # r) = Some (v, r)"
proof -
  have e: "text_loop uni None False p0 p1 acc (CHR ''<'' # r) = Some (acc, CHR ''<'' # r)"
    "text_loop uni (Some (CHR 0x22)) False p0 p1 acc (CHR 0x22 # r) = Some (acc, r)" for p0 p1 acc
    by (subst text_loop.simps, simp)+
  have z: "CHR 0x00 \<noteq> CHR 0x0D" by simp
  from assms z have "\<exists>q0 q1. \<forall>r. text_loop uni quote False (CHR 0x00) (CHR 0x00) [] (raw @ r) = text_loop uni quote False q0 q1 v r"
    if "quote = None \<or> quote = Some (CHR 0x22)" for quote
    unfolding reads_def using that by (metis append_Nil)
  from this [of None] this [of "Some (CHR 0x22)"] assms
  show "xml_text uni None False (raw @ CHR ''<'' # r) = Some (v, CHR ''<'' # r)"
    "xml_text uni (Some (CHR 0x22)) False (raw @ CHR 0x22 # r) = Some (v, r)"
    by (auto simp: xml_text_def e reads_def)
qed

definition print_attr :: "string \<times> string \<Rightarrow> string" where
  "print_attr av = '' '' @ fst av @ [CHR ''='', CHR 0x22] @ snd av @ [CHR 0x22]"

definition attr_ok :: "string \<times> string \<Rightarrow> bool" where
  "attr_ok av \<longleftrightarrow> tag_name (fst av) \<and> (\<exists>v. reads (snd av) v)"

lemma not_name_byte [simp]: "\<not> name_byte (CHR ''='')" "\<not> name_byte (CHR ''>'')" "\<not> name_byte (CHR '' '')"
  by (simp_all add: name_byte_def isNameByte_def between_def)

lemma attributes_print:
  "list_all attr_ok atts \<Longrightarrow> \<exists>as. \<forall>r. attributes uni (concat (map print_attr atts) @ CHR ''>'' # r) = Some (as, False, r)"
proof (induction atts)
  case Nil
  show ?case by (intro exI [of _ "[]"] allI, subst attributes.simps) (simp add: xml_space_def)
next
  case (Cons av atts)
  obtain n raw v where av: "av = (n, raw)" "tag_name n" "reads raw v" using Cons.prems by (cases av) (auto simp: attr_ok_def)
  obtain as where as: "\<And>r. attributes uni (concat (map print_attr atts) @ CHR ''>'' # r) = Some (as, False, r)"
    using Cons by auto
  obtain c cs where n: "n = c # cs" "c \<noteq> CHR '' ''" "c \<noteq> CHR 0x0D" "c \<noteq> CHR 0x0A" "c \<noteq> CHR 0x09" "c \<noteq> CHR ''/''" "c \<noteq> CHR ''>''"
    by (rule tag_head [OF av(2)])
  let ?rest = "\<lambda>r. concat (map print_attr atts) @ CHR ''>'' # r"
  have ns: "nsname uni (c # cs @ CHR ''='' # z) = Some (the (split_name n), CHR ''='' # z)" for z
    using nsname_tag [OF av(2), of "CHR ''=''" uni z] n(1) by simp
  have q: "attrval uni (CHR 0x22 # raw @ CHR 0x22 # z) = Some (v, z)" for z
    by (simp add: attrval_def reads_text [OF av(3)])
  have "attributes uni (print_attr av @ ?rest r) = Some ((the (split_name n), v) # as, False, r)" for r
    by (subst attributes.simps) (use n(2-) in \<open>simp add: print_attr_def av(1) n(1) xml_space_def ns q as\<close>)
  then show ?case by auto
qed

text \<open>Pieces of a document: written text with what it says, and elements.\<close>

datatype frag = Txt string string | Tag string "(string \<times> string) list" "frag list"

primrec print_frag :: "frag \<Rightarrow> string" where
  "print_frag (Txt raw v) = raw"
| "print_frag (Tag n atts kids) =
     ''<'' @ n @ concat (map print_attr atts) @ ''>'' @ concat (map print_frag kids) @ ''</'' @ n @ ''>''"

primrec frag_nodes :: "frag \<Rightarrow> xnode list" where
  "frag_nodes (Txt raw v) = (if raw = [] then [] else [XText v])"
| "frag_nodes (Tag n atts kids) = [XElem (local_name n) (concat (map frag_nodes kids))]"

text \<open>Two texts are not next to each other.\<close>

fun apart :: "frag list \<Rightarrow> bool" where
  "apart (Txt a b # Txt c d # fs) = False"
| "apart (f # fs) = apart fs"
| "apart [] = True"

primrec frag_ok :: "frag \<Rightarrow> bool" where
  "frag_ok (Txt raw v) = reads raw v"
| "frag_ok (Tag n atts kids) = (tag_name n \<and> list_all attr_ok atts \<and> list_all frag_ok kids \<and> apart kids)"

lemma fold_add_node: "fold add_node xs ((n, ks) # fs) = (n, ks @ xs) # fs"
  by (induction xs arbitrary: ks) (auto simp: add_node_def)

lemma add_nodes_nonempty: "stk \<noteq> [] \<Longrightarrow> fold add_node xs stk \<noteq> []"
  by (cases stk) (auto simp: fold_add_node)

lemma rawToken_open:
  assumes "tag_name n" "list_all attr_ok atts"
  shows "\<exists>as. rawToken uni (''<'' @ n @ concat (map print_attr atts) @ ''>'' @ r) = Some (StartElement (the (split_name n)) as False, r)"
proof -
  obtain c cs where n: "n = c # cs" "c \<noteq> CHR ''/''" "c \<noteq> CHR ''?''" "c \<noteq> CHR ''!''"
    by (rule tag_head [OF assms(1)])
  obtain as where as: "attributes uni (concat (map print_attr atts) @ CHR ''>'' # r) = Some (as, False, r)"
    using attributes_print [OF assms(2)] by blast
  obtain d ds where d: "concat (map print_attr atts) @ CHR ''>'' # r = d # ds" "\<not> name_byte d"
    by (cases atts) (auto simp: print_attr_def)
  have "nsname uni (c # cs @ d # ds) = Some (the (split_name n), d # ds)" using nsname_tag [OF assms(1) d(2), of uni ds] n(1) by simp
  then show ?thesis using n as d(1) by (auto simp: rawToken_def markup_def)
qed

lemma rawToken_close:
  assumes "tag_name n"
  shows "rawToken uni (''</'' @ n @ ''>'' @ r) = Some (EndElement (the (split_name n)), r)"
  using nsname_tag [OF assms, of "CHR ''>''" uni r] by (simp add: rawToken_def markup_def xml_space_def)

lemma close_top:
  "close_element n ((n, ks) # fs) = Some (if fs = [] then Inl (XElem (snd n) ks) else Inr (add_node (XElem (snd n) ks) fs))"
  by (subst close_element.simps) simp

lemma local_name_tag: "tag_name n \<Longrightarrow> local_name n = snd (the (split_name n))"
  by (cases n) (auto simp: local_name_def tag_name_def split_name_def split: prod.split)

lemma build_text:
  assumes "reads raw v"
  shows "build uni stk (raw @ CHR ''<'' # r) = build uni (fold add_node (frag_nodes (Txt raw v)) stk) (CHR ''<'' # r)"
proof (cases raw)
  case (Cons b raw')
  then have "rawToken uni (raw @ CHR ''<'' # r) = Some (Chars v, CHR ''<'' # r)"
    using reads_text(1) [OF assms, of uni r] assms by (auto simp: rawToken_def reads_def)
  then show ?thesis by (subst build.simps) (simp add: Cons)
qed simp

text \<open>A tag in a place where something is open: what a list of pieces needs of its members.\<close>

definition tag_step :: "uni \<Rightarrow> frag \<Rightarrow> bool" where
  "tag_step uni f \<longleftrightarrow> (case f of Txt raw v \<Rightarrow> reads raw v
     | Tag n atts kids \<Rightarrow> \<forall>stk r. stk \<noteq> [] \<longrightarrow> build uni stk (print_frag f @ r) = build uni (fold add_node (frag_nodes f) stk) r)"

lemma build_frags:
  assumes "list_all (tag_step uni) fs" "apart fs" "stk \<noteq> []"
  shows "build uni stk (concat (map print_frag fs) @ CHR ''<'' # r) = build uni (fold add_node (concat (map frag_nodes fs)) stk) (CHR ''<'' # r)"
  using assms
proof (induction fs arbitrary: stk)
  case (Cons f fs)
  have ap: "apart fs" using Cons.prems(2) by (cases f; cases fs) (auto elim: apart.elims)
  define stk' where "stk' = fold add_node (frag_nodes f) stk"
  have "stk' \<noteq> []" using Cons.prems(3) add_nodes_nonempty by (simp add: stk'_def)
  with Cons ap have rest: "build uni stk' (concat (map print_frag fs) @ CHR ''<'' # r) =
      build uni (fold add_node (concat (map frag_nodes fs)) stk') (CHR ''<'' # r)" by simp
  have "build uni stk (print_frag f @ concat (map print_frag fs) @ CHR ''<'' # r) = build uni stk' (concat (map print_frag fs) @ CHR ''<'' # r)"
  proof (cases f)
    case (Tag n atts kids)
    have "tag_step uni f" using Cons.prems(1) by simp
    then show ?thesis using Cons.prems(3) unfolding stk'_def Tag tag_step_def frag.case by blast
  next
    case (Txt raw v)
    obtain z where z: "concat (map print_frag fs) @ CHR ''<'' # r = CHR ''<'' # z"
      using Cons.prems(2) Txt by (cases fs; cases "hd fs") auto
    have "reads raw v" using Cons.prems(1) Txt by (simp add: tag_step_def)
    from build_text [OF this, of uni stk z] show ?thesis unfolding z stk'_def by (simp add: Txt)
  qed
  with rest show ?case by (simp add: stk'_def)
qed simp

text \<open>The inside of an element: its tag opens a frame, its pieces fill it, its end tag closes it.\<close>

lemma print_frag_tag:
  "print_frag (Tag n atts kids) @ r = ''<'' @ n @ concat (map print_attr atts) @ ''>'' @ concat (map print_frag kids) @ CHR ''<'' # ''/'' @ n @ ''>'' @ r"
  by simp

lemma build_element:
  assumes "tag_name n" "list_all attr_ok atts" "list_all (tag_step uni) kids" "apart kids"
  shows "build uni stk (print_frag (Tag n atts kids) @ r) =
     (let x = XElem (local_name n) (concat (map frag_nodes kids)) in if stk = [] then Some x else build uni (add_node x stk) r)"
proof -
  let ?q = "the (split_name n)"
  let ?kids = "concat (map print_frag kids)" and ?close = "CHR ''<'' # ''/'' @ n @ ''>'' @ r"
  let ?ks = "concat (map frag_nodes kids)"
  obtain as where open_tag: "rawToken uni (''<'' @ n @ concat (map print_attr atts) @ ''>'' @ ?kids @ ?close) = Some (StartElement ?q as False, ?kids @ ?close)"
    using rawToken_open [OF assms(1,2)] by blast
  have "build uni stk (print_frag (Tag n atts kids) @ r) = build uni ((?q, []) # stk) (?kids @ ?close)"
    unfolding print_frag_tag by (subst build.simps, subst open_tag) simp
  also have "\<dots> = build uni ((?q, ?ks) # stk) ?close"
    using build_frags [OF assms(3,4), of "(?q, []) # stk"] by (simp add: fold_add_node)
  also have "\<dots> = (let x = XElem (local_name n) ?ks in if stk = [] then Some x else build uni (add_node x stk) r)"
  proof -
    have "rawToken uni ?close = Some (EndElement ?q, r)" using rawToken_close [OF assms(1), of uni r] by simp
    then show ?thesis by (subst build.simps) (simp add: close_top local_name_tag [OF assms(1)] Let_def)
  qed
  finally show ?thesis .
qed

lemma frag_ok_step: "frag_ok f \<Longrightarrow> tag_step uni f"
proof (induction f)
  case (Tag n atts kids)
  then have k: "tag_name n" "list_all attr_ok atts" "list_all (tag_step uni) kids" "apart kids" by (auto simp: list_all_iff)
  show ?case unfolding tag_step_def frag.case build_element [OF k] by (simp add: Let_def)
qed (simp add: tag_step_def)

text \<open>A document with one root element: what was put together is what is read.\<close>

lemma parse_document:
  assumes "frag_ok (Tag n atts kids)"
  shows "parse_xml uni (print_frag (Tag n atts kids) @ r) = Some (XElem (local_name n) (concat (map frag_nodes kids)))"
proof -
  have k: "tag_name n" "list_all attr_ok atts" "list_all (tag_step uni) kids" "apart kids"
    using assms by (auto simp: list_all_iff frag_ok_step)
  show ?thesis unfolding parse_xml_def build_element [OF k] by simp
qed

text \<open>A declaration and a line break before the root.\<close>

lemma parse_declared:
  assumes "xml_decl_ok content" "cut_at ''?>'' (content @ ''?>'' @ CHR 0x0A # CHR ''<'' # r) = Some (content, CHR 0x0A # CHR ''<'' # r)"
    and "xml_space (CHR '' '' # content @ ''?>'' @ CHR 0x0A # CHR ''<'' # r) = content @ ''?>'' @ CHR 0x0A # CHR ''<'' # r"
  shows "parse_xml uni (''<?xml '' @ content @ ''?>'' @ CHR 0x0A # CHR ''<'' # r) = parse_xml uni (CHR ''<'' # r)"
proof -
  have n: "xml_name uni (''xml'' @ CHR '' '' # z) = Some (''xml'', CHR '' '' # z)" for z
    by (simp add: xml_name_def readName_def Let_def name_byte_def isNameByte_def between_def isName_def runes_ascii name_first_def)
  have "rawToken uni (''<?xml '' @ content @ ''?>'' @ CHR 0x0A # CHR ''<'' # r) = Some (Ignored, CHR 0x0A # CHR ''<'' # r)"
    using n [of "content @ ''?>'' @ CHR 0x0A # CHR ''<'' # r"] assms by (simp add: rawToken_def markup_def)
  then have "parse_xml uni (''<?xml '' @ content @ ''?>'' @ CHR 0x0A # CHR ''<'' # r) = build uni [] ([CHR 0x0A] @ CHR ''<'' # r)"
    by (simp add: parse_xml_def build.simps [of uni "[]" "CHR ''<'' # _"])
  also have "\<dots> = parse_xml uni (CHR ''<'' # r)"
    using build_text [OF reads_plain, of "[CHR 0x0A]" uni "[]" r] by (simp add: parse_xml_def plain_char_def add_node_def)
  finally show ?thesis .
qed

end
