(* ===== verification/SoapDecode.thy ===== *)
theory SoapDecode
  imports Soap XmlDecode
begin

text \<open>
  The inbound half of the SOAP codec (\<open>DecodeEnvelope\<close> in \<^verbatim>\<open>src/goagent/internal/cwmp/soap.go\<close>):
  how \<^verbatim>\<open>encoding/xml\<close> fills the structs of \<^verbatim>\<open>rpc.go\<close> from the tree of an envelope. Elements match
  by local name; unknown ones are skipped; a repeated element fills the same struct again and a
  repeated list member is appended; a number or a truth value that does not parse fails the
  whole decode, also in the members the agent only ever sends. The attributes the structs name
  are never read by the agent and are left out, as is \<open>Value\<close>'s type: its tag names the
  attribute with its prefix, which no attribute has once it is split.
\<close>

subsection \<open>Values\<close>

definition chardata :: "xnode list \<Rightarrow> string" where
  "chardata ks = concat (map (\<lambda>k. case k of XText t \<Rightarrow> t | XElem _ _ \<Rightarrow> []) ks)"

definition copy_int :: "xnode list \<Rightarrow> int option" where
  "copy_int ks = (let s = chardata ks in if s = [] then Some 0 else ParseInt (TrimSpace s))"

definition copy_bool :: "xnode list \<Rightarrow> bool option" where
  "copy_bool ks = (let s = chardata ks in if s = [] then Some False else ParseBool (TrimSpace s))"

subsection \<open>Structs\<close>

text \<open>The loop over the tokens of a struct: the field function sees each child element, by local
  name, and returns the struct with the field filled. \<open>nested\<close> is a tag with a path, as
  \<^verbatim>\<open>Event>EventStruct\<close>.\<close>

fun fields :: "(string \<Rightarrow> xnode list \<Rightarrow> 'a \<Rightarrow> 'a option) \<Rightarrow> xnode list \<Rightarrow> 'a \<Rightarrow> 'a option" where
  "fields f [] v = Some v"
| "fields f (XText t # ks) v = fields f ks v"
| "fields f (XElem n cs # ks) v = (case f n cs v of None \<Rightarrow> None | Some v' \<Rightarrow> fields f ks v')"

definition nested :: "string \<Rightarrow> (xnode list \<Rightarrow> 'b option) \<Rightarrow> xnode list \<Rightarrow> 'b list \<Rightarrow> 'b list option" where
  "nested el dec ks xs = fields (\<lambda>n cs ys. if n = el then map_option (\<lambda>y. ys @ [y]) (dec cs) else Some ys) ks xs"

definition dec_DeviceID :: "xnode list \<Rightarrow> DeviceIDStruct \<Rightarrow> DeviceIDStruct option" where
  "dec_DeviceID = fields (\<lambda>n ks v. Some
     (if n = ''Manufacturer'' then v\<lparr>di_Manufacturer := chardata ks\<rparr>
      else if n = ''OUI'' then v\<lparr>di_OUI := chardata ks\<rparr>
      else if n = ''ProductClass'' then v\<lparr>di_ProductClass := chardata ks\<rparr>
      else if n = ''SerialNumber'' then v\<lparr>di_SerialNumber := chardata ks\<rparr> else v))"

definition dec_EventStruct :: "xnode list \<Rightarrow> EventStruct option" where
  "dec_EventStruct ks = fields (\<lambda>n ks v. Some
     (if n = ''EventCode'' then v\<lparr>es_EventCode := chardata ks\<rparr>
      else if n = ''CommandKey'' then v\<lparr>es_CommandKey := chardata ks\<rparr> else v)) ks \<lparr>es_EventCode = '''', es_CommandKey = ''''\<rparr>"

definition dec_ParameterValueStruct :: "xnode list \<Rightarrow> ParameterValueStruct option" where
  "dec_ParameterValueStruct ks = fields (\<lambda>n ks v. Some
     (if n = ''Name'' then v\<lparr>pv_Name := chardata ks\<rparr>
      else if n = ''Value'' then v\<lparr>pv_Value := (pv_Value v)\<lparr>vn_Text := chardata ks\<rparr>\<rparr> else v)) ks
     \<lparr>pv_Name = '''', pv_Value = \<lparr>vn_Type = '''', vn_Text = ''''\<rparr>\<rparr>"

definition dec_ParameterInfoStruct :: "xnode list \<Rightarrow> ParameterInfoStruct option" where
  "dec_ParameterInfoStruct ks = fields (\<lambda>n ks v.
     if n = ''Name'' then Some (v\<lparr>pi_Name := chardata ks\<rparr>)
     else if n = ''Writable'' then map_option (\<lambda>b. v\<lparr>pi_Writable := b\<rparr>) (copy_bool ks) else Some v) ks
     \<lparr>pi_Name = '''', pi_Writable = False\<rparr>"

definition dec_FaultStruct :: "xnode list \<Rightarrow> FaultStruct \<Rightarrow> FaultStruct option" where
  "dec_FaultStruct = fields (\<lambda>n ks v.
     if n = ''FaultCode'' then map_option (\<lambda>i. v\<lparr>fs_FaultCode := i\<rparr>) (copy_int ks)
     else if n = ''FaultString'' then Some (v\<lparr>fs_FaultString := chardata ks\<rparr>) else Some v)"

definition dec_Inform :: "xnode list \<Rightarrow> Inform \<Rightarrow> Inform option" where
  "dec_Inform = fields (\<lambda>n ks v.
     if n = ''DeviceID'' then map_option (\<lambda>x. v\<lparr>inf_DeviceID := x\<rparr>) (dec_DeviceID ks (inf_DeviceID v))
     else if n = ''Event'' then map_option (\<lambda>xs. v\<lparr>inf_Event := xs\<rparr>) (nested ''EventStruct'' dec_EventStruct ks (inf_Event v))
     else if n = ''MaxEnvelopes'' then map_option (\<lambda>i. v\<lparr>inf_MaxEnvelopes := i\<rparr>) (copy_int ks)
     else if n = ''CurrentTime'' then Some (v\<lparr>inf_CurrentTime := chardata ks\<rparr>)
     else if n = ''RetryCount'' then map_option (\<lambda>i. v\<lparr>inf_RetryCount := i\<rparr>) (copy_int ks)
     else if n = ''ParameterList'' then
       map_option (\<lambda>xs. v\<lparr>inf_ParameterList := xs\<rparr>) (nested ''ParameterValueStruct'' dec_ParameterValueStruct ks (inf_ParameterList v))
     else Some v)"

definition dec_TransferComplete :: "xnode list \<Rightarrow> TransferComplete \<Rightarrow> TransferComplete option" where
  "dec_TransferComplete = fields (\<lambda>n ks v.
     if n = ''CommandKey'' then Some (v\<lparr>tc_CommandKey := chardata ks\<rparr>)
     else if n = ''FaultStruct'' then map_option (\<lambda>x. v\<lparr>tc_FaultStruct := x\<rparr>) (dec_FaultStruct ks (tc_FaultStruct v))
     else if n = ''StartTime'' then Some (v\<lparr>tc_StartTime := chardata ks\<rparr>)
     else if n = ''CompleteTime'' then Some (v\<lparr>tc_CompleteTime := chardata ks\<rparr>)
     else Some v)"

definition dec_AutonomousTransferComplete :: "xnode list \<Rightarrow> AutonomousTransferComplete \<Rightarrow> AutonomousTransferComplete option" where
  "dec_AutonomousTransferComplete = fields (\<lambda>n ks v.
     if n = ''AnnounceURL'' then Some (v\<lparr>atc_AnnounceURL := chardata ks\<rparr>)
     else if n = ''TransferURL'' then Some (v\<lparr>atc_TransferURL := chardata ks\<rparr>)
     else if n = ''IsDownload'' then map_option (\<lambda>b. v\<lparr>atc_IsDownload := b\<rparr>) (copy_bool ks)
     else if n = ''FileType'' then Some (v\<lparr>atc_FileType := chardata ks\<rparr>)
     else if n = ''FileSize'' then map_option (\<lambda>i. v\<lparr>atc_FileSize := i\<rparr>) (copy_int ks)
     else if n = ''TargetFileName'' then Some (v\<lparr>atc_TargetFileName := chardata ks\<rparr>)
     else if n = ''FaultStruct'' then map_option (\<lambda>x. v\<lparr>atc_FaultStruct := x\<rparr>) (dec_FaultStruct ks (atc_FaultStruct v))
     else if n = ''StartTime'' then Some (v\<lparr>atc_StartTime := chardata ks\<rparr>)
     else if n = ''CompleteTime'' then Some (v\<lparr>atc_CompleteTime := chardata ks\<rparr>)
     else Some v)"

definition dec_CWMPFault :: "xnode list \<Rightarrow> CWMPFault \<Rightarrow> CWMPFault option" where
  "dec_CWMPFault = fields (\<lambda>n ks v. Some
     (if n = ''FaultCode'' then v\<lparr>cf_FaultCode := chardata ks\<rparr>
      else if n = ''FaultString'' then v\<lparr>cf_FaultString := chardata ks\<rparr> else v))"

definition dec_Fault :: "xnode list \<Rightarrow> Fault \<Rightarrow> Fault option" where
  "dec_Fault = fields (\<lambda>n ks v.
     if n = ''faultcode'' then Some (v\<lparr>f_FaultCode := chardata ks\<rparr>)
     else if n = ''faultstring'' then Some (v\<lparr>f_FaultString := chardata ks\<rparr>)
     else if n = ''detail'' then map_option (\<lambda>x. v\<lparr>f_Detail := x\<rparr>)
       (fields (\<lambda>m cs d. if m = ''Fault'' then dec_CWMPFault cs d else Some d) ks (f_Detail v))
     else Some v)"

subsection \<open>Body and envelope\<close>

definition zero_FaultStruct :: FaultStruct where
  "zero_FaultStruct = \<lparr>fs_FaultCode = 0, fs_FaultString = ''''\<rparr>"

definition zero_Inform :: Inform where
  "zero_Inform = \<lparr>inf_DeviceID = \<lparr>di_Manufacturer = '''', di_OUI = '''', di_ProductClass = '''', di_SerialNumber = ''''\<rparr>,
     inf_Event = [], inf_MaxEnvelopes = 0, inf_CurrentTime = '''', inf_RetryCount = 0, inf_ParameterList = []\<rparr>"

definition zero_TransferComplete :: TransferComplete where
  "zero_TransferComplete = \<lparr>tc_CommandKey = '''', tc_FaultStruct = zero_FaultStruct, tc_StartTime = '''', tc_CompleteTime = ''''\<rparr>"

definition zero_AutonomousTransferComplete :: AutonomousTransferComplete where
  "zero_AutonomousTransferComplete = \<lparr>atc_AnnounceURL = '''', atc_TransferURL = '''', atc_IsDownload = False, atc_FileType = '''',
     atc_FileSize = 0, atc_TargetFileName = '''', atc_FaultStruct = zero_FaultStruct, atc_StartTime = '''', atc_CompleteTime = ''''\<rparr>"

definition zero_Fault :: Fault where
  "zero_Fault = \<lparr>f_FaultCode = '''', f_FaultString = '''', f_Detail = \<lparr>cf_FaultCode = '''', cf_FaultString = ''''\<rparr>\<rparr>"

text \<open>A pointer member is allocated when its element is met.\<close>

definition alloc :: "'a \<Rightarrow> 'a option \<Rightarrow> 'a" where
  "alloc zero p = (case p of None \<Rightarrow> zero | Some v \<Rightarrow> v)"

definition sent_only_ok :: "string \<Rightarrow> xnode list \<Rightarrow> bool" where
  "sent_only_ok n ks \<longleftrightarrow>
     (if n = ''InformResponse'' then fields (\<lambda>m cs u. if m = ''MaxEnvelopes'' then map_option (\<lambda>_. ()) (copy_int cs) else Some u) ks () \<noteq> None
      else if n = ''GetParameterNames'' then fields (\<lambda>m cs u. if m = ''NextLevel'' then map_option (\<lambda>_. ()) (copy_bool cs) else Some u) ks () \<noteq> None
      else True)"

definition dec_Body :: "xnode list \<Rightarrow> Body \<Rightarrow> Body option" where
  "dec_Body = fields (\<lambda>n ks v.
     if n = ''Inform'' then map_option (\<lambda>x. v\<lparr>b_Inform := Some x\<rparr>) (dec_Inform ks (alloc zero_Inform (b_Inform v)))
     else if n = ''GetRPCMethods'' then Some (v\<lparr>b_GetRPCMethods := Some ()\<rparr>)
     else if n = ''TransferComplete'' then
       map_option (\<lambda>x. v\<lparr>b_TransferComplete := Some x\<rparr>) (dec_TransferComplete ks (alloc zero_TransferComplete (b_TransferComplete v)))
     else if n = ''AutonomousTransferComplete'' then
       map_option (\<lambda>x. v\<lparr>b_AutonomousTransferComplete := Some x\<rparr>)
         (dec_AutonomousTransferComplete ks (alloc zero_AutonomousTransferComplete (b_AutonomousTransferComplete v)))
     else if n = ''Fault'' then map_option (\<lambda>x. v\<lparr>b_Fault := Some x\<rparr>) (dec_Fault ks (alloc zero_Fault (b_Fault v)))
     else if n = ''GetParameterValuesResponse'' then
       map_option (\<lambda>x. v\<lparr>b_GetParameterValuesResponse := Some x\<rparr>)
         (fields (\<lambda>m cs xs. if m = ''ParameterList'' then nested ''ParameterValueStruct'' dec_ParameterValueStruct cs xs else Some xs)
            ks (alloc [] (b_GetParameterValuesResponse v)))
     else if n = ''SetParameterValuesResponse'' then
       map_option (\<lambda>x. v\<lparr>b_SetParameterValuesResponse := Some x\<rparr>)
         (fields (\<lambda>m cs i. if m = ''Status'' then copy_int cs else Some i) ks (alloc 0 (b_SetParameterValuesResponse v)))
     else if n = ''GetParameterNamesResponse'' then
       map_option (\<lambda>x. v\<lparr>b_GetParameterNamesResponse := Some x\<rparr>)
         (fields (\<lambda>m cs xs. if m = ''ParameterList'' then nested ''ParameterInfoStruct'' dec_ParameterInfoStruct cs xs else Some xs)
            ks (alloc [] (b_GetParameterNamesResponse v)))
     else if n = ''RebootResponse'' then Some (v\<lparr>b_RebootResponse := Some ()\<rparr>)
     else if sent_only_ok n ks then Some v else None)"

definition dec_Header :: "xnode list \<Rightarrow> string \<Rightarrow> string option" where
  "dec_Header = fields (\<lambda>n ks v. Some (if n = ''ID'' then chardata ks else v))"

definition DecodeEnvelope :: "uni \<Rightarrow> bytes \<Rightarrow> Envelope option" where
  "DecodeEnvelope uni body =
     (case parse_xml uni body of
        Some (XElem root ks) \<Rightarrow>
          if root \<noteq> ''Envelope'' then None
          else fields (\<lambda>n cs v.
            if n = ''Header'' then map_option (\<lambda>i. v\<lparr>env_ID := i\<rparr>) (dec_Header cs (env_ID v))
            else if n = ''Body'' then map_option (\<lambda>b. v\<lparr>env_Body := b\<rparr>) (dec_Body cs (env_Body v))
            else Some v) ks \<lparr>env_ID = '''', env_Body = empty_body\<rparr>
      | _ \<Rightarrow> None)"

subsection \<open>Escaped text reads back\<close>

lemma entity_escapes:
  "entity uni (''#34;'' @ r) = Some ([CHR 0x22], r)" "entity uni (''#39;'' @ r) = Some ([CHR 0x27], r)"
  "entity uni (''#x9;'' @ r) = Some ([CHR 0x09], r)" "entity uni (''#xA;'' @ r) = Some ([CHR 0x0A], r)"
  "entity uni (''#xD;'' @ r) = Some ([CHR 0x0D], r)"
  "entity uni (''amp;'' @ r) = Some (''&'', r)" "entity uni (''lt;'' @ r) = Some (''<'', r)" "entity uni (''gt;'' @ r) = Some (''>'', r)"
proof -
  have enc: "encode_rune 34 = [CHR 0x22]" "encode_rune 39 = [CHR 0x27]" "encode_rune 9 = [CHR 0x09]" "encode_rune 10 = [CHR 0x0A]"
    "encode_rune 13 = [CHR 0x0D]" by code_simp+
  show "entity uni (''#34;'' @ r) = Some ([CHR 0x22], r)" "entity uni (''#39;'' @ r) = Some ([CHR 0x27], r)"
    "entity uni (''#x9;'' @ r) = Some ([CHR 0x09], r)" "entity uni (''#xA;'' @ r) = Some ([CHR 0x0A], r)"
    "entity uni (''#xD;'' @ r) = Some ([CHR 0x0D], r)"
    by (simp_all add: entity_def char_ref_def digit_val_def between_def digits_value_def enc)
  have nm: "readName (''amp;'' @ r) = Some (''amp'', CHR '';'' # r)" "readName (''lt;'' @ r) = Some (''lt'', CHR '';'' # r)"
    "readName (''gt;'' @ r) = Some (''gt'', CHR '';'' # r)"
    by (simp_all add: readName_def Let_def name_byte_def isNameByte_def between_def)
  have ok: "isName uni ''amp''" "isName uni ''lt''" "isName uni ''gt''" by (simp_all add: isName_def runes_ascii name_first_def)
  show "entity uni (''amp;'' @ r) = Some (''&'', r)" "entity uni (''lt;'' @ r) = Some (''<'', r)" "entity uni (''gt;'' @ r) = Some (''>'', r)"
    using nm ok by (simp_all add: entity_def entity_of_def)
qed

lemma escape_char_special:
  "escape_char (CHR 0x22) = ''&#34;''" "escape_char (CHR 0x27) = ''&#39;''" "escape_char (CHR ''&'') = ''&amp;''" "escape_char (CHR ''<'') = ''&lt;''"
  "escape_char (CHR ''>'') = ''&gt;''" "escape_char (CHR 0x09) = ''&#x9;''" "escape_char (CHR 0x0A) = ''&#xA;''" "escape_char (CHR 0x0D) = ''&#xD;''"
  by (simp_all add: escape_char_def escape_rune_def)

lemma escape_char_cases:
  assumes "text_byte c"
  obtains "c = CHR 0x22" | "c = CHR 0x27" | "c = CHR ''&''" | "c = CHR ''<''" | "c = CHR ''>''" | "c = CHR 0x09" | "c = CHR 0x0A" | "c = CHR 0x0D"
    | "escape_char c = [c]" "c \<noteq> CHR 0x0D" "c \<noteq> CHR ''&''" "c \<noteq> CHR ''<''" "c \<noteq> CHR ''>''" "c \<noteq> CHR 0x22"
proof (cases "c \<in> {CHR 0x22, CHR 0x27, CHR ''&'', CHR ''<'', CHR ''>'', CHR 0x09, CHR 0x0A, CHR 0x0D}")
  case False
  have "code c \<noteq> code k" if "c \<noteq> k" for k :: char using that by (simp add: of_char_eq_iff)
  with False have "code c \<noteq> code (CHR 0x22)" "code c \<noteq> code (CHR 0x27)" "code c \<noteq> code (CHR ''&'')" "code c \<noteq> code (CHR ''<'')"
    "code c \<noteq> code (CHR ''>'')" "code c \<noteq> code (CHR 0x09)" "code c \<noteq> code (CHR 0x0A)" "code c \<noteq> code (CHR 0x0D)" by blast+
  moreover have "32 \<le> code c" using assms False by (auto simp: text_byte_def)
  ultimately have "escape_char c = [c]" by (auto simp: escape_char_def escape_rune_def isInCharacterRange_def)
  with False that(9) show thesis by blast
qed (use that in blast)

lemma text_loop_escape:
  assumes "text_byte c" "p1 \<noteq> CHR 0x0D" "quote = None \<or> quote = Some (CHR 0x22)"
  shows "\<exists>q0 q1. q1 \<noteq> CHR 0x0D \<and> (\<forall>r. text_loop uni quote False p0 p1 acc (escape_char c @ r) = text_loop uni quote False q0 q1 (acc @ [c]) r)"
proof -
  have amp: "text_loop uni quote False p0 p1 acc (CHR ''&'' # z) =
      (case entity uni z of None \<Rightarrow> None | Some (t, r1) \<Rightarrow> text_loop uni quote False (CHR 0x00) (CHR 0x00) (acc @ t) r1)" for z
    using assms(3) by (subst text_loop.simps) auto
  have ent: ?thesis if "escape_char c = CHR ''&'' # e" "\<And>r. entity uni (e @ r) = Some ([c], r)" for e
    by (rule exI [of _ "CHR 0x00"], rule exI [of _ "CHR 0x00"]) (simp add: that amp)
  have self: ?thesis if "escape_char c = [c]" "c \<noteq> CHR 0x0D" "c \<noteq> CHR ''&''" "c \<noteq> CHR ''<''" "c \<noteq> CHR ''>''" "c \<noteq> CHR 0x22"
    by (rule exI [of _ p1], rule exI [of _ c]) (use that assms in \<open>auto simp: text_loop.simps [of uni quote False p0 p1 acc]\<close>)
  consider "c = CHR 0x22" | "c = CHR 0x27" | "c = CHR ''&''" | "c = CHR ''<''" | "c = CHR ''>''" | "c = CHR 0x09" | "c = CHR 0x0A" | "c = CHR 0x0D"
    | "escape_char c = [c]" "c \<noteq> CHR 0x0D" "c \<noteq> CHR ''&''" "c \<noteq> CHR ''<''" "c \<noteq> CHR ''>''" "c \<noteq> CHR 0x22"
    by (rule escape_char_cases [OF assms(1)])
  then show ?thesis
  proof cases
    case 1 show ?thesis by (rule ent [of "''#34;''"]) (use 1 entity_escapes in \<open>simp_all add: escape_char_special\<close>)
  next
    case 2 show ?thesis by (rule ent [of "''#39;''"]) (use 2 entity_escapes in \<open>simp_all add: escape_char_special\<close>)
  next
    case 3 show ?thesis by (rule ent [of "''amp;''"]) (use 3 entity_escapes in \<open>simp_all add: escape_char_special\<close>)
  next
    case 4 show ?thesis by (rule ent [of "''lt;''"]) (use 4 entity_escapes in \<open>simp_all add: escape_char_special\<close>)
  next
    case 5 show ?thesis by (rule ent [of "''gt;''"]) (use 5 entity_escapes in \<open>simp_all add: escape_char_special\<close>)
  next
    case 6 show ?thesis by (rule ent [of "''#x9;''"]) (use 6 entity_escapes in \<open>simp_all add: escape_char_special\<close>)
  next
    case 7 show ?thesis by (rule ent [of "''#xA;''"]) (use 7 entity_escapes in \<open>simp_all add: escape_char_special\<close>)
  next
    case 8 show ?thesis by (rule ent [of "''#xD;''"]) (use 8 entity_escapes in \<open>simp_all add: escape_char_special\<close>)
  next
    case 9 then show ?thesis by (rule self)
  qed
qed

lemma text_loop_escaped:
  assumes "list_all text_byte s" "p1 \<noteq> CHR 0x0D" "quote = None \<or> quote = Some (CHR 0x22)"
  shows "\<exists>q0 q1. q1 \<noteq> CHR 0x0D \<and> (\<forall>r. text_loop uni quote False p0 p1 acc (concat (map escape_char s) @ r) = text_loop uni quote False q0 q1 (acc @ s) r)"
  using assms
proof (induction s arbitrary: p0 p1 acc)
  case Nil
  then show ?case by auto
next
  case (Cons c s)
  obtain q0 q1 where 1: "q1 \<noteq> CHR 0x0D" "\<And>r. text_loop uni quote False p0 p1 acc (escape_char c @ r) = text_loop uni quote False q0 q1 (acc @ [c]) r"
    using text_loop_escape [of c p1 quote uni p0 acc] Cons.prems by auto
  obtain u0 u1 where 2: "u1 \<noteq> CHR 0x0D" "\<And>r. text_loop uni quote False q0 q1 (acc @ [c]) (concat (map escape_char s) @ r) = text_loop uni quote False u0 u1 (acc @ [c] @ s) r"
    using Cons.IH [OF _ 1(1) Cons.prems(3), of q0 "acc @ [c]"] Cons.prems(1) by auto
  show ?case by (rule exI [of _ u0], rule exI [of _ u1]) (use 1 2 in simp)
qed

lemma reads_escape: "legal_text s \<Longrightarrow> reads (EscapeText s) s"
proof -
  assume l: "legal_text s"
  have "escape_char c \<noteq> []" for c by (simp add: escape_char_def escape_rune_def)
  then have "concat (map escape_char s) = [] \<Longrightarrow> s = []" by (cases s) auto
  with l text_loop_escaped [OF legal_text_bytes [OF l]] EscapeText_no_lt [of s] show ?thesis by (simp add: reads_def EscapeText_legal)
qed

subsection \<open>Envelopes read back\<close>

definition envelope_attrs :: "(string \<times> string) list" where
  "envelope_attrs = [(''xmlns:soapenv'', ''http://schemas.xmlsoap.org/soap/envelope/''),
     (''xmlns:soap'', ''http://schemas.xmlsoap.org/soap/encoding/''), (''xmlns:xsd'', ''http://www.w3.org/2001/XMLSchema''),
     (''xmlns:xsi'', ''http://www.w3.org/2001/XMLSchema-instance''), (''xmlns:cwmp'', ''urn:dslforum-org:cwmp-1-2'')]"

definition envelope_frag :: "string \<Rightarrow> frag list \<Rightarrow> frag" where
  "envelope_frag mid inner = Tag ''soapenv:Envelope'' envelope_attrs
     [Txt [CHR 0x0A] [CHR 0x0A],
      Tag ''soapenv:Header'' [] [Tag ''cwmp:ID'' [(''soapenv:mustUnderstand'', ''1'')] [Txt mid mid]],
      Txt [CHR 0x0A] [CHR 0x0A], Tag ''soapenv:Body'' [] inner]"

definition xml_decl :: string where
  "xml_decl = ''version='' @ dquote ''1.0'' @ '' encoding='' @ dquote ''UTF-8''"

lemma envelope_printed:
  "soapOpen mid @ concat (map print_frag inner) @ soapClose = ''<?xml '' @ xml_decl @ ''?>'' @ CHR 0x0A # print_frag (envelope_frag mid inner)"
  by (simp add: soapOpen_def soapClose_def xml_decl_def envelope_frag_def envelope_attrs_def dquote_def print_attr_def)

lemma plain_attr: "tag_name n \<Longrightarrow> plain v \<Longrightarrow> attr_ok (n, v)"
  by (auto simp: attr_ok_def intro: reads_plain)

lemma tag_names:
  "tag_name ''soapenv:Envelope''" "tag_name ''soapenv:Header''" "tag_name ''cwmp:ID''" "tag_name ''soapenv:Body''"
  "tag_name ''soapenv:mustUnderstand''" "tag_name ''xmlns:soapenv''" "tag_name ''xmlns:soap''" "tag_name ''xmlns:xsd''"
  "tag_name ''xmlns:xsi''" "tag_name ''xmlns:cwmp''" "tag_name ''xsi:type''" "tag_name ''soap:arrayType''"
  by (simp_all add: tag_name_def isNameByte_def between_def)

lemma local_names:
  "local_name ''soapenv:Envelope'' = ''Envelope''" "local_name ''soapenv:Header'' = ''Header''" "local_name ''cwmp:ID'' = ''ID''"
  "local_name ''soapenv:Body'' = ''Body''"
  by (simp_all add: local_name_def split_name_def Cut_def)

lemma envelope_attrs_ok: "list_all attr_ok envelope_attrs"
  by (simp add: envelope_attrs_def plain_attr tag_names plain_char_def between_def)

lemma envelope_frag_ok:
  assumes "plain mid" "list_all frag_ok inner" "apart inner"
  shows "frag_ok (envelope_frag mid inner)"
proof -
  have "reads [CHR 0x0A] [CHR 0x0A]" by (rule reads_plain) (simp add: plain_char_def)
  moreover have "attr_ok (''soapenv:mustUnderstand'', ''1'')" by (intro plain_attr tag_names) (simp add: plain_char_def between_def)
  ultimately show ?thesis
    using assms reads_plain [OF assms(1)] by (simp add: envelope_frag_def tag_names envelope_attrs_ok)
qed

lemma xml_decl_read:
  "xml_decl_ok xml_decl"
  "cut_at ''?>'' (xml_decl @ ''?>'' @ z) = Some (xml_decl, z)"
  "xml_space (CHR '' '' # xml_decl @ z) = xml_decl @ z"
proof -
  have v: "procInst ''version'' xml_decl = ''1.0''" "procInst ''encoding'' xml_decl = ''UTF-8''"
    by (simp_all add: xml_decl_def dquote_def procInst.simps Cut_def)
  have "EqualFold ''UTF-8'' ''utf-8''" by code_simp
  then show "xml_decl_ok xml_decl" by (simp add: xml_decl_ok_def v)
  show "cut_at ''?>'' (xml_decl @ ''?>'' @ z) = Some (xml_decl, z)" by (simp add: xml_decl_def dquote_def)
  show "xml_space (CHR '' '' # xml_decl @ z) = xml_decl @ z" by (simp add: xml_decl_def xml_space_def)
qed

lemma parse_envelope:
  assumes "plain mid" "list_all frag_ok inner" "apart inner"
  shows "parse_xml uni (soapOpen mid @ concat (map print_frag inner) @ soapClose) =
     Some (XElem ''Envelope'' [XText [CHR 0x0A], XElem ''Header'' [XElem ''ID'' (if mid = [] then [] else [XText mid])], XText [CHR 0x0A],
        XElem ''Body'' (concat (map frag_nodes inner))])"
proof -
  obtain z where z: "print_frag (envelope_frag mid inner) = CHR ''<'' # z" by (simp add: envelope_frag_def)
  have "parse_xml uni (''<?xml '' @ xml_decl @ ''?>'' @ CHR 0x0A # CHR ''<'' # z) = parse_xml uni (CHR ''<'' # z)"
    by (rule parse_declared [OF xml_decl_read])
  then have "parse_xml uni (soapOpen mid @ concat (map print_frag inner) @ soapClose) = parse_xml uni (print_frag (envelope_frag mid inner) @ [])"
    unfolding envelope_printed z append_Nil2 .
  also have "\<dots> = Some (XElem ''Envelope'' [XText [CHR 0x0A], XElem ''Header'' [XElem ''ID'' (if mid = [] then [] else [XText mid])], XText [CHR 0x0A],
        XElem ''Body'' (concat (map frag_nodes inner))])"
    unfolding envelope_frag_def parse_document [OF envelope_frag_ok [OF assms, unfolded envelope_frag_def]]
    by (simp add: local_names)
  finally show ?thesis .
qed

lemma decode_envelope:
  assumes "plain mid" "list_all frag_ok inner" "apart inner"
  shows "DecodeEnvelope uni (soapOpen mid @ concat (map print_frag inner) @ soapClose) =
     map_option (\<lambda>b. \<lparr>env_ID = mid, env_Body = b\<rparr>) (dec_Body (concat (map frag_nodes inner)) empty_body)"
  by (simp add: DecodeEnvelope_def parse_envelope [OF assms] dec_Header_def chardata_def split: option.split)

subsection \<open>Messages of the agent\<close>

definition text_frag :: "string \<Rightarrow> string \<Rightarrow> frag" where
  "text_frag n t = Tag n [] [Txt (EscapeText t) t]"

definition value_frag :: "ValueNode \<Rightarrow> frag" where
  "value_frag v = Tag ''Value'' (if vn_Type v = '''' then [] else [(''xsi:type'', EscapeText (vn_Type v))])
     [Txt (EscapeText (vn_Text v)) (vn_Text v)]"

definition pvs_frag :: "ParameterValueStruct \<Rightarrow> frag" where
  "pvs_frag pv = Tag ''ParameterValueStruct'' [] [text_frag ''Name'' (pv_Name pv), value_frag (pv_Value pv)]"

fun member_frags :: "acs_msg \<Rightarrow> frag list" where
  "member_frags (InformResponse n) = [text_frag ''MaxEnvelopes'' (show_int n)]"
| "member_frags (GetRPCMethodsResponse ms) = [Tag ''MethodList'' [] (map (text_frag ''string'') ms)]"
| "member_frags TransferCompleteResponse = []"
| "member_frags AutonomousTransferCompleteResponse = []"
| "member_frags (GetParameterValues ns) = [Tag ''ParameterNames'' [] (map (text_frag ''string'') ns)]"
| "member_frags (SetParameterValues ws k) = [Tag ''ParameterList'' [] (map pvs_frag ws), text_frag ''ParameterKey'' k]"
| "member_frags (GetParameterNames p nl) = [text_frag ''ParameterPath'' p, text_frag ''NextLevel'' (if nl then ''true'' else ''false'')]"
| "member_frags (Reboot k) = [text_frag ''CommandKey'' k]"

definition msg_frag :: "acs_msg \<Rightarrow> frag" where
  "msg_frag m = Tag (cwmpElement m) [] (member_frags m)"

lemma print_toks_simps [simp]:
  "print_toks [] = []" "print_toks (t # ts) = print_tok t @ print_toks ts" "print_toks (xs @ ys) = print_toks xs @ print_toks ys"
  by (simp_all add: print_toks_def)

lemma print_text_frag: "print_frag (text_frag n t) = print_toks (text_elem n t)"
  by (simp add: text_frag_def text_elem_def elem_def)

lemma print_pvs_frag: "print_frag (pvs_frag pv) = print_toks (pvs_elem pv)"
  by (simp add: pvs_frag_def pvs_elem_def elem_def value_frag_def value_elem_def print_text_frag print_attr_def)

lemma print_frag_maps:
  "concat (map print_frag (map (text_frag n) ts)) = print_toks (concat (map (text_elem n) ts))"
  "concat (map print_frag (map pvs_frag ws)) = print_toks (concat (map pvs_elem ws))"
  by (induction ts) (simp_all add: print_text_frag, induction ws, simp_all add: print_pvs_frag)

lemma print_msg_frag: "print_frag (msg_frag m) = print_toks (elem (cwmpElement m) (members m))"
  by (cases m) (simp_all add: msg_frag_def elem_def print_text_frag print_frag_maps [simplified])

end
