(* ===== verification/Wire.thy ===== *)
theory Wire
  imports Device Session SoapDecode
begin

text \<open>
  The two ends of the wire: what the emulated device reads of the agent's messages
  (the XML half of \<open>parseACSRequest\<close> in \<^verbatim>\<open>src/testsuite/device.go\<close>) and what the agent reads of
  the device's (\<open>DecodeEnvelope\<close> on the envelopes of \<^verbatim>\<open>src/testsuite/soap.go\<close>). Shown here: every
  task of the agent reaches the device as the request it is, whatever text its parameters
  carry, and every message of the device reaches the agent with the values the device put in.
\<close>

subsection \<open>The decoder of the device\<close>

definition dec_write :: "xnode list \<Rightarrow> (string \<times> string) option" where
  "dec_write ks = fields (\<lambda>n cs v. Some (if n = ''Name'' then (chardata cs, snd v) else if n = ''Value'' then (fst v, chardata cs) else v))
     ks ('''', '''')"

definition dec_acs_body :: "xnode list \<Rightarrow> acs_body \<Rightarrow> acs_body option" where
  "dec_acs_body = fields (\<lambda>n ks v.
     if n = ''GetParameterValues'' then
       map_option (\<lambda>x. v\<lparr>ab_GPV := Some x\<rparr>)
         (fields (\<lambda>m cs xs. if m = ''ParameterNames'' then nested ''string'' (\<lambda>c. Some (chardata c)) cs xs else Some xs) ks (alloc [] (ab_GPV v)))
     else if n = ''SetParameterValues'' then
       map_option (\<lambda>x. v\<lparr>ab_SPV := Some x\<rparr>)
         (fields (\<lambda>m cs xs. if m = ''ParameterList'' then nested ''ParameterValueStruct'' dec_write cs xs else Some xs) ks (alloc [] (ab_SPV v)))
     else if n = ''GetParameterNames'' then
       map_option (\<lambda>x. v\<lparr>ab_GPN := Some x\<rparr>)
         (fields (\<lambda>m cs p. Some (if m = ''ParameterPath'' then chardata cs else p)) ks (alloc '''' (ab_GPN v)))
     else if n = ''Reboot'' then Some (v\<lparr>ab_Reboot := True\<rparr>)
     else Some v)"

definition decode_acs :: "uni \<Rightarrow> string \<Rightarrow> acs_body option" where
  "decode_acs uni body =
     (case parse_xml uni body of
        Some (XElem root ks) \<Rightarrow>
          fields (\<lambda>n cs v. if n = ''Body'' then dec_acs_body cs v else Some v) ks \<lparr>ab_GPV = None, ab_SPV = None, ab_GPN = None, ab_Reboot = False\<rparr>
      | _ \<Rightarrow> None)"

subsection \<open>From the agent to the device\<close>

lemma local_name_plain: "CHR '':'' \<notin> set n \<Longrightarrow> local_name n = n"
proof -
  assume "CHR '':'' \<notin> set n"
  then have c: "count_list n (CHR '':'') = 0" and t: "takeWhile (\<lambda>c. c \<noteq> CHR '':'') n = n"
    by (auto simp: count_list_0_iff takeWhile_eq_all_conv)
  show ?thesis unfolding local_name_def split_name_def Cut_def Let_def t by (simp add: c)
qed

fun msg_legal :: "acs_msg \<Rightarrow> bool" where
  "msg_legal (GetParameterValues ns) = list_all legal_text ns"
| "msg_legal (SetParameterValues ws k) =
     (list_all (\<lambda>pv. legal_text (pv_Name pv) \<and> legal_text (vn_Text (pv_Value pv)) \<and> legal_text (vn_Type (pv_Value pv))) ws \<and> legal_text k)"
| "msg_legal (GetParameterNames p nl) = legal_text p"
| "msg_legal (Reboot k) = legal_text k"
| "msg_legal _ = True"

lemma member_tags:
  "tag_name ''Name''" "tag_name ''Value''" "tag_name ''ParameterValueStruct''" "tag_name ''ParameterList''" "tag_name ''ParameterKey''"
  "tag_name ''ParameterNames''" "tag_name ''string''" "tag_name ''ParameterPath''" "tag_name ''NextLevel''" "tag_name ''CommandKey''"
  "tag_name ''cwmp:GetParameterValues''" "tag_name ''cwmp:SetParameterValues''" "tag_name ''cwmp:GetParameterNames''" "tag_name ''cwmp:Reboot''"
  by (simp_all add: tag_name_def isNameByte_def between_def)

lemma cwmp_locals:
  "local_name ''cwmp:GetParameterValues'' = ''GetParameterValues''" "local_name ''cwmp:SetParameterValues'' = ''SetParameterValues''"
  "local_name ''cwmp:GetParameterNames'' = ''GetParameterNames''" "local_name ''cwmp:Reboot'' = ''Reboot''"
  by (simp_all add: local_name_def split_name_def Cut_def)

lemma apart_tags: "list_all (\<lambda>f. \<exists>n a k. f = Tag n a k) fs \<Longrightarrow> apart fs"
  by (induction fs rule: apart.induct) auto

lemma text_frag_ok: "tag_name n \<Longrightarrow> legal_text t \<Longrightarrow> frag_ok (text_frag n t)"
  by (simp add: text_frag_def reads_escape)

lemma text_frag_nodes:
  "CHR '':'' \<notin> set n \<Longrightarrow> legal_text t \<Longrightarrow> \<exists>ks. frag_nodes (text_frag n t) = [XElem n ks] \<and> chardata ks = t"
  using reads_escape [of t] by (auto simp: text_frag_def local_name_plain chardata_def reads_def)

lemma pvs_frag_ok:
  "legal_text (pv_Name pv) \<Longrightarrow> legal_text (vn_Text (pv_Value pv)) \<Longrightarrow> legal_text (vn_Type (pv_Value pv)) \<Longrightarrow> frag_ok (pvs_frag pv)"
  by (auto simp: pvs_frag_def value_frag_def member_tags tag_names text_frag_ok reads_escape attr_ok_def text_frag_def
      intro!: exI [of _ "vn_Type (pv_Value pv)"])

lemma pvs_frag_nodes:
  assumes "legal_text (pv_Name pv)" "legal_text (vn_Text (pv_Value pv))"
  shows "\<exists>ks. frag_nodes (pvs_frag pv) = [XElem ''ParameterValueStruct'' ks] \<and> dec_write ks = Some (pv_Name pv, vn_Text (pv_Value pv))"
proof -
  obtain ks where 1: "frag_nodes (text_frag ''Name'' (pv_Name pv)) = [XElem ''Name'' ks]" "chardata ks = pv_Name pv"
    using text_frag_nodes [of "''Name''" "pv_Name pv"] assms by auto
  obtain cs where 2: "frag_nodes (value_frag (pv_Value pv)) = [XElem ''Value'' cs]" "chardata cs = vn_Text (pv_Value pv)"
    using reads_escape [OF assms(2)] by (auto simp: value_frag_def local_name_plain chardata_def reads_def)
  show ?thesis by (simp add: pvs_frag_def 1 2 local_name_plain dec_write_def)
qed

lemma nested_text:
  "list_all legal_text ts \<Longrightarrow>
     nested ''string'' (\<lambda>c. Some (chardata c)) (concat (map frag_nodes (map (text_frag ''string'') ts))) xs = Some (xs @ ts)"
proof (induction ts arbitrary: xs)
  case (Cons t ts)
  obtain ks where "frag_nodes (text_frag ''string'' t) = [XElem ''string'' ks]" "chardata ks = t"
    using text_frag_nodes [of "''string''" t] Cons.prems by auto
  with Cons.IH [of "xs @ [t]"] Cons.prems show ?case by (simp add: nested_def)
qed (simp add: nested_def)

lemma nested_writes:
  "list_all (\<lambda>pv. legal_text (pv_Name pv) \<and> legal_text (vn_Text (pv_Value pv))) ws \<Longrightarrow>
     nested ''ParameterValueStruct'' dec_write (concat (map frag_nodes (map pvs_frag ws))) xs
       = Some (xs @ map (\<lambda>pv. (pv_Name pv, vn_Text (pv_Value pv))) ws)"
proof (induction ws arbitrary: xs)
  case (Cons w ws)
  obtain ks where "frag_nodes (pvs_frag w) = [XElem ''ParameterValueStruct'' ks]" "dec_write ks = Some (pv_Name w, vn_Text (pv_Value w))"
    using pvs_frag_nodes [of w] Cons.prems by auto
  with Cons.IH [of "xs @ [(pv_Name w, vn_Text (pv_Value w))]"] Cons.prems show ?case by (simp add: nested_def)
qed (simp add: nested_def)

lemma msg_frag_ok: "is_task m \<Longrightarrow> msg_legal m \<Longrightarrow> frag_ok (msg_frag m)"
proof (cases m)
  case (SetParameterValues ws k)
  assume "msg_legal m"
  then show ?thesis
    by (auto simp: msg_frag_def SetParameterValues member_tags text_frag_ok list_all_iff pvs_frag_ok
        intro!: apart_tags) (auto simp: text_frag_def pvs_frag_def)
next
  case (GetParameterValues ns)
  assume "msg_legal m"
  then show ?thesis
    by (auto simp: msg_frag_def GetParameterValues member_tags text_frag_ok list_all_iff intro!: apart_tags)
      (auto simp: text_frag_def)
next
  case (GetParameterNames p nl)
  assume "msg_legal m"
  moreover have "legal_text (if nl then ''true'' else ''false'')" by (rule plain_legal) (simp add: plain_char_def between_def)
  ultimately show ?thesis by (simp add: msg_frag_def GetParameterNames member_tags text_frag_ok) (simp add: text_frag_def)
qed (auto simp: msg_frag_def member_tags text_frag_def reads_escape)

lemma dec_msg:
  assumes "is_task m" "msg_legal m"
  shows "dec_acs_body (frag_nodes (msg_frag m)) \<lparr>ab_GPV = None, ab_SPV = None, ab_GPN = None, ab_Reboot = False\<rparr> = Some (task_body m)"
proof (cases m)
  case (GetParameterValues ns)
  then show ?thesis using nested_text [of ns "[]"] assms(2)
    by (simp add: msg_frag_def cwmp_locals dec_acs_body_def local_name_plain alloc_def)
next
  case (SetParameterValues ws k)
  obtain ks where k: "frag_nodes (text_frag ''ParameterKey'' k) = [XElem ''ParameterKey'' ks]"
    using text_frag_nodes [of "''ParameterKey''" k] assms(2) SetParameterValues by auto
  have "nested ''ParameterValueStruct'' dec_write (concat (map frag_nodes (map pvs_frag ws))) [] = Some (map (\<lambda>pv. (pv_Name pv, vn_Text (pv_Value pv))) ws)"
    using nested_writes [of ws "[]"] assms(2) SetParameterValues by (simp add: list_all_iff)
  then show ?thesis
    by (simp add: msg_frag_def SetParameterValues cwmp_locals dec_acs_body_def local_name_plain alloc_def k)
next
  case (GetParameterNames p nl)
  obtain ks where "frag_nodes (text_frag ''ParameterPath'' p) = [XElem ''ParameterPath'' ks]" "chardata ks = p"
    using text_frag_nodes [of "''ParameterPath''" p] assms(2) GetParameterNames by auto
  moreover obtain cs where "frag_nodes (text_frag ''NextLevel'' (if nl then ''true'' else ''false'')) = [XElem ''NextLevel'' cs]"
    by (simp add: text_frag_def local_name_plain)
  ultimately show ?thesis by (simp add: msg_frag_def GetParameterNames cwmp_locals dec_acs_body_def alloc_def)
qed (use assms in \<open>simp_all add: msg_frag_def cwmp_locals dec_acs_body_def\<close>)

lemma agent_msg_decoded:
  assumes "is_task m" "msg_legal m" "plain mid"
  shows "decode_acs uni (the (EncodeResponse mid m)) = Some (task_body m)"
proof -
  have "the (EncodeResponse mid m) = soapOpen mid @ concat (map print_frag [msg_frag m]) @ soapClose"
    by (simp add: EncodeResponse_exact print_msg_frag)
  moreover have "apart [msg_frag m]" by (simp add: msg_frag_def)
  ultimately show ?thesis
    using parse_envelope [OF assms(3), of "[msg_frag m]" uni] msg_frag_ok [OF assms(1,2)] dec_msg [OF assms(1,2)]
    by (simp add: decode_acs_def)
qed

definition task_legal :: "Task \<Rightarrow> bool" where
  "task_legal t \<longleftrightarrow> list_all legal_text (t_Paths t) \<and> legal_text (t_CmdKey t)
     \<and> list_all (\<lambda>pv. legal_text (pv_Name pv) \<and> legal_text (vn_Text (pv_Value pv)) \<and> legal_text (vn_Type (pv_Value pv))) (t_Writes t)"

text \<open>C16. A task crosses the wire unchanged: whatever legal text its paths and values carry
  (markup, quotes, line breaks, any language), the device decodes the message the agent encodes
  for it to a request of that kind with exactly the paths or writes of the task, in order.\<close>

theorem task_crosses_wire:
  assumes "task_legal t" "plain mid"
  shows "\<exists>b. EncodeResponse mid (request_of t) = Some b
     \<and> parseACSRequest (decode_acs uni) b =
         (case t_Type t of
            TaskGPV \<Rightarrow> no_request\<lparr>aq_kind := ''gpv'', aq_paths := t_Paths t\<rparr>
          | TaskSPV \<Rightarrow> no_request\<lparr>aq_kind := ''spv'', aq_writes := map (\<lambda>pv. (pv_Name pv, vn_Text (pv_Value pv))) (t_Writes t)\<rparr>
          | TaskGPN \<Rightarrow> no_request\<lparr>aq_kind := ''gpn'', aq_paths := [case t_Paths t of [] \<Rightarrow> ''Device.'' | p # _ \<Rightarrow> p]\<rparr>
          | TaskReboot \<Rightarrow> no_request\<lparr>aq_kind := ''reboot''\<rparr>)"
proof -
  have "legal_text ''Device.''" by (rule plain_legal) (simp add: plain_char_def between_def)
  with assms(1) have "msg_legal (request_of t)" "is_task (request_of t)"
    by (auto simp: task_legal_def request_of_def split: TaskType.split list.split)
  from agent_msg_decoded [OF this(2,1) assms(2), of uni] show ?thesis
    by (auto simp: EncodeResponse_def cwmpElement_ok(2) Let_def parseACSRequest_def request_of_def split: TaskType.split)
qed

subsection \<open>From the device to the agent\<close>

lemma show_nat_digits: "list_all (\<lambda>c. plain_char c \<and> \<not> is_space c) (show_nat n)"
proof -
  have "between 48 57 c \<Longrightarrow> plain_char c \<and> \<not> is_space c" for c by (auto simp: between_def plain_char_def is_space_def)
  then show ?thesis using show_nat_value [of n] by (auto simp: list_all_iff)
qed

lemma plain_show_nat: "plain (show_nat n)"
  using show_nat_digits [of n] by (simp add: list_all_iff)

lemma TrimSpace_none: "list_all (\<lambda>c. \<not> is_space c) s \<Longrightarrow> TrimSpace s = s"
proof -
  have d: "list_all (\<lambda>c. \<not> is_space c) t \<Longrightarrow> dropWhile is_space t = t" for t by (cases t) auto
  assume "list_all (\<lambda>c. \<not> is_space c) s"
  then show ?thesis using d [of s] d [of "rev s"] by (simp add: TrimSpace_def list_all_iff)
qed

lemma copy_int_show: "n < 2 ^ 63 \<Longrightarrow> copy_int [XText (show_nat n)] = Some (int n)"
proof -
  assume "n < 2 ^ 63"
  then have "int n < 2 ^ 63" by (metis of_nat_less_iff of_nat_numeral of_nat_power)
  moreover have "- (2 ^ 63) \<le> int n" by (rule order_trans [of _ 0]) simp_all
  ultimately have "ParseInt (show_nat n) = Some (int n)" using ParseInt_show_int [of "int n"] by (simp add: show_int_def)
  then show ?thesis using show_nat_digits [of n] show_nat_nonempty [of n] TrimSpace_none [of "show_nat n"]
    by (simp add: copy_int_def chardata_def Let_def list_all_iff)
qed

text \<open>Pieces of the device's envelopes; \<open>raw\<close> is how a value is written.\<close>

definition plain_frag :: "string \<Rightarrow> string \<Rightarrow> frag" where
  "plain_frag n t = Tag n [] [Txt t t]"

definition struct_frag :: "string \<Rightarrow> string \<Rightarrow> string \<Rightarrow> string \<Rightarrow> frag" where
  "struct_frag p ty raw v = Tag ''ParameterValueStruct'' [] [plain_frag ''Name'' p, Tag ''Value'' [(''xsi:type'', ty)] [Txt raw v]]"

definition list_frag :: "string \<Rightarrow> nat \<Rightarrow> frag list \<Rightarrow> frag" where
  "list_frag el n fs = Tag ''ParameterList'' [(''soap:arrayType'', ''cwmp:'' @ el @ ''['' @ show_nat n @ '']'')] fs"

lemma print_struct_frag: "print_frag (struct_frag p ty raw v) = value_struct p ty raw"
  by (simp add: struct_frag_def plain_frag_def value_struct_def print_attr_def dquote_def)

lemma print_list_frag: "print_frag (list_frag el n fs) = param_list el n (concat (map print_frag fs))"
  by (simp add: list_frag_def param_list_def print_attr_def dquote_def)

lemma wrap_frag: "wrap mid (print_frag f) = soapOpen mid @ concat (map print_frag [f]) @ soapClose"
  by (simp add: wrap_def)

lemma plain_frag_ok: "tag_name n \<Longrightarrow> plain t \<Longrightarrow> frag_ok (plain_frag n t)"
  by (simp add: plain_frag_def reads_plain)

lemma plain_frag_nodes: "CHR '':'' \<notin> set n \<Longrightarrow> frag_nodes (plain_frag n t) = [XElem n (if t = [] then [] else [XText t])]"
  by (simp add: plain_frag_def local_name_plain)

lemma chardata_text [simp]: "chardata (if t = [] then [] else [XText t]) = t" "chardata [] = []" "chardata [XText t] = t"
  by (simp_all add: chardata_def)

lemma struct_frag_ok: "plain p \<Longrightarrow> plain ty \<Longrightarrow> reads raw v \<Longrightarrow> frag_ok (struct_frag p ty raw v)"
  by (simp add: struct_frag_def member_tags plain_frag_ok plain_attr tag_names)

lemma list_frag_ok:
  assumes "plain el" "list_all frag_ok fs" "list_all (\<lambda>f. \<exists>n a k. f = Tag n a k) fs"
  shows "frag_ok (list_frag el n fs)"
  using assms plain_show_nat [of n]
  by (auto simp: list_frag_def member_tags tag_names apart_tags plain_char_def between_def intro!: plain_attr)

lemma struct_frag_nodes:
  assumes "reads raw v"
  shows "\<exists>ks. frag_nodes (struct_frag p ty raw v) = [XElem ''ParameterValueStruct'' ks]
     \<and> dec_ParameterValueStruct ks = Some \<lparr>pv_Name = p, pv_Value = \<lparr>vn_Type = '''', vn_Text = v\<rparr>\<rparr>"
  using assms by (auto simp: struct_frag_def plain_frag_nodes local_name_plain dec_ParameterValueStruct_def reads_def)

definition decoded_values :: "(string \<times> string) list \<Rightarrow> ParameterValueStruct list" where
  "decoded_values pairs = map (\<lambda>(p, v). \<lparr>pv_Name = p, pv_Value = \<lparr>vn_Type = '''', vn_Text = v\<rparr>\<rparr>) pairs"

lemma nested_structs:
  "\<forall>(p, v)\<in>set pairs. reads (raw v) v \<Longrightarrow>
     nested ''ParameterValueStruct'' dec_ParameterValueStruct
       (concat (map frag_nodes (map (\<lambda>(p, v). struct_frag p (ty p) (raw v) v) pairs))) xs = Some (xs @ decoded_values pairs)"
proof (induction pairs arbitrary: xs)
  case (Cons pv pairs)
  obtain p v where pv: "pv = (p, v)" by (cases pv)
  obtain ks where "frag_nodes (struct_frag p (ty p) (raw v) v) = [XElem ''ParameterValueStruct'' ks]"
    "dec_ParameterValueStruct ks = Some \<lparr>pv_Name = p, pv_Value = \<lparr>vn_Type = '''', vn_Text = v\<rparr>\<rparr>"
    using struct_frag_nodes [of "raw v" v p "ty p"] Cons.prems pv by auto
  with Cons.IH [of "xs @ [\<lparr>pv_Name = p, pv_Value = \<lparr>vn_Type = '''', vn_Text = v\<rparr>\<rparr>]"] Cons.prems pv
  show ?case by (simp add: nested_def decoded_values_def)
qed (simp add: nested_def decoded_values_def)

lemma wire_tags:
  "tag_name ''cwmp:GetParameterValuesResponse''" "tag_name ''cwmp:SetParameterValuesResponse''" "tag_name ''cwmp:GetParameterNamesResponse''"
  "tag_name ''cwmp:RebootResponse''" "tag_name ''cwmp:Inform''" "tag_name ''cwmp:GetRPCMethods''" "tag_name ''cwmp:TransferComplete''"
  "tag_name ''cwmp:AutonomousTransferComplete''" "tag_name ''Status''" "tag_name ''ParameterInfoStruct''" "tag_name ''Writable''"
  "tag_name ''DeviceID''" "tag_name ''Manufacturer''" "tag_name ''OUI''" "tag_name ''ProductClass''" "tag_name ''SerialNumber''"
  "tag_name ''Event''" "tag_name ''EventStruct''" "tag_name ''EventCode''" "tag_name ''MaxEnvelopes''" "tag_name ''CurrentTime''"
  "tag_name ''RetryCount''" "tag_name ''FaultStruct''" "tag_name ''FaultCode''" "tag_name ''FaultString''" "tag_name ''StartTime''"
  "tag_name ''CompleteTime''" "tag_name ''AnnounceURL''" "tag_name ''TransferURL''" "tag_name ''IsDownload''" "tag_name ''FileType''"
  "tag_name ''FileSize''" "tag_name ''TargetFileName''"
  by (simp_all add: tag_name_def isNameByte_def between_def)

lemma wire_locals:
  "local_name ''cwmp:GetParameterValuesResponse'' = ''GetParameterValuesResponse''" "local_name ''cwmp:SetParameterValuesResponse'' = ''SetParameterValuesResponse''"
  "local_name ''cwmp:GetParameterNamesResponse'' = ''GetParameterNamesResponse''" "local_name ''cwmp:RebootResponse'' = ''RebootResponse''"
  "local_name ''cwmp:Inform'' = ''Inform''" "local_name ''cwmp:GetRPCMethods'' = ''GetRPCMethods''"
  "local_name ''cwmp:TransferComplete'' = ''TransferComplete''" "local_name ''cwmp:AutonomousTransferComplete'' = ''AutonomousTransferComplete''"
  by (simp_all add: local_name_def split_name_def Cut_def)

text \<open>One message in an envelope.\<close>

lemma decode_wrapped:
  assumes "plain mid" "frag_ok (Tag n atts kids)" "dec_Body (frag_nodes (Tag n atts kids)) empty_body = Some b"
  shows "DecodeEnvelope uni (wrap mid (print_frag (Tag n atts kids))) = Some \<lparr>env_ID = mid, env_Body = b\<rparr>"
  using decode_envelope [OF assms(1), of "[Tag n atts kids]" uni] assms(2,3) by (simp only: wrap_frag) simp

lemma xsdType_plain: "plain (xsdType m p)"
  by (simp add: xsdType_def xsdFor_copy_def plain_char_def between_def split: option.split)

lemma print_structs:
  "concat (map (print_frag \<circ> (\<lambda>(p, v). struct_frag p (ty p) (raw v) v)) pairs) = concat (map (\<lambda>(p, v). value_struct p (ty p) (raw v)) pairs)"
  by (induction pairs) (auto simp: print_struct_frag)

lemma structs_ok:
  assumes "\<forall>(p, v)\<in>set pairs. plain p \<and> reads (raw v) v" "\<And>p. plain (ty p)"
  shows "list_all frag_ok (map (\<lambda>(p, v). struct_frag p (ty p) (raw v) v) pairs)"
  using assms(1) by (induction pairs) (auto intro!: struct_frag_ok assms(2))

lemma structs_tags: "list_all (\<lambda>f. \<exists>n a k. f = Tag n a k) (map (\<lambda>(p, v). struct_frag p (ty p) (raw v) v) pairs)"
  by (auto simp: list_all_iff struct_frag_def)

lemma gpv_decoded:
  assumes "plain mid" "\<forall>(p, v)\<in>set pairs. plain p \<and> legal_text v"
  shows "DecodeEnvelope uni (gpvResponseEnvelope mid pairs m) =
     Some \<lparr>env_ID = mid, env_Body = empty_body\<lparr>b_GetParameterValuesResponse := Some (decoded_values pairs)\<rparr>\<rparr>"
proof -
  let ?fs = "map (\<lambda>(p, v). struct_frag p (xsdType m p) (EscapeText v) v) pairs"
  let ?f = "Tag ''cwmp:GetParameterValuesResponse'' [] [list_frag ''ParameterValueStruct'' (length pairs) ?fs]"
  have e: "gpvResponseEnvelope mid pairs m = wrap mid (print_frag ?f)"
    unfolding gpvResponseEnvelope_def by (simp add: print_list_frag print_structs)
  have ok: "list_all frag_ok ?fs"
    using assms(2) by (intro structs_ok) (auto simp: reads_escape xsdType_plain)
  have "frag_ok (list_frag ''ParameterValueStruct'' (length pairs) ?fs)"
    by (rule list_frag_ok [OF _ ok structs_tags]) (simp add: plain_char_def between_def)
  then have "frag_ok ?f" by (simp add: wire_tags)
  moreover have "nested ''ParameterValueStruct'' dec_ParameterValueStruct (concat (map frag_nodes ?fs)) [] = Some (decoded_values pairs)"
    by (subst nested_structs) (use assms(2) in \<open>auto simp: reads_escape\<close>)
  then have "dec_Body (frag_nodes ?f) empty_body = Some (empty_body\<lparr>b_GetParameterValuesResponse := Some (decoded_values pairs)\<rparr>)"
    by (simp add: wire_locals list_frag_def local_name_plain dec_Body_def alloc_def empty_body_def)
  ultimately show ?thesis unfolding e using decode_wrapped [OF assms(1)] by blast
qed

lemma ParseInt_digits: "copy_int [XText ''0''] = Some 0" "copy_int [XText ''1''] = Some 1" "copy_bool [XText ''0''] = Some False" "copy_bool [XText ''1''] = Some True"
  by code_simp+

lemma spv_decoded:
  assumes "plain mid"
  shows "DecodeEnvelope uni (spvResponseEnvelope mid) = Some \<lparr>env_ID = mid, env_Body = empty_body\<lparr>b_SetParameterValuesResponse := Some 0\<rparr>\<rparr>"
proof -
  let ?f = "Tag ''cwmp:SetParameterValuesResponse'' [] [plain_frag ''Status'' ''0'']"
  have e: "spvResponseEnvelope mid = wrap mid (print_frag ?f)" by (simp add: spvResponseEnvelope_def plain_frag_def)
  have "frag_ok ?f" by (simp add: wire_tags plain_frag_ok plain_char_def between_def)
  moreover have "dec_Body (frag_nodes ?f) empty_body = Some (empty_body\<lparr>b_SetParameterValuesResponse := Some 0\<rparr>)"
    by (simp add: wire_locals plain_frag_nodes dec_Body_def alloc_def empty_body_def ParseInt_digits)
  ultimately show ?thesis unfolding e using decode_wrapped [OF assms] by blast
qed

lemma reboot_decoded:
  assumes "plain mid"
  shows "DecodeEnvelope uni (rebootResponseEnvelope mid) = Some \<lparr>env_ID = mid, env_Body = empty_body\<lparr>b_RebootResponse := Some ()\<rparr>\<rparr>"
    "DecodeEnvelope uni (getRPCMethodsEnvelope mid) = Some \<lparr>env_ID = mid, env_Body = empty_body\<lparr>b_GetRPCMethods := Some ()\<rparr>\<rparr>"
proof -
  have e: "rebootResponseEnvelope mid = wrap mid (print_frag (Tag ''cwmp:RebootResponse'' [] []))"
    "getRPCMethodsEnvelope mid = wrap mid (print_frag (Tag ''cwmp:GetRPCMethods'' [] []))"
    by (simp_all add: rebootResponseEnvelope_def getRPCMethodsEnvelope_def)
  show "DecodeEnvelope uni (rebootResponseEnvelope mid) = Some \<lparr>env_ID = mid, env_Body = empty_body\<lparr>b_RebootResponse := Some ()\<rparr>\<rparr>"
    unfolding e by (rule decode_wrapped [OF assms]) (simp_all add: wire_tags wire_locals dec_Body_def)
  show "DecodeEnvelope uni (getRPCMethodsEnvelope mid) = Some \<lparr>env_ID = mid, env_Body = empty_body\<lparr>b_GetRPCMethods := Some ()\<rparr>\<rparr>"
    unfolding e by (rule decode_wrapped [OF assms]) (simp_all add: wire_tags wire_locals dec_Body_def)
qed

lemma plain_consts:
  "plain ''ftp://192.168.8.100/''" "plain ''0''" "plain ''1''" "plain ''4 Vendor Log File''" "plain ''xsd:string''" "plain ''NybSys''"
  "plain ''2 PERIODIC''" "plain ''ParameterValueStruct''" "plain ''ParameterInfoStruct''" "plain ''cwmp:EventStruct[1]''"
  by (simp_all add: plain_char_def between_def)

lemmas const_frags = plain_consts [THEN plain_frag_ok [rotated]]
lemmas const_reads = plain_consts [THEN reads_plain]

definition transfer_frags :: "string \<Rightarrow> frag list" where
  "transfer_frags now = [Tag ''FaultStruct'' [] [plain_frag ''FaultCode'' ''0'', plain_frag ''FaultString'' ''''],
     plain_frag ''StartTime'' now, plain_frag ''CompleteTime'' now]"

lemma print_transfer_frags: "concat (map print_frag (transfer_frags now)) = transfer_tail now"
  by (simp add: transfer_frags_def transfer_tail_def plain_frag_def)

lemma transfer_frags_ok: "plain now \<Longrightarrow> list_all frag_ok (transfer_frags now)"
  by (simp add: transfer_frags_def plain_frag_ok wire_tags const_frags) (simp add: plain_frag_def)

lemma transfer_frags_nodes:
  "concat (map frag_nodes (transfer_frags now)) =
     [XElem ''FaultStruct'' [XElem ''FaultCode'' [XText ''0''], XElem ''FaultString'' []],
      XElem ''StartTime'' (if now = [] then [] else [XText now]), XElem ''CompleteTime'' (if now = [] then [] else [XText now])]"
  by (simp add: transfer_frags_def plain_frag_nodes local_name_plain)

lemma transferComplete_decoded:
  assumes "plain mid" "plain now"
  shows "DecodeEnvelope uni (transferCompleteEnvelope now mid) = Some \<lparr>env_ID = mid, env_Body = empty_body\<lparr>b_TransferComplete :=
     Some \<lparr>tc_CommandKey = '''', tc_FaultStruct = zero_FaultStruct, tc_StartTime = now, tc_CompleteTime = now\<rparr>\<rparr>\<rparr>"
proof -
  let ?f = "Tag ''cwmp:TransferComplete'' [] (plain_frag ''CommandKey'' '''' # transfer_frags now)"
  have e: "transferCompleteEnvelope now mid = wrap mid (print_frag ?f)"
    by (simp add: transferCompleteEnvelope_def print_transfer_frags plain_frag_def)
  have "apart (plain_frag ''CommandKey'' '''' # transfer_frags now)" by (rule apart_tags) (simp add: plain_frag_def transfer_frags_def)
  then have "frag_ok ?f" using assms(2) by (simp add: wire_tags member_tags plain_frag_ok transfer_frags_ok)
  moreover have "dec_Body (frag_nodes ?f) empty_body = Some (empty_body\<lparr>b_TransferComplete :=
     Some \<lparr>tc_CommandKey = '''', tc_FaultStruct = zero_FaultStruct, tc_StartTime = now, tc_CompleteTime = now\<rparr>\<rparr>)"
    by (simp add: wire_locals plain_frag_nodes transfer_frags_nodes dec_Body_def dec_TransferComplete_def dec_FaultStruct_def alloc_def empty_body_def
        zero_TransferComplete_def zero_FaultStruct_def ParseInt_digits)
  ultimately show ?thesis unfolding e using decode_wrapped [OF assms(1)] by blast
qed

definition announced :: "string \<Rightarrow> string \<Rightarrow> nat \<Rightarrow> AutonomousTransferComplete" where
  "announced now f sz = \<lparr>atc_AnnounceURL = '''', atc_TransferURL = ''ftp://192.168.8.100/'', atc_IsDownload = False,
     atc_FileType = ''4 Vendor Log File'', atc_FileSize = int sz, atc_TargetFileName = f, atc_FaultStruct = zero_FaultStruct,
     atc_StartTime = now, atc_CompleteTime = now\<rparr>"

lemma atc_decoded:
  assumes "plain mid" "plain now" "plain f" "sz < 2 ^ 63"
  shows "DecodeEnvelope uni (atcEnvelope now mid f sz) =
     Some \<lparr>env_ID = mid, env_Body = empty_body\<lparr>b_AutonomousTransferComplete := Some (announced now f sz)\<rparr>\<rparr>"
proof -
  let ?fs = "[plain_frag ''AnnounceURL'' '''', plain_frag ''TransferURL'' ''ftp://192.168.8.100/'', plain_frag ''IsDownload'' ''0'',
     plain_frag ''FileType'' ''4 Vendor Log File'', plain_frag ''FileSize'' (show_nat sz), plain_frag ''TargetFileName'' f] @ transfer_frags now"
  let ?f = "Tag ''cwmp:AutonomousTransferComplete'' [] ?fs"
  have e: "atcEnvelope now mid f sz = wrap mid (print_frag ?f)"
    by (simp add: atcEnvelope_def print_transfer_frags plain_frag_def)
  have "apart ?fs" by (rule apart_tags) (simp add: plain_frag_def transfer_frags_def)
  moreover have "list_all frag_ok ?fs"
    using assms(2,3) plain_show_nat [of sz] by (simp add: wire_tags plain_frag_ok const_frags transfer_frags_ok)
  ultimately have "frag_ok ?f" by (simp add: wire_tags)
  moreover have "frag_nodes ?f = [XElem ''AutonomousTransferComplete'' (
      [XElem ''AnnounceURL'' [], XElem ''TransferURL'' [XText ''ftp://192.168.8.100/''], XElem ''IsDownload'' [XText ''0''],
       XElem ''FileType'' [XText ''4 Vendor Log File''], XElem ''FileSize'' [XText (show_nat sz)],
       XElem ''TargetFileName'' (if f = [] then [] else [XText f])] @ concat (map frag_nodes (transfer_frags now)))]" (is "_ = ?n")
    using show_nat_nonempty [of sz] by (simp add: wire_locals plain_frag_nodes)
  moreover have "dec_Body ?n empty_body = Some (empty_body\<lparr>b_AutonomousTransferComplete := Some (announced now f sz)\<rparr>)"
    using assms(4) unfolding transfer_frags_nodes
    by (simp add: dec_Body_def dec_AutonomousTransferComplete_def dec_FaultStruct_def alloc_def empty_body_def copy_int_show
        zero_AutonomousTransferComplete_def zero_FaultStruct_def ParseInt_digits announced_def)
  ultimately show ?thesis unfolding e by (intro decode_wrapped [OF assms(1)]) (assumption, simp only:)
qed

text \<open>The names walk: what the device lists under a prefix, in the order of its map.\<close>

definition listed_names :: "(string list \<Rightarrow> string list) \<Rightarrow> device \<Rightarrow> string \<Rightarrow> string list" where
  "listed_names ord d pre = filter (\<lambda>p. pre = '''' \<or> HasPrefix p pre) (ord (map fst (dv_params d)))"

definition info_frag :: "string \<Rightarrow> frag" where
  "info_frag p = Tag ''ParameterInfoStruct'' [] [plain_frag ''Name'' p, plain_frag ''Writable'' (if gpn_writable p then ''1'' else ''0'')]"

lemma info_frags:
  "concat (map (print_frag \<circ> info_frag) ps) = concat (map (\<lambda>p. ''<ParameterInfoStruct><Name>'' @ p @ ''</Name><Writable>''
     @ (if gpn_writable p then ''1'' else ''0'') @ ''</Writable></ParameterInfoStruct>'') ps)"
  "list_all plain ps \<Longrightarrow> list_all frag_ok (map info_frag ps)"
  "list_all (\<lambda>f. \<exists>n a k. f = Tag n a k) (map info_frag ps)"
  by (induction ps)
    (simp_all add: info_frag_def plain_frag_ok wire_tags member_tags, simp_all add: plain_frag_def const_reads wire_tags)

lemma nested_infos:
  "nested ''ParameterInfoStruct'' dec_ParameterInfoStruct (concat (map (frag_nodes \<circ> info_frag) ps)) xs
     = Some (xs @ map (\<lambda>p. \<lparr>pi_Name = p, pi_Writable = gpn_writable p\<rparr>) ps)"
proof (induction ps arbitrary: xs)
  case (Cons p ps)
  obtain ks where "frag_nodes (info_frag p) = [XElem ''ParameterInfoStruct'' ks]"
    "dec_ParameterInfoStruct ks = Some \<lparr>pi_Name = p, pi_Writable = gpn_writable p\<rparr>"
    by (auto simp: info_frag_def plain_frag_nodes local_name_plain dec_ParameterInfoStruct_def ParseInt_digits)
  with Cons.IH [of "xs @ [\<lparr>pi_Name = p, pi_Writable = gpn_writable p\<rparr>]"] show ?case by (simp add: nested_def)
qed (simp add: nested_def)

lemma gpn_decoded:
  assumes "plain mid" "list_all plain (listed_names ord d pre)"
  shows "DecodeEnvelope uni (gpnResponseEnvelope ord mid d pre) = Some \<lparr>env_ID = mid, env_Body = empty_body\<lparr>b_GetParameterNamesResponse :=
     Some (map (\<lambda>p. \<lparr>pi_Name = p, pi_Writable = gpn_writable p\<rparr>) (listed_names ord d pre))\<rparr>\<rparr>"
proof -
  let ?fs = "map info_frag (listed_names ord d pre)"
  let ?f = "Tag ''cwmp:GetParameterNamesResponse'' [] [list_frag ''ParameterInfoStruct'' (length (listed_names ord d pre)) ?fs]"
  have n: "filter (\<lambda>p. \<not> (pre \<noteq> '''' \<and> \<not> HasPrefix p pre)) (ord (map fst (dv_params d))) = listed_names ord d pre"
    by (simp add: listed_names_def)
  have e: "gpnResponseEnvelope ord mid d pre = wrap mid (print_frag ?f)"
    unfolding gpnResponseEnvelope_def Let_def n by (simp add: print_list_frag info_frags(1))
  have "frag_ok (list_frag ''ParameterInfoStruct'' (length (listed_names ord d pre)) ?fs)"
    by (rule list_frag_ok [OF _ info_frags(2) [OF assms(2)] info_frags(3)]) (simp add: plain_char_def between_def)
  then have "frag_ok ?f" by (simp add: wire_tags)
  moreover have "dec_Body (frag_nodes ?f) empty_body = Some (empty_body\<lparr>b_GetParameterNamesResponse :=
     Some (map (\<lambda>p. \<lparr>pi_Name = p, pi_Writable = gpn_writable p\<rparr>) (listed_names ord d pre))\<rparr>)"
    by (simp add: wire_locals list_frag_def local_name_plain dec_Body_def alloc_def empty_body_def nested_infos)
  ultimately show ?thesis unfolding e using decode_wrapped [OF assms(1)] by blast
qed

text \<open>The announcement of the device.\<close>

definition informed :: "string \<Rightarrow> device \<Rightarrow> Inform" where
  "informed now d = \<lparr>inf_DeviceID = \<lparr>di_Manufacturer = ''NybSys'', di_OUI = dv_oui d, di_ProductClass = dv_productClass d, di_SerialNumber = dv_serial d\<rparr>,
     inf_Event = [\<lparr>es_EventCode = ''2 PERIODIC'', es_CommandKey = ''''\<rparr>], inf_MaxEnvelopes = 1, inf_CurrentTime = now,
     inf_RetryCount = 0, inf_ParameterList = decoded_values (dev_get d (informParams d))\<rparr>"

definition id_frag :: "device \<Rightarrow> frag" where
  "id_frag d = Tag ''DeviceID'' [] [plain_frag ''Manufacturer'' ''NybSys'', plain_frag ''OUI'' (dv_oui d),
     plain_frag ''ProductClass'' (dv_productClass d), plain_frag ''SerialNumber'' (dv_serial d)]"

definition event_frag :: frag where
  "event_frag = Tag ''Event'' [(''soap:arrayType'', ''cwmp:EventStruct[1]'')]
     [Tag ''EventStruct'' [] [plain_frag ''EventCode'' ''2 PERIODIC'', plain_frag ''CommandKey'' '''']]"

definition inform_frags :: "string \<Rightarrow> device \<Rightarrow> frag list" where
  "inform_frags now d = [id_frag d, event_frag, plain_frag ''MaxEnvelopes'' ''1'', plain_frag ''CurrentTime'' now, plain_frag ''RetryCount'' ''0'',
     list_frag ''ParameterValueStruct'' (length (dev_get d (informParams d)))
       (map (\<lambda>(p, v). struct_frag p ''xsd:string'' v v) (dev_get d (informParams d)))]"

definition device_plain :: "device \<Rightarrow> bool" where
  "device_plain d \<longleftrightarrow> plain (dv_oui d) \<and> plain (dv_productClass d) \<and> plain (dv_serial d)
     \<and> list_all (\<lambda>(p, v). plain p \<and> plain v) (dev_get d (informParams d))"

lemma informEnvelope_frags: "informEnvelope now mid d = wrap mid (print_frag (Tag ''cwmp:Inform'' [] (inform_frags now d)))"
  unfolding informEnvelope_def Let_def inform_frags_def
  by (simp add: print_list_frag print_structs [where ty = "\<lambda>_. ''xsd:string''" and raw = "\<lambda>v. v"] id_frag_def event_frag_def plain_frag_def
      print_attr_def dquote_def)

lemma id_frag_ok: "plain (dv_oui d) \<Longrightarrow> plain (dv_productClass d) \<Longrightarrow> plain (dv_serial d) \<Longrightarrow> frag_ok (id_frag d)"
  unfolding id_frag_def frag_ok.simps
  by (intro conjI apart_tags) (simp_all add: plain_frag_ok wire_tags const_frags, simp_all add: plain_frag_def)

lemma event_frag_ok: "frag_ok event_frag"
  unfolding event_frag_def frag_ok.simps using plain_attr [OF tag_names(12) plain_consts(10)]
  by (simp add: const_frags plain_frag_ok wire_tags member_tags) (simp add: plain_frag_def)

lemma inform_frags_ok:
  assumes "device_plain d" "plain now"
  shows "frag_ok (Tag ''cwmp:Inform'' [] (inform_frags now d))"
proof -
  have "list_all frag_ok (map (\<lambda>(p, v). struct_frag p ''xsd:string'' v v) (dev_get d (informParams d)))"
    using assms(1) by (intro structs_ok [where raw = "\<lambda>v. v"] plain_consts)
      (auto simp: device_plain_def list_all_iff [of "\<lambda>(p, v). plain p \<and> plain v"] reads_plain)
  then have "frag_ok (list_frag ''ParameterValueStruct'' (length (dev_get d (informParams d)))
      (map (\<lambda>(p, v). struct_frag p ''xsd:string'' v v) (dev_get d (informParams d))))"
    by (rule list_frag_ok [OF plain_consts(8) _ structs_tags])
  moreover have "frag_ok (id_frag d)" using assms(1) by (intro id_frag_ok) (simp_all add: device_plain_def)
  moreover have "apart (inform_frags now d)"
    by (rule apart_tags) (simp add: inform_frags_def id_frag_def event_frag_def plain_frag_def list_frag_def)
  ultimately show ?thesis using assms(2)
    by (simp add: inform_frags_def wire_tags plain_frag_ok const_frags event_frag_ok)
qed

lemma inform_decoded:
  assumes "plain mid" "plain now" "device_plain d"
  shows "DecodeEnvelope uni (informEnvelope now mid d) = Some \<lparr>env_ID = mid, env_Body = empty_body\<lparr>b_Inform := Some (informed now d)\<rparr>\<rparr>"
proof -
  have "nested ''ParameterValueStruct'' dec_ParameterValueStruct
      (concat (map frag_nodes (map (\<lambda>(p, v). struct_frag p ''xsd:string'' v v) (dev_get d (informParams d))))) []
      = Some ([] @ decoded_values (dev_get d (informParams d)))"
    by (rule nested_structs [where ty = "\<lambda>_. ''xsd:string''" and raw = "\<lambda>v. v"])
      (use assms(3) in \<open>auto simp: device_plain_def list_all_iff [of "\<lambda>(p, v). plain p \<and> plain v"] reads_plain\<close>)
  then have "dec_Body (frag_nodes (Tag ''cwmp:Inform'' [] (inform_frags now d))) empty_body = Some (empty_body\<lparr>b_Inform := Some (informed now d)\<rparr>)"
    by (simp add: inform_frags_def id_frag_def event_frag_def list_frag_def wire_locals local_name_plain plain_frag_nodes dec_Body_def dec_Inform_def
        dec_DeviceID_def nested_def dec_EventStruct_def alloc_def empty_body_def zero_Inform_def ParseInt_digits informed_def)
  then show ?thesis unfolding informEnvelope_frags by (rule decode_wrapped [OF assms(1) inform_frags_ok [OF assms(3,2)]])
qed

subsection \<open>Answers\<close>

text \<open>The reference: what the agent should learn from the device's answer to a task.\<close>

fun reply_body :: "('w, 'z) peer_scheme \<Rightarrow> acs_msg \<Rightarrow> device \<Rightarrow> Body" where
  "reply_body pr (GetParameterValues ns) d = empty_body\<lparr>b_GetParameterValuesResponse := Some (decoded_values (dev_get d ns))\<rparr>"
| "reply_body pr (SetParameterValues ws k) d = empty_body\<lparr>b_SetParameterValuesResponse := Some 0\<rparr>"
| "reply_body pr (GetParameterNames p nl) d = empty_body\<lparr>b_GetParameterNamesResponse :=
     Some (map (\<lambda>n. \<lparr>pi_Name = n, pi_Writable = gpn_writable n\<rparr>) (listed_names (pe_order pr) d p))\<rparr>"
| "reply_body pr _ d = empty_body\<lparr>b_RebootResponse := Some ()\<rparr>"

definition store_legal :: "device \<Rightarrow> bool" where
  "store_legal d \<longleftrightarrow> list_all (\<lambda>(p, v). plain p \<and> legal_text v) (dv_params d)"

lemma dev_get_legal:
  assumes "store_legal d"
  shows "\<forall>(p, v)\<in>set (dev_get d paths). plain p \<and> legal_text v"
proof -
  have "(p, v) \<in> set (dev_get d paths) \<Longrightarrow> (p, v) \<in> set (dv_params d)" for p v
    by (auto simp: dev_get_def List.map_filter_def dest: map_of_SomeD split: option.splits)
  then show ?thesis using assms by (fastforce simp: store_legal_def list_all_iff [of "\<lambda>(p, v). plain p \<and> legal_text v"])
qed

lemma listed_names_plain:
  assumes "store_legal d" "\<And>xs. set (pe_order pr xs) = set xs"
  shows "list_all plain (listed_names (pe_order pr) d p)"
  using assms by (auto simp: listed_names_def list_all_iff [of plain] store_legal_def list_all_iff [of "\<lambda>(p, v). plain p \<and> legal_text v"])

text \<open>C17. The agent understands every answer of the device: decoding the envelope the device
  posts for a task yields the device's message id and the answer of that kind, with the paths
  and values of the store in order (whatever legal text the values carry), the confirmed
  write, or the listed names with their writability.\<close>

theorem device_answers_understood:
  assumes "store_legal d" "plain mid" "is_task m" "\<And>xs. set (pe_order pr xs) = set xs"
  shows "DecodeEnvelope uni (task_reply pr mid m d) = Some \<lparr>env_ID = mid, env_Body = reply_body pr m d\<rparr>"
  using assms
  by (cases m) (simp_all add: gpv_decoded [OF _ dev_get_legal] spv_decoded gpn_decoded [OF _ listed_names_plain] reboot_decoded)

subsection \<open>Unescaped values\<close>

text \<open>A text after which nothing can be read any more, inside whatever is open.\<close>

definition breaks :: "uni \<Rightarrow> string \<Rightarrow> bool" where
  "breaks uni s \<longleftrightarrow> (\<forall>stk. stk \<noteq> [] \<longrightarrow> build uni stk (CHR ''<'' # s) = None)"

lemma breaks_double: "breaks uni (CHR ''<'' # r)"
proof -
  have "rawToken uni (CHR ''<'' # CHR ''<'' # r) = None"
    by (simp add: rawToken_def markup_def nsname_def xml_name_def readName_def Let_def name_byte_def isNameByte_def between_def isName_def runes_ascii)
  then show ?thesis by (simp add: breaks_def) (subst build.simps, simp)
qed

lemma breaks_inside:
  assumes "breaks uni s" "tag_name n" "list_all attr_ok atts" "list_all frag_ok fs" "apart fs"
  shows "build uni stk (''<'' @ n @ concat (map print_attr atts) @ ''>'' @ concat (map print_frag fs) @ CHR ''<'' # s) = None"
    and "breaks uni (n @ concat (map print_attr atts) @ ''>'' @ concat (map print_frag fs) @ CHR ''<'' # s)"
proof -
  let ?q = "the (split_name n)" and ?rest = "concat (map print_frag fs) @ CHR ''<'' # s"
  obtain as where "rawToken uni (''<'' @ n @ concat (map print_attr atts) @ ''>'' @ ?rest) = Some (StartElement ?q as False, ?rest)"
    using rawToken_open [OF assms(2,3)] by blast
  then have *: "build uni stk (''<'' @ n @ concat (map print_attr atts) @ ''>'' @ ?rest) = build uni ((?q, []) # stk) ?rest" for stk
    by (subst build.simps) simp
  have "list_all (tag_step uni) fs" using assms(4) by (auto simp: list_all_iff frag_ok_step)
  from build_frags [OF this assms(5), of "(?q, []) # _"] assms(1)
  have "build uni ((?q, []) # stk) ?rest = None" for stk by (simp add: breaks_def fold_add_node)
  with * show "build uni stk (''<'' @ n @ concat (map print_attr atts) @ ''>'' @ ?rest) = None"
    and "breaks uni (n @ concat (map print_attr atts) @ ''>'' @ ?rest)" by (simp_all add: breaks_def)
qed

text \<open>An Inform carries its values unescaped, unlike the answers: a value that ends in a left angle
  bracket, which a write of the cloud can put there, makes the announcement of the device
  unreadable for the agent, and the device stays unknown to it until the value is overwritten.\<close>

theorem inform_breaks_on_markup:
  assumes "plain mid" "plain now" "plain (dv_oui d)" "plain (dv_productClass d)" "plain (dv_serial d)"
    and pairs: "dev_get d (informParams d) = pre @ (p, u @ ''<'') # post"
    and pre: "list_all (\<lambda>(p, v). plain p \<and> plain v) pre" "plain p" "plain u"
  shows "DecodeEnvelope uni (informEnvelope now mid d) = None"
proof -
  let ?l = "length (dev_get d (informParams d))"
  let ?arr = "[(''soap:arrayType'', ''cwmp:ParameterValueStruct['' @ show_nat ?l @ '']'')]"
  let ?fs = "map (\<lambda>(p, v). struct_frag p ''xsd:string'' v v) pre"
  let ?front = "[id_frag d, event_frag, plain_frag ''MaxEnvelopes'' ''1'', plain_frag ''CurrentTime'' now, plain_frag ''RetryCount'' ''0'']"
  let ?envelope = "[Txt [CHR 0x0A] [CHR 0x0A], Tag ''soapenv:Header'' [] [Tag ''cwmp:ID'' [(''soapenv:mustUnderstand'', ''1'')] [Txt mid mid]], Txt [CHR 0x0A] [CHR 0x0A]]"
  obtain tail where e: "informEnvelope now mid d = ''<?xml '' @ xml_decl @ ''?>'' @ CHR 0x0A #
      (''<soapenv:Envelope'' @ concat (map print_attr envelope_attrs) @ ''>'' @ concat (map print_frag ?envelope) @
       ''<soapenv:Body'' @ concat (map print_attr []) @ ''>'' @ concat (map print_frag []) @
       ''<cwmp:Inform'' @ concat (map print_attr []) @ ''>'' @ concat (map print_frag ?front) @
       ''<ParameterList'' @ concat (map print_attr ?arr) @ ''>'' @ concat (map print_frag ?fs) @
       ''<ParameterValueStruct'' @ concat (map print_attr []) @ ''>'' @ concat (map print_frag [plain_frag ''Name'' p]) @
       ''<Value'' @ concat (map print_attr [(''xsi:type'', ''xsd:string'')]) @ ''>'' @ concat (map print_frag [Txt u u]) @ CHR ''<'' # CHR ''<'' # tail)"
    (is "_ = ''<?xml '' @ xml_decl @ ''?>'' @ CHR 0x0A # (''<soapenv:Envelope'' @ ?a @ ''>'' @ ?b @ ''<soapenv:Body'' @ ?body)")
    by (rule that [of "''/Value></ParameterValueStruct>'' @ concat (map (\<lambda>(p, v). value_struct p ''xsd:string'' v) post) @ ''</ParameterList></cwmp:Inform>'' @ soapClose"])
      (simp add: informEnvelope_def Let_def pairs wrap_def soapOpen_def xml_decl_def envelope_attrs_def id_frag_def event_frag_def plain_frag_def
        print_attr_def dquote_def value_struct_def param_list_def print_structs [where ty = "\<lambda>_. ''xsd:string''" and raw = "\<lambda>v. v"])
  have "list_all frag_ok ?fs"
    using pre(1) by (intro structs_ok [where raw = "\<lambda>v. v"] plain_consts)
      (auto simp: list_all_iff [of "\<lambda>(p, v). plain p \<and> plain v"] reads_plain)
  moreover have "apart ?fs" by (rule apart_tags [OF structs_tags])
  moreover have "list_all attr_ok ?arr"
    using plain_show_nat [of ?l] by (auto simp: tag_names plain_char_def between_def intro!: plain_attr)
  moreover have "list_all frag_ok ?front" "apart ?front"
    using assms(2-5) by (simp_all add: id_frag_ok event_frag_ok plain_frag_ok const_frags wire_tags)
      (simp add: id_frag_def event_frag_def plain_frag_def)
  moreover have "list_all frag_ok ?envelope" "apart ?envelope" "list_all attr_ok envelope_attrs"
    using envelope_frag_ok [OF assms(1), of "[]"] by (simp_all add: envelope_frag_def)
  moreover have "frag_ok (plain_frag ''Name'' p)" "reads u u"
    using pre(2,3) by (simp_all add: plain_frag_ok member_tags reads_plain)
  moreover note plain_attr [OF tag_names(11) plain_consts(5)]
  ultimately have "build uni [] (''<soapenv:Envelope'' @ ?a @ ''>'' @ ?b @ ''<soapenv:Body'' @ ?body) = None"
    using breaks_inside(1) [OF breaks_inside(2) [OF breaks_inside(2) [OF breaks_inside(2) [OF breaks_inside(2) [OF breaks_inside(2) [OF breaks_double [of uni tail],
        of "''Value''" "[(''xsi:type'', ''xsd:string'')]" "[Txt u u]"], of "''ParameterValueStruct''" "[]" "[plain_frag ''Name'' p]"],
        of "''ParameterList''" ?arr ?fs], of "''cwmp:Inform''" "[]" ?front], of "''soapenv:Body''" "[]" "[]"], of "''soapenv:Envelope''" envelope_attrs ?envelope "[]"]
    by (simp add: member_tags wire_tags tag_names del: map_append)
  moreover have "''<soapenv:Envelope'' @ z = CHR ''<'' # ''soapenv:Envelope'' @ z" for z by simp
  ultimately have "parse_xml uni (informEnvelope now mid d) = None"
    unfolding e using parse_declared [OF xml_decl_read, of uni] by (simp only: parse_xml_def)
  then show ?thesis by (simp add: DecodeEnvelope_def)
qed

definition ascii_only :: uni where
  "ascii_only = (\<lambda>_ _. False)"

subsection \<open>Witnesses\<close>

definition wire_task :: Task where
  "wire_task = zero_Task\<lparr>t_Type := TaskSPV, t_CommandID := ''c1'', t_CmdKey := ''k'',
     t_Writes := [\<lparr>pv_Name = ''Device.A'', pv_Value = \<lparr>vn_Type = ''xsd:string'', vn_Text = ''a<b & c''\<rparr>\<rparr>]\<rparr>"

lemma wire_legal: "legal_text ''a<b & c''" "legal_text ''Device.A''" "legal_text ''xsd:string''" "legal_text ''k''" "plain ''7''"
  by (simp_all add: legal_text_def runes_ascii isInCharacterRange_def plain_char_def between_def)

theorem task_crosses_wire_witness:
  "\<exists>b. EncodeResponse ''7'' (request_of wire_task) = Some b
     \<and> parseACSRequest (decode_acs ascii_only) b = no_request\<lparr>aq_kind := ''spv'', aq_writes := [(''Device.A'', ''a<b & c'')]\<rparr>"
proof -
  have "task_legal wire_task" using wire_legal by (simp add: task_legal_def wire_task_def zero_Task_def)
  from task_crosses_wire [OF this wire_legal(5), of ascii_only] show ?thesis
    by (auto simp: wire_task_def)
qed

theorem device_answers_understood_witness:
  "DecodeEnvelope ascii_only (task_reply demo_peer ''7'' (GetParameterValues [''A'']) (dev_set [(''A'', ''a<b & c'')] (demo_dev ''S''))) =
     Some \<lparr>env_ID = ''7'', env_Body = empty_body\<lparr>b_GetParameterValuesResponse :=
       Some [\<lparr>pv_Name = ''A'', pv_Value = \<lparr>vn_Type = '''', vn_Text = ''a<b & c''\<rparr>\<rparr>]\<rparr>\<rparr>"
proof -
  let ?d = "dev_set [(''A'', ''a<b & c'')] (demo_dev ''S'')"
  have g: "dv_params ?d = [(''A'', ''a<b & c'')]" by (simp add: dev_set_def demo_dev_def put_all_def)
  have "plain ''A''" by code_simp
  then have "store_legal ?d" using wire_legal(1) by (simp only: store_legal_def g list.pred_inject case_prod_conv simp_thms)
  moreover have "set (pe_order demo_peer xs) = set xs" for xs by (simp add: demo_peer_def)
  ultimately show ?thesis
    using device_answers_understood [OF _ wire_legal(5), of ?d "GetParameterValues [''A'']" demo_peer ascii_only]
    by (simp add: decoded_values_def dev_get_def g List.map_filter_def)
qed

end
