(* ===== verification/ClosedLoop.thy ===== *)
theory ClosedLoop
  imports Wire Server
begin

text \<open>
  The two programs together: the emulated device's task loop (\<open>drain_tasks\<close> of
  \<^verbatim>\<open>src/testsuite/device.go\<close>) run against the agent's request handler (\<open>ServeHTTP\<close> of
  \<^verbatim>\<open>src/goagent/internal/cwmp/server.go\<close>) over one cookie, each side with its own decoder of \<open>SoapDecode\<close> and \<open>Wire\<close>.
  Shown here: the announcement of a device makes it known to the agent under the id the emulator
  expects; a queued write reaches the device's store and its result reaches the waiter; and,
  since the device does not look at the response to an answer while the agent hands out the
  next task in it, a session carries out every second of the queued tasks only.
\<close>

definition agent_post ::
    "(bytes \<Rightarrow> Envelope option) \<Rightarrow> store_faults \<Rightarrow> bool \<Rightarrow> int \<Rightarrow> string \<Rightarrow> string \<Rightarrow>
       Server \<times> db \<Rightarrow> string \<Rightarrow> (Server \<times> db) \<times> string option" where
  "agent_post decode sf ipf now host cookie st b =
     (case ServeHTTP decode sf ipf now \<lparr>rq_host = host, rq_cookie = Some cookie, rq_body = b, rq_read_fails = False\<rparr> (fst st) (snd st) of
        (rs, srv, d) \<Rightarrow> ((srv, d), Some (rs_body rs)))"

definition touched :: "string \<Rightarrow> Session \<Rightarrow> Session" where
  "touched host s = (if host \<noteq> '''' then s\<lparr>s_IP := host\<rparr> else s)"

lemma touched_fields [simp]:
  "s_taskQueue (touched host s) = s_taskQueue s" "s_inflight (touched host s) = s_inflight s"
  "s_MsgID (touched host s) = s_MsgID s" "s_waiters (touched host s) = s_waiters s" "s_chans (touched host s) = s_chans s"
  by (simp_all add: touched_def)

definition task_writes :: "Task \<Rightarrow> (string \<times> string) list" where
  "task_writes t = map (\<lambda>pv. (pv_Name pv, vn_Text (pv_Value pv))) (t_Writes t)"

text \<open>The empty request: the next task goes out, and an empty text when there is none.\<close>

lemma post_empty:
  assumes "map_of (srv_sessions srv) dev = Some s" "dev \<noteq> ''''"
  shows "agent_post decode sf ipf now host dev (srv, d) '''' =
     ((put_session dev (snd (nextTask (touched host s))) srv, d),
      Some (case s_taskQueue s of [] \<Rightarrow> '''' | t # _ \<Rightarrow> the (EncodeResponse (s_MsgID s) (request_of t))))"
proof -
  let ?r = "\<lparr>rq_host = host, rq_cookie = Some dev, rq_body = '''', rq_read_fails = False\<rparr>"
  obtain m s' where n: "nextTask (touched host s) = (m, s')" by (metis surj_pair)
  have "serve_session sf now (rq_host ?r) None s d = (m, s', d)" using n by (simp add: serve_session_def touched_def)
  from serve_known_cookie [where r = ?r and ipf = ipf, OF _ assms(2,1) _ this] have
    sr: "serve_routed sf ipf now ?r None srv d = (writeResponse (s_MsgID s') m (if s_DeviceID s' \<noteq> '''' then Some (s_DeviceID s') else None), put_session dev s' srv, d)"
    by simp
  have b: "TrimSpace '''' = ''''" by (simp add: TrimSpace_def)
  have m: "s_MsgID s' = s_MsgID s" "m = (case s_taskQueue s of [] \<Rightarrow> None | t # _ \<Rightarrow> Some (request_of t))"
    using n by (auto simp: nextTask_def split: list.splits)
  show ?thesis
    unfolding agent_post_def ServeHTTP_def
    by (simp add: b sr n m writeResponse_def EncodeResponse_def cwmpElement_ok(2) Let_def split: list.split)
qed

text \<open>The answer to a write: the task in flight is finished and the agent takes the next one off
  its queue, whether or not the device looks at the response.\<close>

lemma post_spv_answer:
  assumes "map_of (srv_sessions srv) dev = Some s" "dev \<noteq> ''''" and "s_inflight s = Some t"
    and "decode b = Some \<lparr>env_ID = i, env_Body = empty_body\<lparr>b_SetParameterValuesResponse := Some 0\<rparr>\<rparr>"
    and "TrimSpace b \<noteq> ''''" "length b \<le> maxRequestBytes"
  shows "fst (agent_post decode sf ipf now host dev (srv, d) b) =
     (put_session dev (snd (finishInflight (zero_TaskResult\<lparr>tr_Type := TaskSPV, tr_Status := 0\<rparr>) ((touched host s)\<lparr>s_MsgID := i\<rparr>))) srv, d)"
proof -
  let ?r = "\<lparr>rq_host = host, rq_cookie = Some dev, rq_body = b, rq_read_fails = False\<rparr>"
  let ?e = "\<lparr>env_ID = i, env_Body = empty_body\<lparr>b_SetParameterValuesResponse := Some 0\<rparr>\<rparr>"
  obtain m s' where f: "finishInflight (zero_TaskResult\<lparr>tr_Type := TaskSPV, tr_Status := 0\<rparr>) ((touched host s)\<lparr>s_MsgID := i\<rparr>) = (m, s')"
    by (metis surj_pair)
  have "serve_session sf now (rq_host ?r) (Some ?e) s d = (m, s', d)"
    using f by (simp add: serve_session_def touched_def Handle_def handle_reply_def onSPV_def empty_body_def Let_def)
  from serve_known_cookie [where r = ?r and ipf = ipf, OF _ assms(2,1) _ this]
  have "serve_routed sf ipf now ?r (Some ?e) srv d = (writeResponse (s_MsgID s') m (if s_DeviceID s' \<noteq> '''' then Some (s_DeviceID s') else None), put_session dev s' srv, d)"
    by (simp add: empty_body_def)
  then show ?thesis using assms(4-6) f by (simp add: agent_post_def ServeHTTP_def)
qed

lemma deliver_fields [simp]:
  "s_taskQueue (deliver r s) = s_taskQueue s" "s_inflight (deliver r s) = s_inflight s"
  by (simp_all add: deliver_def deliver_shared_def split: option.split)

lemma finishInflight_queue:
  assumes "s_inflight s = Some t"
  shows "s_taskQueue (snd (finishInflight r s)) = tl (s_taskQueue s)"
    "s_inflight (snd (finishInflight r s)) = (case s_taskQueue s of [] \<Rightarrow> None | u # _ \<Rightarrow> Some u)"
  using assms by (simp_all add: finishInflight_def nextTask_def split: list.split)

subsection \<open>The announcement\<close>

lemma informEnvelope_nonblank: "TrimSpace (informEnvelope now mid d) \<noteq> ''''"
  by (rule TrimSpace_nonblank) (simp_all add: informEnvelope_def Let_def wrap_def soapOpen_def is_space_def)

lemma cache_decoded_values:
  "cache_list no_store_faults n dev (decoded_values pairs) now db0 = fold (\<lambda>(p, v). CacheParam False dev p v now) pairs db0"
  by (induction pairs arbitrary: n db0) (auto simp: decoded_values_def)

text \<open>The session and the file after an Inform, in terms of the handler.\<close>

lemma post_inform:
  assumes "device_plain dv" "plain mid" "plain stamp" "dv_cwmpID dv = canonicalID (dv_oui dv) (dv_productClass dv) (dv_serial dv)"
    and "length (informEnvelope stamp mid dv) \<le> maxRequestBytes"
  obtains s0 m s' d' where
    "onInform sf now (informed stamp dv) (requeueOrphanedTask ((touched host s0)\<lparr>s_MsgID := mid\<rparr>)) d = (m, s', d')"
    "ServeHTTP (DecodeEnvelope uni) sf ipf now \<lparr>rq_host = host, rq_cookie = cookie, rq_body = informEnvelope stamp mid dv, rq_read_fails = False\<rparr> srv d =
     (writeResponse (s_MsgID s') m (Some (dv_cwmpID dv)),
      put_session (dv_cwmpID dv) s' (deviceSessionLocked ipf (dv_cwmpID dv) d (srv\<lparr>srv_byIP := AList.update host (dv_cwmpID dv) (srv_byIP srv)\<rparr>)), d')"
proof -
  have idk: "CanonicalID (dv_oui dv) (dv_productClass dv) (dv_serial dv) = dv_cwmpID dv" using assms(4) by (simp add: canonicalID_agent)
  let ?srv = "deviceSessionLocked ipf (dv_cwmpID dv) d (srv\<lparr>srv_byIP := AList.update host (dv_cwmpID dv) (srv_byIP srv)\<rparr>)"
  obtain s0 where s0: "map_of (srv_sessions ?srv) (dv_cwmpID dv) = Some s0"
    using deviceSessionLocked_known [of ipf "dv_cwmpID dv" d] by fastforce
  obtain m s' d' where h: "onInform sf now (informed stamp dv) (requeueOrphanedTask ((touched host s0)\<lparr>s_MsgID := mid\<rparr>)) d = (m, s', d')"
    by (metis prod_cases3)
  have "s_DeviceID s' = dv_cwmpID dv"
    using onInform_keeps(1) [of sf now "informed stamp dv" "requeueOrphanedTask ((touched host s0)\<lparr>s_MsgID := mid\<rparr>)" d] h
    by (simp add: informed_def idk)
  moreover have "dv_cwmpID dv \<noteq> ''''" using CanonicalID_hyphen [of "dv_oui dv" "dv_productClass dv" "dv_serial dv"] idk by auto
  moreover define env where "env = \<lparr>env_ID = mid, env_Body = empty_body\<lparr>b_Inform := Some (informed stamp dv)\<rparr>\<rparr>"
  have "routeSession ipf host cookie (Some env) d srv = (dv_cwmpID dv, ?srv)"
    by (simp add: routeSession_def env_def informed_def idk Let_def)
  moreover have "serve_session sf now host (Some env) s0 d = (m, s', d')"
    using h by (simp add: serve_session_def Handle_def env_def touched_def)
  ultimately have "serve_routed sf ipf now \<lparr>rq_host = host, rq_cookie = cookie, rq_body = informEnvelope stamp mid dv, rq_read_fails = False\<rparr> (Some env) srv d
      = (writeResponse (s_MsgID s') m (Some (dv_cwmpID dv)), put_session (dv_cwmpID dv) s' ?srv, d')"
    using s0 by (simp add: serve_routed_def)
  then show ?thesis
    using assms(5) h inform_decoded [OF assms(2,3,1), of uni] informEnvelope_nonblank [of stamp mid dv]
    by (intro that [OF h]) (simp add: ServeHTTP_def env_def)
qed

text \<open>A device that announces itself is onboarded: the agent answers the Inform of the emulated
  device with an InformResponse under the message id of the device and sets the cookie to the
  device's canonical id, exactly the id under which the emulator's gate expects the device;
  its session and its address are filed under that id, the device table has its identity, and
  every value the Inform carried is in the parameter cache.\<close>

theorem inform_onboards_device:
  assumes "device_plain dv" "plain mid" "plain stamp" "dv_cwmpID dv = canonicalID (dv_oui dv) (dv_productClass dv) (dv_serial dv)"
    and "length (informEnvelope stamp mid dv) \<le> maxRequestBytes" "host \<noteq> ''''"
    and "ServeHTTP (DecodeEnvelope uni) no_store_faults ipf now
       \<lparr>rq_host = host, rq_cookie = cookie, rq_body = informEnvelope stamp mid dv, rq_read_fails = False\<rparr> srv d = (rs, srv', d')"
  shows "rs_cookie rs = Some (dv_cwmpID dv) \<and> Some (rs_body rs) = EncodeResponse mid (InformResponse 1)
     \<and> map_of (srv_byIP srv') host = Some (dv_cwmpID dv)
     \<and> (\<exists>s'. map_of (srv_sessions srv') (dv_cwmpID dv) = Some s' \<and> s_DeviceID s' = dv_cwmpID dv)
     \<and> (\<exists>row. map_of (cwmp_devices d') (dv_cwmpID dv) = Some row \<and> dr_ip row = host \<and> dr_product_class row = dv_productClass dv
          \<and> dr_serial_number row = dv_serial dv)
     \<and> (\<forall>p\<in>set (informParams dv). \<forall>v. dev_value dv p = Some v \<longrightarrow> param_value d' (dv_cwmpID dv) p = Some v)"
proof -
  have idk: "CanonicalID (dv_oui dv) (dv_productClass dv) (dv_serial dv) = dv_cwmpID dv" using assms(4) by (simp add: canonicalID_agent)
  obtain s0 m s' where
    h: "onInform no_store_faults now (informed stamp dv) (requeueOrphanedTask ((touched host s0)\<lparr>s_MsgID := mid\<rparr>)) d = (m, s', d')"
    and rs: "rs = writeResponse (s_MsgID s') m (Some (dv_cwmpID dv))"
    and srv': "srv' = put_session (dv_cwmpID dv) s' (deviceSessionLocked ipf (dv_cwmpID dv) d (srv\<lparr>srv_byIP := AList.update host (dv_cwmpID dv) (srv_byIP srv)\<rparr>))"
    by (rule post_inform [OF assms(1-5), of no_store_faults now host d uni ipf cookie srv]) (use assms(7) in auto)
  have s': "m = Some (InformResponse 1)" "s_MsgID s' = mid" "s_DeviceID s' = dv_cwmpID dv"
    using h by (auto simp: onInform_def Let_def informed_def idk enqueue_def requeueOrphanedTask_def split: option.splits)
  define d1 where "d1 = UpsertDevice False \<lparr>d_DeviceID = dv_cwmpID dv, d_IP = host, d_Manufacturer = ''NybSys'', d_ProductClass = dv_productClass dv,
     d_SerialNumber = dv_serial dv, d_SWVersion = swVersion (decoded_values (dev_get dv (informParams dv))), d_LastInformAt = Some now\<rparr> d"
  have ip: "s_IP (requeueOrphanedTask ((touched host s0)\<lparr>s_MsgID := mid\<rparr>)) = host"
    using assms(6) by (simp add: requeueOrphanedTask_def touched_def split: option.split)
  have d1: "d' = fold (\<lambda>(p, v). CacheParam False (dv_cwmpID dv) p v now) (dev_get dv (informParams dv)) d1"
    using h by (simp add: onInform_def Let_def informed_def idk cache_decoded_values ip d1_def)
  have row: "\<exists>row. map_of (cwmp_devices d1) (dv_cwmpID dv) = Some row \<and> dr_ip row = host \<and> dr_product_class row = dv_productClass dv \<and> dr_serial_number row = dv_serial dv"
    by (simp add: d1_def UpsertDevice_def split: option.split)
  have "cwmp_devices (fold (\<lambda>(p, v). CacheParam False k p v now) xs e) = cwmp_devices e" for k xs e
    by (induction xs arbitrary: e) auto
  moreover have "map_of (srv_byIP (deviceSessionLocked ipf k d x)) host = map_of (srv_byIP x) host" for k x
    by (simp add: deviceSessionLocked_def split: option.split)
  ultimately show ?thesis
    using s' d1 row cache_mirrors_device [of _ "informParams dv" dv _ "dv_cwmpID dv" now d1]
    by (simp add: rs srv' writeResponse_def EncodeResponse_def cwmpElement_ok(2) Let_def put_session_def update_conv')
qed

subsection \<open>One round of the loop\<close>

text \<open>The device and the agent with their own decoders, and writes that XML can carry.\<close>

definition connected ::
    "uni \<Rightarrow> store_faults \<Rightarrow> bool \<Rightarrow> int \<Rightarrow> string \<Rightarrow> string \<Rightarrow> (Server \<times> db, 'z) peer_scheme \<Rightarrow> bool" where
  "connected uni sf ipf now host dev pr \<longleftrightarrow>
     pe_post pr = agent_post (DecodeEnvelope uni) sf ipf now host dev \<and> pe_decode pr = decode_acs uni"

definition carried :: "string \<Rightarrow> Task list \<Rightarrow> bool" where
  "carried mid ts \<longleftrightarrow> plain mid \<and> length (spvResponseEnvelope mid) \<le> maxRequestBytes
     \<and> list_all (\<lambda>t. t_Type t = TaskSPV \<and> task_legal t) ts"

lemma spvResponse_nonblank: "TrimSpace (spvResponseEnvelope mid) \<noteq> ''''"
  by (rule TrimSpace_nonblank) (simp_all add: spvResponseEnvelope_def wrap_def soapOpen_def is_space_def)

lemma task_msg_nonblank: "TrimSpace (the (EncodeResponse i m)) \<noteq> ''''"
  by (rule EncodeResponse_nonblank [of i m]) (simp add: EncodeResponse_def cwmpElement_ok(2) Let_def)

lemma loop_round:
  assumes "connected uni sf ipf now host dev pr" "carried mid ts"
    and s: "map_of (srv_sessions srv) dev = Some s" "dev \<noteq> ''''" "plain (s_MsgID s)" "s_taskQueue s = t # q" "t \<in> set ts"
  shows "drain_tasks pr mid (Suc n) d (srv, db0) =
      drain_tasks pr mid n (dev_set (task_writes t) d)
        (put_session dev (snd (finishInflight (zero_TaskResult\<lparr>tr_Type := TaskSPV, tr_Status := 0\<rparr>)
            ((touched host s)\<lparr>s_taskQueue := q, s_inflight := Some t, s_MsgID := mid\<rparr>))) srv, db0)"
proof -
  have peer: "pe_post pr = agent_post (DecodeEnvelope uni) sf ipf now host dev" "pe_decode pr = decode_acs uni"
    using assms(1) by (simp_all add: connected_def)
  let ?s1 = "(touched host s)\<lparr>s_taskQueue := q, s_inflight := Some t\<rparr>"
  let ?b = "the (EncodeResponse (s_MsgID s) (request_of t))"
  have e: "pe_post pr (srv, db0) '''' = ((put_session dev ?s1 srv, db0), Some ?b)"
    using s by (simp add: peer(1) post_empty nextTask_def)
  have t: "t_Type t = TaskSPV" "task_legal t" using assms(2) s(5) by (auto simp: carried_def list_all_iff)
  have req: "request_of t = SetParameterValues (t_Writes t) (t_CmdKey t)" using t(1) by (simp add: request_of_def)
  have dt: "pe_decode pr ?b = Some (task_body (request_of t))"
    unfolding peer(2) by (rule agent_msg_decoded) (use t(2) s(3) in \<open>simp_all add: req task_legal_def\<close>)
  have a: "answer_task pr mid (parseACSRequest (pe_decode pr) ?b) d = Some (dev_set (task_writes t) d, spvResponseEnvelope mid)"
    using answer_task_eq [where decode = "pe_decode pr" and pr = pr and mid = mid and d = d, OF _ dt] by (simp add: req task_writes_def)
  have dec: "DecodeEnvelope uni (spvResponseEnvelope mid) = Some \<lparr>env_ID = mid, env_Body = empty_body\<lparr>b_SetParameterValuesResponse := Some 0\<rparr>\<rparr>"
    "length (spvResponseEnvelope mid) \<le> maxRequestBytes"
    using assms(2) by (simp_all add: carried_def spv_decoded)
  have l: "map_of (srv_sessions (put_session dev ?s1 srv)) dev = Some ?s1" by (simp add: put_session_def)
  have p: "fst (pe_post pr (put_session dev ?s1 srv, db0) (spvResponseEnvelope mid)) =
      (put_session dev (snd (finishInflight (zero_TaskResult\<lparr>tr_Type := TaskSPV, tr_Status := 0\<rparr>)
            ((touched host ?s1)\<lparr>s_MsgID := mid\<rparr>))) (put_session dev ?s1 srv), db0)"
    unfolding peer(1) by (rule post_spv_answer [where decode = "DecodeEnvelope uni", OF l s(2) _ dec(1) spvResponse_nonblank dec(2)]) simp
  have tt: "(touched host ?s1)\<lparr>s_MsgID := mid\<rparr> = (touched host s)\<lparr>s_taskQueue := q, s_inflight := Some t, s_MsgID := mid\<rparr>"
    by (simp add: touched_def)
  have pp: "put_session dev x (put_session dev y srv) = put_session dev x srv" for x y
    by (simp add: put_session_def)
  show ?thesis by (simp add: e a p tt pp task_msg_nonblank)
qed

lemma loop_end:
  assumes "connected uni sf ipf now host dev pr"
    and "map_of (srv_sessions srv) dev = Some s" "dev \<noteq> ''''" "s_taskQueue s = []"
  shows "drain_tasks pr mid (Suc n) d (srv, db0) = (d, (put_session dev (touched host s) srv, db0))"
proof -
  have "TrimSpace '''' = ''''" by (simp add: TrimSpace_def)
  then show ?thesis using assms by (simp add: post_empty nextTask_def connected_def)
qed

lemma finishInflight_MsgID [simp]: "s_MsgID (snd (finishInflight r s)) = s_MsgID s"
  by (simp add: finishInflight_def nextTask_def deliver_def deliver_shared_def split: option.split list.split)

lemma put_session_lookup [simp]: "map_of (srv_sessions (put_session dev s srv)) dev = Some s"
  by (simp add: put_session_def)

text \<open>C14. The loop closes: a write that the agent has queued for an idle device and waits for
  is carried out when the device next asks for work; its values are in the device's store,
  nothing is left queued or in flight, and the waiter's next turn returns the device's
  confirmation under the id of the command.\<close>

theorem write_reaches_device:
  assumes "connected uni sf ipf now host dev pr" "carried mid [t]"
    and "map_of (srv_sessions srv) dev = Some s" "dev \<noteq> ''''" "plain (s_MsgID s)" "s_taskQueue s = [t]"
    and "t_CommandID t \<noteq> ''''" "map_of (s_waiters s) (t_CommandID t) = Some c" "map_of (s_chans s) c = None"
  shows "\<exists>srv'. drain_tasks pr mid maxSessionTasks d (srv, db0) = (dev_set (task_writes t) d, (srv', db0))
     \<and> (\<forall>p v. keyed (task_writes t) \<and> (p, v) \<in> set (task_writes t) \<longrightarrow> dev_value (dev_set (task_writes t) d) p = Some v)
     \<and> (\<exists>s'. map_of (srv_sessions srv') dev = Some s' \<and> s_taskQueue s' = [] \<and> s_inflight s' = None)
     \<and> fst (on_session dev (await_turn (t_CommandID t) c FromMine) Waiting srv')
         = Returned (zero_TaskResult\<lparr>tr_Type := TaskSPV, tr_Status := 0, tr_CommandID := t_CommandID t\<rparr>)"
proof -
  let ?res = "zero_TaskResult\<lparr>tr_Type := TaskSPV, tr_Status := 0\<rparr>"
  define s1 where "s1 = snd (finishInflight ?res ((touched host s)\<lparr>s_taskQueue := [], s_inflight := Some t, s_MsgID := mid\<rparr>))"
  have r: "drain_tasks pr mid (Suc 63) d (srv, db0) = drain_tasks pr mid (Suc 62) (dev_set (task_writes t) d) (put_session dev s1 srv, db0)"
    using loop_round [OF assms(1-6), of 63 d db0] by (simp add: s1_def)
  have s1: "s1 = (touched host s)\<lparr>s_taskQueue := [], s_inflight := None, s_MsgID := mid,
      s_chans := (c, ?res\<lparr>tr_CommandID := t_CommandID t\<rparr>) # s_chans s\<rparr>"
    using assms(7-9) by (simp add: s1_def finishInflight_def nextTask_def deliver_def)
  have q: "s_taskQueue s1 = []" by (simp add: s1)
  have dr: "drain_tasks pr mid maxSessionTasks d (srv, db0) =
      (dev_set (task_writes t) d, (put_session dev (touched host s1) (put_session dev s1 srv), db0))"
    using r loop_end [OF assms(1) put_session_lookup [of dev s1 srv] assms(4) q, of mid 62] by (simp add: maxSessionTasks_def)
  have "fst (on_session dev (await_turn (t_CommandID t) c FromMine) Waiting (put_session dev (touched host s1) srv'))
      = Returned (?res\<lparr>tr_CommandID := t_CommandID t\<rparr>)" for srv'
    by (simp add: on_session_def s1)
  then show ?thesis using dr dev_store.value_keyed [of "task_writes t"] by (auto simp: s1)
qed

text \<open>The first, third, fifth and so on of a list.\<close>

fun every_second :: "'a list \<Rightarrow> 'a list" where
  "every_second [] = []"
| "every_second [t] = [t]"
| "every_second (t # u # ts) = t # every_second ts"

text \<open>A session of \<open>n\<close> rounds over a queue of any length: each round takes two tasks from it and
  carries out the first.\<close>

lemma drain_every_second:
  assumes "connected uni sf ipf now host dev pr" "dev \<noteq> ''''"
  shows "carried mid ts \<Longrightarrow> map_of (srv_sessions srv) dev = Some s \<Longrightarrow> plain (s_MsgID s) \<Longrightarrow> s_taskQueue s = ts \<Longrightarrow>
     \<exists>srv' s'.
       drain_tasks pr mid n d (srv, db0) = (fold (\<lambda>t. dev_set (task_writes t)) (every_second (take (2 * n) ts)) d, (srv', db0))
     \<and> map_of (srv_sessions srv') dev = Some s' \<and> s_taskQueue s' = drop (2 * n) ts
     \<and> s_inflight s' = (if take (2 * n) ts = [] then s_inflight s
          else if even (length (take (2 * n) ts)) then Some (last (take (2 * n) ts)) else None)"
proof (induction n arbitrary: srv s d ts)
  case 0
  then show ?case by (intro exI [of _ srv] exI [of _ s]) simp
next
  case (Suc n)
  show ?case
  proof (cases ts)
    case Nil
    with loop_end [OF assms(1) Suc.prems(2) assms(2), of mid n d db0] Suc.prems(4) show ?thesis by simp
  next
    case (Cons t q)
    define s1 where "s1 = snd (finishInflight (zero_TaskResult\<lparr>tr_Type := TaskSPV, tr_Status := 0\<rparr>)
       ((touched host s)\<lparr>s_taskQueue := q, s_inflight := Some t, s_MsgID := mid\<rparr>))"
    have r: "drain_tasks pr mid (Suc n) d (srv, db0) = drain_tasks pr mid n (dev_set (task_writes t) d) (put_session dev s1 srv, db0)"
      using loop_round [OF assms(1) Suc.prems(1,2) assms(2) Suc.prems(3), of t q n d db0] Suc.prems(4) Cons by (simp add: s1_def)
    have s1: "s_taskQueue s1 = tl q" "s_inflight s1 = (case q of [] \<Rightarrow> None | u # _ \<Rightarrow> Some u)"
      by (simp_all add: s1_def finishInflight_queue [where t = t])
    have c: "carried mid (tl q)" "plain (s_MsgID s1)" using Suc.prems(1) Cons by (cases q; auto simp: carried_def s1_def)+
    from Suc.IH [OF c(1) put_session_lookup [of dev s1 srv] c(2) s1(1), of "dev_set (task_writes t) d"] obtain srv' s' where
      "drain_tasks pr mid n (dev_set (task_writes t) d) (put_session dev s1 srv, db0)
         = (fold (\<lambda>t. dev_set (task_writes t)) (every_second (take (2 * n) (tl q))) (dev_set (task_writes t) d), (srv', db0))"
      "map_of (srv_sessions srv') dev = Some s'" "s_taskQueue s' = drop (2 * n) (tl q)"
      "s_inflight s' = (if take (2 * n) (tl q) = [] then s_inflight s1
          else if even (length (take (2 * n) (tl q))) then Some (last (take (2 * n) (tl q))) else None)"
      by blast
    moreover have "take (2 * Suc n) ts = t # (case q of [] \<Rightarrow> [] | u # us \<Rightarrow> u # take (2 * n) us)" "drop (2 * Suc n) ts = drop (2 * n) (tl q)"
      by (simp_all add: Cons drop_Suc split: list.split)
    ultimately show ?thesis using r s1(2) by (cases q) auto
  qed
qed

text \<open>C32. A session of the emulated device against the agent carries out the writes queued for it
  one after the other, but only every second of them. The agent answers a reply with the next
  task, and the device, which looks for tasks only in the answers to its empty posts, drops
  that one. With any queue of writes the agent can hold, their texts such
  as XML can carry, the device's store ends with the writes of the
  first, third, fifth and so on of the first 128 (two to a round, and a session has 64 rounds),
  in order; the rest stays queued. Of the dropped tasks at most the last is still known, as the
  one in flight, and the agent queues it again when the device next announces itself, if it has
  a command id. All others are neither carried out nor kept.\<close>

theorem session_serves_every_second:
  assumes "connected uni sf ipf now host dev pr" "carried mid ts"
    and "map_of (srv_sessions srv) dev = Some s" "dev \<noteq> ''''" "plain (s_MsgID s)" "s_taskQueue s = ts"
    and "length ts \<le> chanCap" "ts \<noteq> []"
  shows "\<exists>srv' s'. drain_tasks pr mid maxSessionTasks d (srv, db0)
       = (fold (\<lambda>t. dev_set (task_writes t)) (every_second (take 128 ts)) d, (srv', db0))
     \<and> map_of (srv_sessions srv') dev = Some s' \<and> s_taskQueue s' = drop 128 ts
     \<and> s_inflight s' = (if even (length (take 128 ts)) then Some (last (take 128 ts)) else None)
     \<and> s_taskQueue (requeueOrphanedTask s') = drop 128 ts @
         (if even (length (take 128 ts)) \<and> t_CommandID (last (take 128 ts)) \<noteq> '''' then [last (take 128 ts)] else [])"
proof -
  have n: "2 * maxSessionTasks = 128" by (simp add: maxSessionTasks_def)
  from drain_every_second [OF assms(1,4,2,3,5,6), of maxSessionTasks d db0] assms(8) obtain srv' s' where dr:
    "drain_tasks pr mid maxSessionTasks d (srv, db0) = (fold (\<lambda>t. dev_set (task_writes t)) (every_second (take 128 ts)) d, (srv', db0))"
    "map_of (srv_sessions srv') dev = Some s'" "s_taskQueue s' = drop 128 ts"
    "s_inflight s' = (if even (length (take 128 ts)) then Some (last (take 128 ts)) else None)"
    unfolding n by auto
  have "last (take 128 ts) \<in> set ts" using assms(8) by (metis in_set_takeD last_in_set take_eq_Nil zero_neq_numeral)
  then have "t_Type (last (take 128 ts)) = TaskSPV" using assms(2) by (auto simp: carried_def list_all_iff)
  then have "s_taskQueue (requeueOrphanedTask s') = drop 128 ts @
         (if even (length (take 128 ts)) \<and> t_CommandID (last (take 128 ts)) \<noteq> '''' then [last (take 128 ts)] else [])"
    using dr(3,4) assms(7) by (auto simp: requeueOrphanedTask_def chan_send_def chanCap_def)
  with dr show ?thesis by blast
qed

subsection \<open>Witnesses\<close>

definition loop_task :: Task where
  "loop_task = zero_Task\<lparr>t_Type := TaskSPV, t_CommandID := ''c1'',
     t_Writes := [\<lparr>pv_Name = ''A'', pv_Value = \<lparr>vn_Type = ''xsd:int'', vn_Text = ''2''\<rparr>\<rparr>]\<rparr>"

definition loop_peer :: "(Server \<times> db) peer" where
  "loop_peer = \<lparr>pe_post = agent_post (DecodeEnvelope ascii_only) no_store_faults False 9 ''10.0.0.7'' ''O-P-S'',
     pe_decode = decode_acs ascii_only, pe_clock = (\<lambda>_. ''t''), pe_order = (\<lambda>xs. xs), pe_params = demo_manifest\<rparr>"

lemma loop_connected: "connected ascii_only no_store_faults False 9 ''10.0.0.7'' ''O-P-S'' loop_peer"
  by (simp add: connected_def loop_peer_def)

lemma loop_carried: "carried ''5'' (replicate n loop_task)"
proof -
  have "length (spvResponseEnvelope ''5'') \<le> maxRequestBytes"
    by (simp add: spvResponseEnvelope_def wrap_def soapOpen_def soapClose_def dquote_def maxRequestBytes_def)
  moreover have "task_legal loop_task"
    by (simp add: task_legal_def loop_task_def zero_Task_def legal_text_def runes_ascii isInCharacterRange_def)
  moreover have "t_Type loop_task = TaskSPV" "plain ''5''" by (simp_all add: loop_task_def plain_char_def between_def)
  ultimately show ?thesis by (simp add: carried_def list_all_iff)
qed

definition loop_session :: Session where
  "loop_session = (newSession [])\<lparr>s_DeviceID := ''O-P-S'', s_taskQueue := [loop_task], s_waiters := [(''c1'', 0)], s_nextChan := 1\<rparr>"

theorem write_reaches_device_witness:
  "\<exists>d' srv'. drain_tasks loop_peer ''5'' maxSessionTasks (demo_dev ''S'') (put_session ''O-P-S'' loop_session fresh_server, init_db) = (d', (srv', init_db))
     \<and> dev_value d' ''A'' = Some ''2''
     \<and> fst (on_session ''O-P-S'' (await_turn ''c1'' 0 FromMine) Waiting srv')
         = Returned (zero_TaskResult\<lparr>tr_Type := TaskSPV, tr_Status := 0, tr_CommandID := ''c1''\<rparr>)"
proof -
  have s: "map_of (srv_sessions (put_session ''O-P-S'' loop_session fresh_server)) ''O-P-S'' = Some loop_session" by simp
  have f: "''O-P-S'' \<noteq> ''''" "plain (s_MsgID loop_session)" "s_taskQueue loop_session = [loop_task]" "t_CommandID loop_task \<noteq> ''''"
    "map_of (s_waiters loop_session) (t_CommandID loop_task) = Some 0" "map_of (s_chans loop_session) 0 = None"
    by (simp_all add: loop_session_def loop_task_def newSession_def)
  have w: "task_writes loop_task = [(''A'', ''2'')]" "t_CommandID loop_task = ''c1''" by (simp_all add: task_writes_def loop_task_def)
  have "carried ''5'' [loop_task]" using loop_carried [of 1] by simp
  from write_reaches_device [OF loop_connected this s f, of "demo_dev ''S''" init_db] show ?thesis
    unfolding w by auto
qed

definition loop_write :: "string \<Rightarrow> string \<Rightarrow> Task" where
  "loop_write p cid = loop_task\<lparr>t_CommandID := cid,
     t_Writes := [\<lparr>pv_Name = p, pv_Value = \<lparr>vn_Type = ''xsd:int'', vn_Text = ''2''\<rparr>\<rparr>]\<rparr>"

theorem session_serves_every_second_witness:
  "\<exists>d' srv' s'. drain_tasks loop_peer ''5'' maxSessionTasks (demo_dev ''S'')
       (put_session ''O-P-S'' (loop_session\<lparr>s_taskQueue := [loop_write ''A'' ''c1'', loop_write ''B'' ''c2'', loop_write ''C'' ''c3'', loop_write ''D'' ''c4'']\<rparr>)
          fresh_server, init_db)
     = (d', (srv', init_db)) \<and> dev_value d' ''A'' = Some ''2'' \<and> dev_value d' ''B'' = None \<and> dev_value d' ''C'' = Some ''2''
     \<and> dev_value d' ''D'' = None
     \<and> map_of (srv_sessions srv') ''O-P-S'' = Some s' \<and> s_taskQueue (requeueOrphanedTask s') = [loop_write ''D'' ''c4'']"
proof -
  let ?ts = "[loop_write ''A'' ''c1'', loop_write ''B'' ''c2'', loop_write ''C'' ''c3'', loop_write ''D'' ''c4'']"
  have "task_legal (loop_write p cid)" if "p \<in> {''A'', ''B'', ''C'', ''D''}" for p cid
    using that by (auto simp: task_legal_def loop_write_def loop_task_def zero_Task_def legal_text_def runes_ascii isInCharacterRange_def)
  moreover have "t_Type (loop_write p cid) = TaskSPV" for p cid by (simp add: loop_write_def loop_task_def)
  ultimately have c: "carried ''5'' ?ts" using loop_carried [of 0] by (simp add: carried_def)
  have w: "task_writes (loop_write p cid) = [(p, ''2'')]" "t_CommandID (loop_write p cid) = cid" for p cid
    by (simp_all add: task_writes_def loop_write_def)
  have f: "''O-P-S'' \<noteq> ''''" "plain (s_MsgID (loop_session\<lparr>s_taskQueue := ?ts\<rparr>))" "s_taskQueue (loop_session\<lparr>s_taskQueue := ?ts\<rparr>) = ?ts"
    "length ?ts \<le> chanCap" "?ts \<noteq> []"
    by (simp_all add: loop_session_def newSession_def chanCap_def)
  from session_serves_every_second [OF loop_connected c put_session_lookup [of "''O-P-S''" "loop_session\<lparr>s_taskQueue := ?ts\<rparr>" fresh_server] f,
      of "demo_dev ''S''" init_db]
  show ?thesis by (auto simp: w dev_set_def put_all_def dev_value_def demo_dev_def)
qed

definition onboarded_dev :: device where
  "onboarded_dev = (demo_dev ''S'')\<lparr>dv_params := [(''Device.LAN.IPAddress'', ''10.0.0.7'')]\<rparr>"

theorem inform_onboards_device_witness:
  "\<exists>rs srv' d'. ServeHTTP (DecodeEnvelope ascii_only) no_store_faults False 9
      \<lparr>rq_host = ''10.0.0.7'', rq_cookie = None, rq_body = informEnvelope ''t'' ''1'' onboarded_dev, rq_read_fails = False\<rparr> fresh_server init_db = (rs, srv', d')
     \<and> rs_cookie rs = Some ''O-P-S'' \<and> map_of (srv_byIP srv') ''10.0.0.7'' = Some ''O-P-S''
     \<and> param_value d' ''O-P-S'' ''Device.LAN.IPAddress'' = Some ''10.0.0.7''"
proof -
  let ?x = "ServeHTTP (DecodeEnvelope ascii_only) no_store_faults False 9
      \<lparr>rq_host = ''10.0.0.7'', rq_cookie = None, rq_body = informEnvelope ''t'' ''1'' onboarded_dev, rq_read_fails = False\<rparr> fresh_server init_db"
  have g: "dev_get onboarded_dev (informParams onboarded_dev) = [(''Device.LAN.IPAddress'', ''10.0.0.7'')]"
    by (simp add: onboarded_dev_def demo_dev_def dev_get_def informParams_def List.map_filter_def)
  have pl: "device_plain onboarded_dev" unfolding device_plain_def g
    by (simp add: onboarded_dev_def demo_dev_def plain_char_def between_def)
  have p: "plain ''1''" "plain ''t''" by (simp_all add: plain_char_def between_def)
  have i: "dv_cwmpID onboarded_dev = canonicalID (dv_oui onboarded_dev) (dv_productClass onboarded_dev) (dv_serial onboarded_dev)"
    "dv_cwmpID onboarded_dev = ''O-P-S''"
    by (simp_all add: onboarded_dev_def demo_dev_def canonicalID_agent CanonicalID_def)
  have l: "length (informEnvelope ''t'' ''1'' onboarded_dev) \<le> maxRequestBytes"
    unfolding informEnvelope_def g by (simp add: onboarded_dev_def demo_dev_def wrap_def soapOpen_def soapClose_def dquote_def
        value_struct_def param_list_def show_nat.simps maxRequestBytes_def)
  have v: "''Device.LAN.IPAddress'' \<in> set (informParams onboarded_dev)" "dev_value onboarded_dev ''Device.LAN.IPAddress'' = Some ''10.0.0.7''"
    by (simp_all add: informParams_def onboarded_dev_def dev_value_def)
  obtain rs srv' d' where x: "?x = (rs, srv', d')" by (metis prod_cases3)
  from inform_onboards_device [OF pl p i(1) l _ x] v show ?thesis unfolding x i(2) by simp
qed

end
