(* ===== verification/LogGen.thy ===== *)
theory LogGen
  imports Collector
begin

text \<open>
  The log generator of the emulator (\<^verbatim>\<open>src/testsuite/loggen/loggen.go\<close>): which lines a
  cycle's \<^verbatim>\<open>Log\<close> and, during an incident window, its \<^verbatim>\<open>ErrorLog\<close> carry. The upload time is
  given by its two renderings, the compressor is an argument, and the pattern of an embedded
  file name is written as a matcher. Shown here, against the model of the agent: every
  scenario's staged line is classified as the event type the emulator expects of it, the
  names resolve to the device, and an \<^verbatim>\<open>ErrorLog\<close> brings no dedup key its \<^verbatim>\<open>Log\<close> has not.
\<close>

definition corpusOUI :: string where "corpusOUI = ''8C1F64''"
definition corpusSerial :: string where "corpusSerial = ''2205609999''"
definition corpusProductClass :: string where "corpusProductClass = ''ENB-N03002-B3''"

definition incidentFirstCycle :: int where "incidentFirstCycle = 1"
definition incidentWindowLen :: int where "incidentWindowLen = 2"
definition incidentPeriod :: int where "incidentPeriod = 7"

definition IsIncidentCycle :: "int \<Rightarrow> bool" where
  "IsIncidentCycle cycle =
     (if cycle < incidentFirstCycle then False
      else (cycle - incidentFirstCycle) mod incidentPeriod < incidentWindowLen)"

type_synonym Scenario = string

definition scenarioLines :: "(Scenario, string) tbl" where
  "scenarioLines =
    [(''happy'', ''[FILE_TRANS] File upload success, curl code=(0), command (curl -T ... -u nybsys:*** ftp://192.168.8.100/)''),
     (''ftp-path-reject'', ''[FILE_TRANS] File upload failure, curl code=(25), command (curl -T ... -u nybsys:*** ftp://192.168.8.100/uploads)''),
     (''ftp-auth-fail'', ''[FILE_TRANS] File upload failure, curl code=(67), command (curl -T ... -u nybsys:*** ftp://192.168.8.100/)''),
     (''ftp-conn-fail'', ''[FILE_TRANS] File upload failure, curl code=(7), command (curl -T ... -u nybsys:*** ftp://192.168.8.100/)''),
     (''ftp-timeout'', ''[FILE_TRANS] File upload failure, curl code=(28), command (curl -T ... -u nybsys:*** ftp://192.168.8.100/)''),
     (''atc-fault'', ''[TR69] RPC Unknown received from ACS''),
     (''reboot'', ''[FM] Critical alarm 0x16010400 raised, system reboot will be taken to recover it after 90s.'')]"

definition scenario_line :: "Scenario \<Rightarrow> string" where
  "scenario_line sc = (case map_of scenarioLines sc of Some l \<Rightarrow> l | None \<Rightarrow> '''')"

record gen_config =
  gc_OUI :: string
  gc_Serial :: string
  gc_ProductClass :: string
  gc_Stamp :: string
  gc_Time :: string
  gc_Scenario :: Scenario
  gc_Cycle :: int

definition LogName :: "gen_config \<Rightarrow> string" where
  "LogName c = ''Log_'' @ gc_Stamp c @ ''_'' @ gc_OUI c @ ''.'' @ gc_Serial c @ ''.gz''"

definition ErrorLogName :: "gen_config \<Rightarrow> string" where
  "ErrorLogName c = ''ErrorLog_'' @ gc_Stamp c @ ''_'' @ gc_OUI c @ ''.'' @ gc_Serial c @ ''.gz''"

definition syntheticLines :: "gen_config \<Rightarrow> string list" where
  "syntheticLines c =
     [''0000000002 '' @ gc_Time c @ '' [NCM] Neighbor cell list updated, count=6'',
      ''0000000004 '' @ gc_Time c @ '' [SM] Session established, imsi=***, bearer=5'',
      ''0000000006 '' @ gc_Time c @ '' [SCM] Process(pid=1900) ps_l3 started'']"

text \<open>\<^verbatim>\<open>strings.ReplaceAll\<close> of a non-empty text, left to right and without overlap.\<close>

function ReplaceAll :: "string \<Rightarrow> string \<Rightarrow> string \<Rightarrow> string" where
  "ReplaceAll [] old new = []"
| "ReplaceAll (c # s) old new =
     (if old \<noteq> [] \<and> prefix old (c # s) then new @ ReplaceAll (drop (length old) (c # s)) old new
      else c # ReplaceAll s old new)"
  by pat_completeness auto
termination
  by (relation "measure (\<lambda>(s, _). length s)") (auto simp: less_Suc_eq_le neq_Nil_conv)

definition rewrite_line :: "gen_config \<Rightarrow> string \<Rightarrow> string" where
  "rewrite_line c l0 =
     (let l1 = (if gc_OUI c \<noteq> '''' then ReplaceAll l0 corpusOUI (gc_OUI c) else l0);
          l2 = (if gc_Serial c \<noteq> '''' then ReplaceAll l1 corpusSerial (gc_Serial c) else l1)
      in if gc_ProductClass c \<noteq> '''' then ReplaceAll l2 corpusProductClass (gc_ProductClass c) else l2)"

definition rewriteIdentity :: "string list \<Rightarrow> gen_config \<Rightarrow> string list" where
  "rewriteIdentity lines c = map (rewrite_line c) lines"

definition isErrorLine :: "string \<Rightarrow> bool" where
  "isErrorLine l = (let s = ToLower l in
     Contains s ''alarm'' \<or> Contains s ''fault'' \<or> Contains s ''fail'' \<or> Contains s ''error'')"

fun split_corpus_loop :: "string list \<Rightarrow> string list \<Rightarrow> string list \<Rightarrow> string list \<times> string list" where
  "split_corpus_loop [] operational incident = (operational, incident)"
| "split_corpus_loop (l # ls) operational incident =
     (if isErrorLine l then split_corpus_loop ls operational (incident @ [l])
      else split_corpus_loop ls (operational @ [l]) incident)"

definition splitCorpus :: "string list \<Rightarrow> string list \<times> string list" where
  "splitCorpus lines = split_corpus_loop lines [] []"

subsection \<open>The embedded file name\<close>

definition is_digit :: "char \<Rightarrow> bool" where
  "is_digit c = (let n = of_char c :: nat in 48 \<le> n \<and> n \<le> 57)"

definition is_hex :: "char \<Rightarrow> bool" where
  "is_hex c = (let n = of_char c :: nat in (48 \<le> n \<and> n \<le> 57) \<or> (65 \<le> n \<and> n \<le> 70) \<or> (97 \<le> n \<and> n \<le> 102))"

text \<open>Pieces of a pattern: what is left of a text behind a match at its start.\<close>

definition lit :: "string \<Rightarrow> string \<Rightarrow> string option" where
  "lit p s = (if prefix p s then Some (drop (length p) s) else None)"

definition exactly :: "(char \<Rightarrow> bool) \<Rightarrow> nat \<Rightarrow> string \<Rightarrow> string option" where
  "exactly P n s = (if n \<le> length s \<and> list_all P (take n s) then Some (drop n s) else None)"

definition oneOrMore :: "(char \<Rightarrow> bool) \<Rightarrow> string \<Rightarrow> string option" where
  "oneOrMore P s = (if takeWhile P s \<noteq> [] then Some (dropWhile P s) else None)"

definition andThen :: "(string \<Rightarrow> string option) \<Rightarrow> (string \<Rightarrow> string option) \<Rightarrow> string \<Rightarrow> string option" where
  "andThen p q s = Option.bind (p s) q"

definition embeddedLogNameRe :: "string \<Rightarrow> string option" where
  "embeddedLogNameRe = foldl andThen (lit ''/tmp/Log_'')
     [exactly is_digit 8, lit ''.'', exactly is_digit 4, exactly (\<lambda>c. c = CHR ''+'' \<or> c = CHR ''-'') 1, exactly is_digit 4,
      lit ''_'', oneOrMore is_hex, lit ''.'', oneOrMore is_digit, lit ''.gz'']"

text \<open>\<^verbatim>\<open>ReplaceAllString\<close> with a pattern that never matches the empty text; the replacement
  carries no \<^verbatim>\<open>$\<close>.\<close>

function replace_matches :: "(string \<Rightarrow> string option) \<Rightarrow> string \<Rightarrow> string \<Rightarrow> string" where
  "replace_matches re new [] = []"
| "replace_matches re new (c # s) =
     (case re (c # s) of
        Some rest \<Rightarrow> if length rest \<le> length s then new @ replace_matches re new rest else c # replace_matches re new s
      | None \<Rightarrow> c # replace_matches re new s)"
  by pat_completeness auto
termination
  by (relation "measure (\<lambda>(_, _, s). length s)") auto

definition refreshEmbeddedLogName :: "string \<Rightarrow> string \<Rightarrow> string" where
  "refreshEmbeddedLogName line name = replace_matches embeddedLogNameRe (''/tmp/'' @ name) line"

text \<open>The verb \<^verbatim>\<open>%010d\<close>.\<close>

definition pad10 :: "int \<Rightarrow> string" where
  "pad10 i = (let d = show_nat (nat \<bar>i\<bar>); sign = (if i < 0 then ''-'' else '''')
     in sign @ replicate (10 - length sign - length d) (CHR ''0'') @ d)"

definition restamp :: "string \<Rightarrow> int \<Rightarrow> string \<Rightarrow> string" where
  "restamp line seq time =
     (case SplitN 4 line (CHR '' '') of
        [_, _, _, rest] \<Rightarrow> pad10 seq @ '' '' @ time @ '' '' @ rest
      | _ \<Rightarrow> line)"

definition buildGzipLog :: "(bytes \<Rightarrow> bytes option) \<Rightarrow> string list \<Rightarrow> bytes option" where
  "buildGzipLog gz lines = gz (concat (map (\<lambda>l. l @ [CHR 0x0A]) lines))"

definition staged_line :: "gen_config \<Rightarrow> string" where
  "staged_line c =
     pad10 1 @ '' '' @ gc_Time c @ '' '' @ scenario_line (if gc_Scenario c = '''' then ''happy'' else gc_Scenario c)"

text \<open>The lines of the two files of a cycle.\<close>

definition cycle_lines :: "gen_config \<Rightarrow> string list \<Rightarrow> string list \<times> string list" where
  "cycle_lines c sample =
     (let (operational, incident) = splitCorpus (rewriteIdentity sample c);
          logName = LogName c;
          seqBase = 100 + gc_Cycle c * 100;
          lines = [staged_line c]
            @ map (\<lambda>(i, l). restamp (refreshEmbeddedLogName l logName) (seqBase + int i) (gc_Time c)) (enumerate 0 operational)
            @ syntheticLines c
      in if IsIncidentCycle (gc_Cycle c)
         then (lines @ incident, incident @ (if isErrorLine (staged_line c) then [staged_line c] else []))
         else (lines, []))"

definition Generate :: "(bytes \<Rightarrow> bytes option) \<Rightarrow> gen_config \<Rightarrow> string list \<Rightarrow> (bytes \<times> bytes option) option" where
  "Generate gz c sample =
     (let (lines, errLines) = cycle_lines c sample in
      case buildGzipLog gz lines of
        None \<Rightarrow> None
      | Some logGz \<Rightarrow>
          if errLines \<noteq> [] then
            (case buildGzipLog gz errLines of None \<Rightarrow> None | Some errorLogGz \<Rightarrow> Some (logGz, Some errorLogGz))
          else Some (logGz, None))"

subsection \<open>The streams of a cycle\<close>

lemma split_corpus_loop_eq:
  "split_corpus_loop ls a b = (a @ filter (\<lambda>l. \<not> isErrorLine l) ls, b @ filter isErrorLine ls)"
  by (induction ls arbitrary: a b) auto

lemma splitCorpus_eq: "splitCorpus ls = (filter (\<lambda>l. \<not> isErrorLine l) ls, filter isErrorLine ls)"
  by (simp add: splitCorpus_def split_corpus_loop_eq)

lemma isErrorLine_alarmy: "isErrorLine l = alarmy l"
  by (simp add: isErrorLine_def alarmy_def)

lemma err_lines_sub:
  "cycle_lines c sample = (lines, errLines) \<Longrightarrow> set errLines \<subseteq> set lines"
  by (auto simp: cycle_lines_def splitCorpus_eq Let_def split: if_splits)

lemma err_lines_alarmy:
  "cycle_lines c sample = (lines, errLines) \<Longrightarrow> l \<in> set errLines \<Longrightarrow> alarmy l"
  by (auto simp: cycle_lines_def splitCorpus_eq Let_def isErrorLine_alarmy split: if_splits)

lemma Split_lines:
  "\<forall>l\<in>set ls. CHR 0x0A \<notin> set l \<Longrightarrow> Split (concat (map (\<lambda>l. l @ [CHR 0x0A]) ls)) (CHR 0x0A) = ls @ ['''']"
proof (induction ls)
  case Nil
  show ?case by (simp add: Split_absent)
next
  case (Cons l ls)
  then show ?case using Split_append [of "CHR 0x0A" l "concat (map (\<lambda>l. l @ [CHR 0x0A]) ls)"] by simp
qed

lemma LogName_periodic:
  "LogName c = periodic_name ''Log_'' (gc_Stamp c) (gc_OUI c) (gc_Serial c)"
  "ErrorLogName c = periodic_name ''ErrorLog_'' (gc_Stamp c) (gc_OUI c) (gc_Serial c)"
  by (simp_all add: LogName_def ErrorLogName_def periodic_name_def)

lemma bucket_of_cycle:
  assumes "gc_Stamp c = date @ ''.'' @ rest" "length date = 8" "list_all is_digit date"
    and "CHR ''/'' \<notin> set (LogName c)"
  shows "occurrenceBucket day (dir @ ''/'' @ LogName c) = date"
    "occurrenceBucket day (dir @ ''/'' @ ErrorLogName c) = date"
proof -
  have dots: "CHR ''.'' \<notin> set date" using assms(3) by (auto simp: list_all_iff is_digit_def)
  have no: "\<not> prefix ''Log_'' (date @ z)" for z
    using assms(2,3) by (cases date) (auto simp: is_digit_def)
  let ?tail = "rest @ ''_'' @ gc_OUI c @ ''.'' @ gc_Serial c @ ''.gz''"
  have n: "LogName c = ''Log_'' @ date @ ''.'' @ ?tail" "ErrorLogName c = ''ErrorLog_'' @ date @ ''.'' @ ?tail"
    by (simp_all add: LogName_def ErrorLogName_def assms(1))
  have sl: "CHR ''/'' \<notin> set (ErrorLogName c)" using assms(4) by (simp add: LogName_def ErrorLogName_def)
  have b: "Base (dir @ ''/'' @ LogName c) = LogName c" "Base (dir @ ''/'' @ ErrorLogName c) = ErrorLogName c"
    by (rule Base_join_name [OF assms(4)], simp add: LogName_def) (rule Base_join_name [OF sl], simp add: ErrorLogName_def)
  have p: "isPeriodicLog (LogName c)" "isPeriodicLog (ErrorLogName c)"
    by (simp_all add: LogName_periodic periodic_isPeriodic)
  have t: "TrimPrefix (TrimPrefix (LogName c) ''ErrorLog_'') ''Log_'' = date @ ''.'' @ ?tail"
    "TrimPrefix (TrimPrefix (ErrorLogName c) ''ErrorLog_'') ''Log_'' = date @ ''.'' @ ?tail"
    using no [of "''.'' @ ?tail"] by (simp_all add: n TrimPrefix_def)
  have cut: "Cut (date @ ''.'' @ ?tail) (CHR ''.'') = (date, ?tail, True)" using Cut_append [OF dots, of ?tail] by simp
  show "occurrenceBucket day (dir @ ''/'' @ LogName c) = date"
    "occurrenceBucket day (dir @ ''/'' @ ErrorLogName c) = date"
    by (simp_all only: occurrenceBucket_def b t cut Let_def p if_True prod.case assms(2) simp_thms)
qed

lemma concat_len: "length (concat (map (\<lambda>l. l @ [x]) ls)) = sum_list (map (\<lambda>l. length l + 1) ls)"
  by (simp add: length_concat comp_def)

lemma err_lines_shorter:
  assumes "cycle_lines c sample = (lines, errLines)"
  shows "length (concat (map (\<lambda>l. l @ [x]) errLines)) \<le> length (concat (map (\<lambda>l. l @ [x]) lines))"
  using assms unfolding concat_len by (auto simp: cycle_lines_def splitCorpus_eq Let_def split: if_splits)

lemma events_of_gzip:
  assumes "buildGzipLog gz ls = Some z" and "\<forall>b z. gz b = Some z \<longrightarrow> unz z = Some (b, False)"
    and "se_gunzip env path = unz z" and "\<forall>l\<in>set ls. CHR 0x0A \<notin> set l"
    and "length (concat (map (\<lambda>l. l @ [CHR 0x0A]) ls)) \<le> maxLogBytes"
  shows "parseUpload env e path dev = Some (Apply (se_hashes env) e (se_now env) (ls @ ['''']) dev (occurrenceBucket (se_day env) path))"
  using assms Split_lines [OF assms(4)]
  by (simp add: parseUpload_def eventsFromGzipLog_def buildGzipLog_def)

lemma known_keys:
  assumes "set lines \<subseteq> set lines0"
  shows "ev_DedupKey ` set (Apply h e now lines device bucket) \<subseteq> ev_DedupKey ` set (Apply h e now lines0 device bucket)"
  using assms by (auto simp: Apply_eq)

text \<open>C38. The overlap of the two files of an incident collapses in the cloud: both files, as
  the agent reads them back from disk on any days, parse, and every event of the
  \<^verbatim>\<open>ErrorLog\<close> carries a dedup key that an event of the \<^verbatim>\<open>Log\<close> of the same cycle carries.\<close>

theorem error_log_adds_no_key:
  assumes "Generate gz c sample = Some (logGz, Some errGz)" and "\<forall>b z. gz b = Some z \<longrightarrow> unz z = Some (b, False)"
    and "se_gunzip env (dir @ ''/'' @ LogName c) = unz logGz" "se_gunzip env (dir @ ''/'' @ ErrorLogName c) = unz errGz"
    and "cycle_lines c sample = (lines, errLines)" and "\<forall>l\<in>set lines. CHR 0x0A \<notin> set l"
    and "length (concat (map (\<lambda>l. l @ [CHR 0x0A]) lines)) \<le> maxLogBytes"
    and "gc_Stamp c = date @ ''.'' @ rest" "length date = 8" "list_all is_digit date" "CHR ''/'' \<notin> set (LogName c)"
  shows "\<exists>evs errs. parseUpload env e (dir @ ''/'' @ LogName c) dev = Some evs
     \<and> parseUpload env e (dir @ ''/'' @ ErrorLogName c) dev = Some errs
     \<and> ev_DedupKey ` set errs \<subseteq> ev_DedupKey ` set evs"
proof -
  have g: "buildGzipLog gz lines = Some logGz" "buildGzipLog gz errLines = Some errGz"
    using assms(1,5) by (auto simp: Generate_def split: option.splits if_splits)
  note sub = err_lines_sub [OF assms(5)]
  have nl: "\<forall>l\<in>set errLines. CHR 0x0A \<notin> set l" using sub assms(6) by blast
  have len: "length (concat (map (\<lambda>l. l @ [CHR 0x0A]) errLines)) \<le> maxLogBytes"
    using err_lines_shorter [OF assms(5)] assms(7) by (rule order_trans)
  note bk = bucket_of_cycle [OF assms(8-11)]
  have k: "ev_DedupKey ` set (Apply (se_hashes env) e (se_now env) (errLines @ ['''']) dev date)
      \<subseteq> ev_DedupKey ` set (Apply (se_hashes env) e (se_now env) (lines @ ['''']) dev date)"
    using sub by (intro known_keys) auto
  show ?thesis
    unfolding events_of_gzip [OF g(1) assms(2) assms(3) assms(6,7)] events_of_gzip [OF g(2) assms(2) assms(4) nl len] bk
    using k by blast
qed

subsection \<open>What the scenarios are classified as\<close>

definition scenarioEventType :: "(Scenario, string) tbl" where
  "scenarioEventType =
    [(''happy'', ''ftp_upload_ok''), (''ftp-path-reject'', ''ftp_upload_path_reject''), (''ftp-auth-fail'', ''ftp_auth_fail''),
     (''ftp-conn-fail'', ''ftp_conn_fail''), (''ftp-timeout'', ''ftp_upload_timeout''), (''atc-fault'', ''atc_fault_loop''),
     (''reboot'', ''device_reboot'')]"

text \<open>What the built-in patterns mean: a literal text somewhere in the line, one of three texts
  behind another, or one of two words in any case.\<close>

definition built_in :: "(string, matcher) tbl" where
  "built_in =
    [(''ACS (Connect Status = 2|connect failed|Disconnect with error)'',
        (\<lambda>l. Contains l ''ACS Connect Status = 2'' \<or> Contains l ''ACS connect failed'' \<or> Contains l ''ACS Disconnect with error'')),
     (''RPC Unknown received from ACS'', (\<lambda>l. Contains l ''RPC Unknown received from ACS'')),
     (''File upload success, '' @ curl_code ''0'', (\<lambda>l. Contains l ''File upload success, curl code=(0)'')),
     (curl_code ''7'', (\<lambda>l. Contains l ''curl code=(7)'')),
     (curl_code ''25'', (\<lambda>l. Contains l ''curl code=(25)'')),
     (curl_code ''28'', (\<lambda>l. Contains l ''curl code=(28)'')),
     (curl_code ''67'', (\<lambda>l. Contains l ''curl code=(67)'')),
     (''(?i)reboot|restart'', (\<lambda>l. Contains (ToLower l) ''reboot'' \<or> Contains (ToLower l) ''restart''))]"

definition time_char :: "char \<Rightarrow> bool" where
  "time_char c \<longleftrightarrow> is_digit c \<or> c \<in> set ''-:. ''"

lemma Contains_skip: "sub \<noteq> [] \<Longrightarrow> hd sub \<notin> set pre \<Longrightarrow> Contains (pre @ s) sub = Contains s sub"
  by (induction pre) (auto simp: neq_Nil_conv)

lemma time_lower: "list_all time_char t \<Longrightarrow> ToLower t = t"
  by (induction t) (auto simp: ToLower_def lower_char_def time_char_def is_digit_def Let_def)

lemma time_not: "list_all time_char t \<Longrightarrow> x \<in> set ''ARFcr['' \<Longrightarrow> x \<notin> set t"
  by (auto simp: list_all_iff time_char_def is_digit_def)

lemma pad10_one: "pad10 1 = ''0000000001''"
  by code_simp

lemma default_engine_rules:
  assumes "\<forall>r\<in>set default_rules. regexp (r_Match r) = map_of built_in (r_Match r)" and "DefaultEngine regexp = Some e"
  shows "eng_rules e = map (\<lambda>r. r\<lparr>r_re := the (map_of built_in (r_Match r))\<rparr>) default_rules"
proof -
  have "compile_rules regexp rs = Some rs' \<Longrightarrow> \<forall>r\<in>set rs. regexp (r_Match r) = map_of built_in (r_Match r) \<Longrightarrow>
      rs' = map (\<lambda>r. r\<lparr>r_re := the (map_of built_in (r_Match r))\<rparr>) rs" for rs rs'
    by (induction rs arbitrary: rs') (auto split: option.splits)
  then show ?thesis using assms by (auto simp: DefaultEngine_def compile_def)
qed

lemma TrimSpace_framed:
  assumes "s \<noteq> []" "\<not> is_space (hd s)" "\<not> is_space (last s)"
  shows "TrimSpace s = s"
proof -
  have "dropWhile is_space s = s" using assms by (cases s) auto
  moreover have "dropWhile is_space (rev s) = rev s" using assms by (cases "rev s") (auto simp: last_rev hd_rev dest: arg_cong [where f = hd])
  ultimately show ?thesis by (simp add: TrimSpace_def)
qed

text \<open>The reading of a line that a scenario stages: the module of its tag, and of each pattern
  whether it occurs in the text behind the time.\<close>

lemma staged_reading:
  fixes c :: gen_config and m post :: string
  assumes t: "list_all time_char (gc_Time c)" and l: "scenario_line sc = ''['' @ m @ '']'' @ post"
    and m: "m \<noteq> []" "\<forall>x\<in>set m. is_word x" and last: "post \<noteq> []" "\<not> is_space (last post)"
  defines "line \<equiv> pad10 1 @ '' '' @ gc_Time c @ '' '' @ scenario_line sc"
  shows "TrimSpace line = line" "line \<noteq> ''''" "moduleFromLine line = m"
    "sub \<noteq> [] \<Longrightarrow> hd sub \<in> set ''ARFcr'' \<Longrightarrow> Contains line sub = Contains (scenario_line sc) sub"
    "sub \<noteq> [] \<Longrightarrow> hd sub \<in> set ''ARFcr'' \<Longrightarrow> Contains (ToLower line) sub = Contains (ToLower (scenario_line sc)) sub"
proof -
  define pre where "pre = ''0000000001 '' @ gc_Time c @ '' ''"
  have line: "line = pre @ scenario_line sc" by (simp add: line_def pad10_one pre_def)
  have tp: "list_all time_char pre" using t by (simp add: pre_def time_char_def is_digit_def)
  have hd: "pre \<noteq> []" "hd pre = CHR ''0''" by (simp_all add: pre_def)
  have sp: "\<not> is_space (CHR ''0'')" by (simp add: is_space_def)
  have no: "x \<notin> set pre" if "x \<in> set ''ARFcr[''" for x using time_not [OF tp that] .
  show "TrimSpace line = line" unfolding line l using last hd sp
    by (intro TrimSpace_framed) simp_all
  show "line \<noteq> ''''" using hd by (simp add: line)
  have "CHR ''['' \<notin> set pre" by (rule no) simp
  then show "moduleFromLine line = m" unfolding line l by (rule moduleFromLine_tag [OF _ m])
  have ct: "hd sub \<notin> set pre" if "hd sub \<in> set ''ARFcr''" using no [of "hd sub"] that by auto
  show "Contains line sub = Contains (scenario_line sc) sub" if "sub \<noteq> []" "hd sub \<in> set ''ARFcr''"
    unfolding line by (rule Contains_skip [OF that(1) ct [OF that(2)]])
  have "ToLower line = pre @ ToLower (scenario_line sc)" unfolding line using time_lower [OF tp] by (simp add: ToLower_def)
  then show "Contains (ToLower line) sub = Contains (ToLower (scenario_line sc)) sub" if "sub \<noteq> []" "hd sub \<in> set ''ARFcr''"
    by (simp only: Contains_skip [OF that(1) ct [OF that(2)]])
qed

definition tag_of :: "string \<Rightarrow> string" where
  "tag_of l = takeWhile is_word (tl l)"

lemma scenario_shapes:
  "list_all (\<lambda>(sc, et). let l = scenario_line sc; m = tag_of l; post = drop (length m + 2) l in
     l = ''['' @ m @ '']'' @ post \<and> m \<noteq> [] \<and> list_all is_word m \<and> post \<noteq> [] \<and> \<not> is_space (last post)) scenarioEventType"
  by code_simp

lemma scenario_types:
  "list_all (\<lambda>(sc, et). map_option r_EventType (find (\<lambda>r. EqualFold (r_Module r) (tag_of (scenario_line sc))
       \<and> the (map_of built_in (r_Match r)) (scenario_line sc)) default_rules) = Some et) scenarioEventType"
  by code_simp

lemma built_in_all: "list_all (\<lambda>r. \<not> Option.is_none (map_of built_in (r_Match r))) default_rules"
  by code_simp

lemma built_in_local:
  assumes "\<And>sub. sub \<noteq> [] \<Longrightarrow> hd sub \<in> set ''ARFcr'' \<Longrightarrow> Contains l sub = Contains l' sub"
    and "\<And>sub. sub \<noteq> [] \<Longrightarrow> hd sub \<in> set ''ARFcr'' \<Longrightarrow> Contains (ToLower l) sub = Contains (ToLower l') sub"
    and "r \<in> set default_rules"
  shows "the (map_of built_in (r_Match r)) l = the (map_of built_in (r_Match r)) l'"
proof -
  have "list_all (\<lambda>(p, m). m l = m l') built_in" unfolding built_in_def by (simp add: assms(1,2))
  moreover obtain m where "map_of built_in (r_Match r) = Some m"
    using built_in_all assms(3) by (auto simp: list_all_iff Option.is_none_def)
  ultimately show ?thesis by (auto simp: list_all_iff dest!: map_of_SomeD)
qed

lemma find_map_cong:
  "(\<And>r. r \<in> set rs \<Longrightarrow> P (f r) = Q r) \<Longrightarrow> find P (map f rs) = map_option f (find Q rs)"
  by (induction rs) auto

text \<open>C37. The signal a scenario run waits for is produced in every cycle: with the built-in
  rules, whose patterns mean what \<open>built_in\<close> says, the agent's reading of the \<^verbatim>\<open>Log\<close> of any
  cycle contains, for the device it is attributed to, the typed event the emulator expects of
  the scenario, raised by the staged line.\<close>

theorem scenario_event_staged:
  assumes "map_of scenarioEventType (gc_Scenario c) = Some et" and "list_all time_char (gc_Time c)"
    and "\<forall>r\<in>set default_rules. regexp (r_Match r) = map_of built_in (r_Match r)" and "DefaultEngine regexp = Some e"
    and "dev \<noteq> ''''"
  shows "\<exists>x\<in>set (Apply h e now (fst (cycle_lines c sample)) dev bucket).
     ev_EventType x = et \<and> ev_CWMPID x = dev \<and> ev_Attrs x = [(''raw'', VString (staged_line c))]"
proof -
  let ?sc = "gc_Scenario c" and ?line = "staged_line c"
  have mem: "(?sc, et) \<in> set scenarioEventType" using assms(1) by (rule map_of_SomeD)
  then have "?sc \<noteq> ''''" by (auto simp: scenarioEventType_def)
  then have line: "?line = pad10 1 @ '' '' @ gc_Time c @ '' '' @ scenario_line ?sc" by (simp add: staged_line_def)
  obtain m post where sh: "scenario_line ?sc = ''['' @ m @ '']'' @ post" "m = tag_of (scenario_line ?sc)" "m \<noteq> []"
      "\<forall>x\<in>set m. is_word x" "post \<noteq> []" "\<not> is_space (last post)"
    using scenario_shapes mem by (auto simp: list_all_iff Let_def)
  note rd = staged_reading [OF assms(2) sh(1,3-6), folded line]
  have ty: "map_option r_EventType (find (\<lambda>r. EqualFold (r_Module r) m \<and> the (map_of built_in (r_Match r)) (scenario_line ?sc)) default_rules) = Some et"
    using scenario_types mem unfolding sh(2) by (auto simp: list_all_iff)
  have rules: "find (\<lambda>r. EqualFold (r_Module r) m \<and> r_re r ?line) (eng_rules e) =
      map_option (\<lambda>r. r\<lparr>r_re := the (map_of built_in (r_Match r))\<rparr>)
        (find (\<lambda>r. EqualFold (r_Module r) m \<and> the (map_of built_in (r_Match r)) (scenario_line ?sc)) default_rules)"
    unfolding default_engine_rules [OF assms(3,4)]
    by (rule find_map_cong) (use built_in_local [OF rd(4,5)] in auto)
  obtain r where r: "find (\<lambda>r. EqualFold (r_Module r) m \<and> r_re r ?line) (eng_rules e) = Some r" "r_EventType r = et"
    using ty unfolding rules by auto
  have "classify h (eng_rules e) now dev bucket ?line = [event h dev now m et (r_Severity r) (r_Message r) ?line bucket]"
    using rd(1-3) r by (simp add: classify_def)
  moreover have "?line \<in> set (fst (cycle_lines c sample))"
    by (auto simp: cycle_lines_def Let_def split: prod.split)
  ultimately show ?thesis
    using assms(5) by (auto simp: Apply_eq event_def Let_def intro!: bexI [of _ ?line])
qed

subsection \<open>Witnesses\<close>

definition demo_gen :: gen_config where
  "demo_gen = \<lparr>gc_OUI = ''00AA11'', gc_Serial = ''77'', gc_ProductClass = ''P'', gc_Stamp = ''20260102.0304+0000'',
     gc_Time = ''2026-01-02 03:04:05.000'', gc_Scenario = ''atc-fault'', gc_Cycle = 1\<rparr>"

definition demo_sample :: "string list" where
  "demo_sample = [''alarm'']"

lemma demo_regexps: "\<forall>r\<in>set default_rules. (\<lambda>p. map_of built_in p) (r_Match r) = map_of built_in (r_Match r)"
  by simp

theorem scenario_event_staged_witness:
  "\<exists>e. DefaultEngine (map_of built_in) = Some e
     \<and> (\<exists>x\<in>set (Apply demo_hashes e ''t0'' (fst (cycle_lines demo_gen demo_sample)) ''D'' ''20260102''). ev_EventType x = ''atc_fault_loop'')"
proof -
  have "compile_rules (map_of built_in) rs \<noteq> None" if "list_all (\<lambda>r. \<not> Option.is_none (map_of built_in (r_Match r))) rs" for rs
    using that by (induction rs) (auto simp: Option.is_none_def)
  then obtain e where e: "DefaultEngine (map_of built_in) = Some e"
    using built_in_all by (fastforce simp: DefaultEngine_def compile_def)
  have s: "map_of scenarioEventType (gc_Scenario demo_gen) = Some ''atc_fault_loop''" by code_simp
  have t: "list_all time_char (gc_Time demo_gen)" by code_simp
  have "''D'' \<noteq> ''''" by simp
  from scenario_event_staged [OF s t demo_regexps e this, of demo_hashes "''t0''" demo_sample "''20260102''"] e show ?thesis by blast
qed

lemma demo_staged: "staged_line demo_gen = ''0000000001 2026-01-02 03:04:05.000 [TR69] RPC Unknown received from ACS''"
  by (simp add: staged_line_def pad10_one demo_gen_def scenario_line_def scenarioLines_def)

lemma demo_streams:
  "isErrorLine ''0000000001 2026-01-02 03:04:05.000 [TR69] RPC Unknown received from ACS'' = False"
  "map (rewrite_line demo_gen) demo_sample = [''alarm'']" "isErrorLine ''alarm''"
  by code_simp+

lemma demo_lines:
  "cycle_lines demo_gen demo_sample = (staged_line demo_gen # syntheticLines demo_gen @ [''alarm''], [''alarm''])"
  by (simp add: cycle_lines_def splitCorpus_eq rewriteIdentity_def demo_streams demo_staged)
    (simp add: demo_gen_def IsIncidentCycle_def incidentFirstCycle_def incidentPeriod_def incidentWindowLen_def)

theorem error_log_adds_no_key_witness:
  "\<exists>evs errs. snd (cycle_lines demo_gen demo_sample) \<noteq> []
     \<and> parseUpload (demo_env\<lparr>se_gunzip := (\<lambda>p. if p = ''/ftp/'' @ LogName demo_gen
           then Some (concat (map (\<lambda>l. l @ [CHR 0x0A]) (fst (cycle_lines demo_gen demo_sample))), False)
           else Some (concat (map (\<lambda>l. l @ [CHR 0x0A]) (snd (cycle_lines demo_gen demo_sample))), False))\<rparr>)
         \<lparr>eng_rules = []\<rparr> (''/ftp'' @ ''/'' @ LogName demo_gen) ''D'' = Some evs
     \<and> parseUpload (demo_env\<lparr>se_gunzip := (\<lambda>p. if p = ''/ftp/'' @ LogName demo_gen
           then Some (concat (map (\<lambda>l. l @ [CHR 0x0A]) (fst (cycle_lines demo_gen demo_sample))), False)
           else Some (concat (map (\<lambda>l. l @ [CHR 0x0A]) (snd (cycle_lines demo_gen demo_sample))), False))\<rparr>)
         \<lparr>eng_rules = []\<rparr> (''/ftp'' @ ''/'' @ ErrorLogName demo_gen) ''D'' = Some errs
     \<and> ev_DedupKey ` set errs \<subseteq> ev_DedupKey ` set evs"
proof -
  define L E where le: "L = fst (cycle_lines demo_gen demo_sample)" "E = snd (cycle_lines demo_gen demo_sample)"
  let ?enc = "\<lambda>ls. concat (map (\<lambda>l. l @ [CHR 0x0A]) ls)"
  let ?env = "demo_env\<lparr>se_gunzip := (\<lambda>p. if p = ''/ftp/'' @ LogName demo_gen then Some (?enc L, False) else Some (?enc E, False))\<rparr>"
  have cl: "cycle_lines demo_gen demo_sample = (L, E)" by (simp add: le)
  have E: "E \<noteq> []" by (simp add: le demo_lines)
  have L: "L = staged_line demo_gen # syntheticLines demo_gen @ [''alarm'']" by (simp add: le demo_lines)
  have nl: "\<forall>l\<in>set L. CHR 0x0A \<notin> set l"
    unfolding L demo_staged by (simp add: syntheticLines_def demo_gen_def)
  have len: "length (?enc L) \<le> maxLogBytes"
    unfolding L demo_staged by (simp add: syntheticLines_def demo_gen_def maxLogBytes_def)
  have g: "Generate Some demo_gen demo_sample = Some (?enc L, Some (?enc E))"
    using E by (simp add: Generate_def cl buildGzipLog_def)
  have ne: "ErrorLogName demo_gen \<noteq> LogName demo_gen" by (simp add: LogName_def ErrorLogName_def)
  have z1: "se_gunzip ?env (''/ftp'' @ ''/'' @ LogName demo_gen) = (\<lambda>b. Some (b, False)) (?enc L)"
    and z2: "se_gunzip ?env (''/ftp'' @ ''/'' @ ErrorLogName demo_gen) = (\<lambda>b. Some (b, False)) (?enc E)"
    using ne by simp_all
  have st: "gc_Stamp demo_gen = ''20260102'' @ ''.'' @ ''0304+0000''" "length ''20260102'' = 8" "list_all is_digit ''20260102''"
      "CHR ''/'' \<notin> set (LogName demo_gen)"
    by (simp_all add: demo_gen_def LogName_def is_digit_def)
  have law: "\<forall>b z. Some b = Some z \<longrightarrow> (\<lambda>b. Some (b, False)) z = Some (b, False)" by simp
  from error_log_adds_no_key [OF g law z1 z2 cl nl len st, of "\<lparr>eng_rules = []\<rparr>" "''D''"] E
  show ?thesis unfolding le [symmetric] by blast
qed

end
