(* ===== verification/Uploads.thy ===== *)
theory Uploads
  imports LogGen Device
begin

text \<open>
  The upload path of the emulated device (\<^verbatim>\<open>src/testsuite/ftp.go\<close>): what a cycle uploads, and
  the retention sweep that deletes the device's own old files. The three invocations of
  \<^verbatim>\<open>curl\<close> (upload, list, quoted deletes) act on a server state of any type and are arguments,
  as are the compressor and the parser of a name's time stamp. Shown here: a sweep removes
  exactly the device's own expired files from a server that does what it is told, a file of
  another device is never selected, and the uploads announced are the uploads made.
\<close>

definition sampleLines :: "string \<Rightarrow> string list" where
  "sampleLines fixture = filter (\<lambda>l. TrimSpace l \<noteq> '''') (Split fixture (CHR 0x0A))"

record ftpUploadConfig =
  up_host :: string
  up_user :: string
  up_pass :: string
  up_interval :: int
  up_scenario :: Scenario
  up_retention :: int

definition pruneEveryCycles :: int where "pruneEveryCycles = 10"
definition deleteBatch :: nat where "deleteBatch = 200"

text \<open>The scratch file of an upload is created, written and closed before \<^verbatim>\<open>curl\<close> is run; each step may
  fail.\<close>

datatype scratch_step = CreateTemp | WriteTemp | CloseTemp

record 'w curl =
  cu_scratch :: "scratch_step \<Rightarrow> 'w \<Rightarrow> bool"
  cu_put :: "string \<Rightarrow> string \<Rightarrow> bytes \<Rightarrow> string \<Rightarrow> 'w \<Rightarrow> bool \<times> 'w"
  cu_list :: "string \<Rightarrow> string \<Rightarrow> 'w \<Rightarrow> string option"
  cu_quote :: "string \<Rightarrow> string \<Rightarrow> string list \<Rightarrow> 'w \<Rightarrow> bool \<times> 'w"

definition auth :: "string \<Rightarrow> string \<Rightarrow> string" where
  "auth user pass = user @ '':'' @ pass"

definition curlUpload :: "('w, 'z) curl_scheme \<Rightarrow> string \<Rightarrow> string \<Rightarrow> string \<Rightarrow> bytes \<Rightarrow> string \<Rightarrow> 'w \<Rightarrow> bool \<times> 'w" where
  "curlUpload cu host user pass data remotePath w =
     (if cu_scratch cu CreateTemp w \<or> cu_scratch cu WriteTemp w \<or> cu_scratch cu CloseTemp w then (False, w)
      else cu_put cu host (auth user pass) data remotePath w)"

definition curlList :: "('w, 'z) curl_scheme \<Rightarrow> string \<Rightarrow> string \<Rightarrow> string \<Rightarrow> 'w \<Rightarrow> string list option" where
  "curlList cu host user pass w = map_option
     (\<lambda>out. filter (\<lambda>l. l \<noteq> '''') (map TrimSpace (Split out (CHR 0x0A)))) (cu_list cu host (auth user pass) w)"

function delete_from :: "('w, 'z) curl_scheme \<Rightarrow> string \<Rightarrow> string \<Rightarrow> string list \<Rightarrow> nat \<Rightarrow> 'w \<Rightarrow> bool \<times> 'w" where
  "delete_from cu host au names start w =
     (if start \<ge> length names then (True, w)
      else case cu_quote cu host au (map (\<lambda>n. ''*DELE '' @ n) (take deleteBatch (drop start names))) w of
        (False, w1) \<Rightarrow> (False, w1)
      | (True, w1) \<Rightarrow> delete_from cu host au names (start + deleteBatch) w1)"
  by pat_completeness auto
termination
  by (relation "measure (\<lambda>(_, _, _, names, start, _). length names - start)") (auto simp: deleteBatch_def)

declare delete_from.simps [simp del]

definition curlDelete :: "('w, 'z) curl_scheme \<Rightarrow> string \<Rightarrow> string \<Rightarrow> string \<Rightarrow> string list \<Rightarrow> 'w \<Rightarrow> bool \<times> 'w" where
  "curlDelete cu host user pass names w = delete_from cu host (auth user pass) names 0 w"

definition uploadTime :: "(string \<Rightarrow> int option) \<Rightarrow> string \<Rightarrow> string \<Rightarrow> string \<Rightarrow> int option" where
  "uploadTime parse name oui serial =
     (let stamp = (\<lambda>rest. let tail = ''_'' @ oui @ ''.'' @ serial @ ''.gz'' in
            if HasSuffix rest tail then parse (TrimSuffix rest tail) else None)
      in if HasPrefix name ''Log_'' then stamp (TrimPrefix name ''Log_'')
         else if HasPrefix name ''ErrorLog_'' then stamp (TrimPrefix name ''ErrorLog_'')
         else None)"

definition expiredUploads :: "(string \<Rightarrow> int option) \<Rightarrow> string list \<Rightarrow> string \<Rightarrow> string \<Rightarrow> int \<Rightarrow> int \<Rightarrow> string list" where
  "expiredUploads parse names oui serial now keep =
     (if keep \<le> 0 then []
      else filter (\<lambda>n. case uploadTime parse n oui serial of Some ts \<Rightarrow> ts < now - keep | None \<Rightarrow> False) names)"

definition pruneOwnUploads ::
    "('w, 'z) curl_scheme \<Rightarrow> (string \<Rightarrow> int option) \<Rightarrow> device \<Rightarrow> ftpUploadConfig \<Rightarrow> int \<Rightarrow> 'w \<Rightarrow> 'w" where
  "pruneOwnUploads cu parse dev cfg now w =
     (case curlList cu (up_host cfg) (up_user cfg) (up_pass cfg) w of
        None \<Rightarrow> w
      | Some names \<Rightarrow>
          (let expired = expiredUploads parse names (dv_oui dev) (dv_serial dev) now (up_retention cfg) in
           if expired = [] then w else snd (curlDelete cu (up_host cfg) (up_user cfg) (up_pass cfg) expired w)))"

text \<open>One run of the closure \<open>upload\<close>: the time of the cycle in its two renderings, the time of
  the sweep, and the corpus.\<close>

record cycle_env =
  cy_stamp :: string
  cy_time :: string
  cy_now :: int

definition cycle_config :: "ftpUploadConfig \<Rightarrow> cycle_env \<Rightarrow> device \<Rightarrow> int \<Rightarrow> gen_config" where
  "cycle_config cfg cy dev cycle =
     \<lparr>gc_OUI = dv_oui dev, gc_Serial = dv_serial dev, gc_ProductClass = dv_productClass dev, gc_Stamp = cy_stamp cy,
      gc_Time = cy_time cy, gc_Scenario = up_scenario cfg, gc_Cycle = cycle\<rparr>"

definition probe_upload :: "('w, 'z) curl_scheme \<Rightarrow> ftpUploadConfig \<Rightarrow> gen_config \<Rightarrow> bytes \<Rightarrow> 'w \<Rightarrow> 'w" where
  "probe_upload cu cfg gc logGz w =
     (if up_scenario cfg = ''ftp-path-reject''
      then snd (curlUpload cu (up_host cfg) (up_user cfg) (up_pass cfg) logGz (''/uploads/'' @ LogName gc) w)
      else if up_scenario cfg = ''ftp-auth-fail''
      then snd (curlUpload cu (up_host cfg) (up_user cfg) (up_pass cfg @ ''-wrong'') logGz (''/'' @ LogName gc) w)
      else w)"

definition upload ::
    "('w, 'z) curl_scheme \<Rightarrow> (bytes \<Rightarrow> bytes option) \<Rightarrow> (string \<Rightarrow> int option) \<Rightarrow> string list \<Rightarrow> ftpUploadConfig \<Rightarrow>
       cycle_env \<Rightarrow> device \<times> int \<times> 'w \<Rightarrow> device \<times> int \<times> 'w" where
  "upload cu gz parse corpus cfg cy st =
     (case st of (dev, cycle, w) \<Rightarrow>
        (let gc = cycle_config cfg cy dev cycle in
         case Generate gz gc corpus of
           None \<Rightarrow> st
         | Some (logGz, errorLogGz) \<Rightarrow>
             (let (ok, w1) = curlUpload cu (up_host cfg) (up_user cfg) (up_pass cfg) logGz (''/'' @ LogName gc) w;
                  dev1 = (if ok then markTransfer (LogName gc) (length logGz) dev else dev);
                  w2 = (case errorLogGz of None \<Rightarrow> w1
                        | Some e \<Rightarrow> snd (curlUpload cu (up_host cfg) (up_user cfg) (up_pass cfg) e (''/'' @ ErrorLogName gc) w1));
                  w3 = probe_upload cu cfg gc logGz w2;
                  w4 = (if up_retention cfg > 0 \<and> cycle mod pruneEveryCycles = 0
                        then pruneOwnUploads cu parse dev1 cfg (cy_now cy) w3 else w3)
              in (dev1, cycle + 1, w4))))"

text \<open>The loop: nothing until the device has Informed, then one upload per tick.\<close>

definition runFTPUploadLoop ::
    "('w, 'z) curl_scheme \<Rightarrow> (bytes \<Rightarrow> bytes option) \<Rightarrow> (string \<Rightarrow> int option) \<Rightarrow> string \<Rightarrow> ftpUploadConfig \<Rightarrow>
       cycle_env list \<Rightarrow> device \<Rightarrow> 'w \<Rightarrow> device \<times> int \<times> 'w" where
  "runFTPUploadLoop cu gz parse fixture cfg ticks dev w =
     (if informs dev = 0 then (dev, 0, w)
      else fold (upload cu gz parse (sampleLines fixture) cfg) ticks (dev, 0, w))"

subsection \<open>Whose files a sweep selects\<close>

lemma own_name:
  "uploadTime parse name oui serial = Some t \<longleftrightarrow>
     (\<exists>pre stamp. (pre = ''Log_'' \<or> pre = ''ErrorLog_'') \<and> name = periodic_name pre stamp oui serial \<and> parse stamp = Some t)"
proof -
  define tail where "tail = ''_'' @ oui @ ''.'' @ serial @ ''.gz''"
  have suf: "(if HasSuffix rest tail then parse (TrimSuffix rest tail) else None) = Some t \<longleftrightarrow>
      (\<exists>stamp. rest = stamp @ tail \<and> parse stamp = Some t)" for rest
    by (auto simp: suffix_def)
  have up: "uploadTime parse (''Log_'' @ rest) oui serial = (if HasSuffix rest tail then parse (TrimSuffix rest tail) else None)"
    "uploadTime parse (''ErrorLog_'' @ rest) oui serial = (if HasSuffix rest tail then parse (TrimSuffix rest tail) else None)" for rest
    unfolding uploadTime_def Let_def tail_def [symmetric] by (simp_all add: TrimPrefix_def)
  have per: "periodic_name pre stamp oui serial = pre @ stamp @ tail" for pre stamp
    by (simp add: periodic_name_def tail_def)
  consider rest where "name = ''Log_'' @ rest" | rest where "name = ''ErrorLog_'' @ rest"
    | "\<not> HasPrefix name ''Log_''" "\<not> HasPrefix name ''ErrorLog_''"
    by (metis prefixE)
  then show ?thesis
  proof cases
    case 3
    then have "uploadTime parse name oui serial = None" by (simp add: uploadTime_def)
    with 3 show ?thesis by (auto simp: per)
  qed (auto simp only: up suf per, auto)
qed

lemma own_name_unique:
  assumes "periodic_name p1 s1 o1 n1 = periodic_name p2 s2 o2 n2"
    and "CHR ''_'' \<notin> set o1" "CHR ''_'' \<notin> set n1" "CHR ''_'' \<notin> set o2" "CHR ''_'' \<notin> set n2"
    and "CHR ''.'' \<notin> set o1" "CHR ''.'' \<notin> set o2"
  shows "o1 = o2 \<and> n1 = n2"
proof -
  have tail: "after_last (CHR ''_'') (periodic_name p s ou n) = ou @ ''.'' @ n @ ''.gz''"
    if "CHR ''_'' \<notin> set ou" "CHR ''_'' \<notin> set n" for p s ou n
    using after_last_append [of "CHR ''_''" "ou @ ''.'' @ n @ ''.gz''" "p @ s"] that by (simp add: periodic_name_def)
  have "o1 @ CHR ''.'' # n1 @ ''.gz'' = o2 @ CHR ''.'' # n2 @ ''.gz''"
    using arg_cong [OF assms(1), of "after_last (CHR ''_'')"] assms(2-5) by (simp add: tail)
  then have "o1 = o2 \<and> n1 @ ''.gz'' = n2 @ ''.gz''" using assms(6,7) by (metis Cut_append prod.inject)
  then show ?thesis by simp
qed

text \<open>What the server holds after the batches of a delete, when every quoted command is obeyed.\<close>

lemma delete_from_all:
  assumes quote: "\<And>cmds w. \<exists>w'. cu_quote cu host au cmds w = (True, w') \<and> files w' = filter (\<lambda>n. ''*DELE '' @ n \<notin> set cmds) (files w)"
  shows "\<exists>w'. delete_from cu host au names start w = (True, w') \<and> files w' = filter (\<lambda>n. n \<notin> set (drop start names)) (files w)"
proof (induction "length names - start" arbitrary: start w rule: less_induct)
  case less
  show ?case
  proof (cases "start \<ge> length names")
    case False
    let ?b = "take deleteBatch (drop start names)"
    define cmds where "cmds = map (\<lambda>n. ''*DELE '' @ n) ?b"
    obtain w1 where w1: "cu_quote cu host au cmds w = (True, w1)"
        "files w1 = filter (\<lambda>n. n \<notin> set ?b) (files w)"
      using quote [of cmds w] by (auto simp: cmds_def image_iff)
    have "length names - (start + deleteBatch) < length names - start" using False by (simp add: deleteBatch_def)
    from less [OF this, of w1] obtain w' where w': "delete_from cu host au names (start + deleteBatch) w1 = (True, w')"
        "files w' = filter (\<lambda>n. n \<notin> set (drop (start + deleteBatch) names)) (files w1)" by blast
    have "set (drop start names) = set ?b \<union> set (drop (start + deleteBatch) names)"
      by (metis append_take_drop_id drop_drop add.commute set_append)
    with w1 w' False show ?thesis
      unfolding delete_from.simps [of cu host au names start] cmds_def [symmetric] by (auto intro!: filter_cong)
  qed (simp add: delete_from.simps)
qed

text \<open>C39. The retention sweep deletes exactly the device's own expired uploads: on a server
  that lists its files and obeys quoted deletes, in however many batches, what is left is
  every file but those named by this device with a stamp older than the retention; in
  particular no file of another device goes, when ids carry no separators and stamps parse
  without one.\<close>

theorem prune_exact:
  assumes "up_retention cfg > 0" and "curlList cu (up_host cfg) (up_user cfg) (up_pass cfg) w = Some (files w)"
    and "\<forall>cmds w. \<exists>w'. cu_quote cu (up_host cfg) (auth (up_user cfg) (up_pass cfg)) cmds w = (True, w')
           \<and> files w' = filter (\<lambda>n. ''*DELE '' @ n \<notin> set cmds) (files w)"
  shows "files (pruneOwnUploads cu parse dev cfg now w) =
     filter (\<lambda>n. \<not> (\<exists>pre stamp t. (pre = ''Log_'' \<or> pre = ''ErrorLog_'') \<and> n = periodic_name pre stamp (dv_oui dev) (dv_serial dev)
        \<and> parse stamp = Some t \<and> t < now - up_retention cfg)) (files w)
     \<and> (\<forall>pre stamp oui serial. periodic_name pre stamp oui serial \<in> set (files w) \<and> (oui, serial) \<noteq> (dv_oui dev, dv_serial dev)
        \<and> CHR ''_'' \<notin> set (dv_oui dev @ dv_serial dev @ oui @ serial) \<and> CHR ''.'' \<notin> set (dv_oui dev @ oui) \<longrightarrow>
        periodic_name pre stamp oui serial \<in> set (files (pruneOwnUploads cu parse dev cfg now w)))"
proof -
  define old where "old n \<longleftrightarrow> (\<exists>pre stamp t. (pre = ''Log_'' \<or> pre = ''ErrorLog_'') \<and> n = periodic_name pre stamp (dv_oui dev) (dv_serial dev)
        \<and> parse stamp = Some t \<and> t < now - up_retention cfg)" for n
  define names where "names = expiredUploads parse (files w) (dv_oui dev) (dv_serial dev) now (up_retention cfg)"
  have sel: "(case uploadTime parse n (dv_oui dev) (dv_serial dev) of Some ts \<Rightarrow> ts < now - up_retention cfg | None \<Rightarrow> False) = old n" for n
  proof -
    have "(case uploadTime parse n (dv_oui dev) (dv_serial dev) of Some ts \<Rightarrow> ts < now - up_retention cfg | None \<Rightarrow> False) \<longleftrightarrow>
        (\<exists>t. uploadTime parse n (dv_oui dev) (dv_serial dev) = Some t \<and> t < now - up_retention cfg)"
      by (cases "uploadTime parse n (dv_oui dev) (dv_serial dev)") auto
    then show ?thesis unfolding own_name old_def by blast
  qed
  have exp: "names = filter old (files w)"
    using assms(1) by (simp add: names_def expiredUploads_def sel)
  have prune: "files (pruneOwnUploads cu parse dev cfg now w) = filter (\<lambda>n. \<not> old n) (files w)"
  proof (cases "names = []")
    case True
    then have "\<forall>n\<in>set (files w). \<not> old n" by (simp add: exp filter_empty_conv)
    then have "filter (\<lambda>n. \<not> old n) (files w) = files w" by (simp add: filter_id_conv)
    moreover have "pruneOwnUploads cu parse dev cfg now w = w"
      using True assms(2) by (simp add: pruneOwnUploads_def names_def)
    ultimately show ?thesis by simp
  next
    case False
    from assms(3) have q: "\<And>cmds w. \<exists>w'. cu_quote cu (up_host cfg) (auth (up_user cfg) (up_pass cfg)) cmds w = (True, w')
           \<and> files w' = filter (\<lambda>n. ''*DELE '' @ n \<notin> set cmds) (files w)" by blast
    obtain w' where w': "delete_from cu (up_host cfg) (auth (up_user cfg) (up_pass cfg)) names 0 w = (True, w')"
        "files w' = filter (\<lambda>n. n \<notin> set (drop 0 names)) (files w)"
      using delete_from_all [OF q, of names 0 w] by blast
    have "pruneOwnUploads cu parse dev cfg now w = w'"
      using assms(2) False w'(1) unfolding names_def by (simp add: pruneOwnUploads_def curlDelete_def)
    then have "files (pruneOwnUploads cu parse dev cfg now w) = filter (\<lambda>n. n \<notin> set (drop 0 names)) (files w)"
      by (simp only: w'(2))
    also have "\<dots> = filter (\<lambda>n. \<not> old n) (files w)" by (rule filter_cong) (auto simp: exp)
    finally show ?thesis .
  qed
  have other: "\<not> old (periodic_name pre stamp oui serial)"
    if "(oui, serial) \<noteq> (dv_oui dev, dv_serial dev)" "CHR ''_'' \<notin> set (dv_oui dev @ dv_serial dev @ oui @ serial)"
      "CHR ''.'' \<notin> set (dv_oui dev @ oui)" for pre stamp oui serial
    using that own_name_unique [of pre stamp oui serial _ _ "dv_oui dev" "dv_serial dev"] by (auto simp: old_def)
  show ?thesis using prune other unfolding old_def [symmetric] by auto
qed

definition demo_curl :: "string list curl" where
  "demo_curl = \<lparr>cu_scratch = (\<lambda>_ _. False), cu_put = (\<lambda>_ _ _ path w. (True, w @ [TrimPrefix path ''/''])), cu_list = (\<lambda>_ _ w. Some (Join w [CHR 0x0A])),
     cu_quote = (\<lambda>_ _ cmds w. (True, filter (\<lambda>n. ''*DELE '' @ n \<notin> set cmds) w))\<rparr>"

definition demo_up :: ftpUploadConfig where
  "demo_up = \<lparr>up_host = ''ftp'', up_user = ''u'', up_pass = ''p'', up_interval = 60, up_scenario = ''happy'', up_retention = 10\<rparr>"

definition demo_parse :: "string \<Rightarrow> int option" where
  "demo_parse s = (if s = ''old'' then Some 5 else if s = ''new'' then Some 95 else None)"

definition demo_files :: "string list" where
  "demo_files = [''Log_old_O.S.gz'', ''Log_new_O.S.gz'', ''ErrorLog_old_O.S2.gz'']"

theorem prune_exact_witness:
  "pruneOwnUploads demo_curl demo_parse (demo_dev ''S'') demo_up 100 demo_files = [''Log_new_O.S.gz'', ''ErrorLog_old_O.S2.gz'']
   \<and> periodic_name ''ErrorLog_'' ''old'' ''O'' ''S2'' \<in> set (pruneOwnUploads demo_curl demo_parse (demo_dev ''S'') demo_up 100 demo_files)"
proof -
  have l: "curlList demo_curl (up_host demo_up) (up_user demo_up) (up_pass demo_up) demo_files = Some demo_files" by code_simp
  have q: "\<forall>cmds w. \<exists>w'. cu_quote demo_curl (up_host demo_up) (auth (up_user demo_up) (up_pass demo_up)) cmds w = (True, w')
           \<and> w' = filter (\<lambda>n. ''*DELE '' @ n \<notin> set cmds) w"
    by (simp add: demo_curl_def)
  have r: "up_retention demo_up > 0" by (simp add: demo_up_def)
  have "pruneOwnUploads demo_curl demo_parse (demo_dev ''S'') demo_up 100 demo_files = [''Log_new_O.S.gz'', ''ErrorLog_old_O.S2.gz'']"
    by code_simp
  moreover have "periodic_name ''ErrorLog_'' ''old'' ''O'' ''S2'' \<in> set demo_files" "dv_oui (demo_dev ''S'') = ''O''" "dv_serial (demo_dev ''S'') = ''S''"
    by (simp_all add: periodic_name_def demo_files_def demo_dev_def)
  ultimately show ?thesis
    using conjunct2 [OF prune_exact [where files = "\<lambda>w. w", OF r l q, of demo_parse "demo_dev ''S''" 100],
        THEN spec [of _ "''ErrorLog_''"], THEN spec [of _ "''old''"], THEN spec [of _ "''O''"], THEN spec [of _ "''S2''"]]
    by simp
qed

end
