(* ===== verification/MockCloud.thy ===== *)
theory MockCloud
  imports Device LogGen CloudClient "HOL-Library.List_Lexorder" "HOL-Library.Char_ord"
begin

text \<open>
  The mock cloud and its health gate (\<^verbatim>\<open>src/testsuite/cloud.go\<close>): what each endpoint of the
  agent's northbound interface records, and when \<^verbatim>\<open>/health\<close> reports success. A request is given
  decoded (\<open>CloudWire\<close> reads it from the bytes posted); replies carry the data the handlers put
  into the envelope. Shown here: a repeated delivery is counted once, a
  misattributed snapshot fails the gate for good, and commands are handed out until they are
  acknowledged.
\<close>

record fleetDeviceStat =
  fd_registered :: bool
  fd_telemetry :: nat
  fd_events :: nat
  fd_snapshots :: nat
  fd_snapshotVerified :: nat
  fd_snapshotMismatches :: nat
  fd_telemetryMismatches :: nat

record fleetHealth =
  fh_expected :: "string list"
  fh_perDevice :: "(string, fleetDeviceStat) tbl"
  fh_actuation :: string

record state =
  mc_registered :: nat
  mc_heartbeats :: nat
  mc_telemetry :: nat
  mc_events :: nat
  mc_failures :: nat
  mc_snapshots :: nat
  mc_snapshotParams :: any_map
  mc_acks :: "(string, string) tbl"
  mc_typedEvents :: "string list"
  mc_sawCanonicalTypedEvent :: bool
  mc_expectedEvent :: string
  mc_seenDedup :: "string list"
  mc_canonicalIDs :: "string list"
  mc_fleet :: "fleetHealth option"

definition zero_stat :: fleetDeviceStat where
  "zero_stat = \<lparr>fd_registered = False, fd_telemetry = 0, fd_events = 0, fd_snapshots = 0, fd_snapshotVerified = 0,
     fd_snapshotMismatches = 0, fd_telemetryMismatches = 0\<rparr>"

definition newFleetHealth :: "string list \<Rightarrow> fleetHealth" where
  "newFleetHealth ids = \<lparr>fh_expected = ids, fh_perDevice = fold (\<lambda>i. AList.update i zero_stat) ids [], fh_actuation = ''pending''\<rparr>"

definition snapshotAttributionPaths :: "string list" where
  "snapshotAttributionPaths = [phyCellIDConfigPath, earfcnDLConfigPath]"

definition telemetryAttribution :: "(string, string) tbl" where
  "telemetryAttribution = [(''pci_inuse'', phyCellIDInUsePath), (''earfcn_dl_inuse'', earfcnDLInUsePath)]"

definition deviceByCWMPID :: "device list \<Rightarrow> string \<Rightarrow> device option" where
  "deviceByCWMPID devices i = find (\<lambda>d. dv_cwmpID d = i) devices"

fun checkAttribution_loop :: "device \<Rightarrow> any_map \<Rightarrow> string list \<Rightarrow> bool \<times> bool \<Rightarrow> bool \<times> bool" where
  "checkAttribution_loop dev posted [] vm = vm"
| "checkAttribution_loop dev posted (p # ps) (verified, mismatched) =
     (case map_of posted p of
        None \<Rightarrow> checkAttribution_loop dev posted ps (verified, mismatched)
      | Some got \<Rightarrow>
          (case dev_get dev [p] of
             [(_, want)] \<Rightarrow>
               if sprint got = want then checkAttribution_loop dev posted ps (True, mismatched)
               else checkAttribution_loop dev posted ps (verified, True)
           | _ \<Rightarrow> checkAttribution_loop dev posted ps (verified, mismatched)))"

definition checkAttribution :: "device \<Rightarrow> any_map \<Rightarrow> string list \<Rightarrow> bool \<times> bool" where
  "checkAttribution dev posted paths = checkAttribution_loop dev posted paths (False, False)"

definition stateForSpecs :: "state \<Rightarrow> deviceSpec list \<Rightarrow> bool \<Rightarrow> state" where
  "stateForSpecs st specs fleetMode =
     (let ids = map sp_CWMPID specs; st1 = st\<lparr>mc_canonicalIDs := ids\<rparr>
      in if fleetMode then st1\<lparr>mc_fleet := Some (newFleetHealth ids)\<rparr> else st1)"

definition managedSnapshotParamCount :: nat where "managedSnapshotParamCount = 24"

subsection \<open>Command fixtures\<close>

definition configureCommandID :: string where "configureCommandID = ''00000000-0000-0000-0000-000000000101''"
definition queryCommandID :: string where "queryCommandID = ''00000000-0000-0000-0000-000000000102''"
definition rebootCommandID :: string where "rebootCommandID = ''00000000-0000-0000-0000-000000000103''"
definition configuredRSPower :: string where "configuredRSPower = ''-8''"

definition no_payload :: CommandPayload where
  "no_payload = \<lparr>pl_Writes = [], pl_Verify = [], pl_RollbackOnFail = False, pl_ReadPaths = []\<rparr>"

definition command :: "string \<Rightarrow> string \<Rightarrow> string \<Rightarrow> CommandPayload \<Rightarrow> Command" where
  "command cwmpID i typ pl =
     \<lparr>cmd_ID = i, cmd_DeviceID = ''00000000-0000-0000-0000-000000000201'', cmd_CWMPID = cwmpID, cmd_Type = typ, cmd_Payload = pl\<rparr>"

definition configureCommand :: "string \<Rightarrow> Command" where
  "configureCommand cwmpID = command cwmpID configureCommandID ''configure''
     (no_payload\<lparr>pl_Writes := [\<lparr>wr_Path = refSignalPowerPath, wr_Value = VString configuredRSPower, wr_XSDType = ''xsd:string''\<rparr>]\<rparr>)"

definition queryCommand :: "string \<Rightarrow> Command" where
  "queryCommand cwmpID = command cwmpID queryCommandID ''query'' (no_payload\<lparr>pl_ReadPaths := [refSignalPowerPath]\<rparr>)"

definition rebootCommand :: "string \<Rightarrow> Command" where
  "rebootCommand cwmpID = command cwmpID rebootCommandID ''reboot'' no_payload"

subsection \<open>Handlers\<close>

definition on_stat :: "string \<Rightarrow> (fleetDeviceStat \<Rightarrow> fleetDeviceStat) \<Rightarrow> state \<Rightarrow> state" where
  "on_stat i f st = (case mc_fleet st of
     None \<Rightarrow> st
   | Some fh \<Rightarrow> st\<lparr>mc_fleet := Some (fh\<lparr>fh_perDevice := tbl_update_where i f (fh_perDevice fh)\<rparr>)\<rparr>)"

definition handle_register :: "state \<Rightarrow> state" where
  "handle_register st = st\<lparr>mc_registered := mc_registered st + 1\<rparr>"

definition handle_heartbeat :: "string list \<Rightarrow> state \<Rightarrow> state" where
  "handle_heartbeat ids st =
     fold (\<lambda>i. on_stat i (\<lambda>s. s\<lparr>fd_registered := True\<rparr>)) ids (st\<lparr>mc_heartbeats := mc_heartbeats st + 1\<rparr>)"

record metric_body =
  mb_CWMPID :: string
  mb_Metrics :: any_map

record event_body =
  eb_CWMPID :: string
  eb_EventType :: string
  eb_DedupKey :: string

definition metric_mismatches :: "device list \<Rightarrow> metric_body \<Rightarrow> nat" where
  "metric_mismatches devices ms =
     (case deviceByCWMPID devices (mb_CWMPID ms) of
        None \<Rightarrow> 0
      | Some dev \<Rightarrow> length (filter (\<lambda>(key, path).
          case map_of (mb_Metrics ms) key of
            None \<Rightarrow> False
          | Some v \<Rightarrow> (case dev_get dev [path] of [(_, want)] \<Rightarrow> sprint v \<noteq> want | _ \<Rightarrow> False)) telemetryAttribution))"

definition count_metric :: "device list \<Rightarrow> metric_body \<Rightarrow> state \<Rightarrow> state" where
  "count_metric devices ms = on_stat (mb_CWMPID ms) (\<lambda>s. s\<lparr>fd_telemetry := fd_telemetry s + 1,
     fd_telemetryMismatches := fd_telemetryMismatches s + metric_mismatches devices ms\<rparr>)"

definition count_event :: "event_body \<Rightarrow> state \<Rightarrow> state" where
  "count_event e st =
     (if eb_DedupKey e \<noteq> '''' \<and> eb_DedupKey e \<in> set (mc_seenDedup st) then st
      else
        (let st1 = (if eb_DedupKey e \<noteq> '''' then st\<lparr>mc_seenDedup := eb_DedupKey e # mc_seenDedup st\<rparr> else st);
             st2 = on_stat (eb_CWMPID e) (\<lambda>s. s\<lparr>fd_events := fd_events s + 1\<rparr>) (st1\<lparr>mc_events := mc_events st1 + 1\<rparr>)
         in if eb_EventType e = '''' \<or> eb_EventType e = ''unclassified'' then st2
            else let st3 = st2\<lparr>mc_typedEvents := List.insert (eb_EventType e) (mc_typedEvents st2)\<rparr>
                 in if eb_CWMPID e \<in> set (mc_canonicalIDs st3) then st3\<lparr>mc_sawCanonicalTypedEvent := True\<rparr> else st3))"

definition handle_telemetry :: "device list \<Rightarrow> metric_body list \<Rightarrow> event_body list \<Rightarrow> state \<Rightarrow> bool \<times> state" where
  "handle_telemetry devices ms es st =
     (if mc_failures st = 0 then (False, st\<lparr>mc_failures := 1\<rparr>)
      else (True, fold count_event es (fold (count_metric devices) ms (st\<lparr>mc_telemetry := mc_telemetry st + 1\<rparr>))))"

definition handle_poll :: "device list \<Rightarrow> state \<Rightarrow> Command list" where
  "handle_poll devices st =
     (let cwmpID = dv_cwmpID (hd devices);
          pending = (\<lambda>i c. if map_of (mc_acks st) i = None then [c] else [])
      in pending configureCommandID (configureCommand cwmpID) @ pending queryCommandID (queryCommand cwmpID)
         @ pending rebootCommandID (rebootCommand cwmpID))"

definition device_of_path :: "string \<Rightarrow> string" where
  "device_of_path path = TrimSuffix (TrimPrefix path ''/v1/agent/devices/'') ''/config-snapshot''"

definition count_snapshot :: "device list \<Rightarrow> string \<Rightarrow> any_map \<Rightarrow> state \<Rightarrow> state" where
  "count_snapshot devices i params = on_stat i (\<lambda>s.
     (let s1 = s\<lparr>fd_snapshots := fd_snapshots s + 1\<rparr> in
      case deviceByCWMPID devices i of
        None \<Rightarrow> s1
      | Some dev \<Rightarrow> (case checkAttribution dev params snapshotAttributionPaths of (verified, mismatched) \<Rightarrow>
          s1\<lparr>fd_snapshotVerified := fd_snapshotVerified s1 + (if verified then 1 else 0),
             fd_snapshotMismatches := fd_snapshotMismatches s1 + (if mismatched then 1 else 0)\<rparr>)))"

definition handle_devices :: "device list \<Rightarrow> string \<Rightarrow> any_map \<Rightarrow> state \<Rightarrow> bool \<times> state" where
  "handle_devices devices path params st =
     (if HasSuffix path ''/config-snapshot'' then
        (let st1 = count_snapshot devices (device_of_path path) params (st\<lparr>mc_snapshots := mc_snapshots st + 1\<rparr>)
         in (True, st1\<lparr>mc_snapshotParams := fold (\<lambda>(p, v). AList.update p v) params (mc_snapshotParams st1)\<rparr>))
      else (False, st))"

definition handle_ack :: "device list \<Rightarrow> string \<Rightarrow> string \<Rightarrow> state \<Rightarrow> bool \<times> state" where
  "handle_ack devices path status st =
     (if \<not> HasSuffix path ''/ack'' then (False, st)
      else
        (let i = TrimSuffix (TrimPrefix path ''/v1/agent/commands/'') ''/ack'';
             st1 = st\<lparr>mc_acks := AList.update i status (mc_acks st)\<rparr>
         in (True, case mc_fleet st1 of
               None \<Rightarrow> st1
             | Some fh \<Rightarrow>
                 if i = configureCommandID \<and> status = ''applied'' then
                   st1\<lparr>mc_fleet := Some (fh\<lparr>fh_actuation :=
                     (case dev_get (hd devices) [refSignalPowerPath] of
                        [(_, v)] \<Rightarrow> if v = configuredRSPower then ''verified'' else ''misrouted''
                      | _ \<Rightarrow> ''misrouted'')\<rparr>)\<rparr>
                 else st1)))"

subsection \<open>The health gate\<close>

definition device_complete :: "fleetDeviceStat \<Rightarrow> bool" where
  "device_complete s \<longleftrightarrow> fd_registered s \<and> fd_telemetry s > 0 \<and> fd_snapshots s > 0
     \<and> fd_snapshotVerified s > 0 \<and> fd_snapshotMismatches s = 0 \<and> fd_telemetryMismatches s = 0"

definition stat_of :: "fleetHealth \<Rightarrow> string \<Rightarrow> fleetDeviceStat" where
  "stat_of fh i = (case map_of (fh_perDevice fh) i of Some s \<Rightarrow> s | None \<Rightarrow> zero_stat)"

definition fleet_ok :: "fleetHealth \<Rightarrow> bool" where
  "fleet_ok fh \<longleftrightarrow> (\<forall>i\<in>set (fh_expected fh). device_complete (stat_of fh i)) \<and> fh_actuation fh \<noteq> ''misrouted''"

definition onboarded :: "fleetHealth \<Rightarrow> nat" where
  "onboarded fh = length (filter (\<lambda>i. fd_registered (stat_of fh i)) (fh_expected fh))"

definition device_ok :: "state \<Rightarrow> bool" where
  "device_ok st \<longleftrightarrow> mc_registered st > 0 \<and> mc_heartbeats st > 0 \<and> mc_telemetry st > 0 \<and> mc_events st > 0
     \<and> mc_failures st > 0 \<and> mc_snapshots st > 0 \<and> length (mc_snapshotParams st) = managedSnapshotParamCount
     \<and> length (mc_acks st) \<ge> 3 \<and> mc_typedEvents st \<noteq> [] \<and> mc_sawCanonicalTypedEvent st
     \<and> (mc_expectedEvent st \<in> set (mc_typedEvents st) \<or> mc_expectedEvent st = '''')"

definition health :: "state \<Rightarrow> bool" where
  "health st \<longleftrightarrow> device_ok st \<and> (case mc_fleet st of None \<Rightarrow> True | Some fh \<Rightarrow> fleet_ok fh)"

text \<open>The report of \<^verbatim>\<open>/health\<close>: the counters, the verdict, and in fleet mode a section per device.\<close>

record fleet_report =
  fr_expected :: nat
  fr_onboarded :: nat
  fr_ok :: bool
  fr_actuation :: string
  fr_perDevice :: "(string, fleetDeviceStat \<times> bool) tbl"

record health_report =
  hr_ok :: bool
  hr_registered :: nat
  hr_heartbeats :: nat
  hr_telemetry :: nat
  hr_events :: nat
  hr_failures :: nat
  hr_snapshots :: nat
  hr_snapshotParams :: nat
  hr_acks :: "(string, string) tbl"
  hr_typedEvents :: "string list"
  hr_typedEventOnCanonical :: bool
  hr_expectedEvent :: string
  hr_sawExpectedEvent :: bool
  hr_fleet :: "fleet_report option"

definition fleet_section :: "fleetHealth \<Rightarrow> fleet_report" where
  "fleet_section fh =
     \<lparr>fr_expected = length (fh_expected fh), fr_onboarded = onboarded fh, fr_ok = fleet_ok fh, fr_actuation = fh_actuation fh,
      fr_perDevice = fold (\<lambda>i. AList.update i (stat_of fh i, device_complete (stat_of fh i))) (fh_expected fh) []\<rparr>"

definition handle_health :: "state \<Rightarrow> health_report" where
  "handle_health st =
     \<lparr>hr_ok = health st, hr_registered = mc_registered st, hr_heartbeats = mc_heartbeats st, hr_telemetry = mc_telemetry st,
      hr_events = mc_events st, hr_failures = mc_failures st, hr_snapshots = mc_snapshots st,
      hr_snapshotParams = length (mc_snapshotParams st), hr_acks = mc_acks st, hr_typedEvents = sort (mc_typedEvents st),
      hr_typedEventOnCanonical = mc_sawCanonicalTypedEvent st, hr_expectedEvent = mc_expectedEvent st,
      hr_sawExpectedEvent = (mc_expectedEvent st \<in> set (mc_typedEvents st) \<or> mc_expectedEvent st = ''''),
      hr_fleet = map_option fleet_section (mc_fleet st)\<rparr>"

text \<open>The lighter gate of the modes without a mock cloud. The names in the upload directory are
  an argument; a name has no \<^verbatim>\<open>/\<close>, so that \<^verbatim>\<open>*\<close> of a glob matches any text in it.\<close>

record acs_report =
  ar_ok :: bool
  ar_mode :: string
  ar_agentURL :: string
  ar_informsSent :: int
  ar_dir :: string
  ar_uploads :: nat
  ar_fleet :: "(nat \<times> nat \<times> (string, int) tbl) option"

definition glob :: "string \<Rightarrow> string \<Rightarrow> string \<Rightarrow> bool" where
  "glob pre suf name \<longleftrightarrow> length pre + length suf \<le> length name \<and> HasPrefix name pre \<and> HasSuffix name suf"

definition acsHealthMuxFleet :: "(string \<Rightarrow> string list) \<Rightarrow> device list \<Rightarrow> string \<Rightarrow> string \<Rightarrow> string \<Rightarrow> acs_report" where
  "acsHealthMuxFleet list_dir devices ftpDir mode agentURL =
     (let names = list_dir ftpDir;
          informed = length (filter (\<lambda>d. informs d > 0) devices);
          per = fold (\<lambda>d. AList.update (dv_cwmpID d) (informs d)) devices []
      in \<lparr>ar_ok = (informed = length devices), ar_mode = mode, ar_agentURL = agentURL,
          ar_informsSent = sum_list (map informs devices), ar_dir = ftpDir,
          ar_uploads = length (filter (glob ''Log_'' ''.gz'') names) + length (filter (glob ''ErrorLog_'' ''.gz'') names)
             + length (filter (glob '''' ''.tgz'') names),
          ar_fleet = (if length devices > 1 then Some (length devices, informed, per) else None)\<rparr>)"

definition acsHealthMux :: "(string \<Rightarrow> string list) \<Rightarrow> device \<Rightarrow> string \<Rightarrow> string \<Rightarrow> string \<Rightarrow> acs_report" where
  "acsHealthMux list_dir dev ftpDir mode agentURL = acsHealthMuxFleet list_dir [dev] ftpDir mode agentURL"

lemma acs_gate:
  "ar_ok (acsHealthMuxFleet list_dir devices ftpDir mode agentURL) \<longleftrightarrow> (\<forall>d\<in>set devices. 0 < informs d)"
proof -
  have "length (filter P xs) = length xs \<longleftrightarrow> (\<forall>x\<in>set xs. P x)" for P and xs :: "device list"
    by (metis filter_True length_filter_less less_irrefl)
  then show ?thesis by (simp add: acsHealthMuxFleet_def Let_def)
qed

subsection \<open>The server\<close>

datatype cloud_request =
    RegisterReq
  | HeartbeatReq "string list"
  | TelemetryReq "metric_body list" "event_body list"
  | PollReq
  | DevicesReq string any_map
  | CommandsReq string string
  | HealthReq
  | ParamsReq string params_request

datatype cloud_reply =
    Accepted | CommandList "Command list" | ServiceUnavailable | NotFound | Health health_report | Params params_reply

fun cloudMux :: "cloud_request \<Rightarrow> device list \<times> state \<Rightarrow> cloud_reply \<times> device list \<times> state" where
  "cloudMux RegisterReq (devices, st) = (Accepted, devices, handle_register st)"
| "cloudMux (HeartbeatReq ids) (devices, st) = (Accepted, devices, handle_heartbeat ids st)"
| "cloudMux (TelemetryReq ms es) (devices, st) =
     (case handle_telemetry devices ms es st of (ok, st') \<Rightarrow> (if ok then Accepted else ServiceUnavailable, devices, st'))"
| "cloudMux PollReq (devices, st) = (CommandList (handle_poll devices st), devices, st)"
| "cloudMux (DevicesReq path params) (devices, st) =
     (case handle_devices devices path params st of (ok, st') \<Rightarrow> (if ok then Accepted else NotFound, devices, st'))"
| "cloudMux (CommandsReq path status) (devices, st) =
     (case handle_ack devices path status st of (ok, st') \<Rightarrow> (if ok then Accepted else NotFound, devices, st'))"
| "cloudMux HealthReq (devices, st) = (Health (handle_health st), devices, st)"
| "cloudMux (ParamsReq sel r) (devices, st) =
     (case deviceParamsMux sel r devices of (reply, devices') \<Rightarrow> (Params reply, devices', st))"

text \<open>A sequence of requests, the replies left aside.\<close>

definition serve_all :: "cloud_request list \<Rightarrow> device list \<times> state \<Rightarrow> device list \<times> state" where
  "serve_all = fold (\<lambda>r s. snd (cloudMux r s))"

subsection \<open>Deliveries\<close>

lemma on_stat_fields [simp]:
  "mc_events (on_stat i f st) = mc_events st" "mc_seenDedup (on_stat i f st) = mc_seenDedup st"
  "mc_typedEvents (on_stat i f st) = mc_typedEvents st" "mc_failures (on_stat i f st) = mc_failures st"
  "mc_canonicalIDs (on_stat i f st) = mc_canonicalIDs st" "mc_acks (on_stat i f st) = mc_acks st"
  "mc_sawCanonicalTypedEvent (on_stat i f st) = mc_sawCanonicalTypedEvent st"
  by (simp_all add: on_stat_def split: option.split)

lemma count_event_once:
  assumes "eb_DedupKey e \<noteq> ''''"
  shows "set (mc_seenDedup (count_event e st)) = insert (eb_DedupKey e) (set (mc_seenDedup st))"
    "mc_events (count_event e st) = mc_events st + (if eb_DedupKey e \<in> set (mc_seenDedup st) then 0 else 1)"
  using assms by (auto simp: count_event_def Let_def)

lemma count_events:
  assumes "\<forall>e\<in>set es. eb_DedupKey e \<noteq> ''''"
  shows "set (mc_seenDedup (fold count_event es st)) = set (mc_seenDedup st) \<union> eb_DedupKey ` set es"
    "mc_events (fold count_event es st) = mc_events st + card (eb_DedupKey ` set es - set (mc_seenDedup st))"
proof -
  have "set (mc_seenDedup (fold count_event es st)) = set (mc_seenDedup st) \<union> eb_DedupKey ` set es
    \<and> mc_events (fold count_event es st) = mc_events st + card (eb_DedupKey ` set es - set (mc_seenDedup st))"
    using assms
  proof (induction es arbitrary: st)
    case (Cons e es)
    let ?k = "eb_DedupKey e" and ?K = "eb_DedupKey ` set es" and ?S = "set (mc_seenDedup st)"
    have k: "?k \<noteq> ''''" using Cons.prems by simp
    have eq: "insert ?k ?K - ?S = (if ?k \<in> ?S then {} else {?k}) \<union> (?K - insert ?k ?S)" by auto
    have "card (insert ?k ?K - ?S) = (if ?k \<in> ?S then 0 else 1) + card (?K - insert ?k ?S)"
      unfolding eq by (subst card_Un_disjoint) auto
    then show ?case
      using Cons.IH [of "count_event e st"] Cons.prems by (auto simp: count_event_once [OF k])
  qed simp
  then show "set (mc_seenDedup (fold count_event es st)) = set (mc_seenDedup st) \<union> eb_DedupKey ` set es"
    "mc_events (fold count_event es st) = mc_events st + card (eb_DedupKey ` set es - set (mc_seenDedup st))" by auto
qed

lemma count_metrics_fields [simp]:
  "mc_events (fold (count_metric devices) ms st) = mc_events st"
  "mc_seenDedup (fold (count_metric devices) ms st) = mc_seenDedup st"
  "mc_typedEvents (fold (count_metric devices) ms st) = mc_typedEvents st"
  "mc_sawCanonicalTypedEvent (fold (count_metric devices) ms st) = mc_sawCanonicalTypedEvent st"
  "mc_failures (fold (count_metric devices) ms st) = mc_failures st"
  by (induction ms arbitrary: st) (simp_all add: count_metric_def)

lemma count_event_failures: "mc_failures (fold count_event es st) = mc_failures st"
  by (induction es arbitrary: st) (simp_all add: count_event_def Let_def)

lemma count_known:
  assumes "\<forall>e\<in>set es. eb_DedupKey e \<noteq> '''' \<and> eb_DedupKey e \<in> set (mc_seenDedup st)"
  shows "fold count_event es st = st"
  using assms by (induction es arbitrary: st) (auto simp: count_event_def)

text \<open>At-least-once delivery is safe: an accepted delivery raises the event count by the
  number of its dedup keys never seen before, and delivering the same events again, with
  whatever metrics, changes neither the count nor the typed events.\<close>

theorem redelivery_counted_once:
  assumes "mc_failures st > 0" and "\<forall>e\<in>set es. eb_DedupKey e \<noteq> ''''"
    and "handle_telemetry devices ms es st = (acc, st')"
    and "set es' \<subseteq> set es" and "handle_telemetry devices ms' es' st' = (acc', st'')"
  shows "acc \<and> acc' \<and> mc_events st' = mc_events st + card (eb_DedupKey ` set es - set (mc_seenDedup st))
     \<and> mc_events st'' = mc_events st' \<and> mc_typedEvents st'' = mc_typedEvents st'
     \<and> mc_sawCanonicalTypedEvent st'' = mc_sawCanonicalTypedEvent st'"
proof -
  let ?m = "\<lambda>ms s. fold (count_metric devices) ms (s\<lparr>mc_telemetry := mc_telemetry s + 1\<rparr>)"
  have st': "acc" "st' = fold count_event es (?m ms st)" using assms(1,3) by (auto simp: handle_telemetry_def)
  have "mc_failures st' = mc_failures st" by (simp add: st'(2) count_event_failures)
  then have st'': "acc'" "st'' = fold count_event es' (?m ms' st')" using assms(1,5) by (auto simp: handle_telemetry_def)
  have seen: "set (mc_seenDedup st') = set (mc_seenDedup st) \<union> eb_DedupKey ` set es"
    unfolding st'(2) count_events(1) [OF assms(2)] by simp
  have "st'' = ?m ms' st'"
    unfolding st''(2) using assms(2,4) seen by (intro count_known) auto
  then show ?thesis using st'(1) st''(1) by (simp add: st'(2) count_events(2) [OF assms(2)])
qed

subsection \<open>Attribution\<close>

text \<open>What no later request undoes: the device stays expected and its mismatch counter stays
  positive.\<close>

definition flagged :: "string \<Rightarrow> state \<Rightarrow> bool" where
  "flagged i st \<longleftrightarrow> (\<exists>fh s. mc_fleet st = Some fh \<and> i \<in> set (fh_expected fh) \<and> map_of (fh_perDevice fh) i = Some s
     \<and> fd_snapshotMismatches s > 0)"

lemma flagged_on_stat:
  assumes "flagged i st" and "\<And>s. fd_snapshotMismatches s \<le> fd_snapshotMismatches (f s)"
  shows "flagged i (on_stat j f st)"
proof -
  obtain fh s where fh: "mc_fleet st = Some fh" "i \<in> set (fh_expected fh)" "map_of (fh_perDevice fh) i = Some s" "fd_snapshotMismatches s > 0"
    using assms(1) by (auto simp: flagged_def)
  have "fd_snapshotMismatches (f s) > 0" using assms(2) [of s] fh(4) by simp
  with fh show ?thesis by (simp add: flagged_def on_stat_def)
qed

lemma flagged_fields [simp]:
  "flagged i (st\<lparr>mc_registered := a\<rparr>) = flagged i st" "flagged i (st\<lparr>mc_heartbeats := a\<rparr>) = flagged i st"
  "flagged i (st\<lparr>mc_telemetry := a\<rparr>) = flagged i st" "flagged i (st\<lparr>mc_events := a\<rparr>) = flagged i st"
  "flagged i (st\<lparr>mc_failures := a\<rparr>) = flagged i st" "flagged i (st\<lparr>mc_snapshots := a\<rparr>) = flagged i st"
  "flagged i (st\<lparr>mc_snapshotParams := p\<rparr>) = flagged i st" "flagged i (st\<lparr>mc_acks := k\<rparr>) = flagged i st"
  "flagged i (st\<lparr>mc_typedEvents := l\<rparr>) = flagged i st" "flagged i (st\<lparr>mc_sawCanonicalTypedEvent := b\<rparr>) = flagged i st"
  "flagged i (st\<lparr>mc_seenDedup := l\<rparr>) = flagged i st"
  by (simp_all add: flagged_def)

lemma flagged_fold: "(\<And>x s. flagged i s \<Longrightarrow> flagged i (f x s)) \<Longrightarrow> flagged i st \<Longrightarrow> flagged i (fold f xs st)"
  by (induction xs arbitrary: st) auto

lemma flagged_event: "flagged i st \<Longrightarrow> flagged i (count_event e st)"
  by (auto simp: count_event_def Let_def intro!: flagged_on_stat)

lemma flagged_metric: "flagged i st \<Longrightarrow> flagged i (count_metric devices m st)"
  unfolding count_metric_def by (rule flagged_on_stat) auto

lemma flagged_snapshot: "flagged i st \<Longrightarrow> flagged i (count_snapshot devices j ps st)"
  unfolding count_snapshot_def by (rule flagged_on_stat) (auto simp: Let_def split: option.split prod.split)

lemma flagged_ack: "flagged i st \<Longrightarrow> flagged i (snd (handle_ack devices path status st))"
  by (auto simp: handle_ack_def Let_def flagged_def split: option.split)

lemma flagged_heartbeat: "flagged i st \<Longrightarrow> flagged i (handle_heartbeat ids st)"
  unfolding handle_heartbeat_def by (intro flagged_fold flagged_on_stat) auto

lemma flagged_step: "flagged i st \<Longrightarrow> flagged i (snd (snd (cloudMux r (devices, st))))"
proof (cases r)
  case (TelemetryReq ms es)
  assume f: "flagged i st"
  have "flagged i (fold (count_metric devices) ms (st\<lparr>mc_telemetry := mc_telemetry st + 1\<rparr>))"
    by (rule flagged_fold) (auto intro: flagged_metric simp: f)
  then have "flagged i (fold count_event es (fold (count_metric devices) ms (st\<lparr>mc_telemetry := mc_telemetry st + 1\<rparr>)))"
    by (rule flagged_fold [rotated]) (rule flagged_event)
  then show ?thesis using f by (simp add: TelemetryReq handle_telemetry_def)
next
  case (CommandsReq path status)
  assume "flagged i st"
  then show ?thesis using flagged_ack [of i st devices path status] by (simp add: CommandsReq case_prod_beta)
qed (auto simp: handle_register_def handle_devices_def Let_def flagged_snapshot flagged_heartbeat split: prod.split)

lemma flagged_serve_all: "flagged i (snd s) \<Longrightarrow> flagged i (snd (serve_all reqs s))"
  unfolding serve_all_def
proof (induction reqs arbitrary: s)
  case (Cons r reqs)
  then show ?case using flagged_step [of i "snd s" r "fst s"] by simp
qed simp

lemma flagged_unhealthy: "flagged i st \<Longrightarrow> \<not> health st"
  by (fastforce simp: flagged_def health_def fleet_ok_def device_complete_def stat_of_def)

lemma check_loop_mono:
  "m \<Longrightarrow> snd (checkAttribution_loop dev posted ps (v, m))"
  by (induction ps arbitrary: v) (auto split: option.split list.split)

lemma dev_get_one: "dev_get d [p] = (case dev_value d p of None \<Rightarrow> [] | Some v \<Rightarrow> [(p, v)])"
  by (simp add: dev_get_def dev_value_def List.map_filter_def split: option.split)

lemma check_loop_finds:
  "p \<in> set ps \<Longrightarrow> map_of posted p = Some got \<Longrightarrow> dev_value dev p = Some want \<Longrightarrow> sprint got \<noteq> want \<Longrightarrow>
     snd (checkAttribution_loop dev posted ps (v, m))"
  by (induction ps arbitrary: v m) (auto simp: check_loop_mono dev_get_one split: option.split list.split)

text \<open>C34. Misattribution fails the gate for good: when the agent posts a snapshot under the id
  of an expected device that carries another value of an identifying radio parameter than
  that device holds, the health gate is red then and after any further requests. The id is
  the one the agent escaped into the path.\<close>

theorem misattribution_fails_gate:
  assumes "mc_fleet st = Some fh" "i \<in> set (fh_expected fh)" "map_of (fh_perDevice fh) i = Some s"
    and "deviceByCWMPID devices i = Some dev" and "p \<in> set snapshotAttributionPaths"
    and "map_of params p = Some got" "dev_value dev p = Some want" "sprint got \<noteq> want"
  shows "\<exists>r. fst (cloudMux HealthReq (serve_all (DevicesReq (PathUnescape (snapshot_path i)) params # reqs) (devices, st))) = Health r
     \<and> \<not> hr_ok r"
proof -
  have path: "device_of_path (PathUnescape (snapshot_path i)) = i" "HasSuffix (PathUnescape (snapshot_path i)) ''/config-snapshot''"
    unfolding snapshot_path_seen device_of_path_def TrimPrefix_append TrimSuffix_append by (simp_all add: suffix_def)
  have mis: "snd (checkAttribution dev params snapshotAttributionPaths)"
    unfolding checkAttribution_def by (rule check_loop_finds [OF assms(5-8)])
  have "flagged i (count_snapshot devices i params (st\<lparr>mc_snapshots := mc_snapshots st + 1\<rparr>))"
    using assms(1-4) mis
    by (auto simp: flagged_def count_snapshot_def on_stat_def Let_def split: prod.split)
  then have "flagged i (snd (snd (cloudMux (DevicesReq (PathUnescape (snapshot_path i)) params) (devices, st))))"
    by (simp add: handle_devices_def path Let_def)
  then have "flagged i (snd (serve_all (DevicesReq (PathUnescape (snapshot_path i)) params # reqs) (devices, st)))"
    using flagged_serve_all by (simp add: serve_all_def)
  then have "\<not> health (snd (serve_all (DevicesReq (PathUnescape (snapshot_path i)) params # reqs) (devices, st)))"
    by (rule flagged_unhealthy)
  then show ?thesis by (cases "serve_all (DevicesReq (PathUnescape (snapshot_path i)) params # reqs) (devices, st)")
      (simp add: handle_health_def)
qed

text \<open>A command of the fixtures is handed out until it is acknowledged, whatever the status, and
  not again after that.\<close>

lemma ack_recorded:
  assumes "handle_ack devices path status st = (ok, st')" and "HasSuffix path ''/ack''"
  shows "ok" "mc_acks st' = AList.update (TrimSuffix (TrimPrefix path ''/v1/agent/commands/'') ''/ack'') status (mc_acks st)"
  using assms by (simp_all only: handle_ack_def Let_def not_True_eq_False if_False prod.inject)
    (auto split: option.splits if_split)

lemma command_ids:
  "cmd_ID (configureCommand c) = configureCommandID" "cmd_ID (queryCommand c) = queryCommandID"
  "cmd_ID (rebootCommand c) = rebootCommandID"
  by (simp_all add: configureCommand_def queryCommand_def rebootCommand_def command_def)

lemma poll_until_acked:
  assumes "handle_ack devices (PathUnescape (ack_path i)) status st = (ok, st')"
  shows "ok \<and> handle_poll devices st' = filter (\<lambda>c. cmd_ID c \<noteq> i) (handle_poll devices st)"
proof -
  have suf: "HasSuffix (PathUnescape (ack_path i)) ''/ack''"
    unfolding ack_path_seen by (rule suffixI [of _ "''/v1/agent/commands/'' @ i"]) simp
  have seg: "TrimSuffix (TrimPrefix (PathUnescape (ack_path i)) ''/v1/agent/commands/'') ''/ack'' = i"
    unfolding ack_path_seen TrimPrefix_append TrimSuffix_append ..
  note rec = ack_recorded [OF assms suf, unfolded seg]
  have one: "(if map_of (AList.update i status (mc_acks st)) j = None then [c] else []) =
      filter (\<lambda>c. cmd_ID c \<noteq> i) (if map_of (mc_acks st) j = None then [c] else [])" if "cmd_ID c = j" for j c
    using that by auto
  show ?thesis using rec(1)
    unfolding handle_poll_def Let_def rec(2) one [OF command_ids(1)] one [OF command_ids(2)] one [OF command_ids(3)] filter_append
    by blast
qed

subsection \<open>Witnesses\<close>

definition demo_state :: state where
  "demo_state = stateForSpecs \<lparr>mc_registered = 0, mc_heartbeats = 0, mc_telemetry = 0, mc_events = 0, mc_failures = 1,
     mc_snapshots = 0, mc_snapshotParams = [], mc_acks = [], mc_typedEvents = [], mc_sawCanonicalTypedEvent = False,
     mc_expectedEvent = '''', mc_seenDedup = [''k1''], mc_canonicalIDs = [], mc_fleet = None\<rparr> [demo_spec] True"

definition demo_events :: "event_body list" where
  "demo_events = [\<lparr>eb_CWMPID = ''O-P-S'', eb_EventType = ''device_reboot'', eb_DedupKey = ''k1''\<rparr>,
     \<lparr>eb_CWMPID = ''O-P-S'', eb_EventType = ''device_reboot'', eb_DedupKey = ''k2''\<rparr>]"

theorem redelivery_counted_once_witness:
  "\<exists>st' st''. handle_telemetry [] [] demo_events demo_state = (True, st') \<and> handle_telemetry [] [] demo_events st' = (True, st'')
     \<and> mc_events st' = 1 \<and> mc_events st'' = 1"
proof -
  obtain a st' where 1: "handle_telemetry [] [] demo_events demo_state = (a, st')" by (metis surj_pair)
  obtain b st'' where 2: "handle_telemetry [] [] demo_events st' = (b, st'')" by (metis surj_pair)
  have f: "mc_failures demo_state > 0" and s: "mc_seenDedup demo_state = [''k1'']" "mc_events demo_state = 0"
    by (simp_all add: demo_state_def stateForSpecs_def Let_def)
  have k: "\<forall>e\<in>set demo_events. eb_DedupKey e \<noteq> ''''" by (simp add: demo_events_def)
  have c: "card (eb_DedupKey ` set demo_events - set (mc_seenDedup demo_state)) = 1" by (simp add: s demo_events_def insert_Diff_if)
  from redelivery_counted_once [OF f k 1 subset_refl 2] 1 2 c s show ?thesis by auto
qed

theorem misattribution_fails_gate_witness:
  "\<exists>r. fst (cloudMux HealthReq
       (serve_all [DevicesReq (PathUnescape (snapshot_path ''O-P-S'')) [(phyCellIDConfigPath, VString ''450'')], PollReq]
         ([newDeviceFromSpec demo_manifest demo_spec], demo_state))) = Health r \<and> \<not> hr_ok r"
proof -
  let ?dev = "newDeviceFromSpec demo_manifest demo_spec"
  have fl: "mc_fleet demo_state = Some (newFleetHealth [''O-P-S''])" by (simp add: demo_state_def stateForSpecs_def demo_spec_def Let_def)
  have ex: "''O-P-S'' \<in> set (fh_expected (newFleetHealth [''O-P-S'']))"
    and pd: "map_of (fh_perDevice (newFleetHealth [''O-P-S''])) ''O-P-S'' = Some zero_stat"
    by (simp_all add: newFleetHealth_def)
  have dev: "deviceByCWMPID [?dev] ''O-P-S'' = Some ?dev" 
    by (simp add: deviceByCWMPID_def newDeviceFromSpec_def Let_def) (simp add: demo_spec_def)
  have p: "phyCellIDConfigPath \<in> set snapshotAttributionPaths" by (simp add: snapshotAttributionPaths_def)
  have g: "map_of [(phyCellIDConfigPath, VString ''450'')] phyCellIDConfigPath = Some (VString ''450'')" by simp
  obtain u where u: "dv_params ?dev = mirror_in_use (sp_Params demo_spec) (put_all (sp_Params demo_spec) u)"
    unfolding newDeviceFromSpec_def Let_def device.select_convs by blast
  have v: "dev_value ?dev phyCellIDConfigPath = Some ''449''"
    unfolding dev_value_def u map_of_mirror map_of_put_all
    by (simp add: demo_spec_def phyCellIDConfigPath_def phyCellIDInUsePath_def earfcnDLInUsePath_def)
  have "sprint (VString ''450'') \<noteq> ''449''" by simp
  from misattribution_fails_gate [OF fl ex pd dev p g v this] show ?thesis .
qed

end
