(* ===== verification/Emulator.thy ===== *)
theory Emulator
  imports Uploads MockCloud
begin

text \<open>
  Start-up of the emulator (\<^verbatim>\<open>src/testsuite/main.go\<close>): configuration, fleet, manifest, mock
  cloud, devices, the upload settings they share, what is started for each device and which
  front end is served. The loops that are started are those of \<open>Device\<close>, \<open>Uploads\<close> and
  \<open>MockCloud\<close>; which goroutine runs when is left to the theorems' sequences. Shown here: the
  gate of the mock cloud tracks exactly the devices that run and finds each of them by its id;
  no two devices of a fleet start together or listen on the same port.
\<close>

record emulator_env =
  ee_yaml :: "bytes \<Rightarrow> nanolinkConfig \<Rightarrow> nanolinkConfig option"
  ee_file :: file_read
  ee_duration :: "string \<Rightarrow> int option"
  ee_getenv :: "string \<Rightarrow> string"
  ee_hostname :: "string option"
  ee_manifest :: bytes

datatype emulator_fatal = ConfFailed | SpecsInvalid spec_error | ManifestFailed

text \<open>What is started for a device: after the delay, its listener, its session loop against the agent
  and its upload loop.\<close>

record launch =
  la_delay :: int
  la_listen :: string
  la_device :: device

datatype frontend = HealthOnly string string | MockPlatform

record emulator =
  em_devices :: "device list"
  em_state :: state
  em_upload :: ftpUploadConfig
  em_manifest :: manifest
  em_agentURL :: string
  em_launches :: "launch list"
  em_frontend :: frontend

definition env_or :: "(string \<Rightarrow> string) \<Rightarrow> string \<Rightarrow> string \<Rightarrow> string" where
  "env_or getenv key fallback = (if getenv key \<noteq> '''' then getenv key else fallback)"

definition defaultCRHost :: "string option \<Rightarrow> string" where
  "defaultCRHost h = (case h of Some n \<Rightarrow> if n \<noteq> '''' then n else ''localhost'' | None \<Rightarrow> ''localhost'')"

definition advertise :: "string \<Rightarrow> deviceSpec \<Rightarrow> deviceSpec" where
  "advertise host s = s\<lparr>sp_CRURL := ''http://'' @ host @ '':'' @ show_int (sp_CRPort s) @ ''/''\<rparr>"

definition empty_state :: "string \<Rightarrow> state" where
  "empty_state expected = \<lparr>mc_registered = 0, mc_heartbeats = 0, mc_telemetry = 0, mc_events = 0, mc_failures = 0,
     mc_snapshots = 0, mc_snapshotParams = [], mc_acks = [], mc_typedEvents = [], mc_sawCanonicalTypedEvent = False,
     mc_expectedEvent = expected, mc_seenDedup = [], mc_canonicalIDs = [], mc_fleet = None\<rparr>"

definition launch_of :: "device \<Rightarrow> launch" where
  "launch_of d = \<lparr>la_delay = startDelay (dv_index d), la_listen = '':'' @ show_int (dv_crPort d), la_device = d\<rparr>"

definition frontend_of :: "(string \<Rightarrow> string) \<Rightarrow> frontend" where
  "frontend_of getenv =
     (let mode = ToLower (TrimSpace (env_or getenv ''TESTSUITE_MODE'' ''full''))
      in if mode = ''acsftp'' \<or> mode = ''acs'' then HealthOnly mode (env_or getenv ''FTP_DIR'' ''/ftp'') else MockPlatform)"

definition emulator_main :: "emulator_env \<Rightarrow> emulator_fatal + emulator" where
  "emulator_main ee =
     (case loadNanolinkConfig (ee_yaml ee) (ee_file ee) of
        None \<Rightarrow> Inl ConfFailed
      | Some cfg0 \<Rightarrow>
          (let cfg = withEnvOverrides (ee_duration ee) (ee_getenv ee) cfg0 in
           case deviceSpecs cfg of
             Inl e \<Rightarrow> Inl (SpecsInvalid e)
           | Inr specs0 \<Rightarrow>
               (let fleetMode = (nc_Devices cfg \<noteq> []);
                    crHost = env_or (ee_getenv ee) ''NANOLINK_CR_HOST'' (defaultCRHost (ee_hostname ee));
                    specs = (if fleetMode then map (advertise crHost) specs0 else specs0)
                in case loadManifest (ee_manifest ee) of
                     None \<Rightarrow> Inl ManifestFailed
                   | Some m \<Rightarrow>
                       Inr \<lparr>em_devices = map (newDeviceFromSpec m) specs,
                            em_state = stateForSpecs (empty_state (case map_of scenarioEventType (nc_Scenario cfg) of
                              Some t \<Rightarrow> t | None \<Rightarrow> '''')) specs fleetMode,
                            em_upload = \<lparr>up_host = fc_Host (nc_FTP cfg), up_user = fc_User (nc_FTP cfg), up_pass = fc_Pass (nc_FTP cfg),
                              up_interval = fc_UploadInterval (nc_FTP cfg), up_scenario = nc_Scenario cfg,
                              up_retention = fc_Retention (nc_FTP cfg)\<rparr>,
                            em_manifest = m,
                            em_agentURL = env_or (ee_getenv ee) ''AGENT_CWMP_URL'' ''http://cloudlynet-edgeagent:7547/'',
                            em_launches = map (\<lambda>s. launch_of (newDeviceFromSpec m s)) specs,
                            em_frontend = frontend_of (ee_getenv ee)\<rparr>)))"

lemma withEnvOverrides_devices [simp]: "nc_Devices (withEnvOverrides parse getenv c) = nc_Devices c"
  by (simp add: withEnvOverrides_def Let_def)

lemma advertise_fields [simp]: "sp_CWMPID (advertise h s) = sp_CWMPID s" "sp_Serial (advertise h s) = sp_Serial s"
  by (simp_all add: advertise_def)

lemma newDevice_id [simp]: "dv_cwmpID (newDeviceFromSpec m s) = sp_CWMPID s" "dv_serial (newDeviceFromSpec m s) = sp_Serial s"
  by (simp_all add: newDeviceFromSpec_def Let_def)

lemma find_by_key: "distinct (map f xs) \<Longrightarrow> x \<in> set xs \<Longrightarrow> find (\<lambda>y. f y = f x) xs = Some x"
  by (induction xs) (auto simp: image_iff)

lemma newFleetHealth_stat: "i \<in> set ids \<Longrightarrow> map_of (fh_perDevice (newFleetHealth ids)) i = Some zero_stat"
proof -
  have "map_of (fold (\<lambda>i. AList.update i zero_stat) ids t) i = (if i \<in> set ids then Some zero_stat else map_of t i)" for t
    by (induction ids arbitrary: t) auto
  then show "i \<in> set ids \<Longrightarrow> ?thesis" by (simp add: newFleetHealth_def)
qed

text \<open>The parts of an emulator that starts a fleet.\<close>

lemma emulator_fleet:
  assumes "emulator_main ee = Inr em" and "loadNanolinkConfig (ee_yaml ee) (ee_file ee) = Some cfg0" "nc_Devices cfg0 \<noteq> []"
  obtains cfg specs m h where "nc_Devices cfg = nc_Devices cfg0" "deviceSpecs cfg = Inr specs"
    "em_devices em = map (newDeviceFromSpec m) (map (advertise h) specs)"
    "em_launches em = map (\<lambda>s. launch_of (newDeviceFromSpec m s)) (map (advertise h) specs)"
    "mc_fleet (em_state em) = Some (newFleetHealth (map sp_CWMPID specs))"
proof -
  define cfg where "cfg = withEnvOverrides (ee_duration ee) (ee_getenv ee) cfg0"
  have dv: "nc_Devices cfg = nc_Devices cfg0" by (simp add: cfg_def)
  obtain specs where sp: "deviceSpecs cfg = Inr specs"
    using assms(1,2) by (auto simp: emulator_main_def cfg_def [symmetric] Let_def split: sum.splits)
  obtain m where m: "loadManifest (ee_manifest ee) = Some m"
    using assms(1,2) sp by (auto simp: emulator_main_def cfg_def [symmetric] Let_def split: option.splits)
  define h where "h = env_or (ee_getenv ee) ''NANOLINK_CR_HOST'' (defaultCRHost (ee_hostname ee))"
  show ?thesis
    using assms sp dv m
    by (intro that [of cfg specs m h]) (auto simp: emulator_main_def cfg_def [symmetric] Let_def h_def stateForSpecs_def comp_def)
qed

text \<open>The gate watches the devices that run: a fleet that starts gets one device per entry,
  all different in serial and canonical id; the mock cloud expects exactly their ids, has a
  fresh record for each, and finds each device by its id, so that the checks of attribution
  compare with the right store.\<close>

theorem gate_tracks_fleet:
  assumes "emulator_main ee = Inr em" and "loadNanolinkConfig (ee_yaml ee) (ee_file ee) = Some cfg0" "nc_Devices cfg0 \<noteq> []"
    and "\<forall>d\<in>set (nc_Devices cfg0). \<not> Contains (TrimSpace (dc_Serial d)) ''%2D''"
  shows "length (em_devices em) = length (nc_Devices cfg0) \<and> distinct (map dv_serial (em_devices em))
     \<and> (\<exists>fh. mc_fleet (em_state em) = Some fh \<and> fh_expected fh = map dv_cwmpID (em_devices em)
          \<and> (\<forall>d\<in>set (em_devices em). map_of (fh_perDevice fh) (dv_cwmpID d) = Some zero_stat
                \<and> deviceByCWMPID (em_devices em) (dv_cwmpID d) = Some d))"
proof -
  obtain cfg specs0 m h where dv: "nc_Devices cfg = nc_Devices cfg0" and sp: "deviceSpecs cfg = Inr specs0"
    and em: "em_devices em = map (newDeviceFromSpec m) (map (advertise h) specs0)" "mc_fleet (em_state em) = Some (newFleetHealth (map sp_CWMPID specs0))"
    by (rule emulator_fleet [OF assms(1-3)])
  note S = deviceSpecs_Inr [OF _ _ sp, unfolded dv, OF assms(3,4)]
  have ids: "map dv_cwmpID (em_devices em) = map sp_CWMPID specs0" "map dv_serial (em_devices em) = map sp_Serial specs0"
    by (simp_all add: em comp_def)
  have len: "length (em_devices em) = length (nc_Devices cfg0)"
    using arg_cong [OF S(1), of length] by (simp add: em)
  have exp: "map sp_CWMPID specs0 = map dv_cwmpID (em_devices em)" by (simp add: em comp_def)
  have "deviceByCWMPID (em_devices em) (dv_cwmpID d) = Some d" if "d \<in> set (em_devices em)" for d
    unfolding deviceByCWMPID_def using that S(5) ids(1) by (intro find_by_key) simp_all
  moreover have "map_of (fh_perDevice (newFleetHealth (map sp_CWMPID specs0))) (dv_cwmpID d) = Some zero_stat" if "d \<in> set (em_devices em)" for d
    using that by (intro newFleetHealth_stat) (simp add: exp)
  moreover have "fh_expected (newFleetHealth (map sp_CWMPID specs0)) = map dv_cwmpID (em_devices em)"
    by (simp add: newFleetHealth_def exp)
  ultimately show ?thesis using len ids(2) S(4) em(2) by simp
qed

text \<open>A fleet does not start all at once and its devices do not share a port: the delays grow with
  the position in the configuration, and the addresses the listeners bind differ.\<close>

lemma launches_apart:
  assumes "emulator_main ee = Inr em" and "loadNanolinkConfig (ee_yaml ee) (ee_file ee) = Some cfg0" "nc_Devices cfg0 \<noteq> []"
    and "\<forall>d\<in>set (nc_Devices cfg0). \<not> Contains (TrimSpace (dc_Serial d)) ''%2D''"
  shows "map la_device (em_launches em) = em_devices em"
    and "map la_delay (em_launches em) = map (\<lambda>i. int i * startStagger) [0..<length (nc_Devices cfg0)]"
    and "distinct (map la_listen (em_launches em))"
proof -
  obtain cfg specs0 m h where dv: "nc_Devices cfg = nc_Devices cfg0" and sp: "deviceSpecs cfg = Inr specs0"
    and em: "em_devices em = map (newDeviceFromSpec m) (map (advertise h) specs0)"
      "em_launches em = map (\<lambda>s. launch_of (newDeviceFromSpec m s)) (map (advertise h) specs0)"
    by (rule emulator_fleet [OF assms(1-3)])
  note S = deviceSpecs_Inr [OF _ _ sp, unfolded dv, OF assms(3,4)]
  show "map la_device (em_launches em) = em_devices em" by (simp add: em launch_of_def)
  have delay: "map la_delay (em_launches em) = map startDelay (map sp_Index specs0)"
    by (simp add: em launch_of_def newDeviceFromSpec_def advertise_def Let_def)
  show "map la_delay (em_launches em) = map (\<lambda>i. int i * startStagger) [0..<length (nc_Devices cfg0)]"
    unfolding delay S(2) by (simp add: startDelay_def)
  have "map la_listen (em_launches em) = map (\<lambda>p. '':'' @ show_int p) (map sp_CRPort specs0)"
    by (simp add: em launch_of_def newDeviceFromSpec_def advertise_def Let_def)
  also have "\<dots> = map (\<lambda>i. '':'' @ show_int (30005 + int i)) [0..<length (nc_Devices cfg0)]"
    unfolding S(3) S(2) by (simp add: crPortFor_def crPortBase_def)
  finally show "distinct (map la_listen (em_launches em))"
    by (auto simp: distinct_map inj_on_def show_int_def dest!: show_nat_inject)
qed

lemma fleet_ids:
  assumes "emulator_main ee = Inr em" and "loadNanolinkConfig (ee_yaml ee) (ee_file ee) = Some cfg0" "nc_Devices cfg0 \<noteq> []"
    and "\<forall>d\<in>set (nc_Devices cfg0). \<not> Contains (TrimSpace (dc_Serial d)) ''%2D''"
  shows "distinct (map dv_cwmpID (em_devices em))"
    and "\<forall>d\<in>set (em_devices em). dv_cwmpID d = canonicalID (dv_oui d) (dv_productClass d) (dv_serial d)"
proof -
  obtain cfg specs0 m h where dv: "nc_Devices cfg = nc_Devices cfg0" and sp: "deviceSpecs cfg = Inr specs0"
    and em: "em_devices em = map (newDeviceFromSpec m) (map (advertise h) specs0)"
    by (rule emulator_fleet [OF assms(1-3)])
  note S = deviceSpecs_Inr [OF _ _ sp, unfolded dv, OF assms(3,4)]
  show "distinct (map dv_cwmpID (em_devices em))" using S(5) by (simp add: em comp_def)
  show "\<forall>d\<in>set (em_devices em). dv_cwmpID d = canonicalID (dv_oui d) (dv_productClass d) (dv_serial d)"
    using S(6) by (auto simp: em canonicalID_agent newDeviceFromSpec_def advertise_def Let_def)
qed

definition demo_emulator :: emulator_env where
  "demo_emulator = \<lparr>ee_yaml = (\<lambda>_ _. Some demo_fleet), ee_file = Contents '''', ee_duration = (\<lambda>_. None), ee_getenv = (\<lambda>_. ''''),
     ee_hostname = None, ee_manifest = ''{}''\<rparr>"

theorem gate_tracks_fleet_witness:
  "\<exists>em. emulator_main demo_emulator = Inr em \<and> length (em_devices em) = 2 \<and> distinct (map dv_serial (em_devices em))"
proof -
  have t: "TrimSpace '' A1 '' = ''A1''" "TrimSpace ''A2'' = ''A2''" by code_simp+
  have sp: "\<exists>specs. deviceSpecs (withEnvOverrides (\<lambda>_. None) (\<lambda>_. '''') demo_fleet) = Inr specs"
    by (simp add: deviceSpecs_def demo_fleet_def t Let_def)
  then obtain em where em: "emulator_main demo_emulator = Inr em"
    by (auto simp: emulator_main_def demo_emulator_def loadNanolinkConfig_def empty_asset Let_def)
  have l: "loadNanolinkConfig (ee_yaml demo_emulator) (ee_file demo_emulator) = Some demo_fleet"
    by (simp add: demo_emulator_def loadNanolinkConfig_def)
  have "nc_Devices demo_fleet \<noteq> []" "\<forall>d\<in>set (nc_Devices demo_fleet). \<not> Contains (TrimSpace (dc_Serial d)) ''%2D''"
    by (simp_all add: demo_fleet_def t)
  from gate_tracks_fleet [OF em l this] em show ?thesis by (auto simp: demo_fleet_def)
qed

end
