(* ===== verification/DecodeTypes.thy ===== *)
theory DecodeTypes
  imports Wire
begin

text \<open>
  The type of what the agent decodes (\<open>DecodeEnvelope\<close> of \<^verbatim>\<open>src/goagent/internal/cwmp/soap.go\<close> on the structs
  of \<^verbatim>\<open>rpc.go\<close>): a text is well formed when it is valid UTF-8 within the character range of XML.
  Shown here, from the tokens up through the tree and the structs: everything the decoder hands
  on is well formed, whatever bytes were posted.
\<close>

subsection \<open>The tree\<close>

primrec node_legal :: "xnode \<Rightarrow> bool" where
  "node_legal (XText t) = legal_text t"
| "node_legal (XElem n ks) = list_all node_legal ks"

abbreviation nodes_legal :: "xnode list \<Rightarrow> bool" where
  "nodes_legal \<equiv> list_all node_legal"

definition frames_legal :: "frame list \<Rightarrow> bool" where
  "frames_legal stk \<longleftrightarrow> list_all (\<lambda>f. nodes_legal (snd f)) stk"

lemma rawToken_legal: "rawToken uni s = Some (Chars d, r) \<Longrightarrow> legal_text d"
proof -
  have x: "xml_text uni q c z = Some (d, r) \<Longrightarrow> legal_text d" for q c z
    by (auto simp: xml_text_def split: option.splits if_splits)
  have "comment z \<noteq> Some (Chars d, r)" for z
    by (auto simp: comment_def split: option.splits list.splits)
  then show "rawToken uni s = Some (Chars d, r) \<Longrightarrow> legal_text d"
    by (auto simp: rawToken_def markup_def dest!: x split: list.splits if_splits option.splits)
qed

lemma frames_legal_add: "frames_legal stk \<Longrightarrow> node_legal x \<Longrightarrow> frames_legal (add_node x stk)"
  by (cases stk) (auto simp: frames_legal_def add_node_def)

lemma close_legal:
  assumes "frames_legal stk" "close_element n stk = Some y"
  shows "case y of Inl x \<Rightarrow> node_legal x | Inr fs \<Rightarrow> frames_legal fs"
  using assms
proof (induction n stk rule: close_element.induct)
  case (1 n stk)
  from "1.prems"(2) obtain m ks fs where stk: "stk = (m, ks) # fs"
    by (subst (asm) close_element.simps) (auto split: list.splits)
  have k: "node_legal (XElem (snd m) ks)" "frames_legal fs" using "1.prems"(1) by (simp_all add: stk frames_legal_def)
  note IH = "1.IH" [OF stk refl refl]
  have c: "close_element n ((m, ks) # fs) = (if snd m \<noteq> snd n then (if fs = [] then Some (Inl (XElem (snd m) ks)) else close_element n (add_node (XElem (snd m) ks) fs))
      else if fst m \<noteq> fst n then None else if fs = [] then Some (Inl (XElem (snd m) ks)) else Some (Inr (add_node (XElem (snd m) ks) fs)))"
    by (subst close_element.simps) (simp add: Let_def)
  from "1.prems"(2) k frames_legal_add [OF k(2,1)] IH show ?case unfolding stk c by (auto split: if_splits)
qed

lemma build_legal: "frames_legal stk \<Longrightarrow> build uni stk s = Some x \<Longrightarrow> node_legal x"
proof (induction uni stk s rule: build.induct)
  case (1 uni stk s)
  from "1.prems"(2) obtain t r where t: "rawToken uni s = Some (t, r)"
    by (subst (asm) build.simps) (auto split: option.splits)
  show ?case
  proof (cases t)
    case (StartElement n as e)
    have "frames_legal ((n, []) # stk)" "frames_legal (add_node (XElem (snd n) []) stk)"
      using "1.prems"(1) by (simp_all add: frames_legal_def frames_legal_add [unfolded frames_legal_def])
    with "1.prems"(2) "1.IH"(1,2) t StartElement show ?thesis
      by (subst (asm) build.simps) (auto split: if_splits)
  next
    case (EndElement n)
    with "1.prems"(2) t obtain y where y: "close_element n stk = Some y"
      by (subst (asm) build.simps) (auto split: option.splits)
    from close_legal [OF "1.prems"(1) y] "1.prems"(2) "1.IH"(3) t EndElement y show ?thesis
      by (subst (asm) build.simps) (auto split: sum.splits)
  next
    case (Chars d)
    with rawToken_legal t have "legal_text d" by auto
    moreover have "build uni stk s = build uni (add_node (XText d) stk) r" by (subst build.simps) (simp add: t Chars)
    ultimately show ?thesis using "1.prems" "1.IH"(4) [OF t refl Chars] frames_legal_add [OF "1.prems"(1), of "XText d"] by simp
  next
    case Ignored
    moreover have "build uni stk s = build uni stk r" by (subst build.simps) (simp add: t Ignored)
    ultimately show ?thesis using "1.prems" "1.IH"(5) [OF t refl] by simp
  qed
qed

lemma legal_concat: "list_all legal_text ts \<Longrightarrow> legal_text (concat ts)"
  by (induction ts) (simp_all add: legal_text_append plain_legal)

lemma chardata_legal: "nodes_legal ks \<Longrightarrow> legal_text (chardata ks)"
  unfolding chardata_def by (rule legal_concat) (auto simp: list_all_iff plain_legal split: xnode.split)

text \<open>What a field function keeps, the loop over the fields keeps.\<close>

lemma fields_keep:
  assumes "fields f ks v = Some v'" "nodes_legal ks" "P v"
    and "\<And>n cs u u'. nodes_legal cs \<Longrightarrow> P u \<Longrightarrow> f n cs u = Some u' \<Longrightarrow> P u'"
  shows "P v'"
  using assms(1-3)
proof (induction ks arbitrary: v)
  case (Cons k ks)
  then show ?case by (cases k) (auto split: option.splits dest: assms(4))
qed simp

lemma nested_keep:
  assumes "nested el dec ks xs = Some ys" "nodes_legal ks" "list_all P xs"
    and "\<And>cs y. nodes_legal cs \<Longrightarrow> dec cs = Some y \<Longrightarrow> P y"
  shows "list_all P ys"
  by (rule fields_keep [where P = "list_all P", OF assms(1) [unfolded nested_def] assms(2,3)]) (auto dest: assms(4) split: if_splits)

subsection \<open>The structs\<close>

definition id_legal :: "DeviceIDStruct \<Rightarrow> bool" where
  "id_legal i \<longleftrightarrow> list_all legal_text [di_Manufacturer i, di_OUI i, di_ProductClass i, di_SerialNumber i]"

definition value_legal :: "ParameterValueStruct \<Rightarrow> bool" where
  "value_legal pv \<longleftrightarrow> legal_text (pv_Name pv) \<and> legal_text (vn_Text (pv_Value pv)) \<and> vn_Type (pv_Value pv) = ''''"

definition inform_legal :: "Inform \<Rightarrow> bool" where
  "inform_legal i \<longleftrightarrow> id_legal (inf_DeviceID i) \<and> list_all (\<lambda>e. legal_text (es_EventCode e) \<and> legal_text (es_CommandKey e)) (inf_Event i)
     \<and> legal_text (inf_CurrentTime i) \<and> list_all value_legal (inf_ParameterList i)"

definition transfer_legal :: "TransferComplete \<Rightarrow> bool" where
  "transfer_legal t \<longleftrightarrow> list_all legal_text [tc_CommandKey t, fs_FaultString (tc_FaultStruct t), tc_StartTime t, tc_CompleteTime t]"

definition atc_legal :: "AutonomousTransferComplete \<Rightarrow> bool" where
  "atc_legal t \<longleftrightarrow> list_all legal_text [atc_AnnounceURL t, atc_TransferURL t, atc_FileType t, atc_TargetFileName t,
     fs_FaultString (atc_FaultStruct t), atc_StartTime t, atc_CompleteTime t]"

definition fault_legal :: "Fault \<Rightarrow> bool" where
  "fault_legal f \<longleftrightarrow> list_all legal_text [f_FaultCode f, f_FaultString f, cf_FaultCode (f_Detail f), cf_FaultString (f_Detail f)]"

definition body_legal :: "Body \<Rightarrow> bool" where
  "body_legal b \<longleftrightarrow> pred_option inform_legal (b_Inform b) \<and> pred_option transfer_legal (b_TransferComplete b)
     \<and> pred_option atc_legal (b_AutonomousTransferComplete b) \<and> pred_option fault_legal (b_Fault b)
     \<and> pred_option (list_all value_legal) (b_GetParameterValuesResponse b)
     \<and> pred_option (list_all (\<lambda>p. legal_text (pi_Name p))) (b_GetParameterNamesResponse b)"

lemma legal_Nil [simp]: "legal_text []"
  by (rule plain_legal) simp

named_theorems decoded

lemma dec_id_legal [decoded]: "dec_DeviceID ks v = Some w \<Longrightarrow> nodes_legal ks \<Longrightarrow> id_legal v \<Longrightarrow> id_legal w"
  unfolding dec_DeviceID_def by (erule fields_keep) (auto simp: id_legal_def chardata_legal)

lemma dec_event_legal [decoded]:
  "dec_EventStruct ks = Some e \<Longrightarrow> nodes_legal ks \<Longrightarrow> legal_text (es_EventCode e) \<and> legal_text (es_CommandKey e)"
  unfolding dec_EventStruct_def by (erule fields_keep) (auto simp: chardata_legal)

lemma dec_value_legal [decoded]: "dec_ParameterValueStruct ks = Some pv \<Longrightarrow> nodes_legal ks \<Longrightarrow> value_legal pv"
  unfolding dec_ParameterValueStruct_def by (erule fields_keep) (auto simp: value_legal_def chardata_legal)

lemma dec_info_legal [decoded]: "dec_ParameterInfoStruct ks = Some p \<Longrightarrow> nodes_legal ks \<Longrightarrow> legal_text (pi_Name p)"
  unfolding dec_ParameterInfoStruct_def by (erule fields_keep) (auto simp: chardata_legal split: if_splits)

lemma dec_faultstruct_legal [decoded]:
  "dec_FaultStruct ks v = Some w \<Longrightarrow> nodes_legal ks \<Longrightarrow> legal_text (fs_FaultString v) \<Longrightarrow> legal_text (fs_FaultString w)"
  unfolding dec_FaultStruct_def by (erule fields_keep) (auto simp: chardata_legal split: if_splits)

lemma dec_inform_legal [decoded]: "dec_Inform ks v = Some w \<Longrightarrow> nodes_legal ks \<Longrightarrow> inform_legal v \<Longrightarrow> inform_legal w"
  unfolding dec_Inform_def
  by (erule fields_keep)
    (auto simp: inform_legal_def chardata_legal split: if_splits intro: decoded nested_keep [OF _ _ _ dec_event_legal] nested_keep [OF _ _ _ dec_value_legal])

lemma dec_transfer_legal [decoded]: "dec_TransferComplete ks v = Some w \<Longrightarrow> nodes_legal ks \<Longrightarrow> transfer_legal v \<Longrightarrow> transfer_legal w"
  unfolding dec_TransferComplete_def by (erule fields_keep) (auto simp: transfer_legal_def chardata_legal decoded split: if_splits)

lemma dec_atc_legal [decoded]: "dec_AutonomousTransferComplete ks v = Some w \<Longrightarrow> nodes_legal ks \<Longrightarrow> atc_legal v \<Longrightarrow> atc_legal w"
  unfolding dec_AutonomousTransferComplete_def by (erule fields_keep) (auto simp: atc_legal_def chardata_legal decoded split: if_splits)

lemma dec_fault_legal [decoded]: "dec_Fault ks v = Some w \<Longrightarrow> nodes_legal ks \<Longrightarrow> fault_legal v \<Longrightarrow> fault_legal w"
proof -
  have c: "dec_CWMPFault cs d = Some e \<Longrightarrow> nodes_legal cs \<Longrightarrow> legal_text (cf_FaultCode d) \<and> legal_text (cf_FaultString d)
      \<Longrightarrow> legal_text (cf_FaultCode e) \<and> legal_text (cf_FaultString e)" for cs d e
    unfolding dec_CWMPFault_def by (erule fields_keep) (auto simp: chardata_legal)
  have d: "fields (\<lambda>m cs d. if m = ''Fault'' then dec_CWMPFault cs d else Some d) cs d = Some e \<Longrightarrow> nodes_legal cs
      \<Longrightarrow> legal_text (cf_FaultCode d) \<and> legal_text (cf_FaultString d) \<Longrightarrow> legal_text (cf_FaultCode e) \<and> legal_text (cf_FaultString e)" for cs d e
    by (erule fields_keep) (auto dest: c split: if_splits)
  show "dec_Fault ks v = Some w \<Longrightarrow> nodes_legal ks \<Longrightarrow> fault_legal v \<Longrightarrow> fault_legal w"
    unfolding dec_Fault_def by (erule fields_keep) (auto simp: fault_legal_def chardata_legal dest: d split: if_splits)
qed

lemma alloc_keep: "P zero \<Longrightarrow> pred_option P p \<Longrightarrow> P (alloc zero p)"
  by (cases p) (simp_all add: alloc_def)

lemma zeros_legal: "inform_legal zero_Inform" "transfer_legal zero_TransferComplete" "atc_legal zero_AutonomousTransferComplete" "fault_legal zero_Fault"
  by (simp_all add: inform_legal_def id_legal_def transfer_legal_def atc_legal_def fault_legal_def zero_Inform_def zero_TransferComplete_def
      zero_AutonomousTransferComplete_def zero_Fault_def zero_FaultStruct_def)

lemma dec_values_legal:
  "fields (\<lambda>m cs xs. if m = ''ParameterList'' then nested ''ParameterValueStruct'' dec_ParameterValueStruct cs xs else Some xs) ks xs = Some ys
     \<Longrightarrow> nodes_legal ks \<Longrightarrow> list_all value_legal xs \<Longrightarrow> list_all value_legal ys"
  by (erule fields_keep) (auto split: if_splits elim: nested_keep [OF _ _ _ dec_value_legal])

lemma dec_infos_legal:
  "fields (\<lambda>m cs xs. if m = ''ParameterList'' then nested ''ParameterInfoStruct'' dec_ParameterInfoStruct cs xs else Some xs) ks xs = Some ys
     \<Longrightarrow> nodes_legal ks \<Longrightarrow> list_all (\<lambda>p. legal_text (pi_Name p)) xs \<Longrightarrow> list_all (\<lambda>p. legal_text (pi_Name p)) ys"
  by (erule fields_keep) (auto split: if_splits elim: nested_keep [OF _ _ _ dec_info_legal])

lemma if_SomeE: "(if c then a else b) = Some x \<Longrightarrow> (a = Some x \<Longrightarrow> P) \<Longrightarrow> (b = Some x \<Longrightarrow> P) \<Longrightarrow> P"
  by (simp split: if_splits)

lemma allocs_legal:
  "pred_option inform_legal p1 \<Longrightarrow> inform_legal (alloc zero_Inform p1)"
  "pred_option transfer_legal p2 \<Longrightarrow> transfer_legal (alloc zero_TransferComplete p2)"
  "pred_option atc_legal p3 \<Longrightarrow> atc_legal (alloc zero_AutonomousTransferComplete p3)"
  "pred_option fault_legal p4 \<Longrightarrow> fault_legal (alloc zero_Fault p4)"
  "pred_option (list_all Q) p5 \<Longrightarrow> list_all Q (alloc [] p5)"
  by (auto intro: alloc_keep zeros_legal)

lemmas members_legal = dec_inform_legal [OF _ _ allocs_legal(1)] dec_transfer_legal [OF _ _ allocs_legal(2)]
  dec_atc_legal [OF _ _ allocs_legal(3)] dec_fault_legal [OF _ _ allocs_legal(4)]
  dec_values_legal [OF _ _ allocs_legal(5)] dec_infos_legal [OF _ _ allocs_legal(5)]

lemma dec_body_legal: "dec_Body ks v = Some w \<Longrightarrow> nodes_legal ks \<Longrightarrow> body_legal v \<Longrightarrow> body_legal w"
  unfolding dec_Body_def
  by (erule fields_keep, assumption, assumption, elim if_SomeE) (auto simp: body_legal_def dest: members_legal)

text \<open>What the agent decodes is well typed: whatever bytes are posted to it, every text of an
  envelope that is accepted (identity, event codes, parameter names and values, fault texts,
  file names) is valid UTF-8 inside the character range of XML, so it can be stored,
  reported and written back to a device unchanged.\<close>

lemma decoded_text_legal:
  assumes "DecodeEnvelope uni b = Some env"
  shows "legal_text (env_ID env) \<and> body_legal (env_Body env)"
proof -
  obtain ks where ks: "parse_xml uni b = Some (XElem ''Envelope'' ks)"
    using assms by (auto simp: DecodeEnvelope_def split: option.splits xnode.splits if_splits)
  then have "nodes_legal ks" using build_legal [of "[]" uni b] by (simp add: parse_xml_def frames_legal_def)
  moreover have "body_legal empty_body" by (simp add: body_legal_def empty_body_def)
  moreover have h: "dec_Header cs i = Some j \<Longrightarrow> nodes_legal cs \<Longrightarrow> legal_text i \<Longrightarrow> legal_text j" for cs i j
    unfolding dec_Header_def by (erule fields_keep) (auto simp: chardata_legal)
  ultimately show ?thesis
    using assms ks unfolding DecodeEnvelope_def
    by (simp, elim fields_keep [where P = "\<lambda>e. legal_text (env_ID e) \<and> body_legal (env_Body e)"])
      (auto split: if_splits dest: h dec_body_legal)
qed

lemma decoded_text_legal_demo:
  "\<exists>env. DecodeEnvelope ascii_only (gpvResponseEnvelope ''7'' [(''A'', ''a<b & c'')] demo_manifest) = Some env
     \<and> body_legal (env_Body env) \<and> b_GetParameterValuesResponse (env_Body env) = Some [\<lparr>pv_Name = ''A'', pv_Value = \<lparr>vn_Type = '''', vn_Text = ''a<b & c''\<rparr>\<rparr>]"
proof -
  have "plain ''A''" by (simp add: plain_char_def between_def)
  then have "\<forall>(p, v)\<in>set [(''A'', ''a<b & c'')]. plain p \<and> legal_text v" using wire_legal(1) by (simp only: list.set ball_simps case_prod_conv simp_thms)
  note e = gpv_decoded [OF wire_legal(5) this, of ascii_only demo_manifest]
  from e decoded_text_legal [OF e] show ?thesis by (auto simp: decoded_values_def)
qed

end
