(* ===== verification/Intake.thy ===== *)
theory Intake
  imports Collector
begin

text \<open>
  The rest of the collector's intake (\<^verbatim>\<open>src/goagent/internal/collector/collector.go\<close>): the loop
  that polls the watch directory, the stamp of a directory entry, and the two parked readers
  for uncompressed logs and for the archives a device writes at power-on, which are kept
  ready though no upload is dispatched to them. Shown here: the watch is a sequence of scans
  that keeps the books and ends with the context; all three readers classify the same lines
  alike; and an archive is taken whole or not at all.
\<close>

subsection \<open>Stamps\<close>

record file_info =
  fi_size :: int
  fi_mtime_ns :: int

definition stampOf :: "file_info option \<Rightarrow> FTPStamp option" where
  "stampOf info = map_option (\<lambda>fi. \<lparr>st_Size = fi_size fi, st_ModTime = fi_mtime_ns fi\<rparr>) info"

text \<open>A directory entry as the scan sees it: both stats of it go through \<open>stampOf\<close>.\<close>

definition entry_of :: "string \<Rightarrow> bool \<Rightarrow> file_info option \<Rightarrow> file_info option \<Rightarrow> dir_entry" where
  "entry_of name isDir check now = \<lparr>de_name = name, de_isDir = isDir, de_checkStamp = stampOf check, de_stamp = stampOf now\<rparr>"

lemma stampOf_identity: "stampOf (Some a) = stampOf (Some b) \<longleftrightarrow> a = (b :: file_info)"
  by (cases a; cases b) (auto simp: stampOf_def)

text \<open>An ingested upload is parsed again exactly when its size or its time has changed.\<close>

lemma rewritten_upload:
  assumes "isLogUpload name" "map_of (col_seenPaths c) (path_join (col_ftpDir c) name) = stampOf (Some old)"
  shows "scan_entry env True (entry_of name False (Some new) now) c =
     (if new = old then c
      else try_ingest env (path_join (col_ftpDir c) name) (entry_of name False (Some new) now)
        (c\<lparr>col_seenPaths := AList.delete (path_join (col_ftpDir c) name) (col_seenPaths c)\<rparr>))"
  using assms stampOf_identity [of new old] by (auto simp: scan_entry_def entry_of_def stampOf_def Let_def)

subsection \<open>The watch\<close>

definition ScanFTP :: "scan_env \<Rightarrow> ledger_faults \<Rightarrow> int \<Rightarrow> Collector \<Rightarrow> db \<Rightarrow> Collector \<times> db" where
  "ScanFTP env lf unix c d = scanFTP env lf unix c d"

text \<open>What the \<^verbatim>\<open>select\<close> of the loop receives; what other goroutines do between two ticks acts on
  the collector and the file.\<close>

datatype watch_event = Done | TickAt scan_env ledger_faults int | Meanwhile "Collector \<times> db \<Rightarrow> Collector \<times> db"

fun watch_loop :: "watch_event list \<Rightarrow> Collector \<times> db \<Rightarrow> Collector \<times> db" where
  "watch_loop [] s = s"
| "watch_loop (Done # es) s = s"
| "watch_loop (TickAt env lf unix # es) s = watch_loop es (scanFTP env lf unix (fst s) (snd s))"
| "watch_loop (Meanwhile f # es) s = watch_loop es (f s)"

definition WatchFTP :: "watch_event list \<Rightarrow> Collector \<times> db \<Rightarrow> Collector \<times> db" where
  "WatchFTP es s = (if col_ftpDir (fst s) = '''' then s else watch_loop es s)"

fun orderly :: "watch_event \<Rightarrow> bool" where
  "orderly (Meanwhile f) \<longleftrightarrow> (\<forall>s. col_inv (fst s) \<longrightarrow> col_inv (fst (f s)))"
| "orderly _ = True"

lemma watch_keeps_books:
  assumes "col_inv (fst s)" "list_all orderly es"
  shows "col_inv (fst (WatchFTP es s))"
proof -
  have "col_inv (fst (watch_loop es s))"
    using assms by (induction es s rule: watch_loop.induct) (auto simp: books_scanFTP)
  then show ?thesis using assms(1) by (simp add: WatchFTP_def)
qed

text \<open>Draining and requeueing, as the worker does between ticks, is orderly.\<close>

lemma worker_orderly:
  "orderly (Meanwhile (\<lambda>(c, d). (snd (DrainFTP c), d)))" "orderly (Meanwhile (\<lambda>(c, d). (Requeue marks c, d)))"
  by (auto simp: DrainFTP_def Requeue_def books_ok_def marks_ok_def)

text \<open>Nothing is scanned after the context is done, and nothing at all without a directory.\<close>

lemma watch_ends: "watch_loop (es @ Done # fs) s = watch_loop es s"
  by (induction es s rule: watch_loop.induct) auto

subsection \<open>Parked readers\<close>

definition eventsFromLog :: "(string \<Rightarrow> bytes option) \<Rightarrow> scan_env \<Rightarrow> Engine \<Rightarrow> string \<Rightarrow> string \<Rightarrow> EventItem list option" where
  "eventsFromLog read_file env e path dev =
     map_option (\<lambda>b. Apply (se_hashes env) e (se_now env) (Split b (CHR 0x0A)) dev (occurrenceBucket (se_day env) path)) (read_file path)"

text \<open>An archive: \<open>None\<close> when the file or its gzip header cannot be read, otherwise what the tar
  reader yields until the end of the archive; an entry's content may break off.\<close>

datatype tar_item = TarDir | TarFile bytes bool | TarError

definition maxEntryBytes :: nat where
  "maxEntryBytes = 2 * 2 ^ 20"

fun archive_loop :: "(bytes \<Rightarrow> EventItem list) \<Rightarrow> tar_item list \<Rightarrow> EventItem list \<Rightarrow> EventItem list option" where
  "archive_loop classify_text [] out = Some out"
| "archive_loop classify_text (TarError # ts) out = None"
| "archive_loop classify_text (TarDir # ts) out = archive_loop classify_text ts out"
| "archive_loop classify_text (TarFile b broken # ts) out =
     (if length b < maxEntryBytes \<and> broken then None
      else archive_loop classify_text ts (out @ classify_text (take maxEntryBytes b)))"

definition eventsFromArchive ::
    "(string \<Rightarrow> tar_item list option) \<Rightarrow> scan_env \<Rightarrow> Engine \<Rightarrow> string \<Rightarrow> string \<Rightarrow> EventItem list option" where
  "eventsFromArchive untar env e path dev =
     (case untar path of
        None \<Rightarrow> None
      | Some ts \<Rightarrow> archive_loop (\<lambda>b. Apply (se_hashes env) e (se_now env) (Split b (CHR 0x0A)) dev (occurrenceBucket (se_day env) path)) ts [])"

fun readable :: "tar_item \<Rightarrow> bool" where
  "readable TarDir = True"
| "readable (TarFile b broken) = (\<not> (length b < maxEntryBytes \<and> broken))"
| "readable TarError = False"

fun item_lines :: "tar_item \<Rightarrow> string list" where
  "item_lines (TarFile b broken) = Split (take maxEntryBytes b) (CHR 0x0A)"
| "item_lines _ = []"

lemma archive_loop_eq:
  "archive_loop (\<lambda>b. Apply h e now (Split b (CHR 0x0A)) dev bucket) ts out =
     (if list_all readable ts then Some (out @ Apply h e now (concat (map item_lines ts)) dev bucket) else None)"
  by (induction ts arbitrary: out rule: list.induct) (simp_all add: Apply_eq, case_tac x1, auto simp: Apply_eq)

text \<open>An archive is taken whole or not at all: a break in any entry discards the archive, so that
  no half of it is marked as done; otherwise its events are those of all lines of all
  entries, in order, as if they had come in one log.\<close>

theorem archive_all_or_nothing:
  "eventsFromArchive untar env e path dev =
     (case untar path of
        None \<Rightarrow> None
      | Some ts \<Rightarrow> if list_all readable ts
          then Some (Apply (se_hashes env) e (se_now env) (concat (map item_lines ts)) dev (occurrenceBucket (se_day env) path)) else None)"
  by (simp add: eventsFromArchive_def archive_loop_eq split: option.split)

text \<open>The readers agree: the same text, uploaded bare, compressed or as the one entry of an
  archive under the same name, yields the same events, as long as it is within the limits.\<close>

theorem readers_agree:
  assumes "length b < maxEntryBytes" "read_file path = Some b" "se_gunzip env path = Some (b, False)" "untar path = Some [TarDir, TarFile b False]"
  shows "eventsFromLog read_file env e path dev = eventsFromGzipLog env e path dev
     \<and> eventsFromArchive untar env e path dev = eventsFromGzipLog env e path dev"
  using assms by (simp add: archive_all_or_nothing eventsFromLog_def eventsFromGzipLog_def maxEntryBytes_def maxLogBytes_def)

end
