(* ===== verification/FileLayout.thy ===== *)
theory FileLayout
  imports BufferDb
begin

text \<open>
  The physical side of the buffer file (\<^verbatim>\<open>src/goagent/internal/buffer/sqlite.go\<close>): the switch to
  incremental vacuum at open, the return of free pages after drains and evictions, and the
  close of the handle. The file is of any type; what SQLite does for the five pragmas and
  the one \<^verbatim>\<open>VACUUM\<close> is the record \<open>pragmas\<close>, each of which may fail (\<open>None\<close>). Shown here, for a
  SQLite that keeps its word: none of this changes a table, a file is rebuilt at most once in
  its life, and the slack of a converted file stays below the threshold.
\<close>

record 'f pragmas =
  pg_auto_vacuum :: "'f \<Rightarrow> int option"
  pg_set_incremental :: "'f \<Rightarrow> 'f option"
  pg_vacuum :: "'f \<Rightarrow> 'f option"
  pg_freelist_count :: "'f \<Rightarrow> int option"
  pg_page_size :: "'f \<Rightarrow> int option"
  pg_incremental_vacuum :: "'f \<Rightarrow> 'f option"

definition reclaimThresholdBytes :: int where
  "reclaimThresholdBytes = 4 * 2 ^ 20"

text \<open>A mode that cannot be read counts as zero, as the unset variable of the code does.\<close>

definition vacuum_mode :: "'f pragmas \<Rightarrow> 'f \<Rightarrow> int" where
  "vacuum_mode pg f = (case pg_auto_vacuum pg f of Some m \<Rightarrow> m | None \<Rightarrow> 0)"

definition ensureIncrementalVacuum :: "'f pragmas \<Rightarrow> 'f \<Rightarrow> 'f" where
  "ensureIncrementalVacuum pg f =
     (if vacuum_mode pg f = 2 then f
      else case pg_set_incremental pg f of
        None \<Rightarrow> f
      | Some f1 \<Rightarrow>
          if vacuum_mode pg f1 = 2 then f1
          else case pg_vacuum pg f1 of None \<Rightarrow> f1 | Some f2 \<Rightarrow> f2)"

definition reclaimFreePages :: "'f pragmas \<Rightarrow> string \<Rightarrow> 'f \<Rightarrow> 'f" where
  "reclaimFreePages pg path f =
     (if path = '':memory:'' then f
      else case pg_freelist_count pg f of
        None \<Rightarrow> f
      | Some free \<Rightarrow> (case pg_page_size pg f of
          None \<Rightarrow> f
        | Some pageSize \<Rightarrow>
            if free * pageSize < reclaimThresholdBytes then f
            else case pg_incremental_vacuum pg f of None \<Rightarrow> f | Some f' \<Rightarrow> f'))"

text \<open>\<open>Open\<close> with the file: the vacuum mode is settled before the schema, except in memory.\<close>

definition open_layout :: "'f pragmas \<Rightarrow> string \<Rightarrow> 'f \<Rightarrow> 'f" where
  "open_layout pg path f = (if path \<noteq> '':memory:'' then ensureIncrementalVacuum pg f else f)"

definition Close :: "(Buffer \<Rightarrow> 'e option) \<Rightarrow> Buffer option \<Rightarrow> 'e option" where
  "Close close b = (case b of None \<Rightarrow> None | Some h \<Rightarrow> close h)"

subsection \<open>What SQLite documents\<close>

text \<open>Vacuuming moves pages and no content; after the mode is set, the file is in incremental mode
  at once or after the next full vacuum; an incremental vacuum in that mode empties the free
  list and keeps the mode and the page size.\<close>

definition keeps_tables :: "'f pragmas \<Rightarrow> ('f \<Rightarrow> db) \<Rightarrow> bool" where
  "keeps_tables pg tables \<longleftrightarrow>
     (\<forall>f f'. f' \<in> set_option (pg_set_incremental pg f) \<union> set_option (pg_vacuum pg f) \<union> set_option (pg_incremental_vacuum pg f)
        \<longrightarrow> tables f' = tables f)"

definition converts :: "'f pragmas \<Rightarrow> bool" where
  "converts pg \<longleftrightarrow> (\<forall>f f1 f2. pg_set_incremental pg f = Some f1 \<longrightarrow> pg_vacuum pg f1 = Some f2 \<longrightarrow> pg_auto_vacuum pg f2 = Some 2)"

definition frees_pages :: "'f pragmas \<Rightarrow> bool" where
  "frees_pages pg \<longleftrightarrow> (\<forall>f f'. pg_auto_vacuum pg f = Some 2 \<longrightarrow> pg_incremental_vacuum pg f = Some f'
     \<longrightarrow> pg_freelist_count pg f' = Some 0 \<and> pg_page_size pg f' = pg_page_size pg f \<and> pg_auto_vacuum pg f' = Some 2)"

text \<open>Upkeep of the file never touches the data: opening it and returning its free pages leave
  every table as it was, whichever of the steps fail.\<close>

theorem upkeep_keeps_tables:
  assumes "keeps_tables pg tables"
  shows "tables (open_layout pg path f) = tables f \<and> tables (reclaimFreePages pg path f) = tables f"
proof -
  have k: "pg_set_incremental pg g = Some g' \<Longrightarrow> tables g' = tables g" "pg_vacuum pg g = Some g' \<Longrightarrow> tables g' = tables g"
    "pg_incremental_vacuum pg g = Some g' \<Longrightarrow> tables g' = tables g" for g g'
    using assms unfolding keeps_tables_def by (metis UnCI option.set_intros)+
  show ?thesis
    by (auto simp: open_layout_def ensureIncrementalVacuum_def reclaimFreePages_def k split: option.split)
qed

text \<open>One rebuild in the life of a file: when no step fails, the file is in incremental mode
  afterwards, and every later open leaves it alone.\<close>

lemma converted_once:
  assumes "converts pg" "\<And>g. pg_set_incremental pg g \<noteq> None" "\<And>g. pg_vacuum pg g \<noteq> None"
  shows "vacuum_mode pg (ensureIncrementalVacuum pg f) = 2"
    and "ensureIncrementalVacuum pg (ensureIncrementalVacuum pg f) = ensureIncrementalVacuum pg f"
proof -
  obtain f1 where f1: "pg_set_incremental pg f = Some f1" using assms(2) [of f] by auto
  obtain f2 where f2: "pg_vacuum pg f1 = Some f2" using assms(3) [of f1] by auto
  show *: "vacuum_mode pg (ensureIncrementalVacuum pg f) = 2"
    using assms(1) f1 f2 by (auto simp: ensureIncrementalVacuum_def vacuum_mode_def converts_def)
  show "ensureIncrementalVacuum pg (ensureIncrementalVacuum pg f) = ensureIncrementalVacuum pg f"
    by (subst ensureIncrementalVacuum_def) (simp add: *)
qed

text \<open>The slack of a converted file is bounded by the threshold after every reclaim that SQLite
  carries out, and a smaller slack is left alone.\<close>

lemma reclaim_bounds_slack:
  assumes "frees_pages pg" "pg_auto_vacuum pg f = Some 2" "path \<noteq> '':memory:''"
    and "pg_freelist_count pg f = Some free" "pg_page_size pg f = Some psz" "pg_incremental_vacuum pg f \<noteq> None"
  shows "\<exists>free'. pg_freelist_count pg (reclaimFreePages pg path f) = Some free' \<and> free' * psz < reclaimThresholdBytes"
    and "free * psz < reclaimThresholdBytes \<Longrightarrow> reclaimFreePages pg path f = f"
proof -
  obtain f' where f': "pg_incremental_vacuum pg f = Some f'" using assms(6) by auto
  then have "pg_freelist_count pg f' = Some 0" using assms(1,2) by (auto simp: frees_pages_def)
  then show "\<exists>free'. pg_freelist_count pg (reclaimFreePages pg path f) = Some free' \<and> free' * psz < reclaimThresholdBytes"
    using assms(3-5) f' by (auto simp: reclaimFreePages_def reclaimThresholdBytes_def)
qed (use assms in \<open>simp add: reclaimFreePages_def\<close>)

subsection \<open>Witness\<close>

text \<open>A file by its mode, the mode asked for, its free pages and its tables: an old file switches
  mode when it is rebuilt.\<close>

record paged_file =
  pf_mode :: int
  pf_wanted :: int
  pf_free :: int
  pf_db :: db

definition paged :: "paged_file pragmas" where
  "paged = \<lparr>pg_auto_vacuum = (\<lambda>f. Some (pf_mode f)), pg_set_incremental = (\<lambda>f. Some (f\<lparr>pf_wanted := 2\<rparr>)),
     pg_vacuum = (\<lambda>f. Some (f\<lparr>pf_mode := pf_wanted f, pf_free := 0\<rparr>)), pg_freelist_count = (\<lambda>f. Some (pf_free f)),
     pg_page_size = (\<lambda>_. Some 4096), pg_incremental_vacuum = (\<lambda>f. Some (if pf_mode f = 2 then f\<lparr>pf_free := 0\<rparr> else f))\<rparr>"

lemma paged_lawful: "keeps_tables paged pf_db" "converts paged" "frees_pages paged"
  by (auto simp: keeps_tables_def converts_def frees_pages_def paged_def)

theorem upkeep_keeps_tables_witness:
  "pf_db (open_layout paged ''b.sqlite'' \<lparr>pf_mode = 0, pf_wanted = 0, pf_free = 5000, pf_db = init_db\<rparr>) = init_db
     \<and> pf_mode (open_layout paged ''b.sqlite'' \<lparr>pf_mode = 0, pf_wanted = 0, pf_free = 5000, pf_db = init_db\<rparr>) = 2"
  using upkeep_keeps_tables [OF paged_lawful(1), of "''b.sqlite''" "\<lparr>pf_mode = 0, pf_wanted = 0, pf_free = 5000, pf_db = init_db\<rparr>"]
  by (simp add: open_layout_def ensureIncrementalVacuum_def vacuum_mode_def paged_def)

end
