(* ===== verification/CloudWire.thy ===== *)
theory CloudWire
  imports Agent MockCloud
begin

text \<open>
  The mock cloud as the agent sees it (\<^verbatim>\<open>src/testsuite/cloud.go\<close> behind HTTP): what its handlers read of
  the bodies the agent posts, the envelopes it answers with, and the transport they make for the
  agent's client. A handler ignores errors of the decoder and works with what it has read. The
  clock and the floats are arguments.

  Shown here: what the cloud reads of a batch, a snapshot, a heartbeat or an acknowledgement is what
  the agent put in, and the agent reads the commands the cloud has for it until it has
  acknowledged them, which one tick of its command loop does for all of them; a flush of the outbox reaches the cloud, the failure it stages at first
  included; what a batch is that cannot be encoded; and what a fault injection writes.
\<close>

subsection \<open>What the handlers read\<close>

definition read_body :: "'a dec \<Rightarrow> 'a \<Rightarrow> bytes \<Rightarrow> 'a" where
  "read_body d zero b = (case json_decode b of None \<Rightarrow> zero | Some v \<Rightarrow> fst (d v zero))"

definition dec_heartbeat :: "string list dec" where
  "dec_heartbeat = d_struct [''devices''] (\<lambda>n. d_list (d_struct [''cwmp_id''] (\<lambda>n. d_string)) [])"

definition dec_metric_body :: "(string \<Rightarrow> string option) \<Rightarrow> metric_body dec" where
  "dec_metric_body fl = d_struct [''cwmp_id'', ''metrics''] (\<lambda>n v y.
     if n = ''cwmp_id'' then into d_string v (mb_CWMPID y) (\<lambda>z. y\<lparr>mb_CWMPID := z\<rparr>)
     else into (d_map fl) v (mb_Metrics y) (\<lambda>z. y\<lparr>mb_Metrics := z\<rparr>))"

definition dec_event_body :: "event_body dec" where
  "dec_event_body = d_struct [''cwmp_id'', ''event_type'', ''dedup_key''] (\<lambda>n v y.
     if n = ''cwmp_id'' then into d_string v (eb_CWMPID y) (\<lambda>z. y\<lparr>eb_CWMPID := z\<rparr>)
     else if n = ''event_type'' then into d_string v (eb_EventType y) (\<lambda>z. y\<lparr>eb_EventType := z\<rparr>)
     else into d_string v (eb_DedupKey y) (\<lambda>z. y\<lparr>eb_DedupKey := z\<rparr>))"

definition dec_telemetry :: "(string \<Rightarrow> string option) \<Rightarrow> (metric_body list \<times> event_body list) dec" where
  "dec_telemetry fl = d_struct [''metrics'', ''events''] (\<lambda>n v y.
     if n = ''metrics'' then
       into (d_list (dec_metric_body fl) \<lparr>mb_CWMPID = [], mb_Metrics = []\<rparr>) v (fst y) (\<lambda>z. (z, snd y))
     else into (d_list dec_event_body \<lparr>eb_CWMPID = [], eb_EventType = [], eb_DedupKey = []\<rparr>) v (snd y) (\<lambda>z. (fst y, z)))"

definition dec_snapshot :: "(string \<Rightarrow> string option) \<Rightarrow> any_map dec" where
  "dec_snapshot fl = d_struct [''params''] (\<lambda>n. d_map fl)"

definition dec_ack :: "string dec" where
  "dec_ack = d_struct [''status''] (\<lambda>n. d_string)"

subsection \<open>What it answers\<close>

text \<open>The fixtures are maps; a command and its payload in that form.\<close>

definition write_any :: "Write \<Rightarrow> any" where
  "write_any w = VMap [(''path'', VString (wr_Path w)), (''value'', wr_Value w), (''xsd_type'', VString (wr_XSDType w))]"

definition payload_any :: "CommandPayload \<Rightarrow> any" where
  "payload_any pl = VMap (
     (if pl_Writes pl = [] then [] else [(''writes'', VList (map write_any (pl_Writes pl)))])
     @ (if pl_ReadPaths pl = [] then [] else [(''read_paths'', VList (map VString (pl_ReadPaths pl)))]))"

definition command_any :: "Command \<Rightarrow> any" where
  "command_any c = VMap [(''id'', VString (cmd_ID c)), (''device_id'', VString (cmd_DeviceID c)), (''cwmp_id'', VString (cmd_CWMPID c)),
     (''type'', VString (cmd_Type c)), (''payload'', payload_any (cmd_Payload c))]"

text \<open>\<^verbatim>\<open>writeJSON\<close>: an encoder ends its value with a line feed; an error of it leaves no body.\<close>

definition writeJSON :: "any \<Rightarrow> bytes" where
  "writeJSON v = (case json_of_any v of None \<Rightarrow> [] | Some j \<Rightarrow> json_print j @ [CHR 0x0A])"

definition envelope :: "string \<Rightarrow> any \<Rightarrow> bytes" where
  "envelope now dat = writeJSON (VMap [(''success'', VBool True), (''timestamp'', VString now), (''data'', dat), (''errors'', VList [])])"

definition poll_data :: "string \<Rightarrow> Command list \<Rightarrow> any" where
  "poll_data now cmds = VMap [(''server_time'', VString now), (''commands'', VList (map command_any cmds))]"

subsection \<open>Routes\<close>

text \<open>The handler a path belongs to; the path is the one of the request, decoded. These are the paths the
  agent asks for: the pages for operators are left out, and so are the redirects of paths with an
  empty or a dotted segment.\<close>

definition route :: "(string \<Rightarrow> string option) \<Rightarrow> string \<Rightarrow> bytes \<Rightarrow> cloud_request option" where
  "route fl path body =
     (if path = ''/v1/agent/register'' then Some RegisterReq
      else if path = ''/v1/agent/heartbeat'' then Some (HeartbeatReq (read_body dec_heartbeat [] body))
      else if path = ''/v1/agent/telemetry'' then
        (case read_body (dec_telemetry fl) ([], []) body of (ms, es) \<Rightarrow> Some (TelemetryReq ms es))
      else if path = ''/v1/agent/poll'' then Some PollReq
      else if prefix ''/v1/agent/devices/'' path then Some (DevicesReq path (read_body (dec_snapshot fl) [] body))
      else if prefix ''/v1/agent/commands/'' path then Some (CommandsReq path (read_body dec_ack [] body))
      else None)"

definition answer :: "string \<Rightarrow> cloud_request \<Rightarrow> cloud_reply \<Rightarrow> http_result" where
  "answer now req r = (case r of
     Accepted \<Rightarrow> Response 200 (envelope now (case req of
         RegisterReq \<Rightarrow> VMap [(''edge_id'', VString ''11111111-1111-1111-1111-111111111111'')]
       | TelemetryReq _ _ \<Rightarrow> VMap [(''metrics'', VFloat ''1''), (''events'', VFloat ''1'')]
       | _ \<Rightarrow> VMap []))
   | CommandList cmds \<Rightarrow> Response 200 (envelope now (poll_data now cmds))
   | ServiceUnavailable \<Rightarrow> Response 503 (''forced telemetry failure'' @ [CHR 0x0A])
   | _ \<Rightarrow> Response 404 (''404 page not found'' @ [CHR 0x0A]))"

definition serve :: "(string \<Rightarrow> string option) \<Rightarrow> string \<Rightarrow> string \<Rightarrow> bytes \<Rightarrow> device list \<times> state \<Rightarrow> (device list \<times> state) \<times> http_result" where
  "serve fl now path body s =
     (case route fl path body of
        None \<Rightarrow> (s, Response 404 (''404 page not found'' @ [CHR 0x0A]))
      | Some req \<Rightarrow> (case cloudMux req s of (r, s') \<Rightarrow> (s', answer now req r)))"

text \<open>The transport of a client whose base is the address of the cloud.\<close>

definition cloud_http :: "(string \<Rightarrow> string option) \<Rightarrow> string \<Rightarrow> string \<Rightarrow> (device list \<times> state) transport" where
  "cloud_http fl now base s req =
     serve fl now (PathUnescape (TrimPrefix (hr_url req) base)) (case hr_body req of None \<Rightarrow> [] | Some b \<Rightarrow> b) s"

subsection \<open>Batches are understood\<close>

text \<open>The members the handlers have no field for.\<close>

lemma other_members:
  "resolve [''cwmp_id'', ''metrics''] ''ts'' = None" "resolve [''cwmp_id'', ''metrics''] ''tier'' = None"
  "resolve [''cwmp_id'', ''event_type'', ''dedup_key''] ''ts'' = None" "resolve [''cwmp_id'', ''event_type'', ''dedup_key''] ''module'' = None"
  "resolve [''cwmp_id'', ''event_type'', ''dedup_key''] ''severity'' = None" "resolve [''cwmp_id'', ''event_type'', ''dedup_key''] ''message'' = None"
  "resolve [''cwmp_id'', ''event_type'', ''dedup_key''] ''attrs'' = None" "resolve [''metrics'', ''events''] ''alarms'' = None"
  "resolve [''params''] ''source'' = None" "resolve [''status''] ''result'' = None"
  "resolve [''success'', ''message'', ''data''] ''errors'' = None" "resolve [''success'', ''message'', ''data''] ''timestamp'' = None"
  by (simp_all add: resolve_plain name_char_def between_def)

lemma other_inventory_members:
  "resolve [''cwmp_id''] ''serial_number'' = None" "resolve [''cwmp_id''] ''product_class'' = None" "resolve [''cwmp_id''] ''admin_lan_ip'' = None"
  "resolve [''cwmp_id''] ''wan_ip'' = None" "resolve [''cwmp_id''] ''sw_version'' = None" "resolve [''cwmp_id''] ''rf_tx_status'' = None"
  "resolve [''cwmp_id''] ''op_state'' = None" "resolve [''cwmp_id''] ''last_inform_at'' = None"
  by (simp_all add: resolve_plain name_char_def between_def)

lemma member_found: "k \<in> set ns \<Longrightarrow> resolve ns k = Some k"
  by (simp add: resolve_def)

lemmas fills = fill_def into_def d_string_def fold_omitempty other_members member_found

text \<open>A text can be carried by JSON when it is valid UTF-8; a batch, when its texts and values can.\<close>

definition metric_ok :: "(string \<Rightarrow> string option) \<Rightarrow> nat \<Rightarrow> MetricSample \<Rightarrow> bool" where
  "metric_ok fl d m \<longleftrightarrow> valid_utf8 (ms_CWMPID m) \<and> valid_utf8 (ms_Timestamp m) \<and> map_ok fl d (ms_Metrics m)"

definition event_ok :: "(string \<Rightarrow> string option) \<Rightarrow> nat \<Rightarrow> EventItem \<Rightarrow> bool" where
  "event_ok fl d e \<longleftrightarrow> list_all valid_utf8 [ev_CWMPID e, ev_Timestamp e, ev_Module e, ev_EventType e, ev_Severity e, ev_Message e, ev_DedupKey e]
     \<and> map_ok fl d (ev_Attrs e)"

definition alarm_ok :: "AlarmItem \<Rightarrow> bool" where
  "alarm_ok a \<longleftrightarrow> list_all valid_utf8 [al_CWMPID a, al_Timestamp a, al_Severity a, al_AlarmType a, al_Message a]"

definition telemetry_ok :: "(string \<Rightarrow> string option) \<Rightarrow> nat \<Rightarrow> TelemetryRequest \<Rightarrow> bool" where
  "telemetry_ok fl d r \<longleftrightarrow> d + 3 \<le> maxNestingDepth \<and> list_all (metric_ok fl d) (tq_Metrics r) \<and> list_all (event_ok fl d) (tq_Events r)
     \<and> list_all alarm_ok (tq_Alarms r)"

text \<open>What the cloud sees of a sample and of an event.\<close>

definition metric_seen :: "MetricSample \<Rightarrow> metric_body" where
  "metric_seen m = \<lparr>mb_CWMPID = ms_CWMPID m, mb_Metrics = map_norm (ms_Metrics m)\<rparr>"

definition event_seen :: "EventItem \<Rightarrow> event_body" where
  "event_seen e = \<lparr>eb_CWMPID = ev_CWMPID e, eb_EventType = ev_EventType e, eb_DedupKey = ev_DedupKey e\<rparr>"

lemma metric_round_trip:
  assumes "metric_ok fl d m"
  shows "\<exists>j. json_MetricSample m = Some j \<and> json_ok j (d + 1) \<and> dec_metric_body fl j \<lparr>mb_CWMPID = [], mb_Metrics = []\<rparr> = (metric_seen m, True)"
proof -
  obtain b where b: "json_map (ms_Metrics m) = Some b" "json_ok b d" "d_map fl b [] = (map_norm (ms_Metrics m), True)"
    using assms map_round_trip [of fl d "ms_Metrics m"] by (auto simp: metric_ok_def)
  let ?j = "JObj [(''cwmp_id'', JStr (ms_CWMPID m)), (''ts'', JStr (ms_Timestamp m)), (''tier'', JNum (show_int (ms_Tier m))), (''metrics'', b)]"
  have "json_MetricSample m = Some ?j" by (simp add: json_MetricSample_def obj_def b(1))
  moreover have "json_ok ?j (d + 1)" using assms b(2) by (simp add: metric_ok_def num_ok_show_int)
  moreover have "dec_metric_body fl ?j \<lparr>mb_CWMPID = [], mb_Metrics = []\<rparr> = (metric_seen m, True)"
    unfolding dec_metric_body_def d_struct_fill by (simp add: fills b(3) metric_seen_def)
  ultimately show ?thesis by blast
qed

lemma event_round_trip:
  assumes "event_ok fl d e"
  shows "\<exists>j. json_EventItem e = Some j \<and> json_ok j (d + 1) \<and> dec_event_body j \<lparr>eb_CWMPID = [], eb_EventType = [], eb_DedupKey = []\<rparr> = (event_seen e, True)"
proof -
  obtain b where b: "json_map (ev_Attrs e) = Some b" "json_ok b d"
    using assms map_round_trip [of fl d "ev_Attrs e"] by (auto simp: event_ok_def)
  let ?fs = "[(''cwmp_id'', str (ev_CWMPID e)), (''ts'', str (ev_Timestamp e)), (''module'', str (ev_Module e)),
     (''event_type'', str (ev_EventType e)), (''severity'', str (ev_Severity e))]
     @ omitempty (ev_Message e = []) ''message'' (str (ev_Message e)) @ omitempty (ev_Attrs e = []) ''attrs'' (Some b)
     @ omitempty (ev_DedupKey e = []) ''dedup_key'' (str (ev_DedupKey e))"
  let ?j = "JObj (map (\<lambda>f. (fst f, the (snd f))) ?fs)"
  have "json_EventItem e = Some ?j" unfolding json_EventItem_def b(1) by (rule obj_Some) (auto simp: set_omitempty)
  moreover have "json_ok ?j (d + 1)" using assms b(2) unfolding json_ok_composite by (auto simp: set_omitempty event_ok_def)
  moreover have "dec_event_body ?j \<lparr>eb_CWMPID = [], eb_EventType = [], eb_DedupKey = []\<rparr> = (event_seen e, True)"
    unfolding dec_event_body_def d_struct_fill by (cases e) (simp add: fills event_seen_def)
  ultimately show ?thesis by blast
qed

lemma alarm_printed:
  assumes "alarm_ok a"
  shows "\<exists>j. json_AlarmItem a = Some j \<and> json_ok j 1"
proof -
  let ?fs = "[(''cwmp_id'', str (al_CWMPID a)), (''ts'', str (al_Timestamp a)), (''severity'', str (al_Severity a))]
     @ omitempty (al_AlarmType a = []) ''alarm_type'' (str (al_AlarmType a))
     @ omitempty (al_Message a = []) ''message'' (str (al_Message a)) @ [(''active'', Some (JBool (al_Active a)))]"
  have "json_AlarmItem a = Some (JObj (map (\<lambda>f. (fst f, the (snd f))) ?fs))"
    unfolding json_AlarmItem_def by (rule obj_Some) (auto simp: set_omitempty)
  moreover have "json_ok (JObj (map (\<lambda>f. (fst f, the (snd f))) ?fs)) 1"
    using assms unfolding json_ok_composite by (auto simp: set_omitempty alarm_ok_def)
  ultimately show ?thesis by blast
qed

lemma batch_printed:
  assumes "telemetry_ok fl d r"
  obtains ms where "json_TelemetryRequest r = Some (JObj ms)" "json_ok (JObj ms) maxNestingDepth"
    "dec_telemetry fl (JObj ms) ([], []) = ((map metric_seen (tq_Metrics r), map event_seen (tq_Events r)), True)"
proof -
  define fm where "fm m = the (json_MetricSample m)" for m
  define fe where "fe e = the (json_EventItem e)" for e
  define fa where "fa a = the (json_AlarmItem a)" for a
  have m: "json_MetricSample m = Some (fm m)" "json_ok (fm m) (d + 1)" "dec_metric_body fl (fm m) \<lparr>mb_CWMPID = [], mb_Metrics = []\<rparr> = (metric_seen m, True)"
    if "m \<in> set (tq_Metrics r)" for m
    using metric_round_trip [of fl d m] assms that by (auto simp: telemetry_ok_def list_all_iff fm_def)
  have e: "json_EventItem e = Some (fe e)" "json_ok (fe e) (d + 1)" "dec_event_body (fe e) \<lparr>eb_CWMPID = [], eb_EventType = [], eb_DedupKey = []\<rparr> = (event_seen e, True)"
    if "e \<in> set (tq_Events r)" for e
    using event_round_trip [of fl d e] assms that by (auto simp: telemetry_ok_def list_all_iff fe_def)
  have a: "json_AlarmItem a = Some (fa a)" "json_ok (fa a) 1" if "a \<in> set (tq_Alarms r)" for a
    using alarm_printed [of a] assms that by (auto simp: telemetry_ok_def list_all_iff fa_def)
  have lists: "arr (map json_MetricSample (tq_Metrics r)) = Some (JArr (map fm (tq_Metrics r)))"
    "arr (map json_EventItem (tq_Events r)) = Some (JArr (map fe (tq_Events r)))"
    "arr (map json_AlarmItem (tq_Alarms r)) = Some (JArr (map fa (tq_Alarms r)))"
    by (rule arr_Some, use m e a in blast)+
  let ?fs = "omitempty (tq_Metrics r = []) ''metrics'' (Some (JArr (map fm (tq_Metrics r))))
     @ omitempty (tq_Events r = []) ''events'' (Some (JArr (map fe (tq_Events r))))
     @ omitempty (tq_Alarms r = []) ''alarms'' (Some (JArr (map fa (tq_Alarms r))))"
  let ?ms = "map (\<lambda>f. (fst f, the (snd f))) ?fs"
  have j: "json_TelemetryRequest r = Some (JObj ?ms)" unfolding json_TelemetryRequest_def lists by (rule obj_Some) (auto simp: set_omitempty)
  have depth: "d + 1 \<le> maxNestingDepth - 2" "1 \<le> maxNestingDepth - 2" "0 < maxNestingDepth - 1" using assms by (auto simp: telemetry_ok_def)
  have "json_ok (JArr (map fm (tq_Metrics r))) (maxNestingDepth - 1)" "json_ok (JArr (map fe (tq_Events r))) (maxNestingDepth - 1)"
    "json_ok (JArr (map fa (tq_Alarms r))) (maxNestingDepth - 1)"
    unfolding json_ok_composite using depth json_ok_mono [OF m(2) depth(1)] json_ok_mono [OF e(2) depth(1)] json_ok_mono [OF a(2) depth(2)]
    by (simp_all add: numeral_2_eq_2)
  then have "json_ok (JObj ?ms) maxNestingDepth"
    unfolding json_ok_composite(2) using depth by (auto simp: set_omitempty simp del: json_ok.simps(5,6))
  moreover have "d_list (dec_metric_body fl) \<lparr>mb_CWMPID = [], mb_Metrics = []\<rparr> (JArr (map fm (tq_Metrics r))) [] = (map metric_seen (tq_Metrics r), True)"
    "d_list dec_event_body \<lparr>eb_CWMPID = [], eb_EventType = [], eb_DedupKey = []\<rparr> (JArr (map fe (tq_Events r))) [] = (map event_seen (tq_Events r), True)"
    by (rule d_list_fresh, use m(3) e(3) in blast)+
  then have "dec_telemetry fl (JObj ?ms) ([], []) = ((map metric_seen (tq_Metrics r), map event_seen (tq_Events r)), True)"
    unfolding dec_telemetry_def d_struct_fill by (simp add: fills)
  ultimately show thesis using that j by blast
qed

text \<open>The lines of a log may hold any bytes; what arrives of an event has proper texts.\<close>

definition clean_event :: "EventItem \<Rightarrow> EventItem" where
  "clean_event e = \<lparr>ev_CWMPID = fix_utf8 (ev_CWMPID e), ev_Timestamp = fix_utf8 (ev_Timestamp e), ev_Module = fix_utf8 (ev_Module e),
     ev_EventType = fix_utf8 (ev_EventType e), ev_Severity = fix_utf8 (ev_Severity e), ev_Message = fix_utf8 (ev_Message e),
     ev_Attrs = map (map_prod id clean_any) (ev_Attrs e), ev_DedupKey = fix_utf8 (ev_DedupKey e)\<rparr>"

definition clean_batch :: "TelemetryRequest \<Rightarrow> TelemetryRequest" where
  "clean_batch r = r\<lparr>tq_Events := map clean_event (tq_Events r)\<rparr>"

lemma clean_batch_fields:
  "tq_Metrics (clean_batch r) = tq_Metrics r" "tq_Events (clean_batch r) = map clean_event (tq_Events r)" "tq_Alarms (clean_batch r) = tq_Alarms r"
  by (simp_all add: clean_batch_def)

lemma json_clean_event:
  assumes "keys_valid (VMap (ev_Attrs e))"
  shows "json_EventItem (clean_event e) = map_option clean (json_EventItem e)"
proof -
  have a: "json_map (map (map_prod id clean_any) (ev_Attrs e)) = map_option clean (json_map (ev_Attrs e))"
    using clean_of_any [OF assms] by (simp only: json_map_def clean_any.simps)
  show ?thesis unfolding json_EventItem_def
    by (subst obj_clean [symmetric]) (simp_all add: clean_event_def a omitempty_clean, simp add: omitempty_def)
qed

lemma json_clean_batch:
  assumes "telemetry_ok fl d (clean_batch r)" "\<forall>e\<in>set (tq_Events r). keys_valid (VMap (ev_Attrs e))"
  shows "json_TelemetryRequest (clean_batch r) = map_option clean (json_TelemetryRequest r)"
proof -
  have "map_option clean (json_MetricSample m) = json_MetricSample m" if "m \<in> set (tq_Metrics r)" for m
    using metric_round_trip [of fl d m] json_ok_fits assms(1) that by (fastforce simp: telemetry_ok_def clean_batch_def list_all_iff)
  then have m: "map json_MetricSample (tq_Metrics r) = map (map_option clean) (map json_MetricSample (tq_Metrics r))" by simp
  have "map_option clean (json_AlarmItem a) = json_AlarmItem a" if "a \<in> set (tq_Alarms r)" for a
    using alarm_printed [of a] json_ok_fits assms(1) that by (fastforce simp: telemetry_ok_def clean_batch_def list_all_iff)
  then have a: "map json_AlarmItem (tq_Alarms r) = map (map_option clean) (map json_AlarmItem (tq_Alarms r))" by simp
  have e: "map json_EventItem (tq_Events (clean_batch r)) = map (map_option clean) (map json_EventItem (tq_Events r))"
    using json_clean_event assms(2) by (simp add: clean_batch_fields)
  have c: "arr (map json_MetricSample (tq_Metrics (clean_batch r))) = map_option clean (arr (map json_MetricSample (tq_Metrics r)))"
    "arr (map json_EventItem (tq_Events (clean_batch r))) = map_option clean (arr (map json_EventItem (tq_Events r)))"
    "arr (map json_AlarmItem (tq_Alarms (clean_batch r))) = map_option clean (arr (map json_AlarmItem (tq_Alarms r)))"
    unfolding clean_batch_fields(1,3) arr_clean [symmetric] m [symmetric] a [symmetric] e by (rule refl)+
  show ?thesis unfolding json_TelemetryRequest_def c
    by (subst obj_clean [symmetric]) (simp_all add: omitempty_clean clean_batch_def, simp add: omitempty_def)
qed

lemma batch_understood:
  assumes "telemetry_ok fl d (clean_batch r)" "\<forall>e\<in>set (tq_Events r). keys_valid (VMap (ev_Attrs e))"
  shows "route fl ''/v1/agent/telemetry'' (marshalTelemetry r) =
     Some (TelemetryReq (map metric_seen (tq_Metrics r)) (map event_seen (map clean_event (tq_Events r))))"
proof -
  obtain ms where b: "json_TelemetryRequest (clean_batch r) = Some (JObj ms)" "json_ok (JObj ms) maxNestingDepth"
    "dec_telemetry fl (JObj ms) ([], []) = ((map metric_seen (tq_Metrics r), map event_seen (map clean_event (tq_Events r))), True)"
    using batch_printed [OF assms(1)] unfolding clean_batch_fields by blast
  obtain j where j: "json_TelemetryRequest r = Some j" "clean j = JObj ms" using b(1) json_clean_batch [OF assms] by auto
  have "json_fits j maxNestingDepth" using json_ok_fits [OF b(2)] by (metis j(2) json_fits_clean)
  then have "json_decode (marshalTelemetry r) = Some (JObj ms)"
    by (simp add: marshalTelemetry_def Marshal_def j json_reading(2))
  then show ?thesis by (simp add: route_def read_body_def b(3))
qed

subsection \<open>The other posts are understood\<close>

definition snapshot_ok :: "(string \<Rightarrow> string option) \<Rightarrow> nat \<Rightarrow> SnapshotRequest \<Rightarrow> bool" where
  "snapshot_ok fl d r \<longleftrightarrow> d + 1 \<le> maxNestingDepth \<and> map_ok fl d (sn_Params r) \<and> valid_utf8 (sn_Source r)"

lemma snapshot_understood:
  assumes "snapshot_ok fl d r"
  obtains b where "Marshal json_SnapshotRequest r = Some b"
    "route fl (PathUnescape (snapshot_path i)) b = Some (DevicesReq (''/v1/agent/devices/'' @ i @ ''/config-snapshot'') (map_norm (sn_Params r)))"
proof -
  obtain p where p: "json_map (sn_Params r) = Some p" "json_ok p d" "d_map fl p [] = (map_norm (sn_Params r), True)"
    using assms map_round_trip [of fl d "sn_Params r"] by (auto simp: snapshot_ok_def)
  let ?j = "JObj [(''params'', p), (''source'', JStr (sn_Source r))]"
  have d: "d \<le> maxNestingDepth - 1" using assms by (auto simp: snapshot_ok_def)
  have "Marshal json_SnapshotRequest r = Some (json_print ?j)" by (simp add: Marshal_def json_SnapshotRequest_def obj_def p(1))
  moreover have "json_ok ?j maxNestingDepth"
    unfolding json_ok_composite using assms json_ok_mono [OF p(2) d] by (simp add: snapshot_ok_def maxNestingDepth_def)
  then have "json_decode (json_print ?j) = Some ?j" by (rule json_round_trip)
  then have "read_body (dec_snapshot fl) [] (json_print ?j) = map_norm (sn_Params r)"
    unfolding read_body_def dec_snapshot_def by (simp add: d_struct_fill fills p(3))
  ultimately show thesis using that by (simp add: route_def snapshot_path_seen)
qed

definition ack_ok :: "(string \<Rightarrow> string option) \<Rightarrow> nat \<Rightarrow> AckRequest \<Rightarrow> bool" where
  "ack_ok fl d a \<longleftrightarrow> d + 3 \<le> maxNestingDepth \<and> valid_utf8 (ack_Status a) \<and> result_ok fl d (ack_Result a)"

lemma ack_understood:
  assumes "ack_ok fl d a"
  obtains b where "Marshal json_AckRequest a = Some b"
    "route fl (PathUnescape (ack_path i)) b = Some (CommandsReq (''/v1/agent/commands/'' @ i @ ''/ack'') (ack_Status a))"
proof -
  obtain r where r: "json_AckResult (ack_Result a) = Some r" "json_ok r (d + 2)"
    using assms result_round_trip [of fl d "ack_Result a"] by (metis ack_ok_def)
  let ?j = "JObj [(''status'', JStr (ack_Status a)), (''result'', r)]"
  have d: "d + 2 \<le> maxNestingDepth - 1" using assms by (auto simp: ack_ok_def)
  have "Marshal json_AckRequest a = Some (json_print ?j)" by (simp add: Marshal_def json_AckRequest_def obj_def r(1))
  moreover have "json_ok ?j maxNestingDepth"
    unfolding json_ok_composite using assms json_ok_mono [OF r(2) d] by (simp add: ack_ok_def maxNestingDepth_def)
  then have "json_decode (json_print ?j) = Some ?j" by (rule json_round_trip)
  then have "read_body dec_ack [] (json_print ?j) = ack_Status a"
    unfolding read_body_def dec_ack_def by (simp add: d_struct_fill fills)
  ultimately show thesis using that by (simp add: route_def ack_path_seen)
qed

definition inventory_ok :: "InventoryItem \<Rightarrow> bool" where
  "inventory_ok i \<longleftrightarrow> list_all valid_utf8 [inv_CWMPID i, inv_SerialNumber i, inv_ProductClass i, inv_AdminLANIP i, inv_WANIP i,
     inv_SWVersion i, inv_LastInformAt i]"

lemma inventory_round_trip:
  assumes "inventory_ok i"
  shows "\<exists>j. json_InventoryItem i = Some j \<and> json_ok j 1 \<and> d_struct [''cwmp_id''] (\<lambda>n. d_string) j [] = (inv_CWMPID i, True)"
proof -
  let ?fs = "[(''cwmp_id'', str (inv_CWMPID i))]
     @ omitempty (inv_SerialNumber i = []) ''serial_number'' (str (inv_SerialNumber i))
     @ omitempty (inv_ProductClass i = []) ''product_class'' (str (inv_ProductClass i))
     @ omitempty (inv_AdminLANIP i = []) ''admin_lan_ip'' (str (inv_AdminLANIP i))
     @ omitempty (inv_WANIP i = []) ''wan_ip'' (str (inv_WANIP i))
     @ omitempty (inv_SWVersion i = []) ''sw_version'' (str (inv_SWVersion i))
     @ omitempty (inv_RFTxStatus i = None) ''rf_tx_status'' (map_option JBool (inv_RFTxStatus i))
     @ omitempty (inv_OpState i = None) ''op_state'' (map_option JBool (inv_OpState i))
     @ omitempty (inv_LastInformAt i = []) ''last_inform_at'' (str (inv_LastInformAt i))"
  let ?j = "JObj (map (\<lambda>f. (fst f, the (snd f))) ?fs)"
  have "json_InventoryItem i = Some ?j" unfolding json_InventoryItem_def by (rule obj_Some) (auto simp: set_omitempty)
  moreover have "json_ok ?j 1" using assms unfolding json_ok_composite by (auto simp: set_omitempty inventory_ok_def)
  moreover have "d_struct [''cwmp_id''] (\<lambda>n. d_string) ?j [] = (inv_CWMPID i, True)"
    unfolding d_struct_fill by (simp add: fills other_inventory_members)
  ultimately show ?thesis by blast
qed

lemma heartbeat_understood:
  assumes "list_all inventory_ok (hb_Devices r)"
  obtains b where "Marshal json_HeartbeatRequest r = Some b"
    "route fl ''/v1/agent/heartbeat'' b = Some (HeartbeatReq (map inv_CWMPID (hb_Devices r)))"
proof -
  define f where "f i = the (json_InventoryItem i)" for i
  have i: "json_InventoryItem i = Some (f i)" "json_ok (f i) 1" "d_struct [''cwmp_id''] (\<lambda>n. d_string) (f i) [] = (inv_CWMPID i, True)"
    if "i \<in> set (hb_Devices r)" for i
    using inventory_round_trip [of i] assms that by (auto simp: list_all_iff f_def)
  have l: "arr (map json_InventoryItem (hb_Devices r)) = Some (JArr (map f (hb_Devices r)))"
    "d_list (d_struct [''cwmp_id''] (\<lambda>n. d_string)) [] (JArr (map f (hb_Devices r))) [] = (map inv_CWMPID (hb_Devices r), True)"
    using i by (simp_all add: arr_Some d_list_fresh)
  let ?j = "JObj [(''devices'', JArr (map f (hb_Devices r)))]"
  have "Marshal json_HeartbeatRequest r = Some (json_print ?j)" by (simp add: Marshal_def json_HeartbeatRequest_def obj_def l(1))
  moreover have "1 \<le> maxNestingDepth - 1 - 1" "0 < maxNestingDepth - 1" "0 < maxNestingDepth" by (simp_all add: maxNestingDepth_def)
  then have "json_ok ?j maxNestingDepth" unfolding json_ok_composite using json_ok_mono [OF i(2)] by (simp add: json_ok_composite del: json_ok.simps(5,6))
  then have "json_decode (json_print ?j) = Some ?j" by (rule json_round_trip)
  then have "read_body dec_heartbeat [] (json_print ?j) = map inv_CWMPID (hb_Devices r)"
    unfolding read_body_def dec_heartbeat_def by (simp add: d_struct_fill fills l(2))
  ultimately show thesis using that by (simp add: route_def)
qed

subsection \<open>The agent reads the commands\<close>

lemma list_printed: "(\<forall>v\<in>set vs. json_of_any (f v) = Some (g v)) \<Longrightarrow> json_of_any (VList (map f vs)) = Some (JArr (map g vs))"
  using those_map [of vs "\<lambda>v. json_of_any (f v)" g] by (simp add: comp_def)

definition write_ok :: "(string \<Rightarrow> string option) \<Rightarrow> Write \<Rightarrow> bool" where
  "write_ok fl w \<longleftrightarrow> valid_utf8 (wr_Path w) \<and> valid_utf8 (wr_XSDType w) \<and> any_ok fl (wr_Value w) 100 \<and> any_norm (wr_Value w) = wr_Value w"

text \<open>A command as the fixtures have them: no values to verify, no rollback.\<close>

definition command_ok :: "(string \<Rightarrow> string option) \<Rightarrow> Command \<Rightarrow> bool" where
  "command_ok fl c \<longleftrightarrow> list_all valid_utf8 ([cmd_ID c, cmd_DeviceID c, cmd_CWMPID c, cmd_Type c] @ pl_ReadPaths (cmd_Payload c))
     \<and> list_all (write_ok fl) (pl_Writes (cmd_Payload c)) \<and> pl_Verify (cmd_Payload c) = [] \<and> \<not> pl_RollbackOnFail (cmd_Payload c)"

definition write_json :: "Write \<Rightarrow> json" where
  "write_json w = JObj [(''path'', JStr (wr_Path w)), (''value'', json_ok_any (wr_Value w)), (''xsd_type'', JStr (wr_XSDType w))]"

definition payload_json :: "CommandPayload \<Rightarrow> json" where
  "payload_json pl = JObj ((if pl_ReadPaths pl = [] then [] else [(''read_paths'', JArr (map JStr (pl_ReadPaths pl)))])
     @ (if pl_Writes pl = [] then [] else [(''writes'', JArr (map write_json (pl_Writes pl)))]))"

definition command_json :: "Command \<Rightarrow> json" where
  "command_json c = JObj [(''cwmp_id'', JStr (cmd_CWMPID c)), (''device_id'', JStr (cmd_DeviceID c)), (''id'', JStr (cmd_ID c)),
     (''payload'', payload_json (cmd_Payload c)), (''type'', JStr (cmd_Type c))]"

lemma write_round_trip:
  assumes "write_ok fl w"
  shows "json_of_any (write_any w) = Some (write_json w)" "json_ok (write_json w) 101" "dec_Write fl (write_json w) zero_Write = (w, True)"
proof -
  have v: "json_of_any (wr_Value w) = Some (json_ok_any (wr_Value w))" "json_ok (json_ok_any (wr_Value w)) 100"
    "d_any fl (json_ok_any (wr_Value w)) VNil = (wr_Value w, True)"
    using any_round_trip [of fl "wr_Value w" 100] assms by (simp_all add: write_ok_def d_any_fresh)
  show "json_of_any (write_any w) = Some (write_json w)" by (simp add: write_any_def write_json_def v(1) less_eq_list_code less_char_def)
  show "json_ok (write_json w) 101" using assms v(2) by (simp add: write_json_def write_ok_def)
  show "dec_Write fl (write_json w) zero_Write = (w, True)"
    unfolding dec_Write_def write_json_def d_struct_fill by (cases w) (use v(3) in \<open>simp add: fills zero_Write_def\<close>)
qed

lemma payload_round_trip:
  assumes "command_ok fl c"
  shows "json_of_any (payload_any (cmd_Payload c)) = Some (payload_json (cmd_Payload c))" "json_ok (payload_json (cmd_Payload c)) 103"
    "dec_CommandPayload fl (payload_json (cmd_Payload c)) \<lparr>pl_Writes = [], pl_Verify = [], pl_RollbackOnFail = False, pl_ReadPaths = []\<rparr> = (cmd_Payload c, True)"
proof -
  let ?pl = "cmd_Payload c"
  have w: "write_ok fl w" if "w \<in> set (pl_Writes ?pl)" for w using assms that by (auto simp: command_ok_def list_all_iff)
  have r: "valid_utf8 p" if "p \<in> set (pl_ReadPaths ?pl)" for p using assms that by (auto simp: command_ok_def list_all_iff)
  have p: "json_of_any (VList (map write_any (pl_Writes ?pl))) = Some (JArr (map write_json (pl_Writes ?pl)))"
    "json_of_any (VList (map VString (pl_ReadPaths ?pl))) = Some (JArr (map JStr (pl_ReadPaths ?pl)))"
    using write_round_trip(1) [OF w] by (simp_all add: list_printed del: json_of_any.simps(5))
  then show "json_of_any (payload_any ?pl) = Some (payload_json ?pl)"
    by (simp add: payload_any_def payload_json_def less_eq_list_code less_char_def del: json_of_any.simps(5))
  show "json_ok (payload_json ?pl) 103"
    unfolding payload_json_def json_ok_composite using write_round_trip(2) [OF w] r
    by (auto simp: json_ok_composite simp del: json_ok.simps(5,6))
  have l: "d_list (dec_Write fl) zero_Write (JArr (map write_json (pl_Writes ?pl))) [] = (pl_Writes ?pl, True)"
    "d_list d_string [] (JArr (map JStr (pl_ReadPaths ?pl))) [] = (pl_ReadPaths ?pl, True)"
    using d_list_fresh [of "pl_Writes ?pl" "dec_Write fl" write_json zero_Write "\<lambda>w. w"] write_round_trip(3) [OF w]
      d_list_fresh [of "pl_ReadPaths ?pl" d_string JStr "[]" "\<lambda>p. p"] by (simp_all add: d_string_def)
  show "dec_CommandPayload fl (payload_json ?pl) \<lparr>pl_Writes = [], pl_Verify = [], pl_RollbackOnFail = False, pl_ReadPaths = []\<rparr> = (?pl, True)"
    unfolding dec_CommandPayload_def payload_json_def d_struct_fill
    using l assms by (cases ?pl) (auto simp: fills command_ok_def)
qed

lemma command_round_trip_json:
  assumes "command_ok fl c"
  shows "json_of_any (command_any c) = Some (command_json c)" "json_ok (command_json c) 104" "dec_Command fl (command_json c) zero_Command = (c, True)"
proof -
  note p = payload_round_trip [OF assms]
  show "json_of_any (command_any c) = Some (command_json c)"
    by (simp add: command_any_def command_json_def p(1) less_eq_list_code less_char_def)
  show "json_ok (command_json c) 104" using assms p(2) by (simp add: command_json_def command_ok_def)
  show "dec_Command fl (command_json c) zero_Command = (c, True)"
    unfolding dec_Command_def command_json_def d_struct_fill by (cases c) (use p(3) in \<open>simp add: fills zero_Command_def\<close>)
qed

lemma poll_understood:
  assumes "list_all (command_ok fl) cmds" "valid_utf8 now"
  shows "poll_envelope fl (envelope now (poll_data now cmds)) = Some cmds"
proof -
  have c: "command_ok fl c" if "c \<in> set cmds" for c using assms(1) that by (auto simp: list_all_iff)
  let ?cs = "JArr (map command_json cmds)"
  let ?d = "JObj [(''commands'', ?cs), (''server_time'', JStr now)]"
  let ?j = "JObj [(''data'', ?d), (''errors'', JArr []), (''success'', JBool True), (''timestamp'', JStr now)]"
  have "json_of_any (VList (map command_any cmds)) = Some ?cs" using command_round_trip_json(1) [OF c] by (simp add: list_printed del: json_of_any.simps(5))
  then have "json_of_any (poll_data now cmds) = Some ?d"
    by (simp add: poll_data_def less_eq_list_code less_char_def del: json_of_any.simps(5))
  then have e: "envelope now (poll_data now cmds) = json_print ?j @ [CHR 0x0A]"
    by (simp add: envelope_def writeJSON_def less_eq_list_code less_char_def)
  have "json_ok ?cs 105" unfolding json_ok_composite using command_round_trip_json(2) [OF c] by simp
  then have "json_ok ?j 107" using assms(2) by (simp add: json_ok_composite del: json_ok.simps(5,6))
  then have "json_ok ?j maxNestingDepth" by (rule json_ok_mono) (simp add: maxNestingDepth_def)
  then have "json_decode (envelope now (poll_data now cmds)) = Some ?j" unfolding e by (rule decode_object)
  moreover have "dec_envelope ?j \<lparr>re_Success = False, re_Message = [], re_Data = None\<rparr> = (\<lparr>re_Success = True, re_Message = [], re_Data = Some ?d\<rparr>, True)"
    unfolding dec_envelope_def d_struct_fill by (simp add: fills d_bool_def)
  moreover have "d_list (dec_Command fl) zero_Command ?cs [] = (cmds, True)"
    using d_list_fresh [of cmds "dec_Command fl" command_json zero_Command "\<lambda>c. c"] command_round_trip_json(3) [OF c] by simp
  then have "dec_PollData fl ?d \<lparr>pd_ServerTime = [], pd_Commands = []\<rparr> = (\<lparr>pd_ServerTime = now, pd_Commands = cmds\<rparr>, True)"
    unfolding dec_PollData_def d_struct_fill by (simp add: fills)
  ultimately show ?thesis by (simp add: poll_envelope_def decodeEnvelope_def)
qed

subsection \<open>A batch on its way to the cloud\<close>

text \<open>A client whose base is the cloud's address, with or without the version.\<close>

definition points_at :: "string \<Rightarrow> Client \<Rightarrow> bool" where
  "points_at base c \<longleftrightarrow> cl_base c = base \<and> \<not> HasSuffix base ''/v1'' \<or> cl_base c = base @ ''/v1''"

lemma url_points: "points_at base c \<Longrightarrow> url c (''/v1/'' @ p) = base @ ''/v1/'' @ p"
  using TrimPrefix_append [of "''/v1''" "''/'' @ p"] by (auto simp: points_at_def url_def suffix_def)

text \<open>A batch that is accepted; the staged failure is behind the cloud then.\<close>

definition counted :: "device list \<Rightarrow> metric_body list \<Rightarrow> event_body list \<Rightarrow> state \<Rightarrow> state" where
  "counted devices ms es st = snd (handle_telemetry devices ms es (st\<lparr>mc_failures := max 1 (mc_failures st)\<rparr>))"

lemma telemetry_path: "PathUnescape ''/v1/agent/telemetry'' = ''/v1/agent/telemetry''"
  using PathUnescape_plain [of "''/v1/agent/telemetry''" "[]"] by simp

lemma send_counted:
  assumes "points_at base c" "url_ok (base @ ''/v1/agent/telemetry'')" "\<And>i. \<not> cancelled i"
    and r: "route fl ''/v1/agent/telemetry'' body = Some (TelemetryReq ms es)"
  shows "SendTelemetryRaw (cloud_http fl now base) cancelled url_ok c body (devices, st) = ((devices, counted devices ms es st), None)"
proof -
  have u: "url c ''/v1/agent/telemetry'' = base @ ''/v1/agent/telemetry''" using url_points [OF assms(1), of "''agent/telemetry''"] by simp
  let ?req = "\<lparr>hr_method = ''POST'', hr_url = base @ ''/v1/agent/telemetry'', hr_key = cl_apiKey c, hr_body = Some body\<rparr>"
  have http: "cloud_http fl now base (devices, s) ?req = (if mc_failures s = 0
      then ((devices, s\<lparr>mc_failures := 1\<rparr>), Response 503 (''forced telemetry failure'' @ [CHR 0x0A]))
      else ((devices, snd (handle_telemetry devices ms es s)), answer now (TelemetryReq ms es) Accepted))" for s
    by (simp add: cloud_http_def serve_def telemetry_path r handle_telemetry_def answer_def)
  have ok: "attempts (cloud_http fl now base) cancelled ?req i l (devices, s) =
      ((devices, snd (handle_telemetry devices ms es s)), Inr (envelope now (VMap [(''metrics'', VFloat ''1''), (''events'', VFloat ''1'')])))"
    if "0 < mc_failures s" "i < 3" for s i l
    using that by (subst attempts.simps) (simp add: http answer_def)
  have "attempts (cloud_http fl now base) cancelled ?req 0 None (devices, st) =
      ((devices, counted devices ms es st), Inr (envelope now (VMap [(''metrics'', VFloat ''1''), (''events'', VFloat ''1'')])))"
  proof (cases "mc_failures st = 0")
    case True
    then show ?thesis using ok [of "st\<lparr>mc_failures := 1\<rparr>" 1 "Some (Response 503 (''forced telemetry failure'' @ [CHR 0x0A]))"] assms(3) by (subst attempts.simps) (simp add: http counted_def)
  next
    case False
    then show ?thesis using ok [of st 0] by (simp add: counted_def max_def Suc_le_eq)
  qed
  then show ?thesis using assms(2) by (simp add: SendTelemetryRaw_def call_def doRaw_def u)
qed

lemma drain_all:
  assumes "db_ok d" "outbox d = batch @ rest" "\<And>r w. r \<in> set batch \<Longrightarrow> send w (ob_kind r) (ob_body r) = (step (ob_body r) w, None)"
  shows "drain_loop no_faults send batch w d = (None, fold step (map ob_body batch) w, d\<lparr>outbox := rest\<rparr>)"
  using assms
proof (induction batch arbitrary: d w)
  case (Cons r batch)
  let ?d = "d\<lparr>outbox := batch @ rest\<rparr>"
  have "ids_ok (map ob_id (r # batch @ rest)) (outbox_seq d)" using db_ok_outbox [OF Cons.prems(1)] Cons.prems(2) by simp
  from filter_head_id [OF this] have f: "filter (\<lambda>q. ob_id q \<noteq> ob_id r) (outbox d) = batch @ rest" using Cons.prems(2) by simp
  have "db_ok ?d" using db_ok_drop [OF Cons.prems(1), of 1] Cons.prems(2) by simp
  then have "drain_loop no_faults send batch (step (ob_body r) w) ?d = (None, fold step (map ob_body batch) (step (ob_body r) w), d\<lparr>outbox := rest\<rparr>)"
    using Cons.IH [of ?d] Cons.prems(3) by simp
  then show ?case using Cons.prems(3) [of r w] f by simp
qed simp

text \<open>The bodies of a split batch encode requests that share out its events in order.\<close>

definition sub_batch :: "TelemetryRequest \<Rightarrow> TelemetryRequest \<Rightarrow> bool" where
  "sub_batch q r \<longleftrightarrow> set (tq_Metrics q) \<subseteq> set (tq_Metrics r) \<and> set (tq_Events q) \<subseteq> set (tq_Events r) \<and> set (tq_Alarms q) \<subseteq> set (tq_Alarms r)"

lemma split_requests:
  "\<exists>reqs. map tp_body (split_parts marshal cap r start) = map marshal reqs \<and> concat (map tq_Events reqs) = tq_Events r
     \<and> (\<forall>q\<in>set reqs. sub_batch q r)"
proof (induction r start rule: split_induct [of marshal cap])
  case (whole r start)
  then show ?case by (intro exI [of _ "[r]"]) (simp add: split_whole sub_batch_def)
next
  case (node r start)
  obtain as where as: "map tp_body (split_parts marshal cap (left_half r) start) = map marshal as" "concat (map tq_Events as) = tq_Events (left_half r)"
    "\<forall>q\<in>set as. sub_batch q (left_half r)" using node(3) by blast
  obtain bs where bs: "map tp_body (split_parts marshal cap (right_half r) (start + half r)) = map marshal bs"
    "concat (map tq_Events bs) = tq_Events (right_half r)" "\<forall>q\<in>set bs. sub_batch q (right_half r)" using node(4) by blast
  have "sub_batch q (left_half r) \<Longrightarrow> sub_batch q r" "sub_batch q (right_half r) \<Longrightarrow> sub_batch q r" for q
    using set_take_subset [of "half r" "tq_Events r"] set_drop_subset [of "half r" "tq_Events r"] by (auto simp: sub_batch_def)
  then show ?case using as bs node(1) by (intro exI [of _ "as @ bs"]) (auto simp: split_node)
qed

lemma counted_counts:
  assumes "\<forall>e\<in>set es. eb_DedupKey e \<noteq> ''''"
  shows "set (mc_seenDedup (counted devices ms es st)) = set (mc_seenDedup st) \<union> eb_DedupKey ` set es"
    "mc_events (counted devices ms es st) = mc_events st + card (eb_DedupKey ` set es - set (mc_seenDedup st))"
    "mc_telemetry (counted devices ms es st) = mc_telemetry st + 1"
proof -
  have m: "mc_telemetry (fold (count_metric devices) ms s) = mc_telemetry s" for s
    by (induction ms arbitrary: s) (simp_all add: count_metric_def on_stat_def split: option.split)
  have e: "mc_telemetry (fold count_event es s) = mc_telemetry s" for s
    by (induction es arbitrary: s) (simp_all add: count_event_def on_stat_def Let_def split: option.split)
  show "set (mc_seenDedup (counted devices ms es st)) = set (mc_seenDedup st) \<union> eb_DedupKey ` set es"
    "mc_events (counted devices ms es st) = mc_events st + card (eb_DedupKey ` set es - set (mc_seenDedup st))"
    "mc_telemetry (counted devices ms es st) = mc_telemetry st + 1"
    using count_events [OF assms] by (simp_all add: counted_def handle_telemetry_def m e)
qed

definition count_batch :: "device list \<Rightarrow> TelemetryRequest \<Rightarrow> state \<Rightarrow> state" where
  "count_batch devices q = counted devices (map metric_seen (tq_Metrics q)) (map event_seen (map clean_event (tq_Events q)))"

abbreviation keys_of :: "TelemetryRequest list \<Rightarrow> string set" where
  "keys_of qs \<equiv> ev_DedupKey ` set (concat (map tq_Events qs))"

lemma count_batches:
  assumes "\<forall>q\<in>set qs. \<forall>e\<in>set (tq_Events q). ev_DedupKey e \<noteq> '''' \<and> valid_utf8 (ev_DedupKey e)"
  shows "set (mc_seenDedup (fold (count_batch devices) qs st)) = set (mc_seenDedup st) \<union> keys_of qs
    \<and> mc_events (fold (count_batch devices) qs st) = mc_events st + card (keys_of qs - set (mc_seenDedup st))
    \<and> mc_telemetry (fold (count_batch devices) qs st) = mc_telemetry st + length qs"
  using assms
proof (induction qs arbitrary: st)
  case (Cons q qs)
  let ?K = "ev_DedupKey ` set (tq_Events q)" and ?S = "set (mc_seenDedup st)"
  have "eb_DedupKey (event_seen (clean_event e)) = ev_DedupKey e" if "e \<in> set (tq_Events q)" for e
    using Cons.prems that by (simp add: event_seen_def clean_event_def)
  then have k: "eb_DedupKey ` set (map event_seen (map clean_event (tq_Events q))) = ?K" by (auto simp: image_iff)
  then have "\<forall>e\<in>set (map event_seen (map clean_event (tq_Events q))). eb_DedupKey e \<noteq> ''''"
    using Cons.prems by (simp add: event_seen_def clean_event_def)
  note c = counted_counts [OF this, where devices = devices and ms = "map metric_seen (tq_Metrics q)" and st = st, folded count_batch_def, unfolded k]
  have "keys_of (q # qs) - ?S = (?K - ?S) \<union> (keys_of qs - (?S \<union> ?K))" by auto
  then have "card (keys_of (q # qs) - ?S) = card (?K - ?S) + card (keys_of qs - (?S \<union> ?K))"
    by (simp only:) (rule card_Un_disjoint; auto)
  then show ?case using Cons.IH [of "count_batch devices q st"] Cons.prems c by auto
qed simp

text \<open>C9. From the agent's outbox to the cloud's books: when the bodies of a split batch are in the
  outbox, one flush delivers them all, the staged failure is absorbed by the retry, the outbox is
  empty, and the cloud has counted every distinct event of the batch once. The events may carry
  any bytes a log has had; their keys are texts.\<close>

theorem telemetry_reaches_cloud:
  assumes "telemetry_ok fl d (clean_batch req)"
    and "\<forall>e\<in>set (tq_Events req). keys_valid (VMap (ev_Attrs e)) \<and> valid_utf8 (ev_DedupKey e) \<and> ev_DedupKey e \<noteq> ''''"
    and "map ob_body (outbox (buf_db b)) = map tp_body (splitTelemetry marshalTelemetry req cap)"
    and "\<forall>r\<in>set (outbox (buf_db b)). ob_kind r = ''telemetry''" "db_ok (buf_db b)" "length (outbox (buf_db b)) \<le> 100"
    and "points_at base c" "url_ok (base @ ''/v1/agent/telemetry'')" "\<forall>w i. \<not> cancelled w i"
    and "flushOutbox no_faults (\<lambda>w body. SendTelemetryRaw (cloud_http fl now base) (cancelled w) url_ok c body w) (devices, st) b = ((devices', st'), b')"
  shows "devices' = devices \<and> outbox (buf_db b') = []
     \<and> mc_telemetry st' = mc_telemetry st + length (outbox (buf_db b))
     \<and> set (mc_seenDedup st') = set (mc_seenDedup st) \<union> ev_DedupKey ` set (tq_Events req)
     \<and> mc_events st' = mc_events st + card (ev_DedupKey ` set (tq_Events req) - set (mc_seenDedup st))"
proof -
  let ?rows = "outbox (buf_db b)"
  let ?post = "\<lambda>body w. (fst w, case route fl ''/v1/agent/telemetry'' body of Some (TelemetryReq ms es) \<Rightarrow> counted (fst w) ms es (snd w) | _ \<Rightarrow> snd w)"
  obtain qs where qs: "map ob_body ?rows = map marshalTelemetry qs" "concat (map tq_Events qs) = tq_Events req" "\<forall>q\<in>set qs. sub_batch q req"
    using split_requests [of marshalTelemetry cap req 0] assms(3) unfolding splitTelemetry_def by auto
  have ok: "telemetry_ok fl d (clean_batch q)" if "q \<in> set qs" for q
    using assms(1) qs(3) that by (fastforce simp: telemetry_ok_def clean_batch_def sub_batch_def list_all_iff)
  have keys: "\<forall>e\<in>set (tq_Events q). keys_valid (VMap (ev_Attrs e))" if "q \<in> set qs" for q
    using assms(2) qs(3) that unfolding sub_batch_def by blast
  have seen: "route fl ''/v1/agent/telemetry'' (marshalTelemetry q) = Some (TelemetryReq (map metric_seen (tq_Metrics q)) (map event_seen (map clean_event (tq_Events q))))"
    if "q \<in> set qs" for q using batch_understood [OF ok [OF that] keys [OF that]] .
  have send: "flush_send (\<lambda>w body. SendTelemetryRaw (cloud_http fl now base) (cancelled w) url_ok c body w) w (ob_kind r) (ob_body r) = (?post (ob_body r) w, None)"
    if "r \<in> set ?rows" for r w
  proof -
    have "ob_body r \<in> marshalTelemetry ` set qs" using qs(1) that by (metis image_eqI image_set)
    then obtain q where q: "q \<in> set qs" "ob_body r = marshalTelemetry q" by blast
    have "\<not> cancelled w i" for i using assms(9) by blast
    then show ?thesis using assms(4) that send_counted [where url_ok = url_ok, OF assms(7,8) _ seen [OF q(1)], of "cancelled w" now "fst w" "snd w"]
      by (simp add: flush_send_def q(2) seen [OF q(1)])
  qed
  let ?send = "\<lambda>w body. SendTelemetryRaw (cloud_http fl now base) (cancelled w) url_ok c body w"
  have dr: "drain_loop no_faults (flush_send ?send) ?rows (devices, st) (buf_db b) = (None, fold ?post (map marshalTelemetry qs) (devices, st), (buf_db b)\<lparr>outbox := []\<rparr>)"
    unfolding qs(1) [symmetric] by (rule drain_all [OF assms(5), where step = ?post]) (simp, rule send)
  have fd: "fold ?post (map marshalTelemetry ps) (dv, s) = (dv, fold (count_batch dv) ps s)" if "set ps \<subseteq> set qs" for dv s ps
    using that by (induction ps arbitrary: s) (simp_all add: count_batch_def seen)
  have "take 100 ?rows = ?rows" using assms(6) by simp
  then have "flushOutbox no_faults ?send (devices, st) b = ((devices, fold (count_batch devices) qs st), b\<lparr>buf_db := (buf_db b)\<lparr>outbox := []\<rparr>\<rparr>)"
    by (simp only: flushOutbox_def Drain_def rows_by_id_ok [OF assms(5)] dr fd [OF order_refl] if_False prod.case Let_def)
  then have r: "devices' = devices" "st' = fold (count_batch devices) qs st" "outbox (buf_db b') = []"
    unfolding assms(10) by simp_all
  have "\<forall>q\<in>set qs. \<forall>e\<in>set (tq_Events q). ev_DedupKey e \<noteq> '''' \<and> valid_utf8 (ev_DedupKey e)"
    using assms(2) unfolding qs(2) [symmetric] by simp
  note n = count_batches [OF this, of devices st]
  have "length qs = length ?rows" using qs(1) by (metis length_map)
  then show ?thesis using n unfolding r qs(2) by simp
qed

subsection \<open>Commands on their way to the agent\<close>

lemma fixtures_ok:
  assumes "valid_utf8 (dv_cwmpID (hd devices))"
  shows "list_all (command_ok fl) (handle_poll devices st)"
proof -
  have "list_all valid_utf8 [configureCommandID, queryCommandID, rebootCommandID, refSignalPowerPath, configuredRSPower,
      ''00000000-0000-0000-0000-000000000201'', ''configure'', ''query'', ''reboot'', ''xsd:string'']"
    by (simp add: configureCommandID_def queryCommandID_def rebootCommandID_def refSignalPowerPath_def configuredRSPower_def)
  then have "command_ok fl (configureCommand (dv_cwmpID (hd devices)))" "command_ok fl (queryCommand (dv_cwmpID (hd devices)))"
    "command_ok fl (rebootCommand (dv_cwmpID (hd devices)))"
    using assms by (simp_all add: command_ok_def write_ok_def configureCommand_def queryCommand_def rebootCommand_def command_def no_payload_def)
  then show ?thesis by (simp add: handle_poll_def Let_def)
qed

lemma poll_path: "PathUnescape ''/v1/agent/poll'' = ''/v1/agent/poll''"
  using PathUnescape_plain [of "''/v1/agent/poll''" "[]"] by simp

lemma poll_gets_commands:
  assumes "points_at base c" "url_ok (base @ ''/v1/agent/poll'')" "\<not> cancelled 0"
    and "valid_utf8 (dv_cwmpID (hd devices))" "valid_utf8 now"
  shows "Poll fl (cloud_http fl now base) cancelled url_ok c (devices, st) = ((devices, st), Inr (handle_poll devices st))"
proof -
  have u: "url c ''/v1/agent/poll'' = base @ ''/v1/agent/poll''" using url_points [OF assms(1), of "''agent/poll''"] by simp
  let ?req = "\<lparr>hr_method = ''GET'', hr_url = base @ ''/v1/agent/poll'', hr_key = cl_apiKey c, hr_body = None\<rparr>"
  have http: "cloud_http fl now base (devices, st) ?req =
      ((devices, st), Response 200 (envelope now (poll_data now (handle_poll devices st))))"
    by (simp add: cloud_http_def serve_def poll_path route_def answer_def)
  have "attempts (cloud_http fl now base) cancelled ?req 0 None (devices, st) = ((devices, st), Inr (envelope now (poll_data now (handle_poll devices st))))"
    using assms(3) by (subst attempts.simps) (simp add: http)
  then show ?thesis using assms(2) poll_understood [OF fixtures_ok [OF assms(4)] assms(5)] by (simp add: Poll_def doRaw_def u)
qed

lemma ack_settles:
  assumes "points_at base c" "url_ok (base @ ack_path i)" "\<not> cancelled 0" "finite_result (ack_Result a)"
  obtains st' where "Ack (cloud_http fl now base) cancelled url_ok c i a (devices, st) = ((devices, st'), None)"
    "handle_poll devices st' = filter (\<lambda>c. cmd_ID c \<noteq> i) (handle_poll devices st)"
proof -
  obtain b where b: "Marshal json_AckRequest a = Some b" using ack_printed [OF assms(4)] by blast
  obtain status where r: "route fl (PathUnescape (ack_path i)) b = Some (CommandsReq (PathUnescape (ack_path i)) status)"
    by (simp add: route_def ack_path_seen)
  obtain ok st' where h: "handle_ack devices (PathUnescape (ack_path i)) status st = (ok, st')" by fastforce
  note settled = poll_until_acked [OF h]
  have u: "url c (ack_path i) = base @ ack_path i"
    using url_points [OF assms(1), of "''agent/commands/'' @ PathEscape i @ ''/ack''"] by (simp add: ack_path_def)
  let ?req = "\<lparr>hr_method = ''POST'', hr_url = base @ ack_path i, hr_key = cl_apiKey c, hr_body = Some b\<rparr>"
  have "cloud_http fl now base (devices, st) ?req = ((devices, st'), Response 200 (envelope now (VMap [])))"
    using settled by (simp add: cloud_http_def serve_def r h answer_def)
  then have "attempts (cloud_http fl now base) cancelled ?req 0 None (devices, st) = ((devices, st'), Inr (envelope now (VMap [])))"
    using assms(3) by (subst attempts.simps) simp
  then have "Ack (cloud_http fl now base) cancelled url_ok c i a (devices, st) = ((devices, st'), None)"
    using assms(2) by (simp add: Ack_def b(1) call_def doRaw_def u)
  with settled show thesis using that by blast
qed

text \<open>C11. A command over the wire, there and back: the agent reads from a poll exactly the commands the
  cloud has for it, as the cloud has them, and once it has acknowledged one, with whatever status and
  result, the next poll brings the others and not that one.\<close>

theorem commands_reach_agent:
  assumes "points_at base c" "\<forall>p. url_ok (base @ p)" "\<not> cancelled 0" "\<not> cancelled' 0" "\<not> cancelled'' 0"
    and "valid_utf8 (dv_cwmpID (hd devices))" "valid_utf8 now"
    and "Poll fl (cloud_http fl now base) cancelled url_ok c (devices, st) = (s1, got)"
    and "cmd \<in> set (handle_poll devices st)" "finite_result (ack_Result a)"
    and "Ack (cloud_http fl now base) cancelled' url_ok c (cmd_ID cmd) a s1 = (s2, e)"
    and "Poll fl (cloud_http fl now base) cancelled'' url_ok c s2 = (s3, got')"
  shows "got = Inr (handle_poll devices st) \<and> e = None
     \<and> got' = Inr (filter (\<lambda>k. cmd_ID k \<noteq> cmd_ID cmd) (handle_poll devices st))"
proof -
  note poll = poll_gets_commands [where url_ok = url_ok, OF assms(1) assms(2) [rule_format] _ assms(6,7)]
  have 1: "s1 = (devices, st)" "got = Inr (handle_poll devices st)" using poll [of cancelled fl st] assms(3,8) by simp_all
  obtain st' where 2: "s2 = (devices, st')" "e = None" "handle_poll devices st' = filter (\<lambda>k. cmd_ID k \<noteq> cmd_ID cmd) (handle_poll devices st)"
    using ack_settles [where cancelled = cancelled' and url_ok = url_ok, OF assms(1) assms(2) [rule_format] assms(4,10), of fl now "cmd_ID cmd" devices st] assms(11)
    unfolding 1(1) by (metis prod.inject)
  show ?thesis using 1(2) 2 poll [of cancelled'' fl st'] assms(5,12) by simp
qed

subsection \<open>One tick settles the commands\<close>

text \<open>What a command can make the agent acknowledge can be printed.\<close>

definition finite_command :: "Command \<Rightarrow> bool" where
  "finite_command c \<longleftrightarrow> finite_map (pl_Verify (cmd_Payload c)) \<and> (\<forall>w\<in>set (pl_Writes (cmd_Payload c)). finite_any (wr_Value w))"

lemma finite_ToAnyMap: "finite_map (ToAnyMap m)"
  by (auto simp: ToAnyMap_def)

lemma finite_failed: "finite_result (ack_Result (failed e))"
  by (simp add: failed_def finite_result_def zero_AckResult_def)

lemma finite_verdict:
  assumes "finite_command cmd"
  shows "finite_result (ack_Result (verdict t cmd (ToAnyMap params)))"
proof -
  have f: "finite_map (fold (\<lambda>w. AList.update (wr_Path w) (wr_Value w)) ws m)" if "\<forall>w\<in>set ws. finite_any (wr_Value w)" "finite_map m" for ws m
    using that
  proof (induction ws arbitrary: m)
    case (Cons w ws)
    then show ?case using finite_map_update [of m "wr_Value w" "wr_Path w"] by simp
  qed simp
  have "finite_map (fold (\<lambda>w. AList.update (wr_Path w) (wr_Value w)) (pl_Writes (cmd_Payload cmd)) [])"
    by (rule f) (use assms in \<open>simp_all add: finite_command_def\<close>)
  then have e: "finite_map (expectedValues (cmd_Payload cmd))"
    using assms by (simp add: expectedValues_def finite_command_def)
  have g: "finite_any got" if "map_of (ToAnyMap params) p = Some got" for p got
    using finite_ToAnyMap map_of_SomeD [OF that] by fastforce
  have "\<forall>m\<in>set (verifyExpected (expectedValues (cmd_Payload cmd)) (ToAnyMap params)). finite_map m"
    using e g by (fastforce simp: verifyExpected_def split: option.splits if_splits)
  then show ?thesis using finite_ToAnyMap [of params] by (simp add: verdict_def Let_def finite_result_def)
qed

lemma finite_apply:
  assumes "finite_command cmd" "apply_command we ce cmd srv d = (ack, srv', d')"
  shows "finite_result (ack_Result ack)"
proof -
  have z: "finite_result (zero_AckResult\<lparr>ar_TaskID := i, ar_Detail := s\<rparr>)" "finite_result zero_AckResult"
    "finite_result (zero_AckResult\<lparr>ar_Readback := ToAnyMap m\<rparr>)" for i s m
    using finite_ToAnyMap [of m] by (simp_all add: finite_result_def zero_AckResult_def)
  show ?thesis
    using assms(2) z finite_failed finite_verdict [OF assms(1)]
    by (auto simp: apply_command_def apply_writes_def apply_query_def apply_reboot_def split: if_splits prod.splits option.splits)
qed

lemma attempts_keep:
  assumes "\<And>w. P w \<Longrightarrow> P (fst (http w req))" "P w"
  shows "P (fst (attempts http cancelled req i l w))"
  using assms(2)
proof (induction "3 - i" arbitrary: i l w rule: less_induct)
  case less
  note step = assms(1) [OF less.prems]
  show ?case
  proof (cases "i < 3")
    case True
    then have "P (fst (attempts http cancelled req (Suc i) l' (fst (http w req))))" for l' using less.hyps [of "Suc i"] step by simp
    then show ?thesis using step less.prems
      by (subst attempts.simps) (auto split: prod.split http_result.split)
  qed (use less.prems in \<open>simp add: attempts.simps\<close>)
qed

lemma snapshot_keeps_commands:
  assumes "points_at base c"
  shows "\<exists>st'. fst (SendSnapshot (cloud_http fl now base) cancelled url_ok c i req (devices, st)) = (devices, st')
     \<and> handle_poll devices st' = handle_poll devices st"
proof -
  let ?P = "\<lambda>s. \<exists>st'. s = (devices, st') \<and> handle_poll devices st' = handle_poll devices st"
  have u: "url c (snapshot_path i) = base @ snapshot_path i"
    using url_points [OF assms, of "''agent/devices/'' @ PathEscape i @ ''/config-snapshot''"] by (simp add: snapshot_path_def)
  have step: "?P (fst (cloud_http fl now base w \<lparr>hr_method = m, hr_url = base @ snapshot_path i, hr_key = k, hr_body = Some b\<rparr>))"
    if p: "?P w" for w m k b
  proof -
    obtain s where w: "w = (devices, s)" "handle_poll devices s = handle_poll devices st" using p by blast
    obtain ps where r: "route fl (PathUnescape (snapshot_path i)) b = Some (DevicesReq (PathUnescape (snapshot_path i)) ps)"
      by (simp add: route_def snapshot_path_seen)
    have "handle_poll devices (snd (handle_devices devices p ps s)) = handle_poll devices s" for p
      by (simp add: handle_poll_def handle_devices_def count_snapshot_def Let_def)
    then show ?thesis using w by (simp add: cloud_http_def serve_def r split: prod.split) (metis snd_conv)
  qed
  have a: "?P (fst (attempts (cloud_http fl now base) cancelled \<lparr>hr_method = m, hr_url = base @ snapshot_path i, hr_key = k, hr_body = Some b\<rparr> 0 None (devices, st)))" for m k b
    by (rule attempts_keep [where P = ?P], erule step, simp)
  have "fst (call http cancelled url_ok c p b w) = fst (doRaw http cancelled url_ok c ''POST'' p (Some b) w)" for http p b and w :: "device list \<times> state"
    by (simp add: call_def split: prod.split sum.split)
  then show ?thesis using a by (cases "Marshal json_SnapshotRequest req") (simp_all add: SendSnapshot_def doRaw_def u)
qed

lemma finite_result_of: "finite_literals fl \<Longrightarrow> finite_result (result_of fl b)"
  using result_read [of fl zero_AckResult] by (auto simp: result_of_def Unmarshal_def finite_result_def zero_AckResult_def split: option.split)

text \<open>The agent's client at the address of the cloud, with nobody cancelling a first attempt.\<close>

definition wired :: "string \<Rightarrow> string \<Rightarrow> (device list \<times> state) worker_env \<Rightarrow> bool" where
  "wired now base we \<longleftrightarrow> we_http we = cloud_http (we_fl we) now base \<and> finite_literals (we_fl we) \<and> points_at base (we_client we)
     \<and> (\<forall>p. we_url_ok we (base @ p)) \<and> (\<forall>w. \<not> we_cancelled we w 0)"

lemma one_settled:
  assumes "wired now base we" "finite_command cmd"
  shows "\<exists>srv' d' st'. handle_one we ce cmd (srv, d, (devices, st)) = (srv', d', (devices, st'))
     \<and> handle_poll devices st' = filter (\<lambda>c. cmd_ID c \<noteq> cmd_ID cmd) (handle_poll devices st)"
proof -
  let ?rest = "filter (\<lambda>c. cmd_ID c \<noteq> cmd_ID cmd) (handle_poll devices st)"
  note w = assms(1) [unfolded wired_def]
  have ack: "\<exists>st'. send_ack we (cmd_ID cmd) a (devices, st) = (devices, st') \<and> handle_poll devices st' = ?rest"
    if "finite_result (ack_Result a)" for a
    using ack_settles [of base "we_client we" "we_url_ok we" "cmd_ID cmd" "we_cancelled we (devices, st)" a "we_fl we" now devices st] w that
    by (metis fst_conv)
  show ?thesis
  proof (cases "\<exists>status result. AlreadyApplied (ce_lookup ce) (cmd_ID cmd) d = Inr (Some (status, result))")
    case True
    then obtain status result where "AlreadyApplied (ce_lookup ce) (cmd_ID cmd) d = Inr (Some (status, result))" by blast
    then show ?thesis using ack [of "\<lparr>ack_Status = status, ack_Result = result_of (we_fl we) result\<rparr>"] finite_result_of w
      by (simp add: handle_one_def)
  next
    case False
    obtain a srv1 d1 where ap: "apply_command we ce cmd srv d = (a, srv1, d1)" by (metis prod_cases3)
    obtain s1 where s1: "send_ack we (cmd_ID cmd) a (devices, st) = (devices, s1)" "handle_poll devices s1 = ?rest"
      using ack [OF finite_apply [OF assms(2) ap]] by blast
    have "\<exists>s2. postCommandSnapshot we dev rb (devices, s1) = (devices, s2) \<and> handle_poll devices s2 = ?rest" for dev rb
      using snapshot_keeps_commands [of base "we_client we" "we_fl we" now "we_cancelled we (devices, s1)" "we_url_ok we" dev _ devices s1] w s1(2)
      by (simp add: postCommandSnapshot_def)
    moreover have "handle_one we ce cmd (srv, d, (devices, st)) =
        (srv1, snd (MarkApplied (ce_mark ce) (cmd_ID cmd) (ack_Status a) (stored_result (ack_Result a)) (ce_now ce) d1),
         if ack_Status a = ''applied'' \<and> pl_Writes (cmd_Payload cmd) \<noteq> []
         then postCommandSnapshot we (cmd_CWMPID cmd) (ar_Readback (ack_Result a)) (devices, s1) else (devices, s1))"
      using False by (auto simp: handle_one_def ap s1(1) Let_def split: sum.split option.split prod.split)
    ultimately show ?thesis using s1(2) by (cases "ack_Status a = ''applied'' \<and> pl_Writes (cmd_Payload cmd) \<noteq> []") auto
  qed
qed

lemma all_settled:
  assumes "wired now base we" "\<forall>c\<in>set cmds. finite_command c"
  shows "\<exists>srv' d' st'. handle_loop we ces i cmds (srv, d, (devices, st)) = (srv', d', (devices, st'))
     \<and> handle_poll devices st' = filter (\<lambda>c. cmd_ID c \<notin> cmd_ID ` set cmds) (handle_poll devices st)"
  using assms(2)
proof (induction cmds arbitrary: i srv d st)
  case (Cons cmd cmds)
  obtain srv1 d1 s1 where 1: "handle_one we (ces i) cmd (srv, d, (devices, st)) = (srv1, d1, (devices, s1))"
    "handle_poll devices s1 = filter (\<lambda>c. cmd_ID c \<noteq> cmd_ID cmd) (handle_poll devices st)"
    using one_settled [OF assms(1), of cmd "ces i" srv d devices st] Cons.prems by auto
  show ?case using Cons.IH [of "Suc i" srv1 d1 s1] Cons.prems by (simp add: 1)
qed simp

lemma fixtures_finite: "\<forall>c\<in>set (handle_poll devices st). finite_command c"
proof -
  have "finite_command (configureCommand i)" "finite_command (queryCommand i)" "finite_command (rebootCommand i)" for i
    by (simp_all add: finite_command_def configureCommand_def queryCommand_def rebootCommand_def command_def no_payload_def)
  then show ?thesis by (auto simp: handle_poll_def Let_def)
qed

text \<open>C10. One tick of the command loop settles every command of the cloud: whatever the devices answer or fail
  to answer, whatever statement of the database fails, and whether a command is new or was carried
  out before, the cloud has an acknowledgement for each command it handed out when the tick is over,
  and hands out none of them again.\<close>

theorem tick_settles_commands:
  assumes "wired now base we" "valid_utf8 (dv_cwmpID (hd devices))" "valid_utf8 now"
    and "handleCommands we ces (srv, d, (devices, st)) = (srv', d', (devices', st'))"
  shows "devices' = devices \<and> handle_poll devices st' = []"
proof -
  note w = assms(1) [unfolded wired_def]
  let ?cmds = "handle_poll devices st"
  have "Poll (we_fl we) (we_http we) (we_cancelled we (devices, st)) (we_url_ok we) (we_client we) (devices, st) = ((devices, st), Inr ?cmds)"
    using poll_gets_commands [of base "we_client we" "we_url_ok we" "we_cancelled we (devices, st)" devices now "we_fl we" st] w assms(2,3) by simp
  then have "handle_loop we ces 0 ?cmds (srv, d, (devices, st)) = (srv', d', (devices', st'))"
    using assms(4) by (simp add: handleCommands_def)
  then show ?thesis using all_settled [OF assms(1) fixtures_finite, of ces 0 devices st srv d devices st] by auto
qed

subsection \<open>A batch that cannot be encoded\<close>

lemma those_None: "x \<in> set xs \<Longrightarrow> f x = None \<Longrightarrow> those (map f xs) = None"
  by (induction xs) (auto split: option.split)

lemma obj_None: "(k, None) \<in> set fs \<Longrightarrow> obj fs = None"
  using those_None [of "(k, None)" fs "\<lambda>(k, v). map_option (Pair k) v"] by (simp add: obj_def)

lemma map_unprintable: "(k, v) \<in> set m \<Longrightarrow> json_of_any v = None \<Longrightarrow> json_map m = None"
  using those_None [of "(k, None)" "sort_key fst (map (map_prod id json_of_any) m)" "\<lambda>(k, v). map_option (Pair k) v"]
  by (force simp: json_map_def)

text \<open>C26. As the code has it, one metric that is no finite number (a device can make a counter read
  \<^verbatim>\<open>NaN\<close>) takes the whole batch with it: the error of the encoder is dropped, and all that is left
  for the outbox of every event, metric and alarm is a single part with no bytes that claims to
  cover all the events. Whether the database accepts such a body is up to its driver
  (\<^verbatim>\<open>InsertRow\<close> of the enqueue); nothing of the batch is delivered by it.\<close>

theorem unprintable_metric_empties_batch:
  assumes "m \<in> set (tq_Metrics req)" "(k, VFloat s) \<in> set (ms_Metrics m)" "infinite s"
  shows "splitTelemetry marshalTelemetry req cap = [\<lparr>tp_body = [], tp_start = 0, tp_end = length (tq_Events req)\<rparr>]"
proof -
  have "json_map (ms_Metrics m) = None" using map_unprintable [OF assms(2)] assms(3) by simp
  then have "json_MetricSample m = None" unfolding json_MetricSample_def by (intro obj_None [of "''metrics''"]) simp
  then have "arr (map json_MetricSample (tq_Metrics req)) = None" using those_None [OF assms(1), of json_MetricSample] by (simp add: arr_def)
  then have "json_TelemetryRequest req = None"
    unfolding json_TelemetryRequest_def using assms(1) by (intro obj_None [of "''metrics''"]) (auto simp: set_omitempty)
  then have e: "marshalTelemetry req = []" by (simp add: marshalTelemetry_def Marshal_def)
  then have "whole marshalTelemetry cap req" by (auto simp: whole_def)
  with e show ?thesis by (simp only: splitTelemetry_def split_whole) simp
qed

subsection \<open>Fault injection\<close>

text \<open>The body of a fault injection is a map of texts.\<close>

definition d_texts :: "(string, string) tbl dec" where
  "d_texts v m = (case v of
     JObj ms \<Rightarrow> (fold (\<lambda>(k, w). AList.update k (fst (d_string w ''''))) ms m, list_all (\<lambda>(k, w). snd (d_string w '''')) ms)
   | JNull \<Rightarrow> ([], True)
   | _ \<Rightarrow> (m, False))"

definition params_request_of :: "string \<Rightarrow> bytes \<Rightarrow> string list \<Rightarrow> params_request" where
  "params_request_of meth body paths =
     (if meth = ''POST'' then
        PostParams (case json_decode body of None \<Rightarrow> None
          | Some v \<Rightarrow> (case d_texts v [] of (kv, ok) \<Rightarrow> if ok then Some kv else None))
      else if meth = ''GET'' then GetParamsQuery paths
      else OtherMethod)"

lemma injection_understood:
  assumes "keyed kv" "\<forall>(p, v)\<in>set kv. valid_utf8 p \<and> valid_utf8 v"
  shows "params_request_of ''POST'' (json_print (JObj (map (\<lambda>(p, v). (p, JStr v)) kv))) paths = PostParams (Some kv)"
proof -
  let ?ms = "map (\<lambda>(p, v). (p, JStr v)) kv"
  have "json_ok (JObj ?ms) maxNestingDepth" unfolding json_ok_composite using assms(2) by (auto simp: maxNestingDepth_def)
  then have "json_decode (json_print (JObj ?ms)) = Some (JObj ?ms)" by (rule json_round_trip)
  moreover have "fold (\<lambda>(k, w). AList.update k (fst (d_string w ''''))) (map (\<lambda>(p, v). (p, JStr v)) ps) t = t @ ps"
    if "keyed (t @ ps)" for ps t
    using that
  proof (induction ps arbitrary: t)
    case (Cons r ps)
    obtain p v where r: "r = (p, v)" by force
    have "AList.update p v t = t @ [(p, v)]" using Cons.prems by (induction t) (auto simp: r)
    then show ?case using Cons.IH [of "t @ [(p, v)]"] Cons.prems by (simp add: r d_string_def)
  qed simp
  from this [of "[]" kv] have "d_texts (JObj ?ms) [] = (kv, True)"
    using assms(1) by (auto simp: d_texts_def list_all_iff d_string_def)
  ultimately show ?thesis by (simp add: params_request_of_def)
qed

text \<open>A value that is no text fails the whole request, and nothing is written.\<close>

lemma number_refused:
  assumes "json_decode body = Some (JObj ms)" "(p, JNum l) \<in> set ms"
  shows "deviceParamsHandler (params_request_of ''POST'' body paths) d = (BadBody, d)"
proof -
  have "\<not> snd (d_texts (JObj ms) [])" using assms(2) by (force simp: d_texts_def list_all_iff d_string_def)
  then show ?thesis using assms(1) by (cases "d_texts (JObj ms) []") (simp add: params_request_of_def deviceParamsHandler_def)
qed

subsection \<open>Witnesses\<close>

definition two_events :: TelemetryRequest where
  "two_events = \<lparr>tq_Metrics = [], tq_Events = map (\<lambda>k. \<lparr>ev_CWMPID = ''O-P-S'', ev_Timestamp = ''t'', ev_Module = ''m'',
     ev_EventType = ''device_reboot'', ev_Severity = ''info'', ev_Message = '''', ev_Attrs = [(''raw'', VString [CHR 0xFF])], ev_DedupKey = k\<rparr>) [''k1'', ''k2''], tq_Alarms = []\<rparr>"

definition queued_batch :: Buffer where
  "queued_batch = \<lparr>buf_db = init_db\<lparr>outbox := [\<lparr>ob_id = 1, ob_kind = ''telemetry'', ob_body = marshalTelemetry two_events, ob_created_at = 0\<rparr>],
     outbox_seq := 1\<rparr>, buf_path = '':memory:'', maxBytes = 0\<rparr>"

lemma two_events_ok:
  "telemetry_ok Some 1 (clean_batch two_events)"
  "\<forall>e\<in>set (tq_Events two_events). keys_valid (VMap (ev_Attrs e)) \<and> valid_utf8 (ev_DedupKey e) \<and> ev_DedupKey e \<noteq> ''''"
proof -
  have "list_all valid_utf8 [''O-P-S'', ''t'', ''m'', ''device_reboot'', ''info'', [], ''k1'', ''k2'', ''raw'']" by simp
  then show "telemetry_ok Some 1 (clean_batch two_events)"
    "\<forall>e\<in>set (tq_Events two_events). keys_valid (VMap (ev_Attrs e)) \<and> valid_utf8 (ev_DedupKey e) \<and> ev_DedupKey e \<noteq> ''''"
    by (simp_all add: telemetry_ok_def clean_batch_def clean_event_def two_events_def event_ok_def map_ok_def maxNestingDepth_def)
qed

theorem telemetry_reaches_cloud_witness:
  "\<exists>st' b'. flushOutbox no_faults (\<lambda>w body. SendTelemetryRaw (cloud_http Some ''now'' ''http://cloud:9000'') (\<lambda>_. False) (\<lambda>_. True)
        (newClient ''http://cloud:9000/v1'' ''key'') body w) ([], demo_state\<lparr>mc_failures := 0\<rparr>) queued_batch = (([], st'), b')
     \<and> outbox (buf_db b') = [] \<and> mc_events st' = 1 \<and> set (mc_seenDedup st') = {''k1'', ''k2''}"
proof -
  let ?c = "newClient ''http://cloud:9000/v1'' ''key''" and ?b = "''http://cloud:9000''" and ?st = "demo_state\<lparr>mc_failures := 0\<rparr>"
  obtain dv st' b' where f: "flushOutbox no_faults (\<lambda>w body. SendTelemetryRaw (cloud_http Some ''now'' ?b) ((\<lambda>_ _. False) w) (\<lambda>_. True) ?c body w)
      ([], ?st) queued_batch = ((dv, st'), b')" by (metis surj_pair)
  have p: "points_at ?b ?c" by (simp add: points_at_def newClient_def TrimRight_def)
  have q: "map ob_body (outbox (buf_db queued_batch)) = map tp_body (splitTelemetry marshalTelemetry two_events 0)"
    by (simp add: queued_batch_def splitTelemetry_def split_whole whole_def)
  have b: "\<forall>r\<in>set (outbox (buf_db queued_batch)). ob_kind r = ''telemetry''" "db_ok (buf_db queued_batch)" "length (outbox (buf_db queued_batch)) \<le> 100"
    by (simp_all add: queued_batch_def db_ok_def init_db_def ids_ok_def)
  have s: "mc_seenDedup ?st = [''k1'']" "mc_events ?st = 0" by (simp_all add: demo_state_def stateForSpecs_def Let_def)
  have e: "ev_DedupKey ` set (tq_Events two_events) = {''k1'', ''k2''}" by (simp add: two_events_def)
  have c: "card ({''k1'', ''k2''} - {''k1''}) = 1" by (simp add: insert_Diff_if)
  have never: "\<forall>(w :: device list \<times> state) (i :: nat). \<not> False" by simp
  from telemetry_reaches_cloud [OF two_events_ok q b p _ never f] f show ?thesis
    unfolding s e by (simp add: c) auto
qed

theorem unprintable_metric_empties_batch_witness:
  "splitTelemetry marshalTelemetry (two_events\<lparr>tq_Metrics := [\<lparr>ms_CWMPID = ''O-P-S'', ms_Timestamp = ''t'', ms_Tier = 3,
        ms_Metrics = [(''rrc_success_pct'', VFloat ''NaN'')]\<rparr>]\<rparr>) 0 = [\<lparr>tp_body = [], tp_start = 0, tp_end = 2\<rparr>]"
  using unprintable_metric_empties_batch [of "\<lparr>ms_CWMPID = ''O-P-S'', ms_Timestamp = ''t'', ms_Tier = 3, ms_Metrics = [(''rrc_success_pct'', VFloat ''NaN'')]\<rparr>"
      "two_events\<lparr>tq_Metrics := [\<lparr>ms_CWMPID = ''O-P-S'', ms_Timestamp = ''t'', ms_Tier = 3, ms_Metrics = [(''rrc_success_pct'', VFloat ''NaN'')]\<rparr>]\<rparr>"
      "''rrc_success_pct''" "''NaN''" 0]
  by (simp add: two_events_def infinite_def)

theorem commands_reach_agent_witness:
  "\<exists>s s' b. snd (Poll Some (cloud_http Some ''now'' ''http://cloud:9000'') (\<lambda>_. False) (\<lambda>_. True) (newClient ''http://cloud:9000/v1'' ''key'')
         ([demo_dev ''S''], demo_state)) = Inr [configureCommand b, queryCommand b, rebootCommand b]
     \<and> Poll Some (cloud_http Some ''now'' ''http://cloud:9000'') (\<lambda>_. False) (\<lambda>_. True) (newClient ''http://cloud:9000/v1'' ''key'') s
         = (s', Inr [configureCommand b, rebootCommand b])"
proof -
  let ?c = "newClient ''http://cloud:9000/v1'' ''key''" and ?b = "''http://cloud:9000''" and ?dv = "[demo_dev ''S'']"
  let ?w = "dv_cwmpID (demo_dev ''S'')" and ?a = "\<lparr>ack_Status = ''applied'', ack_Result = zero_AckResult\<rparr>"
  have p: "points_at ?b ?c" by (simp add: points_at_def newClient_def TrimRight_def)
  have h: "handle_poll ?dv demo_state = [configureCommand ?w, queryCommand ?w, rebootCommand ?w]"
    by (simp add: handle_poll_def demo_state_def stateForSpecs_def Let_def)
  have v: "valid_utf8 (dv_cwmpID (hd ?dv))" "valid_utf8 ''now''" by (simp_all add: demo_dev_def)
  have q: "queryCommand ?w \<in> set (handle_poll ?dv demo_state)" by (simp add: h)
  have a: "finite_result (ack_Result ?a)" by (simp add: finite_result_def zero_AckResult_def)
  obtain s1 got where 1: "Poll Some (cloud_http Some ''now'' ?b) (\<lambda>_. False) (\<lambda>_. True) ?c (?dv, demo_state) = (s1, got)" by (metis surj_pair)
  obtain s2 e where 2: "Ack (cloud_http Some ''now'' ?b) (\<lambda>_. False) (\<lambda>_. True) ?c (cmd_ID (queryCommand ?w)) ?a s1 = (s2, e)" by (metis surj_pair)
  obtain s3 got' where 3: "Poll Some (cloud_http Some ''now'' ?b) (\<lambda>_. False) (\<lambda>_. True) ?c s2 = (s3, got')" by (metis surj_pair)
  have f: "filter (\<lambda>k. cmd_ID k \<noteq> cmd_ID (queryCommand ?w)) (handle_poll ?dv demo_state) = [configureCommand ?w, rebootCommand ?w]"
    by (simp add: h command_ids configureCommandID_def queryCommandID_def rebootCommandID_def)
  from commands_reach_agent [OF p _ _ _ _ v 1 q a 2 3] have "got = Inr (handle_poll ?dv demo_state)" "got' = Inr [configureCommand ?w, rebootCommand ?w]"
    unfolding f by simp_all
  with 1 3 show ?thesis unfolding h by (metis snd_conv)
qed

definition wired_env :: "(device list \<times> state) worker_env" where
  "wired_env = (let fl = (\<lambda>l. if infinite l then None else Some l) in
     \<lparr>we_manifest = None, we_verifyTimeout = ''15s'', we_http = cloud_http fl ''now'' ''http://cloud:9000'', we_cancelled = (\<lambda>_ _. False),
      we_url_ok = (\<lambda>_. True), we_client = newClient ''http://cloud:9000/v1'' ''key'', we_register = \<lparr>rr_AgentVersion = '''', rr_Meta = []\<rparr>, we_fl = fl\<rparr>)"

theorem tick_settles_commands_witness:
  "length (handle_poll [demo_dev ''S''] demo_state) = 3
     \<and> (\<exists>srv' d' st'. handleCommands wired_env (\<lambda>_. demo_ce done_result read_result) (fresh_server, init_db, ([demo_dev ''S''], demo_state))
           = (srv', d', ([demo_dev ''S''], st')) \<and> handle_poll [demo_dev ''S''] st' = [])"
proof -
  have "wired ''now'' ''http://cloud:9000'' wired_env"
    by (auto simp: wired_def wired_env_def Let_def finite_literals_def points_at_def newClient_def TrimRight_def)
  moreover have "valid_utf8 (dv_cwmpID (hd [demo_dev ''S'']))" "valid_utf8 ''now''" by (simp_all add: demo_dev_def)
  moreover have "length (handle_poll [demo_dev ''S''] demo_state) = 3" by (simp add: handle_poll_def demo_state_def stateForSpecs_def Let_def)
  moreover obtain srv' d' dv st' where h: "handleCommands wired_env (\<lambda>_. demo_ce done_result read_result)
      (fresh_server, init_db, ([demo_dev ''S''], demo_state)) = (srv', d', (dv, st'))" by (metis prod_cases3)
  ultimately show ?thesis using tick_settles_commands [OF _ _ _ h, of "''now''" "''http://cloud:9000''"] by auto
qed

end
