(* ===== verification/Spec2Isabelle.thy ===== *)
theory Spec2Isabelle
  imports Boot Onboarding DecodeTypes Intake FileLayout CloudWire
begin

text \<open>
  Verification of the CloudlyNet edge agent (\<^verbatim>\<open>src/goagent\<close>) and of the emulator it is tested
  against (\<^verbatim>\<open>src/testsuite\<close>).

  \<^bold>\<open>The program.\<close> The agent sits beside small cells. Southbound it is their TR-069/CWMP
  configuration server: a device opens a session over HTTP, the agent answers its messages and
  hands out the tasks (reads, writes, name walks, reboots) that are queued for it. It also
  watches a directory into which the devices upload compressed logs, and classifies their lines
  into events. Northbound it polls a cloud for commands, applies them, verifies them by reading
  back, and reports telemetry, inventory and configuration snapshots. Everything that has to
  outlive a restart is in one SQLite file: the outbox of telemetry bodies, the outcomes of
  commands, the parameter cache, the event queue and the ledger of ingested uploads. The
  emulator plays one device or a fleet of them (CWMP sessions, log uploads) and a mock cloud
  with a health gate.

  \<^bold>\<open>How the parts interact.\<close> The main loop of the worker owns the agent: each tick polls, drains,
  pushes or snapshots. A command of the cloud becomes a task of the session of its device; the
  worker waits on a channel for the result that the HTTP handler delivers. The collector's scan
  fills a list of events with the marks of their uploads; a telemetry push takes them, splits the
  batch into bodies, and stores each body together with the marks of the uploads it completes in
  one transaction; a flush sends the bodies in order.

  \<^bold>\<open>Theories and sources.\<close>
  \<^item> \<open>Prelude\<close>, \<open>GoStrings\<close>, \<open>Base64\<close>, \<open>Utf8\<close>, \<open>Numbers\<close>, \<open>XmlDecode\<close>, \<open>Json\<close>: named collections, tables with
    a primary key, the bounded channel; what is used of Go's \<^verbatim>\<open>strings\<close>, \<^verbatim>\<open>path\<close>, \<^verbatim>\<open>strconv\<close>,
    \<^verbatim>\<open>encoding/base64\<close>, \<^verbatim>\<open>unicode/utf8\<close>, the lenient decoder of \<^verbatim>\<open>encoding/xml\<close>, the printer and the
    reader of \<^verbatim>\<open>encoding/json\<close>.
  \<^item> \<open>DeviceId\<close> (\<^verbatim>\<open>internal/cwmp/deviceid.go\<close>): the canonical id and its injectivity.
  \<^item> \<open>CwmpTypes\<close> (\<^verbatim>\<open>internal/cwmp/rpc.go\<close>, \<^verbatim>\<open>store.go\<close>), \<open>CloudTypes\<close>, \<open>JsonTypes\<close> (\<^verbatim>\<open>internal/cloud/client.go\<close>): messages, tasks,
    northbound data, what is printed for a struct and how one is filled.
  \<^item> \<open>Manifests\<close> (\<^verbatim>\<open>internal/cwmp/manifest.go\<close> and \<^verbatim>\<open>src/testsuite/manifest.go\<close>): the catalogue of parameters in
    both programs, from the bytes of the asset.
  \<^item> \<open>BufferDb\<close>, \<open>FileLayout\<close>, \<open>Ledger\<close>, \<open>Outbox\<close>, \<open>CwmpStore\<close> (\<^verbatim>\<open>internal/buffer/sqlite.go\<close>, \<^verbatim>\<open>ftp_ledger.go\<close>,
    \<^verbatim>\<open>cwmp_store.go\<close>): the file as a record of tables, every statement of which can fail; its pages and
    their reclamation; chunked writes of the ledger (locale \<open>chunked_write\<close>), the outbox as a refinement of a bounded queue
    that drops its oldest bodies, the device store (locale \<open>cwmp_store\<close>).
  \<^item> \<open>Session\<close>, \<open>Soap\<close>, \<open>SoapDecode\<close>, \<open>DecodeTypes\<close>, \<open>Server\<close>, \<open>Await\<close>, \<open>ConnRequest\<close> (\<^verbatim>\<open>internal/cwmp/session.go\<close>, \<^verbatim>\<open>soap.go\<close>,
    \<^verbatim>\<open>server.go\<close>, \<^verbatim>\<open>connrequest.go\<close>): the handlers and the task queue, the encoder and the decoder, the
    routing of requests to sessions, the waiting side and the digest challenge. \<open>session_step\<close> and
    \<open>srv_step\<close> are step relations over all interleavings; the invariants are by rule induction.
  \<^item> \<open>Rules\<close>, \<open>Collector\<close>, \<open>Intake\<close>, \<open>Metrics\<close> (\<^verbatim>\<open>internal/rules/engine.go\<close>, \<^verbatim>\<open>internal/collector\<close>): the classifier,
    the scan with its bookkeeping, the watch loop and the parked readers, metrics, alarms and inventory.
  \<^item> \<open>CloudClient\<close>, \<open>Worker\<close>, \<open>Delivery\<close>, \<open>Commands\<close>, \<open>Agent\<close> (\<^verbatim>\<open>internal/cloud/client.go\<close>,
    \<^verbatim>\<open>internal/worker/worker.go\<close>): calls with retries, the split of a batch, the account of marks, commands
    with read-back, and \<open>Run\<close>.
  \<^item> \<open>Config\<close>, \<open>Boot\<close> (\<^verbatim>\<open>internal/config/config.go\<close>, \<^verbatim>\<open>cmd/agent/main.go\<close>): the configuration and the
    wiring of the agent.
  \<^item> \<open>Fleet\<close>, \<open>Device\<close>, \<open>LogGen\<close>, \<open>Uploads\<close>, \<open>MockCloud\<close>, \<open>Emulator\<close> (\<^verbatim>\<open>config.go\<close>,
    \<^verbatim>\<open>device.go\<close> and \<^verbatim>\<open>soap.go\<close>, \<^verbatim>\<open>loggen/loggen.go\<close>, \<^verbatim>\<open>ftp.go\<close>, \<^verbatim>\<open>cloud.go\<close>, \<^verbatim>\<open>main.go\<close> of
    \<^verbatim>\<open>src/testsuite\<close>): the emulator. The device's store and the agent's cache are two interpretations
    of the locale \<open>param_store\<close>.
  \<^item> \<open>Wire\<close>, \<open>ClosedLoop\<close>, \<open>Onboarding\<close>, \<open>CloudWire\<close>: the two programs composed, with the encoders and decoders of
    both in between: single messages, the device's task loop run against the agent's request
    handler, the first contact of a fleet, and the agent's client against the mock cloud.

  State is passed explicitly: a handler takes the records it changes and returns them. A Go map is
  an association list with distinct keys, a channel a bounded list, a pointer to a session the key
  of the session, an error a value of a sum or option type. Bodies and file contents are lists of
  bytes. Counters are unbounded; the file sizes, ports and cycle numbers they hold are far from
  the bounds of \<^verbatim>\<open>int64\<close>.

  \<^bold>\<open>What the theorems show.\<close>
  \<^item> Storage: an enqueue is atomic with its marks; the cap of the outbox is an invariant of
    enqueue, drain and applied-mark; bodies leave in order and only when the sender accepted them,
    and an accepted body whose delete fails is sent again; a ledger write is a whole number of
    chunks; the event queue hands over exactly what it marks.
  \<^item> Sessions and server: in every interleaving a named task reaches only the device it was queued
    for, an answer only the waiter of its command; an interrupted command is handed out again, a
    reboot is not; an answer to a read brings the cache up to date.
  \<^item> The wire: a task of the agent is decoded by the device to the request it is, an answer of the
    device by the agent to the values it carries, for every legal text; what the agent decodes is
    well-formed text whatever is posted; a fleet that shares an address is onboarded under its own
    ids, with its own values, in any order of announcements, as long as its serials do not spell a
    hyphen \<^verbatim>\<open>%2D\<close> and its values carry no markup; a write lands in the device's store, but of
    several queued writes only every second one, since the device drops the others.
  \<^item> Ingest: an upload is filed under the device its name identifies, is ingested after a bounded
    number of polls once the device is known, and after a restart only when the ledger has no
    record of it or it was rewritten since; classifying the same line twice yields the same key.
  \<^item> Cloud: a batch is split without loss, its marks are persisted with it or handed back; a
    command is applied once, as long as the lookup of its recorded outcome answers (if that fails
    it is carried out again), and is called applied only after a matching read-back; only transient
    failures are retried, three requests in all. What is printed as JSON is read back as it was, on
    both sides: a flush leaves every distinct event counted once in the cloud, a poll brings the
    commands the cloud has, and one tick acknowledges them all, whatever fails in between. A metric
    that is no finite number empties its batch.
  \<^item> Whole agent: from start-up on, through any sequence of ticks and any lawful behaviour of the
    other goroutines, the file stays well-formed, an outbox within the cap stays within it, commands
    stay recorded, and their outcomes are kept while lookups answer.
  \<^item> Emulator: fleets are kept apart, sessions end, sweeps delete a device's own
    expired files only, every scenario produces the event its gate waits for, and the gate turns
    red on misattribution; agent and emulator have one catalogue of parameter types.

  \<^bold>\<open>Bounds, schedules and failures.\<close> Loops of the code are total functions: structural on the data
  they walk, or with a measure (the index of a chunked write, the batch that is halved, the attempts
  of a request, the 64 tasks of a session). Waiting and concurrency are arguments: a schedule lists
  what the other goroutines do before each turn of a \<^verbatim>\<open>select\<close>, and running out of turns is the
  deadline; the ticks of \<open>Run\<close> are a list. A scan of the upload directory is one step of it: the
  code gives up the collector's lock between two uploads, so a push can take the events of the
  first half of a scan there, which here it takes before or after. Theorems quantify over all of these and over the failures
  of every statement, so there is no fuel to choose.

  \<^bold>\<open>Arguments instead of code.\<close> Not part of the repository, hence arguments of the definitions: the
  YAML decoder, the letters and digits of Unicode beyond ASCII, the
  pragmas of SQLite, regular expressions (the fixed patterns are
  written as matchers), gzip and tar, hashes, floating-point arithmetic, the float a literal denotes (a float
  is named by its shortest decimal text), the HTTP transport (in \<open>CloudWire\<close> it is the mock cloud), \<^verbatim>\<open>curl\<close>, the
  clock and its formats, directory listings, the environment. Hypotheses about them are named in
  the theorems, each with a witness.

  \<^bold>\<open>Not modelled.\<close> The arguments above; listeners, sockets, signal handling,
  tickers and log output. Case mapping and white space are those of ASCII.
\<close>

end
